(* ===== verification/Go_Prelude.thy ===== *)
theory Go_Prelude
  imports Main "HOL-Library.Word" "HOL-Library.Monad_Syntax"
begin

text \<open>
  The part of Go that the broker's sources use, and the lemmas on it that the components
  share.

  \<^item> A Go \<open>byte\<close> is an 8-bit word, \<open>uint16\<close>, \<open>uint32\<close> and \<open>uint64\<close> are words of their width
    (\<open>int32\<close> is a 32-bit word read with \<open>sint\<close>), a Go \<open>string\<close> and a \<open>[]byte\<close> are byte lists. The Go \<open>int\<close> of an offset or a length is a
    \<open>nat\<close>, and an \<open>int\<close> where the code lets it become negative.
  \<^item> A computation that may panic has a result in \<open>option\<close>: \<open>None\<close> is the run-time panic
    (index or slice out of range, write to a nil map). A returned Go \<open>error\<close> is an ordinary
    value, \<open>None\<close> for nil.
  \<^item> A function that fills a slice \<open>to\<close> and returns \<open>(n, err)\<close> is a \<open>writer\<close>: it maps the
    contents of the slice to its new contents, the count and the error. \<open>w_then\<close> is the idiom
    \<open>n, err = f(to[offset:]); offset += n; if err != nil { return offset, err }\<close>.
\<close>

unbundle bit_operations_syntax

section \<open>Collections of rewrite rules\<close>

named_theorems go_defs \<open>definitions of the Go primitives, unfolded to evaluate them\<close>
named_theorems emits_intros \<open>introduction rules for the output of writers\<close>

section \<open>Machine types and slices\<close>

type_synonym byte = "8 word"
type_synonym uint16 = "16 word"
type_synonym uint32 = "32 word"
type_synonym int32 = "32 word"
type_synonym uint64 = "64 word"
type_synonym gostring = "byte list"

definition go_slice_from :: "'a list \<Rightarrow> nat \<Rightarrow> 'a list option" where
  [go_defs]: "go_slice_from xs i = (if i \<le> length xs then Some (drop i xs) else None)"

definition go_slice :: "'a list \<Rightarrow> int \<Rightarrow> int \<Rightarrow> 'a list option" where
  [go_defs]: "go_slice xs i j =
     (if 0 \<le> i \<and> i \<le> j \<and> j \<le> int (length xs)
      then Some (take (nat (j - i)) (drop (nat i) xs)) else None)"

definition go_index :: "'a list \<Rightarrow> nat \<Rightarrow> 'a option" where
  [go_defs]: "go_index xs i = (if i < length xs then Some (xs ! i) else None)"

text \<open>\<open>copy(dst, src)\<close>: the new contents of \<open>dst\<close> and the number of elements copied.\<close>

definition go_copy :: "'a list \<Rightarrow> 'a list \<Rightarrow> 'a list \<times> nat" where
  [go_defs]: "go_copy dst src =
     (let n = min (length dst) (length src) in (take n src @ drop n dst, n))"

text \<open>\<open>strings.Contains(s, c)\<close> for a one-byte \<open>c\<close>, and \<open>strings.HasPrefix\<close>.\<close>

definition go_contains :: "gostring \<Rightarrow> byte \<Rightarrow> bool" where
  [go_defs]: "go_contains s c = (c \<in> set s)"

definition go_hasPrefix :: "gostring \<Rightarrow> gostring \<Rightarrow> bool" where
  [go_defs]: "go_hasPrefix s p = (take (length p) s = p)"

text \<open>\<open>strings.Split(s, sep)\<close> for a one-byte \<open>sep\<close>: never empty.\<close>

fun go_split :: "byte \<Rightarrow> gostring \<Rightarrow> gostring list" where
  "go_split c [] = [[]]"
| "go_split c (x # xs) =
     (if x = c then [] # go_split c xs
      else (case go_split c xs of [] \<Rightarrow> [[x]] | w # ws \<Rightarrow> (x # w) # ws))"

text \<open>The inverse of \<open>go_split\<close>, \<open>strings.Join\<close>; used to state what \<open>go_split\<close> returns.\<close>

fun go_join :: "byte \<Rightarrow> gostring list \<Rightarrow> gostring" where
  "go_join c [] = []"
| "go_join c [w] = w"
| "go_join c (w # v # ws) = w @ c # go_join c (v # ws)"

section \<open>Calls that may block\<close>

text \<open>
  A call that returns, panics, or blocks for ever: on a mutex, a wait group or a full channel that
  nobody will release. \<open>go_bind\<close> is the sequence of two calls, \<open>go_opt\<close> a call that cannot block.
\<close>

datatype 'a go_run = Ret 'a | Panic | Block

definition go_bind :: "'a go_run \<Rightarrow> ('a \<Rightarrow> 'b go_run) \<Rightarrow> 'b go_run" where
  [go_defs]: "go_bind r f = (case r of Ret x \<Rightarrow> f x | Panic \<Rightarrow> Panic | Block \<Rightarrow> Block)"

definition go_opt :: "'a option \<Rightarrow> 'a go_run" where
  [go_defs]: "go_opt x = (case x of Some y \<Rightarrow> Ret y | None \<Rightarrow> Panic)"

lemma go_bind_simps [simp]:
  "go_bind (Ret x) f = f x" "go_bind Panic f = Panic" "go_bind Block f = Block"
  by (simp_all add: go_bind_def)

lemma go_opt_simps [simp]: "go_opt (Some x) = Ret x" "go_opt None = Panic"
  by (simp_all add: go_opt_def)

lemma go_bind_eq_Ret_conv: "go_bind r f = Ret y \<longleftrightarrow> (\<exists>x. r = Ret x \<and> f x = Ret y)"
  by (cases r) simp_all

lemma go_bind_eq_Block_conv: "go_bind r f = Block \<longleftrightarrow> r = Block \<or> (\<exists>x. r = Ret x \<and> f x = Block)"
  by (cases r) simp_all

lemma go_opt_eq [simp]: "go_opt x = Ret y \<longleftrightarrow> x = Some y" "Ret y = go_opt x \<longleftrightarrow> x = Some y" "go_opt x \<noteq> Block" "Block \<noteq> go_opt x"
  by (cases x; auto)+

lemma map_go_bind: "map_go_run h (go_bind r f) = go_bind r (\<lambda>x. map_go_run h (f x))"
  by (cases r) simp_all

lemma go_bind_map: "go_bind (map_go_run h r) f = go_bind r (\<lambda>x. f (h x))"
  by (cases r) simp_all

lemma map_go_opt: "map_go_run h (go_opt x) = go_opt (map_option h x)"
  by (cases x) simp_all

lemma go_bind_splits:
  "P (go_bind r f) \<longleftrightarrow> (r = Block \<longrightarrow> P Block) \<and> (r = Panic \<longrightarrow> P Panic) \<and> (\<forall>x. r = Ret x \<longrightarrow> P (f x))"
  by (cases r) simp_all

section \<open>encoding/binary\<close>

text \<open>\<open>binary.BigEndian\<close>: the reads index the slice and panic when it is short.\<close>

definition be_uint16 :: "byte list \<Rightarrow> uint16 option" where
  [go_defs]: "be_uint16 b =
     (if 2 \<le> length b then Some (ucast (b ! 1) OR push_bit 8 (ucast (b ! 0))) else None)"

definition be_uint32 :: "byte list \<Rightarrow> uint32 option" where
  [go_defs]: "be_uint32 b =
     (if 4 \<le> length b
      then Some (ucast (b ! 3) OR push_bit 8 (ucast (b ! 2)) OR
                 push_bit 16 (ucast (b ! 1)) OR push_bit 24 (ucast (b ! 0)))
      else None)"

definition be_bytes16 :: "uint16 \<Rightarrow> byte list" where
  [go_defs]: "be_bytes16 v = [ucast (drop_bit 8 v), ucast v]"

definition be_bytes32 :: "uint32 \<Rightarrow> byte list" where
  [go_defs]: "be_bytes32 v =
     [ucast (drop_bit 24 v), ucast (drop_bit 16 v), ucast (drop_bit 8 v), ucast v]"

text \<open>
  The bytes \<open>binary.PutUvarint\<close> stores: seven bits a byte, least significant group first,
  the high bit set on every byte but the last.
\<close>

function uvarint_bytes :: "uint64 \<Rightarrow> byte list" where
  "uvarint_bytes x =
     (if 0x80 \<le> x then (ucast x OR 0x80) # uvarint_bytes (drop_bit 7 x) else [ucast x])"
  by pat_completeness auto
termination
proof (relation "measure unat", goal_cases)
  case 1
  show ?case by simp
next
  case (2 x)
  then have "128 \<le> unat x" by (simp add: word_le_nat_alt)
  moreover have "unat (drop_bit 7 x) = unat x div 128"
    by (simp only: unat_drop_bit_eq) (simp add: drop_bit_eq_div)
  ultimately show ?case by simp
qed

declare uvarint_bytes.simps [simp del]

section \<open>unicode/utf8\<close>

text \<open>
  \<open>utf8.Valid\<close>: the accepted sequences are ASCII, the two-byte sequences from \<open>0xC2\<close>, the
  three-byte sequences without overlong forms and surrogates, and the four-byte sequences
  up to \<open>U+10FFFF\<close>.
\<close>

definition utf8_cont :: "byte \<Rightarrow> bool" where
  "utf8_cont b = (0x80 \<le> b \<and> b \<le> 0xBF)"

fun utf8_valid :: "byte list \<Rightarrow> bool" where
  "utf8_valid [] = True"
| "utf8_valid (b # bs) =
     (if b < 0x80 then utf8_valid bs
      else if 0xC2 \<le> b \<and> b \<le> 0xDF then
        (case bs of c1 # cs \<Rightarrow> utf8_cont c1 \<and> utf8_valid cs | _ \<Rightarrow> False)
      else if 0xE0 \<le> b \<and> b \<le> 0xEF then
        (case bs of c1 # c2 # cs \<Rightarrow>
           (if b = 0xE0 then 0xA0 else 0x80) \<le> c1 \<and> c1 \<le> (if b = 0xED then 0x9F else 0xBF) \<and>
           utf8_cont c2 \<and> utf8_valid cs | _ \<Rightarrow> False)
      else if 0xF0 \<le> b \<and> b \<le> 0xF4 then
        (case bs of c1 # c2 # c3 # cs \<Rightarrow>
           (if b = 0xF0 then 0x90 else 0x80) \<le> c1 \<and> c1 \<le> (if b = 0xF4 then 0x8F else 0xBF) \<and>
           utf8_cont c2 \<and> utf8_cont c3 \<and> utf8_valid cs | _ \<Rightarrow> False)
      else False)"

section \<open>Writers\<close>

type_synonym 'e writer = "byte list \<Rightarrow> (byte list \<times> nat \<times> 'e option) option"

text \<open>
  \<open>w_put bs\<close> is a write of \<open>bs\<close> by indexed stores (\<open>to[offset] = b\<close>, \<open>binary.PutUint16\<close>,
  \<open>binary.PutUvarint\<close>), which panics when the slice is short; \<open>w_copy\<close> is
  \<open>copy(to, bs)\<close>, which stops at the end of the slice.
\<close>

definition w_put :: "byte list \<Rightarrow> 'e writer" where
  "w_put bs to =
     (if length bs \<le> length to then Some (bs @ drop (length bs) to, length bs, None) else None)"

definition w_copy :: "byte list \<Rightarrow> 'e writer" where
  "w_copy bs to = (let (to', n) = go_copy to bs in Some (to', n, None))"

definition w_skip :: "'e writer" where
  "w_skip to = Some (to, 0, None)"

definition w_fail :: "nat \<Rightarrow> 'e \<Rightarrow> 'e writer" where
  "w_fail n e to = Some (to, n, Some e)"

definition w_then :: "'e writer \<Rightarrow> 'e writer \<Rightarrow> 'e writer" where
  "w_then f g to = do {
     (to1, n, err) \<leftarrow> f to;
     (case err of
        Some e \<Rightarrow> Some (to1, n, Some e)
      | None \<Rightarrow> do {
          rest \<leftarrow> go_slice_from to1 n;
          (rest', m, err') \<leftarrow> g rest;
          Some (take n to1 @ rest', n + m, err') }) }"

text \<open>The same idiom where the code drops the error of the call: \<open>n, _ := f(to)\<close>.\<close>

definition w_noerr :: "'e writer \<Rightarrow> 'e writer" where
  "w_noerr f to = do { (to1, n, err) \<leftarrow> f to; Some (to1, n, None) }"

definition w_panic :: "'e writer" where
  "w_panic to = None"

text \<open>A loop over writers: the slice \<open>to[offset:]\<close> is taken before each of them.\<close>

fun w_all :: "'e writer list \<Rightarrow> 'e writer" where
  "w_all [] = w_skip"
| "w_all [w] = w"
| "w_all (w # v # ws) = w_then w (w_all (v # ws))"

text \<open>
  \<open>emits w bs\<close>: on a fresh slice, as \<open>make([]byte, k)\<close> returns it, with room for \<open>bs\<close>, \<open>w\<close>
  stores exactly the bytes \<open>bs\<close> at the front of the slice, leaves the rest zero, and reports
  their number and no error.
\<close>

definition emits :: "'e writer \<Rightarrow> byte list \<Rightarrow> bool" where
  "emits w bs =
     (\<forall>k. w (replicate (length bs + k) 0) = Some (bs @ replicate k 0, length bs, None))"

lemma emitsD: "emits w bs \<Longrightarrow> w (replicate (length bs + k) 0) = Some (bs @ replicate k 0, length bs, None)"
  by (simp add: emits_def)

lemma emits_put [emits_intros]: "emits (w_put bs) bs"
  by (simp add: emits_def w_put_def)

lemma emits_copy [emits_intros]: "emits (w_copy bs) bs"
  by (simp add: emits_def w_copy_def go_copy_def min_absorb2 Let_def)

lemma emits_noerr [emits_intros]: "emits w bs \<Longrightarrow> emits (w_noerr w) bs"
  by (simp add: emits_def w_noerr_def)

lemma emits_skip [emits_intros]: "emits w_skip []"
  by (simp add: emits_def w_skip_def)

lemma emits_then [emits_intros]:
  assumes "emits f xs" and "emits g ys"
  shows "emits (w_then f g) (xs @ ys)"
  unfolding emits_def
proof
  fix k
  have "f (replicate (length xs + (length ys + k)) 0) =
        Some (xs @ replicate (length ys + k) 0, length xs, None)"
    using assms(1) by (rule emitsD)
  moreover have "g (replicate (length ys + k) 0) = Some (ys @ replicate k 0, length ys, None)"
    using assms(2) by (rule emitsD)
  ultimately show "w_then f g (replicate (length (xs @ ys) + k) 0) =
      Some ((xs @ ys) @ replicate k 0, length (xs @ ys), None)"
    by (simp add: w_then_def go_slice_from_def add.assoc)
qed

lemma emits_all [emits_intros]:
  "list_all2 emits ws bss \<Longrightarrow> emits (w_all ws) (concat bss)"
proof (induction ws arbitrary: bss rule: w_all.induct)
  case (3 w v ws)
  then obtain b bs where "bss = b # bs" "emits w b" "list_all2 emits (v # ws) bs"
    by (auto simp: list_all2_Cons1)
  with 3 show ?case by (auto intro: emits_then)
qed (auto intro: emits_skip simp: list_all2_Cons1)

lemma emits_if [emits_intros]:
  "(c \<Longrightarrow> emits f xs) \<Longrightarrow> (\<not> c \<Longrightarrow> emits g ys) \<Longrightarrow>
   emits (if c then f else g) (if c then xs else ys)"
  by simp

section \<open>Decoders\<close>

text \<open>
  A function that reads a message from a slice returns the message as far as it was filled,
  the offset and the error. \<open>d_then\<close> is the idiom \<open>offset += n; if err != nil { return offset,
  err }\<close> between two of them.
\<close>

type_synonym ('m, 'e) decoded = "('m \<times> nat \<times> 'e option) option"

definition d_then :: "('m, 'e) decoded \<Rightarrow> ('m \<Rightarrow> nat \<Rightarrow> ('m, 'e) decoded) \<Rightarrow> ('m, 'e) decoded" where
  [go_defs]: "d_then r k = do {
     (m, offset, err) \<leftarrow> r;
     (case err of Some e \<Rightarrow> Some (m, offset, Some e) | None \<Rightarrow> k m offset) }"

lemma d_then_ok [simp]: "d_then (Some (m, n, None)) k = k m n"
  by (simp add: d_then_def)

lemma d_then_err [simp]: "d_then (Some (m, n, Some e)) k = Some (m, n, Some e)"
  by (simp add: d_then_def)

section \<open>Lemmas on the primitives\<close>

lemma go_slice_from_append [simp]: "go_slice_from (xs @ ys) (length xs) = Some ys"
  by (simp add: go_slice_from_def)

lemma go_slice_from_length [simp]: "go_slice_from xs (length xs) = Some []"
  by (simp add: go_slice_from_def)

lemma go_slice_from_0 [simp]: "go_slice_from xs 0 = Some xs"
  by (simp add: go_slice_from_def)

lemma go_index_append [simp]: "go_index (xs @ y # ys) (length xs) = Some y"
  by (simp add: go_index_def)

lemma go_index_0 [simp]: "go_index (y # ys) 0 = Some y"
  by (simp add: go_index_def)

lemma unat_ucast_mod:
  "unat (ucast (x :: 'a :: len word) :: 'b :: len word) = unat x mod 2 ^ LENGTH('b)"
  by (simp add: unsigned_ucast_eq take_bit_eq_mod)

lemma unat_drop_bit_7: "unat (drop_bit 7 (x :: 'a :: len word)) = unat x div 128"
  by (simp only: unat_drop_bit_eq) (simp add: drop_bit_eq_div)

lemma go_split_not_Nil [simp]: "go_split c s \<noteq> []"
  by (cases s) (auto split: list.splits)

lemma go_join_Cons_hd: "ws \<noteq> [] \<Longrightarrow> go_join c ((x # hd ws) # tl ws) = x # go_join c ws"
  by (cases ws; cases "tl ws") auto

lemma go_join_split [simp]: "go_join c (go_split c s) = s"
proof (induction s)
  case (Cons x xs)
  obtain w ws where "go_split c xs = w # ws" by (cases "go_split c xs") auto
  with Cons show ?case using go_join_Cons_hd [of "go_split c xs" c x] by auto
qed simp

lemma go_split_no_sep: "w \<in> set (go_split c s) \<Longrightarrow> c \<notin> set w"
  by (induction s arbitrary: w) (auto split: if_splits list.splits)

lemma go_split_subset: "w \<in> set (go_split c s) \<Longrightarrow> set w \<subseteq> set s"
  by (induction s arbitrary: w) (fastforce split: if_splits list.splits)+

lemma go_split_inj [simp]: "go_split c s = go_split c t \<longleftrightarrow> s = t"
  by (metis go_join_split)

lemma go_split_append_sep:
  "c \<notin> set w \<Longrightarrow> go_split c (w @ c # s) = w # go_split c s"
  by (induction w) auto

lemma go_split_word: "c \<notin> set w \<Longrightarrow> go_split c w = [w]"
  by (induction w) auto

lemma go_split_join:
  "ws \<noteq> [] \<Longrightarrow> (\<forall>w \<in> set ws. c \<notin> set w) \<Longrightarrow> go_split c (go_join c ws) = ws"
  by (induction c ws rule: go_join.induct) (auto simp: go_split_word go_split_append_sep)

lemma length_be_bytes [simp]: "length (be_bytes16 v) = 2" "length (be_bytes32 u) = 4"
  by (simp_all add: be_bytes16_def be_bytes32_def)

lemma be_uint16_bytes [simp]: "be_uint16 (be_bytes16 v @ rest) = Some v"
  by (simp add: be_uint16_def be_bytes16_def)
     (rule bit_word_eqI, auto simp: bit_simps)

lemma be_uint32_bytes [simp]: "be_uint32 (be_bytes32 v @ rest) = Some v"
proof -
  have "bit (ucast (ucast v :: byte) OR push_bit 8 (ucast (ucast (drop_bit 8 v) :: byte)) OR
          push_bit 16 (ucast (ucast (drop_bit 16 v) :: byte)) OR
          push_bit 24 (ucast (ucast (drop_bit 24 v) :: byte)) :: uint32) n = bit v n"
    if "n < 32" for n
    using that by (cases "24 \<le> n"; cases "16 \<le> n") (auto simp: bit_simps)
  then show ?thesis
    by (simp add: be_uint32_def be_bytes32_def) (rule bit_word_eqI, simp)
qed

end
