(* ===== verification/Packet_Types.thy ===== *)
theory Packet_Types
  imports Go_Prelude
begin

text \<open>
  The constants and tables of \<open>src/packet\<close>: protocol versions (\<open>types.go\<close>), packet types
  (\<open>packetType.go\<close>), QoS (\<open>qos.go\<close>), errors (\<open>errors.go\<close>), reason codes
  (\<open>reasonCodes.go\<close>), subscription options (\<open>packet.go\<close>) and the header masks (\<open>header.go\<close>).
  Go's byte-typed enumerations keep every byte as a value, so they are bytes here too.
\<close>

section \<open>Protocol versions\<close>

type_synonym ProtocolVersion = byte

abbreviation (input) ProtocolV31 :: ProtocolVersion where "ProtocolV31 \<equiv> 0x3"
abbreviation (input) ProtocolV311 :: ProtocolVersion where "ProtocolV311 \<equiv> 0x4"
abbreviation (input) ProtocolV50 :: ProtocolVersion where "ProtocolV50 \<equiv> 0x5"

text \<open>The names are the bytes of \<open>"MQIsdp"\<close> and \<open>"MQTT"\<close>.\<close>

definition SupportedVersions :: "(ProtocolVersion \<times> gostring) list" where
  "SupportedVersions =
     [(ProtocolV31, [0x4D, 0x51, 0x49, 0x73, 0x64, 0x70]),
      (ProtocolV311, [0x4D, 0x51, 0x54, 0x54]),
      (ProtocolV50, [0x4D, 0x51, 0x54, 0x54])]"

definition MaxLPString :: nat where "MaxLPString = 65535"

definition ProtocolVersion_IsValid :: "ProtocolVersion \<Rightarrow> bool" where
  "ProtocolVersion_IsValid p = (map_of SupportedVersions p \<noteq> None)"

section \<open>Packet types\<close>

type_synonym Type = byte
type_synonym IDType = uint16

abbreviation (input) RESERVED :: Type where "RESERVED \<equiv> 0"
abbreviation (input) CONNECT :: Type where "CONNECT \<equiv> 1"
abbreviation (input) CONNACK :: Type where "CONNACK \<equiv> 2"
abbreviation (input) PUBLISH :: Type where "PUBLISH \<equiv> 3"
abbreviation (input) PUBACK :: Type where "PUBACK \<equiv> 4"
abbreviation (input) PUBREC :: Type where "PUBREC \<equiv> 5"
abbreviation (input) PUBREL :: Type where "PUBREL \<equiv> 6"
abbreviation (input) PUBCOMP :: Type where "PUBCOMP \<equiv> 7"
abbreviation (input) SUBSCRIBE :: Type where "SUBSCRIBE \<equiv> 8"
abbreviation (input) SUBACK :: Type where "SUBACK \<equiv> 9"
abbreviation (input) UNSUBSCRIBE :: Type where "UNSUBSCRIBE \<equiv> 10"
abbreviation (input) UNSUBACK :: Type where "UNSUBACK \<equiv> 11"
abbreviation (input) PINGREQ :: Type where "PINGREQ \<equiv> 12"
abbreviation (input) PINGRESP :: Type where "PINGRESP \<equiv> 13"
abbreviation (input) DISCONNECT :: Type where "DISCONNECT \<equiv> 14"
abbreviation (input) AUTH :: Type where "AUTH \<equiv> 15"

definition typeName :: "string list" where
  "typeName =
     [''RESERVED'', ''CONNECT'', ''CONNACK'', ''PUBLISH'', ''PUBACK'', ''PUBREC'', ''PUBREL'',
      ''PUBCOMP'', ''SUBSCRIBE'', ''SUBACK'', ''UNSUBSCRIBE'', ''UNSUBACK'', ''PINGREQ'',
      ''PINGRESP'', ''DISCONNECT'', ''AUTH'']"

definition typeDescription :: "string list" where
  "typeDescription =
     [''Reserved'', ''Client request to connect to Server'', ''Connect acknowledgement'',
      ''Publish message'', ''Publish acknowledgement'',
      ''Publish received (assured delivery part 1)'',
      ''Publish release (assured delivery part 2)'',
      ''Publish complete (assured delivery part 3)'', ''Client subscribe request'',
      ''Subscribe acknowledgement'', ''Unsubscribe request'', ''Unsubscribe acknowledgement'',
      ''PING request'', ''PING response'', ''Client is disconnecting'', ''Auth'']"

definition typeDefaultFlags :: "byte list" where
  "typeDefaultFlags = [0, 0, 0, 0, 0, 0, 2, 0, 2, 0, 2, 0, 0, 0, 0, 0]"

definition Type_Name :: "Type \<Rightarrow> string" where
  "Type_Name t = (if t > AUTH then ''UNKNOWN'' else typeName ! unat t)"

definition Type_Desc :: "Type \<Rightarrow> string" where
  "Type_Desc t = (if t > AUTH then ''UNKNOWN'' else typeDescription ! unat t)"

definition DefaultFlags :: "Type \<Rightarrow> byte" where
  "DefaultFlags t = (if t > AUTH then 0 else typeDefaultFlags ! unat t)"

section \<open>Errors\<close>

datatype pkt_error =
    ErrInvalidUnSubscribe | ErrInvalidUnSubAck | ErrDupViolation | ErrPackedIDNotMatched
  | ErrInvalid | ErrPackedIDZero | ErrOnPublishNil | ErrInvalidMessageType
  | ErrInvalidMessageTypeFlags | ErrInvalidQoS | ErrInvalidLength | ErrProtocolViolation
  | ErrInsufficientBufferSize | ErrInsufficientDataSize | ErrInvalidTopic | ErrEmptyPayload
  | ErrInvalidReturnCode | ErrUnimplemented | ErrInvalidLPStringSize | ErrMalformedTopic
  | ErrMalformedStream | ErrInvalidProtocolVersion | ErrNotSet | ErrPanicDetected
  | ErrInvalidArgs | ErrInvalidUtf8 | ErrNotSupported | ErrProtocolInvalidName

datatype PropertyError =
    ErrPropertyNotFound | ErrPropertyInvalidID | ErrPropertyPacketTypeMismatch
  | ErrPropertyTypeMismatch | ErrPropertyDuplicate | ErrPropertyUnsupported
  | ErrPropertyWrongType

type_synonym ReasonCode = byte

text \<open>The dynamic types a Go \<open>error\<close> of this package can have.\<close>

datatype go_error = EPkt pkt_error | ECode ReasonCode | EProp PropertyError

text \<open>\<open>Type.Valid\<close>: the verdict and the error.\<close>

definition Type_Valid :: "Type \<Rightarrow> ProtocolVersion \<Rightarrow> bool \<times> go_error option" where
  "Type_Valid t v =
     (if v = ProtocolV31 \<or> v = ProtocolV311 then (t > RESERVED \<and> t < AUTH, None)
      else if v = ProtocolV50 then (t > RESERVED \<and> t \<le> AUTH, None)
      else (False, Some (EPkt ErrInvalidProtocolVersion)))"

fun pkt_error_Error :: "pkt_error \<Rightarrow> string" where
  "pkt_error_Error ErrInvalidUnSubscribe = ''Invalid UNSUBSCRIBE message''"
| "pkt_error_Error ErrInvalidUnSubAck = ''Invalid UNSUBACK message''"
| "pkt_error_Error ErrDupViolation = ''Duplicate violation''"
| "pkt_error_Error ErrPackedIDNotMatched = ''Packet ID does not match''"
| "pkt_error_Error ErrPackedIDZero = ''Packet ID cannot be 0''"
| "pkt_error_Error ErrOnPublishNil = ''Publisher is nil''"
| "pkt_error_Error ErrInvalidMessageType = ''Invalid message type''"
| "pkt_error_Error ErrInvalidMessageTypeFlags = ''Invalid message flags''"
| "pkt_error_Error ErrInvalidQoS = ''Invalid message QoS''"
| "pkt_error_Error ErrInvalidLength = ''Invalid message length''"
| "pkt_error_Error ErrProtocolViolation = ''Protocol violation''"
| "pkt_error_Error ErrInsufficientBufferSize = ''Insufficient buffer size''"
| "pkt_error_Error ErrInsufficientDataSize = ''Insufficient data size''"
| "pkt_error_Error ErrInvalidTopic = ''Invalid topic name''"
| "pkt_error_Error ErrEmptyPayload = ''Payload is empty''"
| "pkt_error_Error ErrInvalidReturnCode = ''Invalid return code''"
| "pkt_error_Error ErrUnimplemented = ''Function not implemented yet''"
| "pkt_error_Error ErrInvalidLPStringSize = ''Invalid LP string size''"
| "pkt_error_Error ErrMalformedTopic = ''Malformed topic''"
| "pkt_error_Error ErrMalformedStream = ''Malformed stream''"
| "pkt_error_Error ErrInvalidArgs = ''Invalid arguments''"
| "pkt_error_Error ErrInvalidUtf8 = ''String is not UTF8''"
| "pkt_error_Error ErrInvalidProtocolVersion = ''Invalid protocol name''"
| "pkt_error_Error _ = ''Unknown error''"

fun PropertyError_Error :: "PropertyError \<Rightarrow> string" where
  "PropertyError_Error ErrPropertyNotFound = ''property: id not found''"
| "PropertyError_Error ErrPropertyInvalidID = ''property: id is invalid''"
| "PropertyError_Error ErrPropertyPacketTypeMismatch = ''property: packet type does not match id''"
| "PropertyError_Error ErrPropertyTypeMismatch = ''property: value type does not match id''"
| "PropertyError_Error ErrPropertyDuplicate = ''property: duplicate of id not allowed''"
| "PropertyError_Error ErrPropertyUnsupported = ''property: value type is unsupported''"
| "PropertyError_Error ErrPropertyWrongType = ''property: value type differs from expected''"

section \<open>Quality of service\<close>

type_synonym QosType = byte

abbreviation (input) QoS0 :: QosType where "QoS0 \<equiv> 0"
abbreviation (input) QoS1 :: QosType where "QoS1 \<equiv> 1"
abbreviation (input) QoS2 :: QosType where "QoS2 \<equiv> 2"
abbreviation (input) QosFailure :: QosType where "QosFailure \<equiv> 0x80"

definition Qos_IsValid :: "QosType \<Rightarrow> bool" where
  "Qos_IsValid c = (c = QoS0 \<or> c = QoS1 \<or> c = QoS2)"

definition Qos_IsValidFull :: "QosType \<Rightarrow> bool" where
  "Qos_IsValidFull c = (if c \<noteq> QoS0 \<and> c \<noteq> QoS1 \<and> c \<noteq> QoS2 \<and> c \<noteq> QosFailure then False else True)"

definition Qos_Desc :: "QosType \<Rightarrow> string" where
  "Qos_Desc c =
     (if c = QoS0 then ''QoS0'' else if c = QoS1 then ''QoS1''
      else if c = QoS2 then ''QoS2'' else ''Invalid value'')"

section \<open>Header masks and offsets\<close>

abbreviation (input) maskMessageFlags :: byte where "maskMessageFlags \<equiv> 0x0F"
abbreviation (input) maskConnFlagUsername :: byte where "maskConnFlagUsername \<equiv> 0x80"
abbreviation (input) maskConnFlagPassword :: byte where "maskConnFlagPassword \<equiv> 0x40"
abbreviation (input) maskConnFlagWillRetain :: byte where "maskConnFlagWillRetain \<equiv> 0x20"
abbreviation (input) maskConnFlagWillQos :: byte where "maskConnFlagWillQos \<equiv> 0x18"
abbreviation (input) maskConnFlagWill :: byte where "maskConnFlagWill \<equiv> 0x04"
abbreviation (input) maskConnFlagClean :: byte where "maskConnFlagClean \<equiv> 0x02"
abbreviation (input) maskConnFlagReserved :: byte where "maskConnFlagReserved \<equiv> 0x01"
abbreviation (input) maskPublishFlagRetain :: byte where "maskPublishFlagRetain \<equiv> 0x01"
abbreviation (input) maskPublishFlagQoS :: byte where "maskPublishFlagQoS \<equiv> 0x06"
abbreviation (input) maskPublishFlagDup :: byte where "maskPublishFlagDup \<equiv> 0x08"
abbreviation (input) maskSubscriptionQoS :: byte where "maskSubscriptionQoS \<equiv> 0x03"
abbreviation (input) maskSubscriptionNL :: byte where "maskSubscriptionNL \<equiv> 0x04"
abbreviation (input) maskSubscriptionRAP :: byte where "maskSubscriptionRAP \<equiv> 0x08"
abbreviation (input) maskSubscriptionRetainHandling :: byte where "maskSubscriptionRetainHandling \<equiv> 0x30"
abbreviation (input) maskSubscriptionReserved :: byte where "maskSubscriptionReserved \<equiv> 0xC0"
abbreviation (input) maskConnAckSessionPresent :: byte where "maskConnAckSessionPresent \<equiv> 0x01"

abbreviation (input) offsetPacketType :: nat where "offsetPacketType \<equiv> 4"
abbreviation (input) offsetPublishFlagQoS :: nat where "offsetPublishFlagQoS \<equiv> 1"
abbreviation (input) offsetConnFlagWillQoS :: nat where "offsetConnFlagWillQoS \<equiv> 3"
abbreviation (input) offsetSubscriptionNL :: nat where "offsetSubscriptionNL \<equiv> 2"
abbreviation (input) offsetSubscriptionRAP :: nat where "offsetSubscriptionRAP \<equiv> 3"
abbreviation (input) offsetSubscriptionRetainHandling :: nat where "offsetSubscriptionRetainHandling \<equiv> 4"

section \<open>Subscription options\<close>

type_synonym SubscriptionOptions = byte
type_synonym RetainHandling = byte

abbreviation (input) RetainHandlingRetain :: RetainHandling where "RetainHandlingRetain \<equiv> 0"
abbreviation (input) RetainHandlingIfNotExists :: RetainHandling where "RetainHandlingIfNotExists \<equiv> 1"
abbreviation (input) RetainHandlingDoNotRetain :: RetainHandling where "RetainHandlingDoNotRetain \<equiv> 2"

definition Ops_QoS :: "SubscriptionOptions \<Rightarrow> QosType" where
  "Ops_QoS s = s AND maskSubscriptionQoS"

definition Ops_NL :: "SubscriptionOptions \<Rightarrow> bool" where
  "Ops_NL s = (drop_bit offsetSubscriptionNL (s AND maskSubscriptionNL) \<noteq> 0)"

definition Ops_RAP :: "SubscriptionOptions \<Rightarrow> bool" where
  "Ops_RAP s = (drop_bit offsetSubscriptionRAP (s AND maskSubscriptionRAP) \<noteq> 0)"

definition Ops_RetainHandling :: "SubscriptionOptions \<Rightarrow> RetainHandling" where
  "Ops_RetainHandling s =
     drop_bit offsetSubscriptionRetainHandling (s AND maskSubscriptionRetainHandling)"

section \<open>Topic names\<close>

abbreviation (input) byte_hash :: byte where "byte_hash \<equiv> 0x23"
abbreviation (input) byte_plus :: byte where "byte_plus \<equiv> 0x2B"
abbreviation (input) byte_slash :: byte where "byte_slash \<equiv> 0x2F"
abbreviation (input) byte_dollar :: byte where "byte_dollar \<equiv> 0x24"

definition ValidTopic :: "gostring \<Rightarrow> bool" where
  "ValidTopic topic = (utf8_valid topic \<and> \<not> go_contains topic byte_hash \<and> \<not> go_contains topic byte_plus)"

end
