(* ===== verification/Wire.thy ===== *)
theory Wire
  imports Packet_Types
begin

text \<open>
  The wire primitives of \<open>src/packet\<close>: the variable byte integers of \<open>header.go\<close>
  (\<open>uvarint\<close>, \<open>uvarintCalc\<close>; \<open>binary.PutUvarint\<close> is \<open>uvarint_bytes\<close> of the prelude) and the
  length-prefixed byte strings of \<open>routines.go\<close>. The lemmas give the round trips, the
  consumed counts and the exact range of integers that survive.
\<close>

section \<open>Variable byte integers\<close>

text \<open>\<open>i\<close> is the loop index, \<open>x\<close> the value so far, \<open>s\<close> the shift.\<close>

fun uvarint_loop :: "nat \<Rightarrow> uint32 \<Rightarrow> nat \<Rightarrow> byte list \<Rightarrow> uint32 \<times> int" where
  "uvarint_loop i x s [] = (0, 0)"
| "uvarint_loop i x s (b # bs) =
     (if b < 0x80 then
        (if i > 4 \<or> i = 4 \<and> b > 1 then (0, - (int i + 1))
         else (x OR push_bit s (ucast b), int i + 1))
      else uvarint_loop (i + 1) (x OR push_bit s (ucast (b AND 0x7f))) (s + 7) bs)"

definition uvarint :: "byte list \<Rightarrow> uint32 \<times> int" where
  "uvarint buf = uvarint_loop 0 0 0 buf"

function uvarintCalc_loop :: "uint32 \<Rightarrow> nat \<Rightarrow> nat" where
  "uvarintCalc_loop x i = (if x \<ge> 0x80 then uvarintCalc_loop (drop_bit 7 x) (i + 1) else i + 1)"
  by pat_completeness auto
termination
proof (relation "measure (unat \<circ> fst)", goal_cases)
  case 1
  show ?case by simp
next
  case (2 x i)
  then have "128 \<le> unat x" by (simp add: word_le_nat_alt)
  moreover have "unat (drop_bit 7 x) = unat x div 128"
    by (simp only: unat_drop_bit_eq) (simp add: drop_bit_eq_div)
  ultimately show ?case by simp
qed

declare uvarintCalc_loop.simps [simp del]

definition uvarintCalc :: "uint32 \<Rightarrow> nat" where
  "uvarintCalc x = uvarintCalc_loop x 0"

section \<open>Length-prefixed bytes\<close>

definition ReadLPBytes :: "byte list \<Rightarrow> byte list \<times> nat \<times> go_error option" where
  "ReadLPBytes buf =
     (if length buf < 2 then ([], 0, Some (EPkt ErrInsufficientDataSize))
      else (let n = (case be_uint16 buf of Some v \<Rightarrow> unat v | None \<Rightarrow> 0)
            in if length (drop 2 buf) < n then ([], 2, Some (EPkt ErrInsufficientDataSize))
               else (take n (drop 2 buf), 2 + n, None)))"

definition WriteLPBytes :: "byte list \<Rightarrow> go_error writer" where
  "WriteLPBytes b buf =
     (let n = length b in
      if n > MaxLPString then Some (buf, 0, Some (EPkt ErrInvalidLPStringSize))
      else if length buf < 2 + n then Some (buf, 2 + n, Some (EPkt ErrInsufficientBufferSize))
      else w_then (w_put (be_bytes16 (of_nat n))) (w_copy b) buf)"

section \<open>Lemmas on variable byte integers\<close>

lemma unat_or_push_bit:
  fixes acc v :: uint32
  assumes "unat acc < 2 ^ s" and "unat v < 2 ^ k" and "s + k \<le> 32"
  shows "unat (acc OR push_bit s v) = unat acc + unat v * 2 ^ s"
    and "unat (acc OR push_bit s v) < 2 ^ (s + k)"
proof -
  have "unat v * 2 ^ s < 2 ^ k * 2 ^ s"
    using assms(2) by simp
  then have lt: "unat v * 2 ^ s < 2 ^ (s + k)"
    by (simp add: power_add mult.commute)
  also have "\<dots> \<le> 2 ^ 32" using assms(3) by (intro power_increasing) auto
  finally have "unat v * 2 ^ s < 2 ^ 32" .
  then have push: "unat (push_bit s v) = push_bit s (unat v)"
    by (simp only: unsigned_push_bit_eq) (simp add: push_bit_eq_mult take_bit_nat_eq_self_iff)
  have "(unat acc :: nat) OR push_bit s (unat v) = unat acc + push_bit s (unat v)"
  proof -
    have "take_bit s (unat acc) = unat acc"
      using assms(1) by (simp add: take_bit_nat_eq_self)
    then have "\<not> bit (unat acc) n \<or> \<not> bit (push_bit s (unat v)) n" for n
      by (metis bit_push_bit_iff bit_take_bit_iff leD)
    then have "(unat acc :: nat) AND push_bit s (unat v) = 0"
      by (auto simp: bit_eq_iff bit_and_iff)
    then show ?thesis by (simp add: disjunctive_add_eq_or)
  qed
  then show eq: "unat (acc OR push_bit s v) = unat acc + unat v * 2 ^ s"
    unfolding unsigned_or_eq push by (simp add: push_bit_eq_mult)
  have "unat acc + unat v * 2 ^ s < 2 ^ s + unat v * 2 ^ s"
    using assms(1) by simp
  also have "\<dots> = (unat v + 1) * 2 ^ s" by simp
  also have "\<dots> \<le> 2 ^ k * 2 ^ s"
    using assms(2) by (intro mult_right_mono) auto
  finally show "unat (acc OR push_bit s v) < 2 ^ (s + k)"
    by (simp add: eq power_add mult.commute)
qed

lemma uvarint_bytes_not_Nil [simp]: "uvarint_bytes x \<noteq> []"
  by (subst uvarint_bytes.simps) simp

lemma length_uvarint_bytes_le:
  "unat x < 128 ^ k \<Longrightarrow> 0 < k \<Longrightarrow> length (uvarint_bytes x) \<le> k"
proof (induction x arbitrary: k rule: uvarint_bytes.induct)
  case (1 x)
  show ?case
  proof (cases "0x80 \<le> x")
    case True
    then have "128 \<le> unat x" by (simp add: word_le_nat_alt)
    with "1.prems" obtain j where k: "k = Suc j" "0 < j"
      by (cases k; cases "k - 1") auto
    have "unat (drop_bit 7 x) < 128 ^ j"
      using "1.prems"(1) by (simp only: unat_drop_bit_7 k) (simp add: less_mult_imp_div_less mult.commute)
    with "1.IH" [OF True, of j] k True show ?thesis
      by (subst uvarint_bytes.simps) simp
  next
    case False
    with "1.prems" show ?thesis by (subst uvarint_bytes.simps) simp
  qed
qed

text \<open>A byte stored by \<open>PutUvarint\<close> with more to come: its high bit and its seven low bits.\<close>

lemma uvarint_cont_byte:
  fixes x :: uint64
  shows "\<not> (ucast x OR 0x80 :: byte) < 0x80"
    and "unat (ucast ((ucast x OR 0x80 :: byte) AND 0x7f) :: uint32) = unat x mod 128"
proof -
  have "(0x80 :: byte) \<le> ucast x OR 0x80"
    using word_and_le1 by (metis or.commute le_word_or1)
  then show "\<not> (ucast x OR 0x80 :: byte) < 0x80" by simp
  have m7: "(0x7f :: byte) = mask 7"
    by (simp add: mask_eq_exp_minus_1)
  have b7: "bit (0x80 :: int) n \<longleftrightarrow> n = 7" for n
    using bit_exp_iff [where 'a = int, of 7 n] by auto
  have "(ucast x OR 0x80 :: byte) AND 0x7f = take_bit 7 (ucast x)"
    unfolding m7 by (rule bit_word_eqI) (auto simp: bit_simps b7)
  then show "unat (ucast ((ucast x OR 0x80 :: byte) AND 0x7f) :: uint32) = unat x mod 128"
    by (simp only: unat_ucast_mod unsigned_take_bit_eq)
       (simp add: take_bit_eq_mod mod_mod_cancel unat_ucast_mod)
qed

lemma uvarint_bytes_long:
  "0x80 \<le> x \<Longrightarrow> uvarint_bytes x = (ucast x OR 0x80) # uvarint_bytes (drop_bit 7 x)"
  by (subst uvarint_bytes.simps) simp

lemma uvarint_bytes_short: "x < 0x80 \<Longrightarrow> uvarint_bytes x = [ucast x]"
  by (subst uvarint_bytes.simps) (simp add: not_le [symmetric])

text \<open>The loop on the bytes of \<open>x\<close>, started with \<open>i\<close> groups already read.\<close>

lemma uvarint_loop_bytes:
  assumes "unat acc < 2 ^ (7 * i)" and "unat x < 2 ^ (29 - 7 * i)" and "i \<le> 4"
  shows "\<exists>y. uvarint_loop i acc (7 * i) (uvarint_bytes x @ rest) =
             (y, int i + int (length (uvarint_bytes x))) \<and>
           unat y = unat acc + unat x * 2 ^ (7 * i)"
  using assms
proof (induction x arbitrary: acc i rule: uvarint_bytes.induct)
  case (1 x)
  show ?case
  proof (cases "0x80 \<le> x")
    case False
    then have lt: "x < 0x80" by simp
    then have small: "unat x < 128" by (simp add: word_less_nat_alt)
    then have ux: "unat (ucast x :: byte) = unat x" "unat (ucast (ucast x :: byte) :: uint32) = unat x"
      by (simp_all add: unat_ucast_mod)
    have b: "(ucast x :: byte) < 0x80" using small ux by (simp add: word_less_nat_alt)
    have ovf: "\<not> (i > 4 \<or> i = 4 \<and> (ucast x :: byte) > 1)"
      using "1.prems"(2,3) ux by (auto simp: word_less_nat_alt)
    have "unat x < 2 ^ (29 - 7 * i)" using "1.prems" by simp
    then have "unat (acc OR push_bit (7 * i) (ucast (ucast x :: byte))) =
               unat acc + unat x * 2 ^ (7 * i)"
      using unat_or_push_bit(1) [of acc "7 * i" "ucast (ucast x :: byte)" "29 - 7 * i"]
        "1.prems"(1,3) ux by simp
    with lt b ovf show ?thesis by (simp add: uvarint_bytes_short)
  next
    case True
    then have big: "128 \<le> unat x" by (simp add: word_le_nat_alt)
    have i3: "i \<le> 3"
    proof (rule ccontr)
      assume "\<not> i \<le> 3"
      with "1.prems"(3) have "i = 4" by simp
      with "1.prems"(2) big show False by simp
    qed
    define acc' where "acc' = acc OR push_bit (7 * i) (ucast ((ucast x OR 0x80 :: byte) AND 0x7f))"
    have acc': "unat acc' = unat acc + (unat x mod 128) * 2 ^ (7 * i)" "unat acc' < 2 ^ (7 * i + 7)"
      using unat_or_push_bit [of acc "7 * i" "ucast ((ucast x OR 0x80 :: byte) AND 0x7f)" 7]
        "1.prems"(1) i3 by (simp_all add: acc'_def uvarint_cont_byte(2))
    have pow: "(2::nat) ^ (29 - 7 * i) = 128 * 2 ^ (29 - 7 * (i + 1))"
    proof -
      have "29 - 7 * i = 7 + (29 - 7 * (i + 1))" using i3 by simp
      then show ?thesis by (simp only: power_add) simp
    qed
    have "unat (drop_bit 7 x) < 2 ^ (29 - 7 * (i + 1))"
      using "1.prems"(2) unfolding unat_drop_bit_7 pow
      by (simp add: less_mult_imp_div_less mult.commute)
    then obtain y where y: "uvarint_loop (i + 1) acc' (7 * (i + 1)) (uvarint_bytes (drop_bit 7 x) @ rest) =
             (y, int (i + 1) + int (length (uvarint_bytes (drop_bit 7 x))))"
        "unat y = unat acc' + unat (drop_bit 7 x) * 2 ^ (7 * (i + 1))"
      using "1.IH" [of acc' "i + 1"] True acc'(2) i3 by (auto simp: algebra_simps)
    have split: "r * p + q * (p * 128) = (r + 128 * q) * p" for r q p :: nat
      by (simp add: algebra_simps)
    have "unat acc' + unat (drop_bit 7 x) * 2 ^ (7 * (i + 1)) =
          unat acc + (unat x mod 128 + 128 * (unat x div 128)) * 2 ^ (7 * i)"
      unfolding acc'(1) unat_drop_bit_7 split [symmetric] by (simp add: power_add)
    then have "unat y = unat acc + unat x * 2 ^ (7 * i)"
      using y(2) by simp
    moreover have "uvarint_loop i acc (7 * i) (uvarint_bytes x @ rest) =
        (y, int i + int (length (uvarint_bytes x)))"
      using y(1) True by (simp add: uvarint_bytes_long uvarint_cont_byte(1) acc'_def add.commute)
    ultimately show ?thesis by blast
  qed
qed

lemma uvarint_loop_overflow:
  assumes "2 ^ (29 - 7 * i) \<le> unat x" and "unat x < 2 ^ (32 - 7 * i)" and "i \<le> 4"
  shows "uvarint_loop i acc (7 * i) (uvarint_bytes x @ rest) = (0, - 5)"
  using assms
proof (induction x arbitrary: acc i rule: uvarint_bytes.induct)
  case (1 x)
  show ?case
  proof (cases "i = 4")
    case True
    with "1.prems" have x: "2 \<le> unat x" "unat x < 16" by auto
    then have "x < 0x80" "(ucast x :: byte) < 0x80" "(ucast x :: byte) > 1"
      by (simp_all add: word_less_nat_alt unat_ucast_mod)
    with True show ?thesis by (simp add: uvarint_bytes_short)
  next
    case False
    with "1.prems"(3) have i3: "i \<le> 3" by simp
    have pow: "(2::nat) ^ (29 - 7 * i) = 128 * 2 ^ (29 - 7 * (i + 1))"
              "(2::nat) ^ (32 - 7 * i) = 128 * 2 ^ (32 - 7 * (i + 1))"
    proof -
      have "29 - 7 * i = 7 + (29 - 7 * (i + 1))" "32 - 7 * i = 7 + (32 - 7 * (i + 1))"
        using i3 by simp_all
      then show "(2::nat) ^ (29 - 7 * i) = 128 * 2 ^ (29 - 7 * (i + 1))"
        and "(2::nat) ^ (32 - 7 * i) = 128 * 2 ^ (32 - 7 * (i + 1))"
        by (simp_all only: power_add) simp_all
    qed
    have x: "0x80 \<le> x"
      using "1.prems"(1) unfolding pow word_le_nat_alt
      by simp (metis One_nat_def le_trans mult_le_mono2 nat_mult_1_right one_le_numeral one_le_power)
    have "2 ^ (29 - 7 * (i + 1)) \<le> unat (drop_bit 7 x)"
      using "1.prems"(1) unfolding pow unat_drop_bit_7 by (simp add: less_eq_div_iff_mult_less_eq mult.commute)
    moreover have "unat (drop_bit 7 x) < 2 ^ (32 - 7 * (i + 1))"
      using "1.prems"(2) unfolding pow unat_drop_bit_7
      by (simp add: less_mult_imp_div_less mult.commute)
    ultimately have "uvarint_loop (i + 1) acc' (7 * (i + 1)) (uvarint_bytes (drop_bit 7 x) @ rest) = (0, - 5)"
      for acc'
      using "1.IH" [OF x, of "i + 1"] i3 by simp
    with x show ?thesis
      by (simp add: uvarint_bytes_long uvarint_cont_byte(1) algebra_simps)
  qed
qed

lemma uvarint_bytes_roundtrip:
  "uvarint (uvarint_bytes (ucast (x :: uint32)) @ rest) =
     (if unat x < 2 ^ 29 then (x, int (length (uvarint_bytes (ucast x)))) else (0, - 5))"
proof -
  have ux: "unat (ucast x :: uint64) = unat x"
    using unsigned_less [where 'b = 32, of x, where 'a = nat] by (simp add: unat_ucast_mod)
  show ?thesis
  proof (cases "unat x < 2 ^ 29")
    case True
    with uvarint_loop_bytes [of 0 0 "ucast x" rest] ux show ?thesis
      by (auto simp: uvarint_def word_unat_eq_iff)
  next
    case False
    moreover have "unat x < 2 ^ 32" using unsigned_less [where 'b = 32, of x, where 'a = nat] by simp
    ultimately show ?thesis
      using uvarint_loop_overflow [of 0 "ucast x" 0 rest] ux by (simp add: uvarint_def)
  qed
qed

lemma uvarintCalc_loop_bytes: "uvarintCalc_loop x i = i + length (uvarint_bytes (ucast x))"
proof (induction x i rule: uvarintCalc_loop.induct)
  case (1 x i)
  have ux: "unat (ucast y :: uint64) = unat y" for y :: uint32
    using unsigned_less [where 'b = 32, of y, where 'a = nat] by (simp add: unat_ucast_mod)
  have le: "(0x80 :: uint64) \<le> ucast x \<longleftrightarrow> 0x80 \<le> x"
    by (simp add: word_le_nat_alt ux)
  have drop: "ucast (drop_bit 7 x) = drop_bit 7 (ucast x :: uint64)"
    by (simp only: word_unat_eq_iff ux unat_drop_bit_7)
  show ?case
  proof (cases "0x80 \<le> x")
    case True
    with "1.IH" le drop show ?thesis
      by (simp add: uvarintCalc_loop.simps [of x i] uvarint_bytes_long)
  next
    case False
    with le have "(ucast x :: uint64) < 0x80" by simp
    with False show ?thesis
      by (simp add: uvarintCalc_loop.simps [of x i] uvarint_bytes_short not_le [symmetric])
  qed
qed

lemma uvarintCalc_bytes: "uvarintCalc x = length (uvarint_bytes (ucast x))"
  by (simp add: uvarintCalc_def uvarintCalc_loop_bytes)

lemma uvarint_loop_count:
  "uvarint_loop i x s bs = (v, n) \<Longrightarrow> n \<le> int i + int (length bs) \<and> - n \<le> int i + int (length bs)"
  by (induction i x s bs rule: uvarint_loop.induct) (auto split: if_splits)

lemma uvarint_count:
  assumes "uvarint bs = (v, n)"
  shows "n \<le> int (length bs)" and "- n \<le> int (length bs)"
  using uvarint_loop_count [of 0 0 0 bs v n] assms by (auto simp: uvarint_def)

text \<open>A varint cut short: every byte has its high bit set and the count is zero.\<close>

lemma uvarint_loop_truncated:
  "j < length (uvarint_bytes x) \<Longrightarrow> uvarint_loop i acc s (take j (uvarint_bytes x)) = (0, 0)"
proof (induction x arbitrary: j i acc s rule: uvarint_bytes.induct)
  case (1 x)
  show ?case
  proof (cases "0x80 \<le> x \<and> 0 < j")
    case True
    then obtain j' where j: "j = Suc j'" by (cases j) auto
    with "1.prems" True have "j' < length (uvarint_bytes (drop_bit 7 x))"
      by (simp add: uvarint_bytes_long)
    with "1.IH" True j show ?thesis by (simp add: uvarint_bytes_long uvarint_cont_byte(1))
  next
    case False
    with "1.prems" have "j = 0" by (auto simp: uvarint_bytes_short not_le)
    then show ?thesis by simp
  qed
qed

lemma uvarint_truncated: "j < length (uvarint_bytes x) \<Longrightarrow> uvarint (take j (uvarint_bytes x)) = (0, 0)"
  by (simp add: uvarint_def uvarint_loop_truncated)

lemma uvarint_loop_range:
  assumes "uvarint_loop i x (7 * i) bs = (v, n)" and "0 < n" and "i \<le> 4 \<longrightarrow> unat x < 2 ^ (7 * i)"
  shows "unat v < 2 ^ 29"
  using assms
proof (induction bs arbitrary: i x)
  case (Cons b bs)
  show ?case
  proof (cases "b < 0x80")
    case True
    with Cons.prems have i: "i \<le> 4" "i = 4 \<Longrightarrow> b \<le> 1" and v: "v = x OR push_bit (7 * i) (ucast b)"
      by (auto split: if_splits)
    have b: "unat b < 2 ^ 7" "unat (ucast b :: uint32) = unat b"
      using True by (simp_all add: word_less_nat_alt unat_ucast_mod)
    show ?thesis
    proof (cases "i = 4")
      case True
      then have "unat b < 2 ^ 1" using i(2) by (simp add: word_le_nat_alt)
      then have "unat v < 2 ^ (7 * i + 1)"
        unfolding v using Cons.prems(3) True b(2) by (intro unat_or_push_bit) auto
      with True show ?thesis by simp
    next
      case False
      with i have "i \<le> 3" by simp
      have "unat v < 2 ^ (7 * i + 7)"
        unfolding v using Cons.prems(3) \<open>i \<le> 3\<close> b by (intro unat_or_push_bit) auto
      also have "(2::nat) ^ (7 * i + 7) \<le> 2 ^ 29" using \<open>i \<le> 3\<close> by (intro power_increasing) auto
      finally show ?thesis .
    qed
  next
    case False
    have "(b AND 0x7f) = take_bit 7 b"
      by (simp add: take_bit_eq_mask mask_eq_exp_minus_1)
    then have b: "unat (ucast (b AND 0x7f) :: uint32) < 2 ^ 7"
      by (simp only: unat_ucast_mod unsigned_take_bit_eq)
         (simp add: take_bit_eq_mod mod_less_divisor le_less_trans [OF mod_less_eq_dividend])
    have "unat (x OR push_bit (7 * i) (ucast (b AND 0x7f))) < 2 ^ (7 * (i + 1))" if "i \<le> 3"
      using unat_or_push_bit(2) [OF _ b, of x "7 * i"] Cons.prems(3) that by (simp add: algebra_simps)
    with Cons.IH [of "i + 1"] Cons.prems False show ?thesis
      by (auto simp: algebra_simps)
  qed
qed simp

lemma uvarint_range: "uvarint bs = (v, n) \<Longrightarrow> 0 < n \<Longrightarrow> unat v < 2 ^ 29"
  using uvarint_loop_range [of 0 0 bs v n] by (simp add: uvarint_def)

lemma uvarint_Nil [simp]: "uvarint [] = (0, 0)"
  by (simp add: uvarint_def)

text \<open>A varint that ends in its first byte: every property identifier and small length.\<close>

lemma uvarint_Cons_short: "b < 0x80 \<Longrightarrow> uvarint (b # bs) = (ucast b, 1)"
  by (simp add: uvarint_def)

lemma uvarintCalc_short: "x < 0x80 \<Longrightarrow> uvarintCalc x = 1"
  by (simp add: uvarintCalc_def uvarintCalc_loop.simps [of x 0] not_le [symmetric])

section \<open>Lemmas on length-prefixed bytes\<close>

text \<open>The bytes of a length-prefixed string on the wire.\<close>

definition lp_bytes :: "byte list \<Rightarrow> byte list" where
  "lp_bytes b = be_bytes16 (of_nat (length b)) @ b"

lemma length_lp_bytes [simp]: "length (lp_bytes b) = 2 + length b"
  by (simp add: lp_bytes_def)

lemma ReadLPBytes_roundtrip:
  assumes "length b \<le> MaxLPString"
  shows "ReadLPBytes (lp_bytes b @ rest) = (b, 2 + length b, None)"
proof -
  have "unat (of_nat (length b) :: uint16) = length b"
    using assms by (simp add: MaxLPString_def unat_of_nat)
  then show ?thesis by (simp add: ReadLPBytes_def lp_bytes_def Let_def)
qed

lemma ReadLPBytes_count:
  assumes "ReadLPBytes buf = (b, n, err)"
  shows "n \<le> length buf"
  using assms by (auto simp: ReadLPBytes_def Let_def split: if_splits)

lemma ReadLPBytes_ok:
  assumes "ReadLPBytes buf = (b, n, None)"
  shows "n = 2 + length b" and "length b \<le> MaxLPString" and "b = take (length b) (drop 2 buf)"
    and "n \<le> length buf" and "take n buf = lp_bytes b"
proof -
  from assms obtain v where len: "2 \<le> length buf" and v: "be_uint16 buf = Some v"
    and b: "b = take (unat v) (drop 2 buf)" and n: "n = 2 + unat v"
    and room: "unat v \<le> length (drop 2 buf)"
    by (auto simp: ReadLPBytes_def be_uint16_def Let_def split: if_splits)
  then have lb: "length b = unat v" by simp
  show "n = 2 + length b" "b = take (length b) (drop 2 buf)" "n \<le> length buf"
    using lb b n room len by auto
  show "length b \<le> MaxLPString"
    using unsigned_less [where 'b = 16, of v, where 'a = nat] lb by (simp add: MaxLPString_def)
  obtain x y zs where buf: "buf = x # y # zs"
    using len by (cases buf; cases "tl buf") auto
  have "be_bytes16 v = [x, y]"
  proof -
    have "v = ucast y OR push_bit 8 (ucast x)"
      using v by (simp add: buf be_uint16_def)
    then have "ucast v = y" "ucast (drop_bit 8 v) = x"
      by (auto intro!: bit_word_eqI simp: bit_simps) (use bit_imp_le_length in fastforce)+
    then show ?thesis by (simp add: be_bytes16_def)
  qed
  moreover have "of_nat (length b) = v" by (simp add: lb)
  ultimately show "take n buf = lp_bytes b"
    using b n by (simp add: buf lp_bytes_def)
qed

lemma emits_WriteLPBytes [emits_intros]:
  assumes "length b \<le> MaxLPString"
  shows "emits (WriteLPBytes b) (lp_bytes b)"
  unfolding emits_def lp_bytes_def
proof
  fix k
  have "emits (w_then (w_put (be_bytes16 (of_nat (length b)))) (w_copy b) :: go_error writer)
          (be_bytes16 (of_nat (length b)) @ b)"
    by (intro emits_intros)
  from emitsD [OF this, of k] assms
  show "WriteLPBytes b (replicate (length (be_bytes16 (of_nat (length b)) @ b) + k) 0) =
      Some ((be_bytes16 (of_nat (length b)) @ b) @ replicate k 0,
            length (be_bytes16 (of_nat (length b)) @ b), None)"
    by (simp add: WriteLPBytes_def Let_def)
qed

section \<open>Properties\<close>

text \<open>
  The varint decoder reads back exactly the integers below \<open>2 ^ 29\<close> that
  \<open>binary.PutUvarint\<close> wrote, whatever follows them, and reports an overflow after five bytes
  for every larger 32-bit integer: the last byte is refused from 2 on, although a 32-bit value
  may need up to 15 there.
\<close>

theorem uvarint_exact_range:
  "uvarint (uvarint_bytes (ucast (x :: uint32)) @ rest) =
     (if unat x < 2 ^ 29 then (x, int (uvarintCalc x)) else (0, - 5))"
  by (simp add: uvarint_bytes_roundtrip uvarintCalc_bytes)

text \<open>
  A length-prefixed read that succeeds has consumed the length prefix and the bytes it
  returns, no more, and stayed within the buffer.
\<close>

theorem ReadLPBytes_sound:
  assumes "ReadLPBytes buf = (b, n, None)"
  shows "take n buf = lp_bytes b \<and> n = 2 + length b \<and> n \<le> length buf"
  using ReadLPBytes_ok [OF assms] by simp

theorem ReadLPBytes_sound_witness:
  "take 3 [0, 1, 0x61, 9] = lp_bytes [0x61] \<and> (3::nat) = 2 + length [0x61 :: byte] \<and>
   3 \<le> length [0, 1, 0x61, 9 :: byte]"
  by (rule ReadLPBytes_sound) (simp add: ReadLPBytes_def be_uint16_def)

end
