(* ===== verification/Reason_Codes.thy ===== *)
theory Reason_Codes
  imports Packet_Types
begin

text \<open>
  \<open>src/packet/reasonCodes.go\<close>: the reason codes of all MQTT versions, the table of the codes
  each packet type may carry and the checks on them. The table keeps the issuer; the
  descriptions in it are read by no function of the package.
\<close>

section \<open>The codes\<close>

abbreviation (input) CodeSuccess :: ReasonCode where "CodeSuccess \<equiv> 0x00"
abbreviation (input) CodeRefusedUnacceptableProtocolVersion :: ReasonCode where "CodeRefusedUnacceptableProtocolVersion \<equiv> 0x01"
abbreviation (input) CodeRefusedIdentifierRejected :: ReasonCode where "CodeRefusedIdentifierRejected \<equiv> 0x02"
abbreviation (input) CodeRefusedServerUnavailable :: ReasonCode where "CodeRefusedServerUnavailable \<equiv> 0x03"
abbreviation (input) CodeRefusedBadUsernameOrPassword :: ReasonCode where "CodeRefusedBadUsernameOrPassword \<equiv> 0x04"
abbreviation (input) CodeRefusedNotAuthorized :: ReasonCode where "CodeRefusedNotAuthorized \<equiv> 0x05"
abbreviation (input) CodeNoMatchingSubscribers :: ReasonCode where "CodeNoMatchingSubscribers \<equiv> 0x10"
abbreviation (input) CodeNoSubscriptionExisted :: ReasonCode where "CodeNoSubscriptionExisted \<equiv> 0x11"
abbreviation (input) CodeContinueAuthentication :: ReasonCode where "CodeContinueAuthentication \<equiv> 0x18"
abbreviation (input) CodeReAuthenticate :: ReasonCode where "CodeReAuthenticate \<equiv> 0x19"
abbreviation (input) CodeUnspecifiedError :: ReasonCode where "CodeUnspecifiedError \<equiv> 0x80"
abbreviation (input) CodeMalformedPacket :: ReasonCode where "CodeMalformedPacket \<equiv> 0x81"
abbreviation (input) CodeProtocolError :: ReasonCode where "CodeProtocolError \<equiv> 0x82"
abbreviation (input) CodeImplementationSpecificError :: ReasonCode where "CodeImplementationSpecificError \<equiv> 0x83"
abbreviation (input) CodeUnsupportedProtocol :: ReasonCode where "CodeUnsupportedProtocol \<equiv> 0x84"
abbreviation (input) CodeInvalidClientID :: ReasonCode where "CodeInvalidClientID \<equiv> 0x85"
abbreviation (input) CodeBadUserOrPassword :: ReasonCode where "CodeBadUserOrPassword \<equiv> 0x86"
abbreviation (input) CodeNotAuthorized :: ReasonCode where "CodeNotAuthorized \<equiv> 0x87"
abbreviation (input) CodeServerUnavailable :: ReasonCode where "CodeServerUnavailable \<equiv> 0x88"
abbreviation (input) CodeServerBusy :: ReasonCode where "CodeServerBusy \<equiv> 0x89"
abbreviation (input) CodeBanned :: ReasonCode where "CodeBanned \<equiv> 0x8A"
abbreviation (input) CodeServerShuttingDown :: ReasonCode where "CodeServerShuttingDown \<equiv> 0x8B"
abbreviation (input) CodeBadAuthMethod :: ReasonCode where "CodeBadAuthMethod \<equiv> 0x8C"
abbreviation (input) CodeKeepAliveTimeout :: ReasonCode where "CodeKeepAliveTimeout \<equiv> 0x8D"
abbreviation (input) CodeSessionTakenOver :: ReasonCode where "CodeSessionTakenOver \<equiv> 0x8E"
abbreviation (input) CodeInvalidTopicFilter :: ReasonCode where "CodeInvalidTopicFilter \<equiv> 0x8F"
abbreviation (input) CodeInvalidTopicName :: ReasonCode where "CodeInvalidTopicName \<equiv> 0x90"
abbreviation (input) CodePacketIDInUse :: ReasonCode where "CodePacketIDInUse \<equiv> 0x91"
abbreviation (input) CodePacketIDNotFound :: ReasonCode where "CodePacketIDNotFound \<equiv> 0x92"
abbreviation (input) CodeReceiveMaximumExceeded :: ReasonCode where "CodeReceiveMaximumExceeded \<equiv> 0x93"
abbreviation (input) CodeInvalidTopicAlias :: ReasonCode where "CodeInvalidTopicAlias \<equiv> 0x94"
abbreviation (input) CodePacketTooLarge :: ReasonCode where "CodePacketTooLarge \<equiv> 0x95"
abbreviation (input) CodeMessageRateTooHigh :: ReasonCode where "CodeMessageRateTooHigh \<equiv> 0x96"
abbreviation (input) CodeQuotaExceeded :: ReasonCode where "CodeQuotaExceeded \<equiv> 0x97"
abbreviation (input) CodeAdministrativeAction :: ReasonCode where "CodeAdministrativeAction \<equiv> 0x98"
abbreviation (input) CodeInvalidPayloadFormat :: ReasonCode where "CodeInvalidPayloadFormat \<equiv> 0x99"
abbreviation (input) CodeRetainNotSupported :: ReasonCode where "CodeRetainNotSupported \<equiv> 0x9A"
abbreviation (input) CodeNotSupportedQoS :: ReasonCode where "CodeNotSupportedQoS \<equiv> 0x9B"
abbreviation (input) CodeUseAnotherServer :: ReasonCode where "CodeUseAnotherServer \<equiv> 0x9C"
abbreviation (input) CodeServerMoved :: ReasonCode where "CodeServerMoved \<equiv> 0x9D"
abbreviation (input) CodeSharedSubscriptionNotSupported :: ReasonCode where "CodeSharedSubscriptionNotSupported \<equiv> 0x9E"
abbreviation (input) CodeConnectionRateExceeded :: ReasonCode where "CodeConnectionRateExceeded \<equiv> 0x9F"
abbreviation (input) CodeMaximumConnectTime :: ReasonCode where "CodeMaximumConnectTime \<equiv> 0xA0"
abbreviation (input) CodeSubscriptionIDNotSupported :: ReasonCode where "CodeSubscriptionIDNotSupported \<equiv> 0xA1"
abbreviation (input) CodeWildcardSubscriptionsNotSupported :: ReasonCode where "CodeWildcardSubscriptionsNotSupported \<equiv> 0xA2"

section \<open>Issuers\<close>

type_synonym CodeIssuer = byte

text \<open>
  The constant block gives \<open>CodeIssuerServer CodeIssuer = 0x00\<close> and no expression to the other
  three names, so Go repeats the expression and all four are zero.
\<close>

abbreviation (input) CodeIssuerServer :: CodeIssuer where "CodeIssuerServer \<equiv> 0x00"
abbreviation (input) CodeIssuerClient :: CodeIssuer where "CodeIssuerClient \<equiv> 0x00"
abbreviation (input) CodeIssuerBoth :: CodeIssuer where "CodeIssuerBoth \<equiv> 0x00"
abbreviation (input) CodeIssuerInvalid :: CodeIssuer where "CodeIssuerInvalid \<equiv> 0x00"

section \<open>Codes by packet type\<close>

definition packetTypeCodeMap :: "(Type \<times> (ReasonCode \<times> CodeIssuer) list) list" where
  "packetTypeCodeMap =
    [(CONNACK,
        [(CodeSuccess, CodeIssuerServer), (CodeRefusedUnacceptableProtocolVersion, CodeIssuerClient),
         (CodeRefusedIdentifierRejected, CodeIssuerClient), (CodeRefusedServerUnavailable, CodeIssuerClient),
         (CodeRefusedBadUsernameOrPassword, CodeIssuerClient), (CodeRefusedNotAuthorized, CodeIssuerClient),
         (CodeUnspecifiedError, CodeIssuerServer), (CodeMalformedPacket, CodeIssuerServer),
         (CodeImplementationSpecificError, CodeIssuerServer), (CodeUnsupportedProtocol, CodeIssuerServer),
         (CodeInvalidClientID, CodeIssuerServer), (CodeBadUserOrPassword, CodeIssuerServer),
         (CodeNotAuthorized, CodeIssuerServer), (CodeServerUnavailable, CodeIssuerServer),
         (CodeServerBusy, CodeIssuerServer), (CodeBanned, CodeIssuerServer),
         (CodeBadAuthMethod, CodeIssuerServer), (CodeInvalidTopicName, CodeIssuerServer),
         (CodePacketTooLarge, CodeIssuerServer), (CodeQuotaExceeded, CodeIssuerServer),
         (CodeRetainNotSupported, CodeIssuerServer), (CodeNotSupportedQoS, CodeIssuerServer),
         (CodeUseAnotherServer, CodeIssuerServer), (CodeServerMoved, CodeIssuerServer),
         (CodeConnectionRateExceeded, CodeIssuerServer)]),
     (PUBACK,
        [(CodeSuccess, CodeIssuerBoth), (CodeNoMatchingSubscribers, CodeIssuerBoth),
         (CodeUnspecifiedError, CodeIssuerBoth), (CodeImplementationSpecificError, CodeIssuerBoth),
         (CodeNotAuthorized, CodeIssuerBoth), (CodeInvalidTopicName, CodeIssuerBoth),
         (CodeQuotaExceeded, CodeIssuerBoth), (CodeInvalidPayloadFormat, CodeIssuerBoth)]),
     (PUBREC,
        [(CodeSuccess, CodeIssuerBoth), (CodeNoMatchingSubscribers, CodeIssuerBoth),
         (CodeUnspecifiedError, CodeIssuerBoth), (CodeImplementationSpecificError, CodeIssuerBoth),
         (CodeNotAuthorized, CodeIssuerBoth), (CodeInvalidTopicName, CodeIssuerBoth),
         (CodePacketIDInUse, CodeIssuerBoth), (CodeQuotaExceeded, CodeIssuerBoth),
         (CodeInvalidPayloadFormat, CodeIssuerBoth)]),
     (PUBREL,
        [(CodeSuccess, CodeIssuerBoth), (CodePacketIDNotFound, CodeIssuerBoth)]),
     (PUBCOMP,
        [(CodeSuccess, CodeIssuerBoth), (CodePacketIDNotFound, CodeIssuerBoth)]),
     (SUBACK,
        [(0, CodeIssuerBoth), (1, CodeIssuerBoth),
         (2, CodeIssuerBoth), (CodeUnspecifiedError, CodeIssuerBoth),
         (CodeImplementationSpecificError, CodeIssuerBoth), (CodeNotAuthorized, CodeIssuerBoth),
         (CodeInvalidTopicFilter, CodeIssuerBoth), (CodePacketIDInUse, CodeIssuerBoth),
         (CodeQuotaExceeded, CodeIssuerBoth), (CodeSharedSubscriptionNotSupported, CodeIssuerBoth),
         (CodeSubscriptionIDNotSupported, CodeIssuerBoth), (CodeWildcardSubscriptionsNotSupported, CodeIssuerBoth)]),
     (UNSUBACK,
        [(CodeSuccess, CodeIssuerBoth), (CodeNoSubscriptionExisted, CodeIssuerBoth),
         (CodeUnspecifiedError, CodeIssuerBoth), (CodeImplementationSpecificError, CodeIssuerBoth),
         (CodeNotAuthorized, CodeIssuerBoth), (CodeInvalidTopicFilter, CodeIssuerBoth),
         (CodePacketIDInUse, CodeIssuerBoth)]),
     (DISCONNECT,
        [(CodeSuccess, CodeIssuerClient), (CodeRefusedBadUsernameOrPassword, CodeIssuerClient),
         (CodeUnspecifiedError, CodeIssuerBoth), (CodeMalformedPacket, CodeIssuerBoth),
         (CodeProtocolError, CodeIssuerBoth), (CodeImplementationSpecificError, CodeIssuerBoth),
         (CodeNotAuthorized, CodeIssuerServer), (CodeServerBusy, CodeIssuerServer),
         (CodeServerShuttingDown, CodeIssuerServer), (CodeKeepAliveTimeout, CodeIssuerServer),
         (CodeSessionTakenOver, CodeIssuerServer), (CodeInvalidTopicFilter, CodeIssuerServer),
         (CodeInvalidTopicName, CodeIssuerBoth), (CodePacketTooLarge, CodeIssuerBoth),
         (CodeReceiveMaximumExceeded, CodeIssuerBoth), (CodeInvalidTopicAlias, CodeIssuerBoth),
         (CodeMessageRateTooHigh, CodeIssuerBoth), (CodeQuotaExceeded, CodeIssuerBoth),
         (CodeAdministrativeAction, CodeIssuerBoth), (CodeInvalidPayloadFormat, CodeIssuerBoth),
         (CodeRetainNotSupported, CodeIssuerServer), (CodeNotSupportedQoS, CodeIssuerServer),
         (CodeUseAnotherServer, CodeIssuerServer), (CodeServerMoved, CodeIssuerServer),
         (CodeSharedSubscriptionNotSupported, 0), (CodeConnectionRateExceeded, 0),
         (CodeMaximumConnectTime, CodeIssuerServer), (CodeSubscriptionIDNotSupported, CodeIssuerServer),
         (CodeWildcardSubscriptionsNotSupported, CodeIssuerServer)]),
     (AUTH,
        [(CodeSuccess, CodeIssuerServer), (CodeContinueAuthentication, CodeIssuerBoth),
         (CodeReAuthenticate, CodeIssuerClient)])]"

section \<open>Descriptions\<close>

definition codeDescMap :: "(ReasonCode \<times> string) list" where
  "codeDescMap =
    [(CodeSuccess, ''Operation success''),
     (CodeRefusedUnacceptableProtocolVersion, ''The Server does not support the level of the MQTT protocol requested by the Client''),
     (CodeRefusedIdentifierRejected, ''The Client identifier is not allowed''),
     (CodeRefusedServerUnavailable, ''Server refused connection''),
     (CodeRefusedBadUsernameOrPassword, ''The data in the user name or password is malformed''),
     (CodeRefusedNotAuthorized, ''The Client is not authorized to connect''),
     (CodeNoMatchingSubscribers, ''The message is accepted but there are no subscribers''),
     (CodeNoSubscriptionExisted, ''No matching subscription existed''),
     (CodeContinueAuthentication, ''Continue the authentication with another step''),
     (CodeReAuthenticate, ''Initiate a re-authentication''),
     (CodeUnspecifiedError, ''Return code not specified by application''),
     (CodeMalformedPacket, ''Data within the Packet was not consistent with this specification''),
     (CodeProtocolError, []),
     (CodeImplementationSpecificError, []),
     (CodeUnsupportedProtocol, []),
     (CodeInvalidClientID, []),
     (CodeBadUserOrPassword, []),
     (CodeNotAuthorized, []),
     (CodeServerUnavailable, []),
     (CodeServerBusy, []),
     (CodeBanned, []),
     (CodeServerShuttingDown, []),
     (CodeBadAuthMethod, []),
     (CodeKeepAliveTimeout, []),
     (CodeSessionTakenOver, []),
     (CodeInvalidTopicFilter, []),
     (CodeInvalidTopicName, []),
     (CodePacketIDInUse, []),
     (CodePacketIDNotFound, []),
     (CodeReceiveMaximumExceeded, []),
     (CodeInvalidTopicAlias, ''Invalid topic alias''),
     (CodePacketTooLarge, []),
     (CodeMessageRateTooHigh, []),
     (CodeQuotaExceeded, []),
     (CodeAdministrativeAction, []),
     (CodeInvalidPayloadFormat, []),
     (CodeRetainNotSupported, []),
     (CodeNotSupportedQoS, []),
     (CodeUseAnotherServer, []),
     (CodeServerMoved, []),
     (CodeSharedSubscriptionNotSupported, []),
     (CodeConnectionRateExceeded, []),
     (CodeMaximumConnectTime, []),
     (CodeSubscriptionIDNotSupported, []),
     (CodeWildcardSubscriptionsNotSupported, [])]"

section \<open>Checks\<close>

text \<open>\<open>PacketTypeDir\<close> returns \<open>ErrInvalidReturnCode\<close> with the issuer it found, and no error
  when the code is not in the table of the packet type.\<close>

definition PacketTypeDir :: "ReasonCode \<Rightarrow> Type \<Rightarrow> CodeIssuer \<times> go_error option" where
  "PacketTypeDir c p =
     (case map_of packetTypeCodeMap p of
        None \<Rightarrow> (CodeIssuerInvalid, Some (EPkt ErrInvalidMessageType))
      | Some pT \<Rightarrow>
         (case map_of pT c of
            Some iss \<Rightarrow> (iss, Some (EPkt ErrInvalidReturnCode))
          | None \<Rightarrow> (CodeIssuerInvalid, None)))"

definition Code_Value :: "ReasonCode \<Rightarrow> byte" where
  "Code_Value c = c"

definition Code_IsValid :: "ReasonCode \<Rightarrow> bool" where
  "Code_IsValid c = (map_of codeDescMap c \<noteq> None)"

definition Code_IsValidV3 :: "ReasonCode \<Rightarrow> bool" where
  "Code_IsValidV3 c = (CodeSuccess \<le> c \<and> c \<le> CodeRefusedNotAuthorized)"

definition Code_IsValidV5 :: "ReasonCode \<Rightarrow> bool" where
  "Code_IsValidV5 c =
     (c = CodeSuccess \<or>
      (CodeNoMatchingSubscribers \<le> c \<and> c \<le> CodeWildcardSubscriptionsNotSupported))"

definition Code_IsValidForType :: "ReasonCode \<Rightarrow> Type \<Rightarrow> bool" where
  "Code_IsValidForType c p =
     (case map_of packetTypeCodeMap p of
        None \<Rightarrow> False
      | Some pT \<Rightarrow> map_of pT c \<noteq> None)"

definition Code_Error :: "ReasonCode \<Rightarrow> string" where
  "Code_Error c = (case map_of codeDescMap c of Some s \<Rightarrow> s | None \<Rightarrow> ''Unknown error'')"

definition Code_Desc :: "ReasonCode \<Rightarrow> string" where
  "Code_Desc c = Code_Error c"

end
