(* ===== verification/Property.thy ===== *)
theory Property
  imports Wire Reason_Codes "HOL-Library.AList"
begin

text \<open>
  \<open>src/packet/property.go\<close>: the MQTT 5 properties of a packet. A Go \<open>interface{}\<close> value is a
  \<open>prop_val\<close>, tagged with its dynamic type. The map \<open>property.properties\<close> is an association
  list with distinct keys, or \<open>None\<close> for the nil map; the list's order is the order in which
  \<open>range\<close> visits the map. Go leaves that order open, and the theorems hold for every list.
\<close>

section \<open>Identifiers, types, values\<close>

type_synonym PropertyID = uint32
type_synonym PropertyType = byte

datatype StringPair = StringPair (pairK: gostring) (pairV: gostring)

text \<open>
  The dynamic types that reach a property value: the ones the type switches name, and
  \<open>int\<close>, which the session manager passes for the server keep alive.
\<close>

datatype prop_val =
    VByte byte | VShort uint16 | VInt uint32 | VString gostring | VStringPair StringPair
  | VBytes "byte list" | VShorts "uint16 list" | VInts "uint32 list" | VStrings "gostring list"
  | VStringPairs "StringPair list" | VBytesList "byte list list"
  | VStringLists "gostring list list" | VGoInt int

record property =
  props :: "(PropertyID \<times> prop_val) list option"
  plen :: uint32

abbreviation (input) PropertyPayloadFormat :: PropertyID where "PropertyPayloadFormat \<equiv> 0x01"
abbreviation (input) PropertyPublicationExpiry :: PropertyID where "PropertyPublicationExpiry \<equiv> 0x02"
abbreviation (input) PropertyContentType :: PropertyID where "PropertyContentType \<equiv> 0x03"
abbreviation (input) PropertyResponseTopic :: PropertyID where "PropertyResponseTopic \<equiv> 0x08"
abbreviation (input) PropertyCorrelationData :: PropertyID where "PropertyCorrelationData \<equiv> 0x09"
abbreviation (input) PropertySubscriptionIdentifier :: PropertyID where "PropertySubscriptionIdentifier \<equiv> 0x0B"
abbreviation (input) PropertySessionExpiryInterval :: PropertyID where "PropertySessionExpiryInterval \<equiv> 0x11"
abbreviation (input) PropertyAssignedClientIdentifier :: PropertyID where "PropertyAssignedClientIdentifier \<equiv> 0x12"
abbreviation (input) PropertyServerKeepAlive :: PropertyID where "PropertyServerKeepAlive \<equiv> 0x13"
abbreviation (input) PropertyAuthMethod :: PropertyID where "PropertyAuthMethod \<equiv> 0x15"
abbreviation (input) PropertyAuthData :: PropertyID where "PropertyAuthData \<equiv> 0x16"
abbreviation (input) PropertyRequestProblemInfo :: PropertyID where "PropertyRequestProblemInfo \<equiv> 0x17"
abbreviation (input) PropertyWillDelayInterval :: PropertyID where "PropertyWillDelayInterval \<equiv> 0x18"
abbreviation (input) PropertyRequestResponseInfo :: PropertyID where "PropertyRequestResponseInfo \<equiv> 0x19"
abbreviation (input) PropertyResponseInfo :: PropertyID where "PropertyResponseInfo \<equiv> 0x1A"
abbreviation (input) PropertyServerReverence :: PropertyID where "PropertyServerReverence \<equiv> 0x1C"
abbreviation (input) PropertyReasonString :: PropertyID where "PropertyReasonString \<equiv> 0x1F"
abbreviation (input) PropertyReceiveMaximum :: PropertyID where "PropertyReceiveMaximum \<equiv> 0x21"
abbreviation (input) PropertyTopicAliasMaximum :: PropertyID where "PropertyTopicAliasMaximum \<equiv> 0x22"
abbreviation (input) PropertyTopicAlias :: PropertyID where "PropertyTopicAlias \<equiv> 0x23"
abbreviation (input) PropertyMaximumQoS :: PropertyID where "PropertyMaximumQoS \<equiv> 0x24"
abbreviation (input) PropertyRetainAvailable :: PropertyID where "PropertyRetainAvailable \<equiv> 0x25"
abbreviation (input) PropertyUserProperty :: PropertyID where "PropertyUserProperty \<equiv> 0x26"
abbreviation (input) PropertyMaximumPacketSize :: PropertyID where "PropertyMaximumPacketSize \<equiv> 0x27"
abbreviation (input) PropertyWildcardSubscriptionAvailable :: PropertyID where "PropertyWildcardSubscriptionAvailable \<equiv> 0x28"
abbreviation (input) PropertySubscriptionIdentifierAvailable :: PropertyID where "PropertySubscriptionIdentifierAvailable \<equiv> 0x29"
abbreviation (input) PropertySharedSubscriptionAvailable :: PropertyID where "PropertySharedSubscriptionAvailable \<equiv> 0x2A"

abbreviation (input) PropertyTypeByte :: PropertyType where "PropertyTypeByte \<equiv> 0"
abbreviation (input) PropertyTypeShort :: PropertyType where "PropertyTypeShort \<equiv> 1"
abbreviation (input) PropertyTypeInt :: PropertyType where "PropertyTypeInt \<equiv> 2"
abbreviation (input) PropertyTypeVarInt :: PropertyType where "PropertyTypeVarInt \<equiv> 3"
abbreviation (input) PropertyTypeString :: PropertyType where "PropertyTypeString \<equiv> 4"
abbreviation (input) PropertyTypeStringPair :: PropertyType where "PropertyTypeStringPair \<equiv> 5"
abbreviation (input) PropertyTypeBinary :: PropertyType where "PropertyTypeBinary \<equiv> 6"

section \<open>Tables\<close>

definition propertyAllowedMessageTypes :: "(PropertyID \<times> (Type \<times> bool) list) list" where
  "propertyAllowedMessageTypes =
    [(PropertyPayloadFormat, [(PUBLISH, False)]),
     (PropertyPublicationExpiry, [(PUBLISH, False)]),
     (PropertyContentType, [(PUBLISH, False)]),
     (PropertyResponseTopic, [(PUBLISH, False)]),
     (PropertyCorrelationData, [(PUBLISH, False)]),
     (PropertySubscriptionIdentifier, [(PUBLISH, True), (SUBSCRIBE, False)]),
     (PropertySessionExpiryInterval, [(CONNECT, False), (DISCONNECT, False)]),
     (PropertyAssignedClientIdentifier, [(CONNACK, False)]),
     (PropertyServerKeepAlive, [(CONNACK, False)]),
     (PropertyAuthMethod, [(CONNECT, False), (CONNACK, False), (AUTH, False)]),
     (PropertyAuthData, [(CONNECT, False), (CONNACK, False), (AUTH, False)]),
     (PropertyWillDelayInterval, [(CONNECT, False)]),
     (PropertyRequestProblemInfo, [(CONNECT, False)]),
     (PropertyRequestResponseInfo, [(CONNECT, False)]),
     (PropertyResponseInfo, [(CONNACK, False)]),
     (PropertyServerReverence, [(CONNACK, False), (DISCONNECT, False)]),
     (PropertyReceiveMaximum, [(CONNECT, False), (CONNACK, False)]),
     (PropertyTopicAliasMaximum, [(CONNECT, False), (CONNACK, False)]),
     (PropertyTopicAlias, [(PUBLISH, False)]),
     (PropertyMaximumQoS, [(CONNACK, False)]),
     (PropertyRetainAvailable, [(CONNACK, False)]),
     (PropertyMaximumPacketSize, [(CONNECT, False), (CONNACK, False)]),
     (PropertyWildcardSubscriptionAvailable, [(CONNACK, False)]),
     (PropertySubscriptionIdentifierAvailable, [(CONNACK, False)]),
     (PropertySharedSubscriptionAvailable, [(CONNACK, False)]),
     (PropertyReasonString, [(CONNACK, False), (PUBACK, False), (PUBREC, False), (PUBREL, False), (PUBCOMP, False), (SUBACK, False), (UNSUBACK, False), (DISCONNECT, False), (AUTH, False)]),
     (PropertyUserProperty, [(CONNECT, True), (CONNACK, True), (PUBLISH, True), (PUBACK, True), (PUBREC, True), (PUBREL, True), (PUBCOMP, True), (SUBACK, True), (UNSUBACK, True), (DISCONNECT, True), (AUTH, True)])]"

definition propertyTypeMap :: "(PropertyID \<times> PropertyType) list" where
  "propertyTypeMap =
    [(PropertyPayloadFormat, PropertyTypeByte),
     (PropertyPublicationExpiry, PropertyTypeInt),
     (PropertyContentType, PropertyTypeString),
     (PropertyResponseTopic, PropertyTypeString),
     (PropertyCorrelationData, PropertyTypeBinary),
     (PropertySubscriptionIdentifier, PropertyTypeVarInt),
     (PropertySessionExpiryInterval, PropertyTypeInt),
     (PropertyAssignedClientIdentifier, PropertyTypeString),
     (PropertyServerKeepAlive, PropertyTypeShort),
     (PropertyAuthMethod, PropertyTypeString),
     (PropertyAuthData, PropertyTypeBinary),
     (PropertyRequestProblemInfo, PropertyTypeByte),
     (PropertyWillDelayInterval, PropertyTypeInt),
     (PropertyRequestResponseInfo, PropertyTypeByte),
     (PropertyResponseInfo, PropertyTypeString),
     (PropertyServerReverence, PropertyTypeString),
     (PropertyReasonString, PropertyTypeString),
     (PropertyReceiveMaximum, PropertyTypeShort),
     (PropertyTopicAliasMaximum, PropertyTypeShort),
     (PropertyTopicAlias, PropertyTypeShort),
     (PropertyMaximumQoS, PropertyTypeByte),
     (PropertyRetainAvailable, PropertyTypeByte),
     (PropertyUserProperty, PropertyTypeStringPair),
     (PropertyMaximumPacketSize, PropertyTypeInt),
     (PropertyWildcardSubscriptionAvailable, PropertyTypeByte),
     (PropertySubscriptionIdentifierAvailable, PropertyTypeByte),
     (PropertySharedSubscriptionAvailable, PropertyTypeByte)]"

text \<open>\<open>propertyTypeMap[id]\<close>: the zero value for a missing key.\<close>

definition propertyTypeOf :: "PropertyID \<Rightarrow> PropertyType" where
  "propertyTypeOf pid = (case map_of propertyTypeMap pid of Some t \<Rightarrow> t | None \<Rightarrow> 0)"

section \<open>Values as requested types\<close>

text \<open>\<open>propertyToType\<close>: a property type and a value; each accessor returns its zero value with
  \<open>ErrPropertyWrongType\<close> when the dynamic type differs.\<close>

record propertyToType =
  pt_t :: PropertyType
  pt_v :: prop_val

definition AsByte :: "propertyToType \<Rightarrow> byte \<times> go_error option" where
  "AsByte t = (case pt_v t of VByte v \<Rightarrow> (v, None) | _ \<Rightarrow> (0, Some (EProp ErrPropertyWrongType)))"

definition AsShort :: "propertyToType \<Rightarrow> uint16 \<times> go_error option" where
  "AsShort t = (case pt_v t of VShort v \<Rightarrow> (v, None) | _ \<Rightarrow> (0, Some (EProp ErrPropertyWrongType)))"

definition AsInt :: "propertyToType \<Rightarrow> uint32 \<times> go_error option" where
  "AsInt t = (case pt_v t of VInt v \<Rightarrow> (v, None) | _ \<Rightarrow> (0, Some (EProp ErrPropertyWrongType)))"

definition AsString :: "propertyToType \<Rightarrow> gostring \<times> go_error option" where
  "AsString t = (case pt_v t of VString v \<Rightarrow> (v, None) | _ \<Rightarrow> ([], Some (EProp ErrPropertyWrongType)))"

definition AsStringPair :: "propertyToType \<Rightarrow> StringPair \<times> go_error option" where
  "AsStringPair t =
     (case pt_v t of VStringPair v \<Rightarrow> (v, None)
      | _ \<Rightarrow> (StringPair [] [], Some (EProp ErrPropertyWrongType)))"

definition AsStringPairs :: "propertyToType \<Rightarrow> StringPair list \<times> go_error option" where
  "AsStringPairs t =
     (case pt_v t of VStringPairs v \<Rightarrow> (v, None) | _ \<Rightarrow> ([], Some (EProp ErrPropertyWrongType)))"

definition AsBinary :: "propertyToType \<Rightarrow> byte list \<times> go_error option" where
  "AsBinary t = (case pt_v t of VBytes v \<Rightarrow> (v, None) | _ \<Rightarrow> ([], Some (EProp ErrPropertyWrongType)))"

section \<open>Queries\<close>

definition DupAllowed :: "PropertyID \<Rightarrow> Type \<Rightarrow> bool" where
  "DupAllowed p t =
     (case map_of propertyAllowedMessageTypes p of
        None \<Rightarrow> False
      | Some d \<Rightarrow> (case map_of d t of Some b \<Rightarrow> b | None \<Rightarrow> False))"

definition PropertyID_IsValid :: "PropertyID \<Rightarrow> bool" where
  "PropertyID_IsValid p = (map_of propertyTypeMap p \<noteq> None)"

definition IsValidPacketType :: "PropertyID \<Rightarrow> Type \<Rightarrow> bool" where
  "IsValidPacketType p t =
     (case map_of propertyAllowedMessageTypes p of
        None \<Rightarrow> False
      | Some mT \<Rightarrow> map_of mT t \<noteq> None)"

definition property_Len :: "property \<Rightarrow> uint32 \<times> nat" where
  "property_Len p = (plen p, uvarintCalc (plen p))"

definition property_FullLen :: "property \<Rightarrow> uint32" where
  "property_FullLen p = plen p + of_nat (uvarintCalc (plen p))"

text \<open>Reading a nil map finds nothing.\<close>

definition props_list :: "property \<Rightarrow> (PropertyID \<times> prop_val) list" where
  "props_list p = (case props p of Some m \<Rightarrow> m | None \<Rightarrow> [])"

definition property_Get :: "property \<Rightarrow> PropertyID \<Rightarrow> propertyToType option" where
  "property_Get p pid =
     (case map_of (props_list p) pid of
        Some val \<Rightarrow> Some \<lparr>pt_t = propertyTypeOf pid, pt_v = val\<rparr>
      | None \<Rightarrow> None)"

text \<open>\<open>ForEach\<close>: the calls of the callback, in order.\<close>

definition property_ForEach :: "property \<Rightarrow> (PropertyID \<times> propertyToType) list" where
  "property_ForEach p =
     (case props p of
        None \<Rightarrow> []
      | Some m \<Rightarrow> map (\<lambda>(k, v). (k, \<lparr>pt_t = propertyTypeOf k, pt_v = v\<rparr>)) m)"

text \<open>\<open>p.properties[id] = val\<close>, which panics on the nil map.\<close>

definition props_assign :: "property \<Rightarrow> PropertyID \<Rightarrow> prop_val \<Rightarrow> property option" where
  "props_assign p pid val =
     (case props p of
        None \<Rightarrow> None
      | Some m \<Rightarrow> Some (p\<lparr>props := Some (AList.update pid val m)\<rparr>))"

section \<open>Encoded lengths\<close>

text \<open>The \<open>calcLen\<close> functions; their error result is nil in every branch.\<close>

definition calcLenByte :: "PropertyID \<Rightarrow> prop_val \<Rightarrow> nat" where
  "calcLenByte pid val =
     (let calc = 1 + uvarintCalc pid in
      case val of VByte _ \<Rightarrow> calc | VBytes vs \<Rightarrow> sum_list (map (\<lambda>_. calc) vs) | _ \<Rightarrow> 0)"

definition calcLenShort :: "PropertyID \<Rightarrow> prop_val \<Rightarrow> nat" where
  "calcLenShort pid val =
     (let calc = 2 + uvarintCalc pid in
      case val of VShort _ \<Rightarrow> calc | VShorts vs \<Rightarrow> sum_list (map (\<lambda>_. calc) vs) | _ \<Rightarrow> 0)"

definition calcLenInt :: "PropertyID \<Rightarrow> prop_val \<Rightarrow> nat" where
  "calcLenInt pid val =
     (let calc = 4 + uvarintCalc pid in
      case val of VInt _ \<Rightarrow> calc | VInts vs \<Rightarrow> sum_list (map (\<lambda>_. calc) vs) | _ \<Rightarrow> 0)"

definition calcLenVarInt :: "PropertyID \<Rightarrow> prop_val \<Rightarrow> nat" where
  "calcLenVarInt pid val =
     (let calc = (\<lambda>v. uvarintCalc v + uvarintCalc pid) in
      case val of VInt v \<Rightarrow> calc v | VInts vs \<Rightarrow> sum_list (map calc vs) | _ \<Rightarrow> 0)"

definition calcLenString :: "PropertyID \<Rightarrow> prop_val \<Rightarrow> nat" where
  "calcLenString pid val =
     (let calc = (\<lambda>n. 2 + n + uvarintCalc pid) in
      case val of VString v \<Rightarrow> calc (length v)
      | VStrings vs \<Rightarrow> sum_list (map (\<lambda>v. calc (length v)) vs) | _ \<Rightarrow> 0)"

text \<open>\<open>calcLenBinary\<close> switches on \<open>[][]string\<close> where \<open>encodeBinary\<close> switches on \<open>[][]byte\<close>.\<close>

definition calcLenBinary :: "PropertyID \<Rightarrow> prop_val \<Rightarrow> nat" where
  "calcLenBinary pid val =
     (let calc = (\<lambda>n. 2 + n + uvarintCalc pid) in
      case val of VBytes v \<Rightarrow> calc (length v)
      | VStringLists vs \<Rightarrow> sum_list (map (\<lambda>v. calc (length v)) vs) | _ \<Rightarrow> 0)"

definition calcLenStringPair :: "PropertyID \<Rightarrow> prop_val \<Rightarrow> nat" where
  "calcLenStringPair pid val =
     (let calc = (\<lambda>k v. 4 + k + v + uvarintCalc pid) in
      case val of VStringPair v \<Rightarrow> calc (length (pairK v)) (length (pairV v))
      | VStringPairs vs \<Rightarrow> sum_list (map (\<lambda>v. calc (length (pairK v)) (length (pairV v))) vs)
      | _ \<Rightarrow> 0)"

definition propertyCalcLen :: "(PropertyType \<times> (PropertyID \<Rightarrow> prop_val \<Rightarrow> nat)) list" where
  "propertyCalcLen =
     [(PropertyTypeByte, calcLenByte), (PropertyTypeShort, calcLenShort),
      (PropertyTypeInt, calcLenInt), (PropertyTypeVarInt, calcLenVarInt),
      (PropertyTypeString, calcLenString), (PropertyTypeStringPair, calcLenStringPair),
      (PropertyTypeBinary, calcLenBinary)]"

definition property_Set ::
    "property \<Rightarrow> Type \<Rightarrow> PropertyID \<Rightarrow> prop_val \<Rightarrow> (property \<times> go_error option) option" where
  "property_Set p t pid val =
     (case map_of propertyAllowedMessageTypes pid of
        None \<Rightarrow> Some (p, Some (EProp ErrPropertyInvalidID))
      | Some mT \<Rightarrow>
          if map_of mT t = None then Some (p, Some (EProp ErrPropertyPacketTypeMismatch))
          else do {
            fn \<leftarrow> map_of propertyCalcLen (propertyTypeOf pid);
            p' \<leftarrow> props_assign (p\<lparr>plen := plen p + of_nat (fn pid val)\<rparr>) pid val;
            Some (p', None) })"

section \<open>Decoding\<close>

type_synonym prop_decoder =
  "property \<Rightarrow> PropertyID \<Rightarrow> byte list \<Rightarrow> (property \<times> nat \<times> go_error option) option"

definition decodeByte :: prop_decoder where
  "decodeByte p pid from =
     (if length from < 1 then Some (p, 0, Some (ECode CodeMalformedPacket))
      else do {
        v \<leftarrow> go_index from 0;
        p' \<leftarrow> props_assign p pid (VByte v);
        Some (p', 1, None) })"

definition decodeShort :: prop_decoder where
  "decodeShort p pid from =
     (if length from < 2 then Some (p, 0, Some (ECode CodeMalformedPacket))
      else do {
        v \<leftarrow> be_uint16 from;
        p' \<leftarrow> props_assign p pid (VShort v);
        Some (p', 2, None) })"

definition decodeInt :: prop_decoder where
  "decodeInt p pid from =
     (if length from < 4 then Some (p, 0, Some (ECode CodeMalformedPacket))
      else do {
        v \<leftarrow> be_uint32 from;
        p' \<leftarrow> props_assign p pid (VInt v);
        Some (p', 4, None) })"

definition decodeVarInt :: prop_decoder where
  "decodeVarInt p pid from =
     (let (v, cnt) = uvarint from in
      if cnt \<le> 0 then Some (p, 0, Some (ECode CodeMalformedPacket))
      else do {
        p' \<leftarrow> props_assign p pid (VInt v);
        Some (p', nat cnt, None) })"

definition decodeString :: prop_decoder where
  "decodeString p pid from =
     (let (v, n, err) = ReadLPBytes from in
      if err \<noteq> None \<or> \<not> utf8_valid v then Some (p, 0, Some (ECode CodeMalformedPacket))
      else do {
        p' \<leftarrow> props_assign p pid (VString v);
        Some (p', n, None) })"

text \<open>\<open>p.properties[id].([]StringPair)\<close> panics when the entry has another dynamic type.\<close>

definition decodeStringPair :: prop_decoder where
  "decodeStringPair p pid from =
     (let (k, n, err) = ReadLPBytes from in
      if err \<noteq> None \<or> \<not> utf8_valid k then Some (p, n, Some (ECode CodeMalformedPacket))
      else do {
        from' \<leftarrow> go_slice_from from n;
        (let (v, n', err') = ReadLPBytes from' in
         if err' \<noteq> None \<or> \<not> utf8_valid v
         then Some (p, n + n', Some (ECode CodeMalformedPacket))
         else do {
           p1 \<leftarrow> (if map_of (props_list p) pid = None
                 then props_assign p pid (VStringPairs []) else Some p);
           ps \<leftarrow> (case map_of (props_list p1) pid of
                    Some (VStringPairs ps) \<Rightarrow> Some ps | _ \<Rightarrow> None);
           p2 \<leftarrow> props_assign p1 pid (VStringPairs (ps @ [StringPair k v]));
           Some (p2, n + n', None) }) })"

definition decodeBinary :: prop_decoder where
  "decodeBinary p pid from =
     (let (b, n, err) = ReadLPBytes from in
      if err \<noteq> None then Some (p, 0, Some (ECode CodeMalformedPacket))
      else do {
        p' \<leftarrow> props_assign p pid (VBytes b);
        Some (p', n, None) })"

definition propertyDecodeType :: "(PropertyType \<times> prop_decoder) list" where
  "propertyDecodeType =
     [(PropertyTypeByte, decodeByte), (PropertyTypeShort, decodeShort),
      (PropertyTypeInt, decodeInt), (PropertyTypeVarInt, decodeVarInt),
      (PropertyTypeString, decodeString), (PropertyTypeStringPair, decodeStringPair),
      (PropertyTypeBinary, decodeBinary)]"

function property_decode_loop ::
    "property \<Rightarrow> Type \<Rightarrow> byte list \<Rightarrow> nat \<Rightarrow> uint32 \<Rightarrow> (property \<times> nat \<times> go_error option) option" where
  "property_decode_loop p t from offset pLen =
     (if pLen = 0 then Some (p, offset, None)
      else (case go_slice_from from offset of
        None \<Rightarrow> None
      | Some sl \<Rightarrow>
         (case uvarint sl of (pid, count) \<Rightarrow>
            if count \<le> 0
            then Some (p, nat (int offset - count), Some (ECode CodeMalformedPacket))
            else if \<not> IsValidPacketType pid t then Some (p, offset, Some (ECode CodeMalformedPacket))
            else if map_of (props_list p) pid \<noteq> None \<and> \<not> DupAllowed pid t
            then Some (p, offset, Some (ECode CodeProtocolError))
            else (case map_of propertyDecodeType (propertyTypeOf pid) of
                None \<Rightarrow> Some (p, offset, Some (ECode CodeProtocolError))
              | Some decodeFunc \<Rightarrow>
                 (case decodeFunc p pid (drop (nat count) sl) of
                    None \<Rightarrow> None
                  | Some (p', decodeCount, err) \<Rightarrow>
                     (case err of
                        Some e \<Rightarrow> Some (p', offset + (nat count + decodeCount), Some e)
                      | None \<Rightarrow>
                         property_decode_loop
                           (p'\<lparr>plen := plen p' + of_nat (nat count + decodeCount)\<rparr>) t from
                           (offset + (nat count + decodeCount))
                           (pLen - of_nat (nat count + decodeCount))))))))"
  by pat_completeness auto
termination
proof (relation "measure (\<lambda>(p, t, from, offset, pLen). length from - offset)", goal_cases)
  case 1
  show ?case by simp
next
  case (2 p t fr offset pLen sl pid count)
  then have "nat count \<le> length sl" "0 < count" "offset \<le> length fr" "sl = drop offset fr"
    using uvarint_count(1) [of sl pid count] by (auto simp: go_slice_from_def split: if_splits)
  then show ?case by auto
qed

declare property_decode_loop.simps [simp del]

definition property_decode ::
    "property \<Rightarrow> Type \<Rightarrow> byte list \<Rightarrow> (property \<times> nat \<times> go_error option) option" where
  "property_decode p t from =
     (let (pLen, lCount) = uvarint from in
      if lCount \<le> 0 then Some (p, nat (- lCount), Some (ECode CodeMalformedPacket))
      else property_decode_loop p t from (nat lCount) pLen)"

section \<open>Encoding\<close>

definition writePrefixID :: "PropertyID \<Rightarrow> go_error writer" where
  "writePrefixID pid = w_put (uvarint_bytes (ucast pid))"

definition encodeByte :: "PropertyID \<Rightarrow> prop_val \<Rightarrow> go_error writer" where
  "encodeByte pid val =
     (let encode = (\<lambda>v. w_then (writePrefixID pid) (w_put [v])) in
      case val of VByte v \<Rightarrow> encode v | VBytes vs \<Rightarrow> w_all (map encode vs) | _ \<Rightarrow> w_skip)"

definition encodeShort :: "PropertyID \<Rightarrow> prop_val \<Rightarrow> go_error writer" where
  "encodeShort pid val =
     (let encode = (\<lambda>v. w_then (writePrefixID pid) (w_put (be_bytes16 v))) in
      case val of VShort v \<Rightarrow> encode v | VShorts vs \<Rightarrow> w_all (map encode vs) | _ \<Rightarrow> w_skip)"

definition encodeInt :: "PropertyID \<Rightarrow> prop_val \<Rightarrow> go_error writer" where
  "encodeInt pid val =
     (let encode = (\<lambda>v. w_then (writePrefixID pid) (w_put (be_bytes32 v))) in
      case val of VInt v \<Rightarrow> encode v | VInts vs \<Rightarrow> w_all (map encode vs) | _ \<Rightarrow> w_skip)"

definition encodeVarInt :: "PropertyID \<Rightarrow> prop_val \<Rightarrow> go_error writer" where
  "encodeVarInt pid val =
     (let encode = (\<lambda>v. w_then (writePrefixID pid) (w_put (uvarint_bytes (ucast v)))) in
      case val of VInt v \<Rightarrow> encode v | VInts vs \<Rightarrow> w_all (map encode vs) | _ \<Rightarrow> w_skip)"

definition encodeString :: "PropertyID \<Rightarrow> prop_val \<Rightarrow> go_error writer" where
  "encodeString pid val =
     (let encode = (\<lambda>v. w_then (writePrefixID pid) (w_noerr (WriteLPBytes v))) in
      case val of VString v \<Rightarrow> encode v | VStrings vs \<Rightarrow> w_all (map encode vs) | _ \<Rightarrow> w_skip)"

definition encodeStringPair :: "PropertyID \<Rightarrow> prop_val \<Rightarrow> go_error writer" where
  "encodeStringPair pid val =
     (let encode = (\<lambda>v. w_then (writePrefixID pid)
                      (w_then (w_noerr (WriteLPBytes (pairK v))) (w_noerr (WriteLPBytes (pairV v))))) in
      case val of VStringPair v \<Rightarrow> encode v
      | VStringPairs vs \<Rightarrow> w_all (map encode vs) | _ \<Rightarrow> w_skip)"

definition encodeBinary :: "PropertyID \<Rightarrow> prop_val \<Rightarrow> go_error writer" where
  "encodeBinary pid val =
     (let encode = (\<lambda>v. w_then (writePrefixID pid) (w_noerr (WriteLPBytes v))) in
      case val of VBytes v \<Rightarrow> encode v | VBytesList vs \<Rightarrow> w_all (map encode vs) | _ \<Rightarrow> w_skip)"

definition propertyEncodeType ::
    "(PropertyType \<times> (PropertyID \<Rightarrow> prop_val \<Rightarrow> go_error writer)) list" where
  "propertyEncodeType =
     [(PropertyTypeByte, encodeByte), (PropertyTypeShort, encodeShort),
      (PropertyTypeInt, encodeInt), (PropertyTypeVarInt, encodeVarInt),
      (PropertyTypeString, encodeString), (PropertyTypeStringPair, encodeStringPair),
      (PropertyTypeBinary, encodeBinary)]"

text \<open>One iteration of the loop of \<open>property.encode\<close>.\<close>

definition property_encode_one :: "PropertyID \<times> prop_val \<Rightarrow> go_error writer" where
  "property_encode_one kv =
     (case map_of propertyEncodeType (propertyTypeOf (fst kv)) of
        Some fn \<Rightarrow> fn (fst kv) (snd kv)
      | None \<Rightarrow> w_panic)"

text \<open>With a full length of one the code returns 1 and stores nothing: the zero byte is the
  buffer's initial value.\<close>

definition property_encode :: "property \<Rightarrow> go_error writer" where
  "property_encode p to =
     (let pLen = property_FullLen p in
      if unat pLen > length to then Some (to, 0, Some (EPkt ErrInsufficientBufferSize))
      else if pLen = 1 then Some (to, 1, None)
      else w_then (w_put (uvarint_bytes (ucast (plen p))))
             (w_all (map property_encode_one (props_list p))) to)"

section \<open>Well-formed properties\<close>

text \<open>
  The values the decoder can produce for a property type, within the limits of the wire
  format. \<open>wf_property t p\<close>: the map is not nil, its keys are distinct and allowed for packet
  type \<open>t\<close>, the values are of this kind, and \<open>p.len\<close> is the sum of their encoded lengths,
  below the \<open>2 ^ 29\<close> that \<open>uvarint\<close> can read back.
\<close>

definition wf_pair :: "StringPair \<Rightarrow> bool" where
  "wf_pair sp =
     (length (pairK sp) \<le> MaxLPString \<and> utf8_valid (pairK sp) \<and>
      length (pairV sp) \<le> MaxLPString \<and> utf8_valid (pairV sp))"

definition wf_val :: "PropertyType \<Rightarrow> prop_val \<Rightarrow> bool" where
  "wf_val ty val =
     (case val of
        VByte _ \<Rightarrow> ty = PropertyTypeByte
      | VShort _ \<Rightarrow> ty = PropertyTypeShort
      | VInt x \<Rightarrow> ty = PropertyTypeInt \<or> ty = PropertyTypeVarInt \<and> unat x < 2 ^ 29
      | VString s \<Rightarrow> ty = PropertyTypeString \<and> length s \<le> MaxLPString \<and> utf8_valid s
      | VBytes b \<Rightarrow> ty = PropertyTypeBinary \<and> length b \<le> MaxLPString
      | VStringPairs ps \<Rightarrow> ty = PropertyTypeStringPair \<and> ps \<noteq> [] \<and> list_all wf_pair ps
      | _ \<Rightarrow> False)"

definition wf_prop :: "Type \<Rightarrow> PropertyID \<times> prop_val \<Rightarrow> bool" where
  "wf_prop t kv = (IsValidPacketType (fst kv) t \<and> wf_val (propertyTypeOf (fst kv)) (snd kv))"

definition prop_len :: "PropertyID \<times> prop_val \<Rightarrow> nat" where
  "prop_len kv =
     (case map_of propertyCalcLen (propertyTypeOf (fst kv)) of
        Some fn \<Rightarrow> fn (fst kv) (snd kv) | None \<Rightarrow> 0)"

definition props_len :: "(PropertyID \<times> prop_val) list \<Rightarrow> nat" where
  "props_len m = sum_list (map prop_len m)"

definition wf_property :: "Type \<Rightarrow> property \<Rightarrow> bool" where
  "wf_property t p =
     (case props p of
        None \<Rightarrow> False
      | Some m \<Rightarrow> distinct (map fst m) \<and> list_all (wf_prop t) m \<and>
                  props_len m < 2 ^ 29 \<and> plen p = of_nat (props_len m))"

text \<open>The bytes of a property on the wire: its identifier before each of its values.\<close>

definition val_items :: "PropertyType \<Rightarrow> prop_val \<Rightarrow> byte list list" where
  "val_items ty val =
     (case val of
        VByte b \<Rightarrow> [[b]]
      | VShort x \<Rightarrow> [be_bytes16 x]
      | VInt x \<Rightarrow> [if ty = PropertyTypeVarInt then uvarint_bytes (ucast x) else be_bytes32 x]
      | VString s \<Rightarrow> [lp_bytes s]
      | VBytes b \<Rightarrow> [lp_bytes b]
      | VStringPairs ps \<Rightarrow> map (\<lambda>sp. lp_bytes (pairK sp) @ lp_bytes (pairV sp)) ps
      | _ \<Rightarrow> [])"

definition prop_bytes :: "PropertyID \<times> prop_val \<Rightarrow> byte list" where
  "prop_bytes kv = concat (map ((#) (ucast (fst kv))) (val_items (propertyTypeOf (fst kv)) (snd kv)))"

definition props_bytes :: "(PropertyID \<times> prop_val) list \<Rightarrow> byte list" where
  "props_bytes m = concat (map prop_bytes m)"

definition property_bytes :: "property \<Rightarrow> byte list" where
  "property_bytes p = uvarint_bytes (ucast (plen p)) @ props_bytes (props_list p)"

section \<open>Lemmas on the tables\<close>

lemma IsValidPacketType_mem:
  "IsValidPacketType pid t \<Longrightarrow> \<exists>mT. (pid, mT) \<in> set propertyAllowedMessageTypes \<and> t \<in> fst ` set mT"
  by (auto simp: IsValidPacketType_def map_of_eq_None_iff split: option.splits dest!: map_of_SomeD)

lemma IsValidPacketType_small:
  assumes "IsValidPacketType pid t"
  shows "pid < 0x80"
proof -
  have "list_all (\<lambda>(k, _). k < 0x80) propertyAllowedMessageTypes"
    by (simp add: propertyAllowedMessageTypes_def)
  with IsValidPacketType_mem [OF assms] show ?thesis by (auto simp: list_all_iff)
qed

lemma IsValidPacketType_DupAllowed:
  assumes "IsValidPacketType pid t" and "propertyTypeOf pid = PropertyTypeStringPair"
  shows "DupAllowed pid t"
proof -
  have "list_all (\<lambda>(k, ty). ty = PropertyTypeStringPair \<longrightarrow> k = PropertyUserProperty) propertyTypeMap"
    by (simp add: propertyTypeMap_def)
  moreover from assms(2) have "(pid, PropertyTypeStringPair) \<in> set propertyTypeMap"
    by (auto simp: propertyTypeOf_def split: option.splits dest: map_of_SomeD)
  ultimately have "pid = PropertyUserProperty" by (auto simp: list_all_iff)
  with assms(1) show ?thesis
    by (auto simp: IsValidPacketType_def DupAllowed_def propertyAllowedMessageTypes_def
        split: if_splits)
qed

lemma AList_update_new: "map_of m k = None \<Longrightarrow> AList.update k v m = m @ [(k, v)]"
  by (induction m) (auto split: if_splits)

lemma AList_update_last: "map_of m k = None \<Longrightarrow> AList.update k v (m @ [(k, u)]) = m @ [(k, v)]"
  by (induction m) (auto split: if_splits)

lemma of_nat_word_nonzero:
  "0 < n \<Longrightarrow> n < 2 ^ 32 \<Longrightarrow> (of_nat n :: uint32) \<noteq> 0"
  by (simp add: word_unat_eq_iff unat_of_nat)

end
