(* ===== verification/Property_Codec.thy ===== *)
theory Property_Codec
  imports Property
begin

text \<open>
  The codec of \<open>src/packet/property.go\<close>: the encoder writes the bytes \<open>property_bytes\<close>, the
  decoder reads a well-formed property set back from them whatever follows, and \<open>Set\<close> keeps
  the recorded length equal to the encoded one for a key that is not yet present.
\<close>

section \<open>Decoding one item\<close>

lemma ucast_small_id:
  assumes "(pid :: uint32) < 0x80"
  shows "(ucast pid :: byte) < 0x80" and "ucast (ucast pid :: byte) = pid"
proof -
  have "unat pid < 128" using assms by (simp add: word_less_nat_alt)
  then show "(ucast pid :: byte) < 0x80" "ucast (ucast pid :: byte) = pid"
    by (simp_all add: word_less_nat_alt word_unat_eq_iff unat_ucast_mod)
qed

lemma decode_loop_step:
  assumes fr: "fr = pre @ ucast pid # item @ rest"
    and valid: "IsValidPacketType pid t"
    and dup: "map_of (props_list p) pid = None \<or> DupAllowed pid t"
    and f: "map_of propertyDecodeType (propertyTypeOf pid) = Some f"
    and dec: "f p pid (item @ rest) = Some (p', length item, None)"
    and "pLen \<noteq> 0"
  shows "property_decode_loop p t fr (length pre) pLen =
    property_decode_loop (p'\<lparr>plen := plen p' + of_nat (1 + length item)\<rparr>) t fr
      (length pre + (1 + length item)) (pLen - of_nat (1 + length item))"
proof -
  have sl: "go_slice_from fr (length pre) = Some (ucast pid # item @ rest)"
    by (simp add: fr go_slice_from_def)
  have uv: "uvarint (ucast pid # item @ rest) = (pid, 1)"
    using ucast_small_id [OF IsValidPacketType_small [OF valid]] by (simp add: uvarint_Cons_short)
  show ?thesis
    using valid dup f dec assms(6) by (subst property_decode_loop.simps) (auto simp: sl uv)
qed

lemma decode_single:
  assumes "wf_val ty v" and "\<not> (\<exists>ps. v = VStringPairs ps)"
  shows "\<exists>f item. map_of propertyDecodeType ty = Some f \<and> val_items ty v = [item] \<and>
    (\<forall>p m pid rest. props p = Some m \<longrightarrow>
       f p pid (item @ rest) = Some (p\<lparr>props := Some (AList.update pid v m)\<rparr>, length item, None))"
  using assms
  by (cases v)
     (auto simp: wf_val_def propertyDecodeType_def val_items_def props_assign_def
       decodeByte_def decodeShort_def decodeInt_def decodeVarInt_def decodeString_def decodeBinary_def
       go_index_def ReadLPBytes_roundtrip uvarint_bytes_roundtrip)

lemma decode_pair:
  assumes "wf_pair sp" and "props p = Some m"
    and "m = m0 @ (if ps = [] then [] else [(pid, VStringPairs ps)])" and "map_of m0 pid = None"
  shows "decodeStringPair p pid ((lp_bytes (pairK sp) @ lp_bytes (pairV sp)) @ rest) =
     Some (p\<lparr>props := Some (m0 @ [(pid, VStringPairs (ps @ [sp]))])\<rparr>,
           length (lp_bytes (pairK sp) @ lp_bytes (pairV sp)), None)"
  using assms
  by (cases "ps = []")
     (auto simp: decodeStringPair_def ReadLPBytes_roundtrip wf_pair_def go_slice_from_def
       props_list_def props_assign_def AList_update_new AList_update_last map_add_def)

lemma property_eqI: "props p = props q \<Longrightarrow> plen p = plen q \<Longrightarrow> (p :: property) = q"
  by (cases p, cases q) simp

section \<open>Decoding a property set\<close>

text \<open>The entries of one property, read into a map that does not have it yet.\<close>

lemma decode_loop_pairs:
  assumes "IsValidPacketType pid t" and ty: "propertyTypeOf pid = PropertyTypeStringPair"
    and "list_all wf_pair qs" and m0: "map_of m0 pid = None"
    and "props p = Some (m0 @ (if ps = [] then [] else [(pid, VStringPairs ps)]))"
    and "fr = pre @ concat (map (\<lambda>sp. ucast pid # (lp_bytes (pairK sp) @ lp_bytes (pairV sp))) qs) @ rest"
    and "N = length (concat (map (\<lambda>sp. ucast pid # (lp_bytes (pairK sp) @ lp_bytes (pairV sp))) qs))"
    and "N + r < 2 ^ 32" and "ps @ qs \<noteq> []"
  shows "property_decode_loop p t fr (length pre) (of_nat (N + r)) =
     property_decode_loop
       \<lparr>props = Some (m0 @ [(pid, VStringPairs (ps @ qs))]), plen = plen p + of_nat N\<rparr>
       t fr (length pre + N) (of_nat r)"
  using assms(3,5-)
proof (induction qs arbitrary: p ps pre N)
  case Nil
  then show ?case by (cases p) simp
next
  case (Cons sp qs)
  define item where "item = lp_bytes (pairK sp) @ lp_bytes (pairV sp)"
  define tail :: "byte list" where
    "tail = concat (map (\<lambda>sp. ucast pid # (lp_bytes (pairK sp) @ lp_bytes (pairV sp))) qs)"
  have fr: "fr = pre @ ucast pid # item @ tail @ rest" and N: "N = 1 + length item + length tail"
    using Cons.prems by (simp_all add: item_def tail_def)
  have dec: "decodeStringPair p pid (item @ tail @ rest) =
      Some (p\<lparr>props := Some (m0 @ [(pid, VStringPairs (ps @ [sp]))])\<rparr>, length item, None)"
    unfolding item_def using Cons.prems(1,2) m0 by (intro decode_pair) auto
  have "of_nat (N + r) \<noteq> (0 :: uint32)"
    using Cons.prems(5) N by (intro of_nat_word_nonzero) auto
  then have "property_decode_loop p t fr (length pre) (of_nat (N + r)) =
     property_decode_loop
       (p\<lparr>props := Some (m0 @ [(pid, VStringPairs (ps @ [sp]))]), plen := plen p + of_nat (1 + length item)\<rparr>)
       t fr (length pre + (1 + length item)) (of_nat (N + r) - of_nat (1 + length item))"
    using decode_loop_step [where f = decodeStringPair, OF fr assms(1) _ _ dec]
      IsValidPacketType_DupAllowed [OF assms(1) ty]
    by (simp add: ty propertyDecodeType_def)
  also have "of_nat (N + r) - of_nat (1 + length item) = (of_nat (length tail + r) :: uint32)"
    by (simp add: N)
  also have "length pre + (1 + length item) = length (pre @ ucast pid # item)" by simp
  also have "property_decode_loop
       (p\<lparr>props := Some (m0 @ [(pid, VStringPairs (ps @ [sp]))]), plen := plen p + of_nat (1 + length item)\<rparr>)
       t fr (length (pre @ ucast pid # item)) (of_nat (length tail + r)) =
     property_decode_loop \<lparr>props = Some (m0 @ [(pid, VStringPairs ((ps @ [sp]) @ qs))]),
         plen = plen p + of_nat (1 + length item) + of_nat (length tail)\<rparr>
       t fr (length (pre @ ucast pid # item) + length tail) (of_nat r)"
    using Cons.prems N fr
    by (subst Cons.IH [where ps = "ps @ [sp]" and N = "length tail"]) (auto simp: tail_def)
  finally show ?case by (simp add: N algebra_simps)
qed

lemma decode_loop_prop:
  assumes wf: "wf_prop t (pid, v)" and m0: "map_of m0 pid = None"
    and p: "props p = Some m0"
    and fr: "fr = pre @ prop_bytes (pid, v) @ rest"
    and N: "N = length (prop_bytes (pid, v))" and r: "N + r < 2 ^ 32"
  shows "property_decode_loop p t fr (length pre) (of_nat (N + r)) =
     property_decode_loop \<lparr>props = Some (m0 @ [(pid, v)]), plen = plen p + of_nat N\<rparr>
       t fr (length pre + N) (of_nat r)"
proof (cases "\<exists>ps. v = VStringPairs ps")
  case True
  then obtain ps where v: "v = VStringPairs ps" by blast
  with wf have ty: "propertyTypeOf pid = PropertyTypeStringPair" and ps: "ps \<noteq> []" "list_all wf_pair ps"
    and valid: "IsValidPacketType pid t"
    by (auto simp: wf_prop_def wf_val_def)
  have bytes: "prop_bytes (pid, v) =
      concat (map (\<lambda>sp. ucast pid # (lp_bytes (pairK sp) @ lp_bytes (pairV sp))) ps)"
    by (simp add: prop_bytes_def v val_items_def o_def)
  show ?thesis
    using decode_loop_pairs [OF valid ty ps(2) m0 _ fr [unfolded bytes] N [unfolded bytes] r,
        where ps = "[]"] p ps(1)
    by (simp add: v)
next
  case False
  from wf have valid: "IsValidPacketType pid t" and wv: "wf_val (propertyTypeOf pid) v"
    by (simp_all add: wf_prop_def)
  from decode_single [OF wv False] obtain f item where
    f: "map_of propertyDecodeType (propertyTypeOf pid) = Some f"
    and item: "val_items (propertyTypeOf pid) v = [item]"
    and dec: "\<forall>p m pid rest. props p = Some m \<longrightarrow>
       f p pid (item @ rest) = Some (p\<lparr>props := Some (AList.update pid v m)\<rparr>, length item, None)"
    by blast
  have bytes: "prop_bytes (pid, v) = ucast pid # item" by (simp add: prop_bytes_def item)
  have N': "N = 1 + length item" by (simp add: N bytes)
  have "of_nat (N + r) \<noteq> (0 :: uint32)"
    using r N' by (intro of_nat_word_nonzero) auto
  moreover have "f p pid (item @ rest) =
      Some (p\<lparr>props := Some (m0 @ [(pid, v)])\<rparr>, length item, None)"
    using dec p AList_update_new [OF m0] by simp
  ultimately show ?thesis
    using decode_loop_step [of fr pre pid item rest t p f _ "of_nat (N + r)"] fr valid f m0 p
    by (cases p) (simp add: bytes N' props_list_def)
qed

lemma decode_loop_props:
  assumes "list_all (wf_prop t) m" and "distinct (map fst (m0 @ m))"
    and "props p = Some m0" and "fr = pre @ props_bytes m @ rest"
    and "length (props_bytes m) < 2 ^ 32"
  shows "property_decode_loop p t fr (length pre) (of_nat (length (props_bytes m))) =
     Some (\<lparr>props = Some (m0 @ m), plen = plen p + of_nat (length (props_bytes m))\<rparr>,
           length pre + length (props_bytes m), None)"
  using assms
proof (induction m arbitrary: m0 p pre)
  case Nil
  then have "p = \<lparr>props = Some m0, plen = plen p\<rparr>" by (intro property_eqI) simp_all
  with Nil show ?case by (subst property_decode_loop.simps) (simp add: props_bytes_def)
next
  case (Cons kv m)
  obtain pid v where kv: "kv = (pid, v)" by (cases kv)
  have m0: "map_of m0 pid = None" using Cons.prems(2) by (auto simp: kv map_of_eq_None_iff)
  have split: "props_bytes (kv # m) = prop_bytes (pid, v) @ props_bytes m"
    by (simp add: props_bytes_def kv)
  have wf: "wf_prop t (pid, v)" and fr: "fr = pre @ prop_bytes (pid, v) @ props_bytes m @ rest"
    and len: "length (prop_bytes (pid, v)) + length (props_bytes m) < 2 ^ 32"
    using Cons.prems(1,4,5) by (simp_all add: split) (simp add: kv)
  have "property_decode_loop p t fr (length pre) (of_nat (length (props_bytes (kv # m)))) =
     property_decode_loop
       \<lparr>props = Some (m0 @ [(pid, v)]), plen = plen p + of_nat (length (prop_bytes (pid, v)))\<rparr>
       t fr (length (pre @ prop_bytes (pid, v))) (of_nat (length (props_bytes m)))"
    using decode_loop_prop [OF wf m0 Cons.prems(3) fr refl len] by (simp add: split)
  also have "\<dots> = Some (\<lparr>props = Some ((m0 @ [(pid, v)]) @ m),
        plen = plen p + of_nat (length (prop_bytes (pid, v))) + of_nat (length (props_bytes m))\<rparr>,
        length (pre @ prop_bytes (pid, v)) + length (props_bytes m), None)"
    using Cons.prems len fr by (subst Cons.IH) (auto simp: kv)
  finally show ?case by (simp add: split) (simp add: kv algebra_simps)
qed

section \<open>Encoding\<close>

lemma propertyTypeOf_cases: "map_of propertyEncodeType (propertyTypeOf pid) \<noteq> None"
proof -
  have "list_all (\<lambda>(_, ty). ty < 7) propertyTypeMap" by (simp add: propertyTypeMap_def)
  then have "propertyTypeOf pid < 7"
    by (auto simp: propertyTypeOf_def list_all_iff split: option.splits dest!: map_of_SomeD)
  then have "unat (propertyTypeOf pid) < 7" by (simp add: word_less_nat_alt)
  then have "unat (propertyTypeOf pid) \<in> {0, 1, 2, 3, 4, 5, 6}" by auto
  then show ?thesis
    by (auto simp: propertyEncodeType_def word_unat_eq_iff)
qed

lemma emits_writePrefixID [emits_intros]:
  assumes "pid < 0x80"
  shows "emits (writePrefixID pid) [ucast pid]"
proof -
  have "unat pid < 128" using assms by (simp add: word_less_nat_alt)
  then have "(ucast pid :: uint64) < 0x80" "(ucast (ucast pid :: uint64) :: byte) = ucast pid"
    by (simp_all add: word_less_nat_alt word_unat_eq_iff unat_ucast_mod)
  then show ?thesis
    using emits_put [of "[ucast pid]"] by (simp add: writePrefixID_def uvarint_bytes_short)
qed

lemma emits_prefixed:
  assumes "pid < 0x80" and "emits w item"
  shows "emits (w_then (writePrefixID pid) w) (ucast pid # item)"
  using emits_then [OF emits_writePrefixID [OF assms(1)] assms(2)] by simp

lemma emits_encode_one:
  assumes "wf_prop t kv"
  shows "emits (property_encode_one kv) (prop_bytes kv)"
proof -
  obtain pid v where kv: "kv = (pid, v)" by (cases kv)
  from assms have wv: "wf_val (propertyTypeOf pid) v" and id: "pid < 0x80"
    using IsValidPacketType_small by (auto simp: wf_prop_def kv)
  have pair: "list_all2 emits (map (\<lambda>v. w_then (writePrefixID pid)
          (w_then (w_noerr (WriteLPBytes (pairK v))) (w_noerr (WriteLPBytes (pairV v))))) ps)
        (map (\<lambda>sp. ucast pid # lp_bytes (pairK sp) @ lp_bytes (pairV sp)) ps)"
    if "list_all wf_pair ps" for ps
    using that id
    by (auto simp: list_all2_conv_all_nth list_all_length wf_pair_def
         intro!: emits_prefixed emits_intros)
  show ?thesis
    using wv id
    by (cases v)
       (auto simp: kv wf_val_def property_encode_one_def propertyEncodeType_def prop_bytes_def
         val_items_def encodeByte_def encodeShort_def encodeInt_def encodeVarInt_def encodeString_def
         encodeBinary_def encodeStringPair_def o_def
         intro!: emits_prefixed pair emits_intros)
qed

lemma length_prop_bytes:
  assumes "wf_prop t kv"
  shows "length (prop_bytes kv) = prop_len kv"
proof -
  obtain pid v where kv: "kv = (pid, v)" by (cases kv)
  from assms have wv: "wf_val (propertyTypeOf pid) v" and id: "length (uvarint_bytes (ucast pid)) = 1"
    using IsValidPacketType_small uvarintCalc_short
    by (auto simp: wf_prop_def kv uvarintCalc_bytes [symmetric])
  show ?thesis
    using wv
    by (cases v)
       (auto simp: kv wf_val_def prop_len_def propertyCalcLen_def prop_bytes_def val_items_def id
         calcLenByte_def calcLenShort_def calcLenInt_def calcLenVarInt_def calcLenString_def
         calcLenBinary_def calcLenStringPair_def uvarintCalc_bytes o_def length_concat
         intro!: arg_cong [where f = sum_list])
qed

lemma length_props_bytes:
  "list_all (wf_prop t) m \<Longrightarrow> length (props_bytes m) = props_len m"
  by (induction m) (auto simp: props_bytes_def props_len_def length_prop_bytes)

lemma prop_len_pos:
  assumes "wf_prop t kv"
  shows "0 < prop_len kv"
proof -
  have "val_items (propertyTypeOf (fst kv)) (snd kv) \<noteq> []"
    using assms by (auto simp: wf_prop_def wf_val_def val_items_def split: prop_val.splits)
  then have "prop_bytes kv \<noteq> []" by (auto simp: prop_bytes_def)
  then show ?thesis using length_prop_bytes [OF assms] by (metis length_greater_0_conv)
qed

lemma wf_property_facts:
  assumes "wf_property t p"
  obtains m where "props p = Some m" and "props_list p = m" and "list_all (wf_prop t) m"
    and "distinct (map fst m)" and "props_len m < 2 ^ 29" and "plen p = of_nat (props_len m)"
    and "length (props_bytes m) = props_len m" and "unat (plen p) = props_len m"
proof -
  from assms obtain m where m: "props p = Some m" "list_all (wf_prop t) m" "distinct (map fst m)"
      "props_len m < 2 ^ 29" "plen p = of_nat (props_len m)"
    by (auto simp: wf_property_def split: option.splits)
  moreover have "unat (plen p) = props_len m" using m by (simp add: unat_of_nat)
  ultimately show ?thesis
    using that by (simp add: props_list_def length_props_bytes [OF m(2)])
qed

lemma unat_property_FullLen:
  assumes "unat (plen p) < 2 ^ 29"
  shows "unat (property_FullLen p) = unat (plen p) + length (uvarint_bytes (ucast (plen p)))"
proof -
  have "length (uvarint_bytes (ucast (plen p) :: uint64)) \<le> 5"
    using assms by (intro length_uvarint_bytes_le) (simp_all add: unat_ucast_mod)
  with assms show ?thesis
    by (simp add: property_FullLen_def uvarintCalc_bytes unat_word_ariths unat_of_nat)
qed

lemma length_property_bytes:
  assumes "wf_property t p"
  shows "length (property_bytes p) = unat (property_FullLen p)"
  using assms
  by (rule wf_property_facts) (simp add: property_bytes_def unat_property_FullLen)

lemma wf_property_empty:
  assumes "wf_property t p" and "property_FullLen p = 1"
  shows "property_bytes p = [0]"
proof -
  obtain m where m: "props_list p = m" "list_all (wf_prop t) m" "props_len m < 2 ^ 29"
      "unat (plen p) = props_len m"
    using assms(1) by (rule wf_property_facts)
  have "0 < length (uvarint_bytes (ucast (plen p)))" by simp
  moreover have "unat (plen p) + length (uvarint_bytes (ucast (plen p))) = 1"
    using unat_property_FullLen [of p] m assms(2) by simp
  ultimately have "unat (plen p) = 0" by linarith
  then have "plen p = 0" "props_len m = 0" using m(4) by (auto simp: word_unat_eq_iff)
  then have "m = []" using m(2) prop_len_pos [of t "hd m"] by (cases m) (auto simp: props_len_def)
  with \<open>plen p = 0\<close> m(1) show ?thesis
    by (simp add: property_bytes_def props_bytes_def uvarint_bytes_short)
qed

lemma emits_property_encode [emits_intros]:
  assumes "wf_property t p"
  shows "emits (property_encode p) (property_bytes p)"
proof (cases "property_FullLen p = 1")
  case True
  with wf_property_empty [OF assms True] show ?thesis
    by (simp add: emits_def property_encode_def)
next
  case False
  obtain m where m: "props_list p = m" "list_all (wf_prop t) m"
    using assms by (rule wf_property_facts)
  have "list_all2 emits (map property_encode_one m) (map prop_bytes m)"
    using m(2) by (auto simp: list_all2_conv_all_nth list_all_length intro: emits_encode_one)
  then have "emits (w_then (w_put (uvarint_bytes (ucast (plen p)))) (w_all (map property_encode_one m)))
      (property_bytes p)"
    unfolding property_bytes_def props_bytes_def m(1) by (intro emits_intros)
  with False length_property_bytes [OF assms] show ?thesis
    by (simp add: emits_def property_encode_def m(1))
qed

lemma property_decode_bytes:
  assumes "wf_property t p"
  shows "property_decode \<lparr>props = Some [], plen = 0\<rparr> t (property_bytes p @ rest) =
     Some (p, length (property_bytes p), None)"
proof -
  obtain m where m: "props p = Some m" "props_list p = m" "list_all (wf_prop t) m"
      "distinct (map fst m)" "props_len m < 2 ^ 29" "plen p = of_nat (props_len m)"
      "length (props_bytes m) = props_len m" "unat (plen p) = props_len m"
    using assms by (rule wf_property_facts)
  define pre where "pre = uvarint_bytes (ucast (plen p) :: uint64)"
  have uv: "uvarint (property_bytes p @ rest) = (plen p, int (length pre))"
    using uvarint_bytes_roundtrip [of "plen p" "props_bytes m @ rest"] m(5,8)
    by (simp add: property_bytes_def m(2) pre_def)
  have "0 < length pre" by (simp add: pre_def)
  moreover have "property_decode_loop \<lparr>props = Some [], plen = 0\<rparr> t (property_bytes p @ rest)
      (length pre) (of_nat (length (props_bytes m))) =
     Some (\<lparr>props = Some ([] @ m), plen = 0 + of_nat (length (props_bytes m))\<rparr>,
           length pre + length (props_bytes m), None)"
    using decode_loop_props [of t m "[]" "\<lparr>props = Some [], plen = 0\<rparr>"
        "property_bytes p @ rest" pre rest] m
    by (simp add: property_bytes_def pre_def)
  ultimately have "property_decode \<lparr>props = Some [], plen = 0\<rparr> t (property_bytes p @ rest) =
      Some (\<lparr>props = Some m, plen = plen p\<rparr>, length pre + length (props_bytes m), None)"
    unfolding property_decode_def uv by (simp add: m(6,7))
  moreover have "p = \<lparr>props = Some m, plen = plen p\<rparr>" using m(1) by (intro property_eqI) simp_all
  ultimately show ?thesis by (simp add: property_bytes_def pre_def m(2))
qed

section \<open>Decoding arbitrary bytes\<close>

text \<open>The map is not nil and holds only entries the packet type and the property's type allow.\<close>

definition typed_property :: "Type \<Rightarrow> property \<Rightarrow> bool" where
  "typed_property t p =
     (case props p of None \<Rightarrow> False | Some m \<Rightarrow> list_all (wf_prop t) m \<and> distinct (map fst m))"

lemma typed_property_assign:
  assumes "typed_property t p" and "wf_prop t (pid, v)"
  shows "\<exists>p'. props_assign p pid v = Some p' \<and> typed_property t p' \<and> plen p' = plen p \<and>
    map_of (props_list p') pid = Some v"
proof -
  have upd: "set (AList.update k u m) \<subseteq> insert (k, u) (set m)" for k and u :: prop_val and m
    by (induction m) auto
  from assms obtain m where m: "props p = Some m" "list_all (wf_prop t) m" "distinct (map fst m)"
    by (auto simp: typed_property_def split: option.splits)
  then show ?thesis
    using assms(2) upd [of pid v m]
    by (auto simp: props_assign_def typed_property_def list_all_iff distinct_update props_list_def
        update_conv')
qed

lemma typed_property_plen [simp]: "typed_property t (p\<lparr>plen := n\<rparr>) = typed_property t p"
  by (simp add: typed_property_def)

text \<open>A decoding step that does not panic, stays within its input and keeps the entries typed.\<close>

definition decode_good ::
    "Type \<Rightarrow> byte list \<Rightarrow> (property \<times> nat \<times> go_error option) option \<Rightarrow> bool" where
  "decode_good t buf r =
     (case r of None \<Rightarrow> False | Some (p', n, err) \<Rightarrow> n \<le> length buf \<and> typed_property t p')"

lemma decode_good_fail:
  "typed_property t p \<Longrightarrow> n \<le> length buf \<Longrightarrow> decode_good t buf (Some (p, n, err))"
  by (simp add: decode_good_def)

lemma decode_good_assign:
  assumes "typed_property t p" and "wf_prop t (pid, v)" and "n \<le> length buf"
  shows "decode_good t buf (do { p' \<leftarrow> props_assign p pid v; Some (p', n, None) })"
  using typed_property_assign [OF assms(1,2)] assms(3) by (auto simp: decode_good_def)

lemma ReadLPBytes_bounds:
  assumes "ReadLPBytes buf = (b, n, err)"
  shows "length b \<le> MaxLPString" and "n \<le> length buf"
  using assms ReadLPBytes_count [OF assms] ReadLPBytes_ok [of buf b n]
  by (cases err; auto simp: ReadLPBytes_def Let_def MaxLPString_def split: if_splits)+

lemma typed_StringPairs:
  assumes "typed_property t p" and "propertyTypeOf pid = PropertyTypeStringPair"
  obtains m where "props p = Some m" and "map_of m pid = None"
  | m ps where "props p = Some m" and "map_of m pid = Some (VStringPairs ps)" and "list_all wf_pair ps"
proof -
  from assms(1) obtain m where m: "props p = Some m" "list_all (wf_prop t) m"
    by (auto simp: typed_property_def split: option.splits)
  show ?thesis
  proof (cases "map_of m pid")
    case (Some v)
    then have "wf_prop t (pid, v)" using m(2) by (auto simp: list_all_iff dest: map_of_SomeD)
    then have "\<exists>ps. v = VStringPairs ps \<and> list_all wf_pair ps"
      using assms(2) by (cases v) (auto simp: wf_prop_def wf_val_def)
    with Some m(1) that(2) show ?thesis by blast
  qed (use m(1) that(1) in blast)
qed

lemma decode_good_StringPair:
  assumes ty: "typed_property t p" and valid: "IsValidPacketType pid t"
    and pair: "propertyTypeOf pid = PropertyTypeStringPair"
  shows "decode_good t buf (decodeStringPair p pid buf)"
proof -
  obtain k n err where k: "ReadLPBytes buf = (k, n, err)" by (cases "ReadLPBytes buf")
  obtain v n' err' where v: "ReadLPBytes (drop n buf) = (v, n', err')"
    by (cases "ReadLPBytes (drop n buf)")
  note n = ReadLPBytes_bounds [OF k] and n' = ReadLPBytes_bounds [OF v]
  show ?thesis
  proof (cases "err = None \<and> utf8_valid k \<and> err' = None \<and> utf8_valid v")
    case False
    then show ?thesis
      using n n' ty by (auto simp: decodeStringPair_def k v go_slice_from_def intro!: decode_good_fail)
  next
    case True
    then have wp: "wf_pair (StringPair k v)" using n n' by (simp add: wf_pair_def)
    have "\<exists>ps. list_all wf_pair ps \<and> decodeStringPair p pid buf =
        do { p' \<leftarrow> props_assign p pid (VStringPairs (ps @ [StringPair k v])); Some (p', n + n', None) }"
    proof (rule typed_StringPairs [OF ty pair])
      fix m assume "props p = Some m" "map_of m pid = None"
      then show ?thesis
        using True n(2)
        by (intro exI [of _ "[]"])
           (auto simp: decodeStringPair_def k v go_slice_from_def props_list_def props_assign_def
             AList_update_new AList_update_last map_add_def)
    next
      fix m ps assume "props p = Some m" "map_of m pid = Some (VStringPairs ps)" "list_all wf_pair ps"
      then show ?thesis
        using True n(2)
        by (intro exI [of _ ps])
           (auto simp: decodeStringPair_def k v go_slice_from_def props_list_def props_assign_def)
    qed
    then obtain ps where ps: "list_all wf_pair ps" and eq: "decodeStringPair p pid buf =
        do { p' \<leftarrow> props_assign p pid (VStringPairs (ps @ [StringPair k v])); Some (p', n + n', None) }"
      by blast
    have "wf_prop t (pid, VStringPairs (ps @ [StringPair k v]))"
      using valid pair ps wp by (simp add: wf_prop_def wf_val_def)
    then show ?thesis unfolding eq using ty n n' by (intro decode_good_assign) auto
  qed
qed

lemma decode_good_item:
  assumes ty: "typed_property t p" and valid: "IsValidPacketType pid t"
    and f: "map_of propertyDecodeType (propertyTypeOf pid) = Some f"
  shows "decode_good t buf (f p pid buf)"
proof -
  note fail = decode_good_fail [OF ty]
  have assign: "decode_good t buf (do { p' \<leftarrow> props_assign p pid v; Some (p', n, None) })"
    if "wf_val (propertyTypeOf pid) v" "n \<le> length buf" for v n
    using decode_good_assign [OF ty, of pid v] that valid by (simp add: wf_prop_def)
  obtain x c where x: "uvarint buf = (x, c)" by (cases "uvarint buf")
  obtain b n err where b: "ReadLPBytes buf = (b, n, err)" by (cases "ReadLPBytes buf")
  consider "f = decodeByte" "propertyTypeOf pid = 0" | "f = decodeShort" "propertyTypeOf pid = 1"
    | "f = decodeInt" "propertyTypeOf pid = 2" | "f = decodeVarInt" "propertyTypeOf pid = 3"
    | "f = decodeString" "propertyTypeOf pid = 4" | "f = decodeStringPair" "propertyTypeOf pid = 5"
    | "f = decodeBinary" "propertyTypeOf pid = 6"
    using f by (auto simp: propertyDecodeType_def split: if_splits)
  then show ?thesis
  proof cases
    case 4
    then show ?thesis
      using fail assign [of "VInt x" "nat c"] uvarint_count(1) [OF x] uvarint_range [OF x]
      by (auto simp: decodeVarInt_def wf_val_def x)
  next
    case 5
    then show ?thesis
      using fail assign [of "VString b" n] ReadLPBytes_bounds [OF b]
      by (auto simp: decodeString_def wf_val_def b)
  next
    case 6
    then show ?thesis using decode_good_StringPair [OF ty valid] by simp
  next
    case 7
    then show ?thesis
      using fail assign [of "VBytes b" n] ReadLPBytes_bounds [OF b]
      by (auto simp: decodeBinary_def wf_val_def b)
  qed (auto simp: decodeByte_def decodeShort_def decodeInt_def wf_val_def go_index_def
        be_uint16_def be_uint32_def Suc_le_eq intro!: fail assign)
qed

lemma decode_good_loop:
  assumes "typed_property t p" and "offset \<le> length buf"
  shows "decode_good t buf (property_decode_loop p t buf offset pLen)"
  using assms
proof (induction p t buf offset pLen rule: property_decode_loop.induct)
  case (1 p t buf offset pLen)
  have sl: "go_slice_from buf offset = Some (drop offset buf)"
    using "1.prems" by (simp add: go_slice_from_def)
  obtain pid count where uv: "uvarint (drop offset buf) = (pid, count)"
    by (cases "uvarint (drop offset buf)")
  note cnt = uvarint_count [OF uv]
  show ?case
  proof (cases "pLen \<noteq> 0 \<and> 0 < count \<and> IsValidPacketType pid t \<and>
      (map_of (props_list p) pid = None \<or> DupAllowed pid t)")
    case False
    then show ?thesis
      using "1.prems" cnt
      by (subst property_decode_loop.simps) (auto simp: sl uv intro!: decode_good_fail)
  next
    case True
    then have ok: "pLen \<noteq> 0" "\<not> count \<le> 0" "\<not> \<not> IsValidPacketType pid t"
      "\<not> (map_of (props_list p) pid \<noteq> None \<and> \<not> DupAllowed pid t)" by auto
    show ?thesis
    proof (cases "map_of propertyDecodeType (propertyTypeOf pid)")
      case None
      with ok "1.prems" show ?thesis
        by (subst property_decode_loop.simps) (auto simp: sl uv intro!: decode_good_fail)
    next
      case (Some f)
      obtain p' n err where f: "f p pid (drop (nat count) (drop offset buf)) = Some (p', n, err)"
        and n: "n \<le> length (drop (nat count) (drop offset buf))" and ty: "typed_property t p'"
        using decode_good_item [OF "1.prems"(1) _ Some, of "drop (nat count) (drop offset buf)"] ok
        by (auto simp: decode_good_def split: option.splits)
      have bound: "offset + (nat count + n) \<le> length buf" using n cnt "1.prems"(2) ok(2) by auto
      show ?thesis
      proof (cases err)
        case None
        then show ?thesis
          using "1.IH" [OF ok(1) sl uv [symmetric] ok(2-4) Some f refl refl None] ty bound ok Some f
          by (subst property_decode_loop.simps) (auto simp: sl uv)
      next
        case (Some e)
        then show ?thesis
          using ty bound ok \<open>map_of propertyDecodeType (propertyTypeOf pid) = Some f\<close> f
          by (subst property_decode_loop.simps) (auto simp: sl uv intro!: decode_good_fail)
      qed
    qed
  qed
qed

lemma decode_good_property:
  assumes "typed_property t p"
  shows "decode_good t buf (property_decode p t buf)"
proof -
  obtain pLen c where uv: "uvarint buf = (pLen, c)" by (cases "uvarint buf")
  show ?thesis
    using uvarint_count [OF uv] assms
    by (auto simp: property_decode_def uv intro!: decode_good_fail decode_good_loop)
qed

lemma typed_property_new [simp]: "typed_property t \<lparr>props = Some [], plen = n\<rparr>"
  by (simp add: typed_property_def)

section \<open>Setting a property\<close>

lemma property_Set_ok:
  assumes "props p = Some m" and "IsValidPacketType pid t"
  shows "property_Set p t pid v =
     Some (\<lparr>props = Some (AList.update pid v m), plen = plen p + of_nat (prop_len (pid, v))\<rparr>, None)"
proof -
  from assms(2) obtain mT where mT: "map_of propertyAllowedMessageTypes pid = Some mT" "map_of mT t \<noteq> None"
    by (auto simp: IsValidPacketType_def split: option.splits)
  obtain fn where fn: "map_of propertyCalcLen (propertyTypeOf pid) = Some fn"
    using propertyTypeOf_cases [of pid] by (auto simp: propertyEncodeType_def propertyCalcLen_def split: if_splits)
  with assms(1) mT show ?thesis
    by (cases p) (auto simp: property_Set_def props_assign_def prop_len_def)
qed

lemma props_len_append [simp]: "props_len (m @ n) = props_len m + props_len n"
  by (simp add: props_len_def)

lemma props_len_update:
  assumes "map_of m pid = Some u" and "prop_len (pid, u) = prop_len (pid, v)"
  shows "props_len (AList.update pid v m) = props_len m" and "prop_len (pid, v) \<le> props_len m"
  using assms by (induction m) (auto simp: props_len_def split: if_splits)

lemma property_Set_wf:
  assumes wf: "wf_property t p" and valid: "IsValidPacketType pid t"
    and val: "wf_val (propertyTypeOf pid) v" and fresh: "map_of (props_list p) pid = None"
    and room: "props_len (props_list p) + prop_len (pid, v) < 2 ^ 29"
  shows "\<exists>p'. property_Set p t pid v = Some (p', None) \<and> wf_property t p' \<and>
    props_list p' = props_list p @ [(pid, v)]"
proof -
  obtain m where m: "props p = Some m" "props_list p = m" "list_all (wf_prop t) m"
      "distinct (map fst m)" "plen p = of_nat (props_len m)"
    using wf by (rule wf_property_facts)
  have upd: "AList.update pid v m = m @ [(pid, v)]" using fresh m(2) by (simp add: AList_update_new)
  have "pid \<notin> fst ` set m" using fresh m(2) by (simp add: map_of_eq_None_iff)
  with m valid val room show ?thesis
    by (simp add: property_Set_ok [OF m(1) valid] upd wf_property_def props_list_def wf_prop_def props_len_def)
qed

section \<open>Properties\<close>

text \<open>
  A well-formed set of V5.0 properties survives the wire: the encoder stores exactly
  \<open>property_bytes\<close>, and the decoder, started on an empty set, reads them back whatever bytes
  follow, with their number.
\<close>

theorem property_roundtrip:
  assumes "wf_property t p"
  shows "emits (property_encode p) (property_bytes p) \<and>
    property_decode \<lparr>props = Some [], plen = 0\<rparr> t (property_bytes p @ rest) =
      Some (p, length (property_bytes p), None)"
  using emits_property_encode [OF assms] property_decode_bytes [OF assms] by blast

definition ex_property :: property where
  "ex_property =
     \<lparr>props = Some [(PropertySessionExpiryInterval, VInt 5),
                    (PropertyUserProperty, VStringPairs [StringPair [0x61] [0x62], StringPair [0x61] []])],
      plen = 18\<rparr>"

theorem property_roundtrip_witness:
  "emits (property_encode ex_property) (property_bytes ex_property) \<and>
   property_decode \<lparr>props = Some [], plen = 0\<rparr> CONNECT (property_bytes ex_property @ [1]) =
     Some (ex_property, length (property_bytes ex_property), None)"
  by (rule property_roundtrip)
     (simp add: ex_property_def wf_property_def wf_prop_def wf_val_def wf_pair_def MaxLPString_def
       IsValidPacketType_def propertyAllowedMessageTypes_def propertyTypeOf_def propertyTypeMap_def
       props_len_def prop_len_def propertyCalcLen_def calcLenInt_def calcLenStringPair_def uvarintCalc_short)

text \<open>
  C40. On arbitrary bytes the property decoder does not panic: it returns with an offset inside
  the buffer, and every property it has stored by then is one the packet type allows, with a
  value of the type and within the limits the table gives for it.
\<close>

theorem property_decode_safe:
  "case property_decode \<lparr>props = Some [], plen = 0\<rparr> t buf of
     None \<Rightarrow> False
   | Some (p, n, err) \<Rightarrow> n \<le> length buf \<and> typed_property t p"
  using decode_good_property [OF typed_property_new, of t buf 0] by (simp add: decode_good_def)

text \<open>
  Setting a property that is not present yet, to a value of its type, keeps the set well
  formed: the recorded length stays the encoded length, and the property can be read back.
\<close>

theorem property_Set_fresh:
  assumes "wf_property t p" and "IsValidPacketType pid t" and "wf_val (propertyTypeOf pid) v"
    and "map_of (props_list p) pid = None" and "props_len (props_list p) + prop_len (pid, v) < 2 ^ 29"
  shows "\<exists>p'. property_Set p t pid v = Some (p', None) \<and> wf_property t p' \<and>
    property_Get p' pid = Some \<lparr>pt_t = propertyTypeOf pid, pt_v = v\<rparr>"
proof -
  obtain p' where p': "property_Set p t pid v = Some (p', None)" "wf_property t p'"
      "props_list p' = props_list p @ [(pid, v)]"
    using property_Set_wf [OF assms] by blast
  moreover have "map_of (props_list p') pid = Some v"
    using assms(4) by (simp add: p'(3) map_add_def)
  ultimately show ?thesis by (simp add: property_Get_def)
qed

theorem property_Set_fresh_witness:
  "\<exists>p'. property_Set \<lparr>props = Some [], plen = 0\<rparr> CONNACK PropertyReceiveMaximum (VShort 9) = Some (p', None) \<and>
    wf_property CONNACK p' \<and>
    property_Get p' PropertyReceiveMaximum =
      Some \<lparr>pt_t = propertyTypeOf PropertyReceiveMaximum, pt_v = VShort 9\<rparr>"
  by (rule property_Set_fresh)
     (simp_all add: wf_property_def wf_val_def props_list_def props_len_def prop_len_def
       IsValidPacketType_def propertyAllowedMessageTypes_def propertyTypeOf_def propertyTypeMap_def
       propertyCalcLen_def calcLenShort_def uvarintCalc_short)

text \<open>
  Setting a property that is present again adds its length a second time: the recorded
  length of a well-formed set no longer is the length of its encoding.
\<close>

theorem property_Set_overwrite:
  assumes "wf_property t p" and "map_of (props_list p) pid = Some u" and "wf_prop t (pid, v)"
    and "prop_len (pid, u) = prop_len (pid, v)"
  shows "\<exists>p'. property_Set p t pid v = Some (p', None) \<and> map_of (props_list p') pid = Some v \<and>
    length (props_bytes (props_list p')) = length (props_bytes (props_list p)) \<and>
    unat (plen p') = length (props_bytes (props_list p')) + prop_len (pid, v)"
proof -
  obtain m where m: "props p = Some m" "props_list p = m" "list_all (wf_prop t) m"
      "distinct (map fst m)" "props_len m < 2 ^ 29" "plen p = of_nat (props_len m)"
      "length (props_bytes m) = props_len m"
    using assms(1) by (rule wf_property_facts)
  note len = props_len_update [OF assms(2) [unfolded m(2)] assms(4)]
  have wf': "list_all (wf_prop t) (AList.update pid v m)"
    using m(3) assms(3) by (induction m) auto
  have "unat (plen p + of_nat (prop_len (pid, v))) = props_len m + prop_len (pid, v)"
    using m(5,6) len(2) by (simp add: unat_word_ariths unat_of_nat)
  then show ?thesis
    using property_Set_ok [OF m(1), of pid t v] assms(3) length_props_bytes [OF wf'] len m(2,7)
    by (simp add: wf_prop_def props_list_def update_conv')
qed

theorem property_Set_overwrite_witness:
  "\<exists>p'. property_Set \<lparr>props = Some [(PropertyReceiveMaximum, VShort 9)], plen = 3\<rparr> CONNACK
      PropertyReceiveMaximum (VShort 4) = Some (p', None) \<and>
    map_of (props_list p') PropertyReceiveMaximum = Some (VShort 4) \<and>
    length (props_bytes (props_list p')) =
      length (props_bytes (props_list \<lparr>props = Some [(PropertyReceiveMaximum, VShort 9)], plen = 3\<rparr>)) \<and>
    unat (plen p') = length (props_bytes (props_list p')) + prop_len (PropertyReceiveMaximum, VShort 4)"
  by (rule property_Set_overwrite [where u = "VShort 9"])
     (simp_all add: wf_property_def wf_prop_def wf_val_def props_list_def props_len_def prop_len_def
       IsValidPacketType_def propertyAllowedMessageTypes_def propertyTypeOf_def propertyTypeMap_def
       propertyCalcLen_def calcLenShort_def uvarintCalc_short)

end
