(* ===== verification/Header.thy ===== *)
theory Header
  imports Property_Codec
begin

text \<open>
  \<open>src/packet/header.go\<close>: the fixed header every packet embeds. Go's embedding is record
  extension, so the operations here are polymorphic in the rest of the packet, and the
  callbacks \<open>cb.size\<close>, \<open>cb.encode\<close> and \<open>cb.decode\<close> are arguments of the operations that call
  them: \<open>newMessage\<close> fills them with the methods of the packet itself.

  The locale \<open>provider\<close> is the contract behind the interface \<open>Provider\<close> of \<open>packet.go\<close>: what
  \<open>encodeMessage\<close> writes is as long as \<open>size\<close> says, and \<open>decodeMessage\<close> reads it back. From
  it follow, once for all packets, that \<open>Encode\<close> fills its buffer exactly and that the header
  and the body survive the round trip.
\<close>

section \<open>State\<close>

record header =
  properties :: property
  packetID :: "byte list"
  remLen :: int32
  mFlags :: byte
  mType :: Type
  h_version :: ProtocolVersion

definition maxRemainingLength :: int where
  "maxRemainingLength = 256 * 1024 * 1024 - 1"

section \<open>Accessors\<close>

definition header_Name :: "'a header_scheme \<Rightarrow> string" where
  "header_Name h = Type_Name (mType h)"

definition header_Desc :: "'a header_scheme \<Rightarrow> string" where
  "header_Desc h = Type_Desc (mType h)"

definition header_ID :: "'a header_scheme \<Rightarrow> (IDType \<times> go_error option) option" where
  "header_ID h =
     (if packetID h = [] then Some (0, Some (EPkt ErrNotSet))
      else do { v \<leftarrow> be_uint16 (packetID h); Some (v, None) })"

definition header_PropertyGet :: "'a header_scheme \<Rightarrow> PropertyID \<Rightarrow> propertyToType option" where
  "header_PropertyGet h pid =
     (if h_version h \<noteq> ProtocolV50 then None else property_Get (properties h) pid)"

definition header_PropertySet ::
    "'a header_scheme \<Rightarrow> PropertyID \<Rightarrow> prop_val \<Rightarrow> ('a header_scheme \<times> go_error option) option" where
  "header_PropertySet h pid val =
     (if h_version h \<noteq> ProtocolV50 then Some (h, Some (EPkt ErrNotSupported))
      else do {
        (p, err) \<leftarrow> property_Set (properties h) (mType h) pid val;
        Some (h\<lparr>properties := p\<rparr>, err) })"

definition header_PropertyForEach ::
    "'a header_scheme \<Rightarrow> (PropertyID \<times> propertyToType) list \<times> go_error option" where
  "header_PropertyForEach h =
     (if h_version h \<noteq> ProtocolV50 then ([], Some (EPkt ErrNotSupported))
      else (property_ForEach (properties h), None))"

definition header_setType :: "Type \<Rightarrow> 'a header_scheme \<Rightarrow> 'a header_scheme" where
  "header_setType t h = h\<lparr>mType := t, mFlags := DefaultFlags t\<rparr>"

section \<open>The packet identifier\<close>

text \<open>\<open>if len(h.packetID) == 0 { h.packetID = make([]byte, 2) }\<close>\<close>

definition alloc_packetID :: "'a header_scheme \<Rightarrow> byte list" where
  "alloc_packetID h = (if packetID h = [] then [0, 0] else packetID h)"

definition header_setPacketID :: "IDType \<Rightarrow> 'a header_scheme \<Rightarrow> 'a header_scheme option" where
  "header_setPacketID v h =
     (if 2 \<le> length (alloc_packetID h)
      then Some (h\<lparr>packetID := be_bytes16 v @ drop 2 (alloc_packetID h)\<rparr>) else None)"

definition header_decodePacketID :: "byte list \<Rightarrow> 'a header_scheme \<Rightarrow> 'a header_scheme \<times> nat" where
  "header_decodePacketID src h =
     (let (b, n) = go_copy (alloc_packetID h) src in (h\<lparr>packetID := b\<rparr>, n))"

definition header_encodePacketID :: "'a header_scheme \<Rightarrow> go_error writer" where
  "header_encodePacketID h = w_copy (packetID h)"

section \<open>Sizes\<close>

definition header_setRemainingLength ::
    "int32 \<Rightarrow> 'a header_scheme \<Rightarrow> 'a header_scheme \<times> go_error option" where
  "header_setRemainingLength r h =
     (if sint r > maxRemainingLength \<or> sint r < 0 then (h, Some (EPkt ErrInvalidLength))
      else (h\<lparr>remLen := r\<rparr>, None))"

definition header_size :: "'a header_scheme \<Rightarrow> nat" where
  "header_size h = 1 + uvarintCalc (remLen h)"

definition header_Size ::
    "('a header_scheme \<Rightarrow> nat) \<Rightarrow> 'a header_scheme \<Rightarrow> 'a header_scheme \<times> nat \<times> go_error option" where
  "header_Size cb_size h =
     (let ml = cb_size h in
      case header_setRemainingLength (of_nat ml) h of
        (h', Some e) \<Rightarrow> (h', 0, Some e)
      | (h', None) \<Rightarrow> (h', header_size h' + ml, None))"

section \<open>Encoding\<close>

text \<open>The stores of \<open>Encode\<close> once the size is known; \<open>uint64(h.remLen)\<close> extends the sign.\<close>

definition header_store :: "go_error writer \<Rightarrow> 'a header_scheme \<Rightarrow> go_error writer" where
  "header_store cb_encode h =
     w_then (w_put [push_bit offsetPacketType (mType h) OR mFlags h])
       (w_then (w_put (uvarint_bytes (scast (remLen h)))) cb_encode)"

definition header_Encode ::
    "('a header_scheme \<Rightarrow> nat) \<Rightarrow> ('a header_scheme \<Rightarrow> go_error writer) \<Rightarrow> 'a header_scheme \<Rightarrow>
     byte list \<Rightarrow> ('a header_scheme \<times> byte list \<times> nat \<times> go_error option) option" where
  "header_Encode cb_size cb_encode h to =
     (case header_Size cb_size h of
        (h', _, Some e) \<Rightarrow> Some (h', to, 0, Some e)
      | (h', expectedSize, None) \<Rightarrow>
          if expectedSize > length to
          then Some (h', to, expectedSize, Some (EPkt ErrInsufficientBufferSize))
          else do {
            (to', n, err) \<leftarrow> header_store (cb_encode h') h' to;
            Some (h', to', n, err) })"

section \<open>Decoding\<close>

definition header_decode ::
    "('a header_scheme \<Rightarrow> byte list \<Rightarrow> ('a header_scheme, go_error) decoded) \<Rightarrow>
     'a header_scheme \<Rightarrow> byte list \<Rightarrow> ('a header_scheme, go_error) decoded" where
  "header_decode cb_decode h0 from = do {
     b \<leftarrow> go_index from 0;
     let h = h0\<lparr>mType := drop_bit offsetPacketType b, mFlags := b AND maskMessageFlags\<rparr>;
     let reject =
       (if mType h \<noteq> PUBLISH \<and> mFlags h \<noteq> DefaultFlags (mType h) then True
        else \<not> Qos_IsValid (drop_bit offsetPublishFlagQoS (mFlags h AND maskPublishFlagQoS)));
     if reject
     then Some (h, 0, Some (ECode (if h_version h = ProtocolV50 then CodeMalformedPacket
                                   else CodeRefusedServerUnavailable)))
     else do {
       sl \<leftarrow> go_slice_from from 1;
       let (rl, m) = uvarint sl;
       if m \<le> 0 then Some (h, 1, Some (EPkt ErrInsufficientDataSize))
       else do {
         let offset = 1 + nat m;
         let h' = h\<lparr>remLen := rl\<rparr>;
         body \<leftarrow> go_slice_from from offset;
         if sint (remLen h') > int (length body)
         then Some (h', nat (int offset + sint (remLen h')), Some (EPkt ErrInsufficientDataSize))
         else do {
           (h'', msgTotal, err) \<leftarrow> cb_decode h' body;
           Some (h'', offset + msgTotal, err) } } } }"

text \<open>
  The tail of every \<open>decodeMessage\<close> that reads properties:
  \<open>n, err = msg.properties.decode(msg.Type(), from[offset:]); offset += n\<close>.
\<close>

definition decode_props ::
    "byte list \<Rightarrow> 'a header_scheme \<Rightarrow> nat \<Rightarrow> ('a header_scheme, go_error) decoded" where
  "decode_props from h offset = do {
     sl \<leftarrow> go_slice_from from offset;
     (p, n, err) \<leftarrow> property_decode (properties h) (mType h) sl;
     Some (h\<lparr>properties := p\<rparr>, offset + n, err) }"

text \<open>
  The last lines of \<open>newMessage\<close>: \<open>setType\<close>, the version, and for V5.0 a map for the
  properties.
\<close>

definition header_init :: "ProtocolVersion \<Rightarrow> Type \<Rightarrow> 'a header_scheme \<Rightarrow> 'a header_scheme" where
  "header_init v t m =
     (let h = (header_setType t m)\<lparr>h_version := v\<rparr> in
      if v \<ge> ProtocolV50 then h\<lparr>properties := (properties h)\<lparr>props := Some []\<rparr>\<rparr> else h)"

text \<open>
  \<open>rejectCode := CodeRefusedServerUnavailable; if msg.version == ProtocolV50 { rejectCode = c }\<close>
\<close>

definition v5_code :: "'a header_scheme \<Rightarrow> ReasonCode \<Rightarrow> go_error option" where
  "v5_code h c = Some (ECode (if h_version h = ProtocolV50 then c else CodeRefusedServerUnavailable))"

section \<open>Properties on the wire\<close>

text \<open>
  The properties a packet of version \<open>v\<close> may carry: a well-formed set for V5.0, the zero value
  before; and the bytes they take.
\<close>

definition props_wf :: "'a header_scheme \<Rightarrow> bool" where
  "props_wf h =
     (if h_version h = ProtocolV50 then wf_property (mType h) (properties h)
      else properties h = \<lparr>props = None, plen = 0\<rparr>)"

definition props_wire :: "'a header_scheme \<Rightarrow> byte list" where
  "props_wire h = (if h_version h = ProtocolV50 then property_bytes (properties h) else [])"

definition props_new :: "ProtocolVersion \<Rightarrow> property" where
  "props_new v = \<lparr>props = (if v \<ge> ProtocolV50 then Some [] else None), plen = 0\<rparr>"

lemma decode_props_wire:
  assumes "wf_property (mType h) p" and "properties h = \<lparr>props = Some [], plen = 0\<rparr>"
    and "from = pre @ property_bytes p @ rest" and "offset = length pre"
  shows "decode_props from h offset =
     Some (h\<lparr>properties := p\<rparr>, length pre + length (property_bytes p), None)"
  using property_decode_bytes [OF assms(1), of rest] assms(2)
  by (simp add: decode_props_def assms(3,4))

lemma decode_props_total:
  assumes "typed_property (mType h) (properties h)" and "offset \<le> length from"
  shows "\<exists>h' n err. decode_props from h offset = Some (h', n, err)"
proof -
  have "go_slice_from from offset = Some (drop offset from)"
    using assms(2) by (simp add: go_slice_from_def)
  moreover obtain p n err where "property_decode (properties h) (mType h) (drop offset from) = Some (p, n, err)"
    using decode_good_property [OF assms(1), of "drop offset from"]
    by (auto simp: decode_good_def split: option.splits)
  ultimately show ?thesis by (simp add: decode_props_def)
qed

lemma properties_header_init [simp]:
  "properties m = \<lparr>props = None, plen = 0\<rparr> \<Longrightarrow> properties (header_init v t m) = props_new v"
  by (simp add: header_init_def header_setType_def props_new_def Let_def)

lemma header_init_simps [simp]:
  "packetID (header_init v t m) = packetID m" "mType (header_init v t m) = t"
  "h_version (header_init v t m) = v" "header.more (header_init v t m) = header.more m"
  by (simp_all add: header_init_def header_setType_def Let_def)

lemma length_props_wire:
  "props_wf h \<Longrightarrow> h_version h = ProtocolV50 \<Longrightarrow> unat (property_FullLen (properties h)) = length (props_wire h)"
  by (simp add: props_wf_def props_wire_def length_property_bytes)

lemma alloc_packetID_new: "packetID h = [] \<Longrightarrow> alloc_packetID h = [0, 0]"
  by (simp add: alloc_packetID_def)

lemma decodePacketID_new:
  assumes "packetID h = []" and "length b = 2"
  shows "header_decodePacketID (b @ rest) h = (h\<lparr>packetID := b\<rparr>, 2)"
  using assms by (simp add: header_decodePacketID_def alloc_packetID_new go_copy_def Let_def min_def)

section \<open>Frames\<close>

text \<open>The bytes of a packet of type \<open>t\<close> with flags \<open>f\<close>.\<close>

definition frame :: "Type \<Rightarrow> byte \<Rightarrow> byte list \<Rightarrow> byte list" where
  "frame t f body =
     (push_bit offsetPacketType t OR f) # uvarint_bytes (of_nat (length body)) @ body"

text \<open>The flags the header decoder accepts for a packet type.\<close>

definition flags_ok :: "Type \<Rightarrow> byte \<Rightarrow> bool" where
  "flags_ok t f =
     (t < 16 \<and> f < 16 \<and> (t \<noteq> PUBLISH \<longrightarrow> f = DefaultFlags t) \<and>
      Qos_IsValid (drop_bit offsetPublishFlagQoS (f AND maskPublishFlagQoS)))"

lemma nibble_bits: "(x :: byte) < 16 \<Longrightarrow> bit x n \<Longrightarrow> n < 4"
proof -
  assume "x < 16" "bit x n"
  then have "take_bit 4 x = x"
    by (simp add: word_less_nat_alt word_unat_eq_iff unsigned_take_bit_eq take_bit_nat_eq_self)
  with \<open>bit x n\<close> show "n < 4" by (metis bit_take_bit_iff)
qed

lemma fixed_header_byte:
  assumes "t < 16" and "f < 16"
  shows "drop_bit offsetPacketType (push_bit offsetPacketType t OR f) = (t :: byte)"
    and "(push_bit offsetPacketType t OR f) AND maskMessageFlags = (f :: byte)"
proof -
  show "drop_bit offsetPacketType (push_bit offsetPacketType t OR f) = t"
    by (rule bit_word_eqI) (use nibble_bits [OF assms(1)] nibble_bits [OF assms(2)] in \<open>force simp: bit_simps\<close>)
  have m4: "(0x0F :: byte) = mask 4" by (simp add: mask_eq_exp_minus_1)
  show "(push_bit offsetPacketType t OR f) AND maskMessageFlags = f"
    unfolding m4
    by (rule bit_word_eqI) (use nibble_bits [OF assms(2)] in \<open>force simp: bit_simps\<close>)
qed

lemma remLen_of_nat:
  assumes "int n \<le> maxRemainingLength"
  shows "sint (of_nat n :: int32) = int n" and "unat (of_nat n :: int32) = n"
    and "scast (of_nat n :: int32) = (of_nat n :: uint64)"
    and "ucast (of_nat n :: int32) = (of_nat n :: uint64)"
proof -
  have n: "n < 2 ^ 28" using assms by (simp add: maxRemainingLength_def)
  show s: "sint (of_nat n :: int32) = int n"
    using n by (simp add: signed_of_nat signed_take_bit_int_eq_self)
  show u: "unat (of_nat n :: int32) = n"
    using n by (simp add: unat_of_nat)
  show "scast (of_nat n :: int32) = (of_nat n :: uint64)"
    by (metis of_int_of_nat_eq s scast_eq)
  show "ucast (of_nat n :: int32) = (of_nat n :: uint64)"
    using n by (simp add: word_unat_eq_iff unat_ucast_mod unat_of_nat)
qed

lemma frame_length:
  assumes "int (length body) \<le> maxRemainingLength"
  shows "length (frame t f body) = 1 + uvarintCalc (of_nat (length body)) + length body"
  by (simp add: frame_def uvarintCalc_bytes remLen_of_nat(4) [OF assms])

section \<open>The contract of a packet\<close>

text \<open>The header decoder hands the body of a frame to the decoder of the packet, for any version.\<close>

lemma header_decode_frame:
  assumes "flags_ok ty f" and "int (length b) \<le> maxRemainingLength"
    and "cb_decode (h\<lparr>mType := ty, mFlags := f, remLen := of_nat (length b)\<rparr>) b = Some (m, length b, e)"
  shows "header_decode cb_decode h (frame ty f b) = Some (m, length (frame ty f b), e)"
proof -
  define lp where "lp = uvarint_bytes (of_nat (length b) :: uint64)"
  note byte = fixed_header_byte [of ty f]
  have uv: "uvarint (lp @ b) = (of_nat (length b), int (length lp))"
    using uvarint_bytes_roundtrip [of "of_nat (length b)" b] remLen_of_nat [OF assms(2)] assms(2)
    by (simp add: lp_def maxRemainingLength_def)
  have "lp \<noteq> []" by (simp add: lp_def)
  then show ?thesis
    using assms byte remLen_of_nat(1) [OF assms(2)]
    by (auto simp: frame_def header_decode_def flags_ok_def uv go_slice_from_def Let_def lp_def [symmetric])
qed

text \<open>
  \<open>wf v m\<close>: the message \<open>m\<close> is one the packet's own operations accept, for a receiver that
  decodes with \<open>New(v, t)\<close>; \<open>body m\<close> is its variable header and payload on the wire;
  \<open>blank\<close> is the zero value of the packet's type.
\<close>

locale provider =
  fixes cb_size :: "'a header_scheme \<Rightarrow> nat"
    and cb_encode :: "'a header_scheme \<Rightarrow> go_error writer"
    and cb_decode :: "'a header_scheme \<Rightarrow> byte list \<Rightarrow> ('a header_scheme, go_error) decoded"
    and wf :: "ProtocolVersion \<Rightarrow> 'a header_scheme \<Rightarrow> bool"
    and body :: "'a header_scheme \<Rightarrow> byte list"
    and blank :: "'a header_scheme"
    and ty :: Type
  assumes size_body: "wf v m \<Longrightarrow> cb_size m = length (body m)"
    and encode_body: "wf v m \<Longrightarrow> emits (cb_encode m) (body m)"
    and encode_remLen: "cb_encode (m\<lparr>remLen := r\<rparr>) = cb_encode m \<and> cb_size (m\<lparr>remLen := r\<rparr>) = cb_size m"
    and decode_body: "wf v m \<Longrightarrow>
      cb_decode ((header_init v ty blank)\<lparr>mFlags := mFlags m, remLen := of_nat (length (body m))\<rparr>) (body m) =
      Some (m\<lparr>remLen := of_nat (length (body m))\<rparr>, length (body m), None)"
    and wf_header: "wf v m \<Longrightarrow>
      mType m = ty \<and> flags_ok ty (mFlags m) \<and> int (length (body m)) \<le> maxRemainingLength"
begin

lemma Size_frame:
  assumes "wf v m"
  shows "header_Size cb_size (m\<lparr>remLen := r\<rparr>) =
    (m\<lparr>remLen := of_nat (length (body m))\<rparr>, length (frame ty (mFlags m) (body m)), None)"
  using size_body [OF assms] wf_header [OF assms] encode_remLen
  by (simp add: header_Size_def header_setRemainingLength_def remLen_of_nat header_size_def frame_length Let_def)

lemma Encode_frame:
  assumes wf: "wf v m"
  shows "header_Encode cb_size cb_encode (m\<lparr>remLen := r\<rparr>) (replicate (length (frame ty (mFlags m) (body m)) + k) 0) =
    Some (m\<lparr>remLen := of_nat (length (body m))\<rparr>,
          frame ty (mFlags m) (body m) @ replicate k 0, length (frame ty (mFlags m) (body m)), None)"
proof -
  let ?m = "m\<lparr>remLen := of_nat (length (body m))\<rparr>"
  have "emits (header_store (cb_encode ?m) ?m)
      ([push_bit offsetPacketType (mType ?m) OR mFlags ?m] @ uvarint_bytes (scast (remLen ?m)) @ body m)"
    unfolding header_store_def encode_remLen [THEN conjunct1] by (intro emits_intros encode_body [OF wf])
  moreover have "[push_bit offsetPacketType (mType ?m) OR mFlags ?m] @ uvarint_bytes (scast (remLen ?m)) @ body m =
      frame ty (mFlags m) (body m)"
    using wf_header [OF wf] remLen_of_nat(3) [of "length (body m)"] by (simp add: frame_def)
  ultimately show ?thesis
    by (simp add: header_Encode_def Size_frame [OF wf] emitsD)
qed

lemma Encode_short:
  assumes "wf v m" and "length to < length (frame ty (mFlags m) (body m))"
  shows "header_Encode cb_size cb_encode (m\<lparr>remLen := r\<rparr>) to =
    Some (m\<lparr>remLen := of_nat (length (body m))\<rparr>, to, length (frame ty (mFlags m) (body m)),
          Some (EPkt ErrInsufficientBufferSize))"
  using assms(2) by (simp add: header_Encode_def Size_frame [OF assms(1)])

lemma decode_frame:
  assumes wf: "wf v m"
  shows "header_decode cb_decode (header_init v ty blank) (frame ty (mFlags m) (body m)) =
    Some (m\<lparr>remLen := of_nat (length (body m))\<rparr>, length (frame ty (mFlags m) (body m)), None)"
proof -
  have init: "(header_init v ty blank)\<lparr>mType := ty, mFlags := f, remLen := r\<rparr> = (header_init v ty blank)\<lparr>mFlags := f, remLen := r\<rparr>"
    for f r by (simp add: header_init_def header_setType_def Let_def)
  show ?thesis
    using wf_header [OF wf] decode_body [OF wf] by (intro header_decode_frame) (simp_all add: init)
qed

text \<open>A proper prefix of a frame is never taken for a packet.\<close>

lemma decode_truncated:
  assumes wf: "wf v m" and k: "0 < k" "k < length (frame ty (mFlags m) (body m))"
  shows "\<exists>h n. header_decode cb_decode (header_init v ty blank) (take k (frame ty (mFlags m) (body m))) =
    Some (h, n, Some (EPkt ErrInsufficientDataSize))"
proof -
  define lp where "lp = uvarint_bytes (of_nat (length (body m)) :: uint64)"
  obtain j where j: "k = Suc j" using k(1) by (cases k) auto
  have hdr: "flags_ok ty (mFlags m)" "int (length (body m)) \<le> maxRemainingLength"
    using wf_header [OF wf] by simp_all
  note byte = fixed_header_byte [of ty "mFlags m"]
  have fr: "take k (frame ty (mFlags m) (body m)) =
      (push_bit offsetPacketType ty OR mFlags m) # take j (lp @ body m)"
    by (simp add: frame_def j lp_def)
  show ?thesis
  proof (cases "j < length lp")
    case True
    then have uv: "uvarint (take j lp) = (0, 0)" by (simp add: lp_def uvarint_truncated)
    from True hdr byte show ?thesis
      by (auto simp: fr header_decode_def flags_ok_def uv go_slice_from_def Let_def)
  next
    case False
    then have uv: "uvarint (lp @ take (j - length lp) (body m)) = (of_nat (length (body m)), int (length lp))"
      using uvarint_bytes_roundtrip [of "of_nat (length (body m))"] remLen_of_nat [OF hdr(2)] hdr(2)
      by (simp add: lp_def maxRemainingLength_def)
    have "j - length lp < length (body m)"
      using k(2) False by (simp add: frame_def j lp_def)
    moreover have "lp \<noteq> []" by (simp add: lp_def)
    ultimately show ?thesis
      using False hdr byte remLen_of_nat(1) [OF hdr(2)]
      by (auto simp: fr header_decode_def flags_ok_def uv go_slice_from_def Let_def)
  qed
qed

end

text \<open>The facts that evaluate the well-formedness of a concrete packet.\<close>

lemmas wf_eval = ProtocolVersion_IsValid_def SupportedVersions_def MaxLPString_def maxRemainingLength_def
  flags_ok_def DefaultFlags_def typeDefaultFlags_def Qos_IsValid_def ValidTopic_def go_contains_def
  props_wf_def wf_property_def wf_prop_def wf_val_def IsValidPacketType_def
  propertyAllowedMessageTypes_def propertyTypeOf_def propertyTypeMap_def
  props_len_def prop_len_def propertyCalcLen_def property_FullLen_def uvarintCalc_short props_new_def

end
