(* ===== verification/Publish.thy ===== *)
theory Publish
  imports Header "HOL-Library.Signed_Division"
begin

text \<open>
  \<open>src/packet/publish.go\<close>: the PUBLISH packet. A Go \<open>time.Time\<close> is the number of nanoseconds
  since the zero time, so \<open>IsZero\<close> is \<open>= 0\<close>; \<open>time.Now()\<close> is an argument. \<open>publishID\<close> is
  the \<open>uintptr\<close> that stands for the publisher.
\<close>

section \<open>State\<close>

type_synonym Time = int
type_synonym uintptr = uint64

record Publish = header +
  pub_payload :: "byte list"
  pub_topic :: gostring
  publishID :: uintptr
  expireAt :: Time

definition newPublish :: Publish where
  "newPublish =
     \<lparr>properties = \<lparr>props = None, plen = 0\<rparr>, packetID = [], remLen = 0, mFlags = 0, mType = 0,
      h_version = 0, pub_payload = [], pub_topic = [], publishID = 0, expireAt = 0\<rparr>"

section \<open>Flags\<close>

definition Publish_Dup :: "Publish \<Rightarrow> bool" where
  "Publish_Dup msg = (mFlags msg AND maskPublishFlagDup \<noteq> 0)"

definition Publish_SetDup :: "bool \<Rightarrow> Publish \<Rightarrow> Publish" where
  "Publish_SetDup v msg =
     (if v then msg\<lparr>mFlags := mFlags msg OR maskPublishFlagDup\<rparr>
      else msg\<lparr>mFlags := mFlags msg AND NOT maskPublishFlagDup\<rparr>)"

definition Publish_Retain :: "Publish \<Rightarrow> bool" where
  "Publish_Retain msg = (mFlags msg AND maskPublishFlagRetain \<noteq> 0)"

definition Publish_SetRetain :: "bool \<Rightarrow> Publish \<Rightarrow> Publish" where
  "Publish_SetRetain v msg =
     (if v then msg\<lparr>mFlags := mFlags msg OR maskPublishFlagRetain\<rparr>
      else msg\<lparr>mFlags := mFlags msg AND NOT maskPublishFlagRetain\<rparr>)"

definition Publish_QoS :: "Publish \<Rightarrow> QosType" where
  "Publish_QoS msg = drop_bit offsetPublishFlagQoS (mFlags msg AND maskPublishFlagQoS)"

definition Publish_SetQoS :: "QosType \<Rightarrow> Publish \<Rightarrow> Publish \<times> go_error option" where
  "Publish_SetQoS v msg =
     (if \<not> Qos_IsValid v then (msg, Some (EPkt ErrInvalidQoS))
      else (msg\<lparr>mFlags := (mFlags msg AND NOT maskPublishFlagQoS) OR push_bit 1 v\<rparr>, None))"

section \<open>Contents\<close>

definition Publish_SetTopic :: "gostring \<Rightarrow> Publish \<Rightarrow> Publish \<times> go_error option" where
  "Publish_SetTopic v msg =
     (if (h_version msg < ProtocolV50 \<and> length v = 0) \<or> \<not> ValidTopic v
      then (msg, Some (EPkt ErrInvalidTopic)) else (msg\<lparr>pub_topic := v\<rparr>, None))"

definition Publish_Set ::
    "gostring \<Rightarrow> byte list \<Rightarrow> QosType \<Rightarrow> bool \<Rightarrow> bool \<Rightarrow> Publish \<Rightarrow> Publish \<times> go_error option" where
  "Publish_Set t p q r d msg =
     (if \<not> ValidTopic t then (msg, Some (EPkt ErrInvalidTopic))
      else if \<not> Qos_IsValid q then (msg, Some (EPkt ErrInvalidQoS))
      else (let m1 = msg\<lparr>mFlags := (mFlags msg AND NOT maskPublishFlagQoS) OR push_bit 1 q,
                         pub_topic := t, pub_payload := p\<rparr>
            in (Publish_SetRetain r (Publish_SetDup d m1), None)))"

text \<open>
  \<open>Sub\<close> saturates at the range of an int64 duration, \<open>/ time.Second\<close> truncates towards zero,
  and the conversion to \<open>uint32\<close> takes the quotient modulo \<open>2 ^ 32\<close>.
\<close>

definition time_Sub :: "Time \<Rightarrow> Time \<Rightarrow> int" where
  "time_Sub t u = max (- (2 ^ 63)) (min (2 ^ 63 - 1) (t - u))"

definition seconds_left :: "Time \<Rightarrow> Time \<Rightarrow> uint32" where
  "seconds_left t now = of_int (time_Sub t now sdiv 1000000000)"

definition Publish_Expired :: "bool \<Rightarrow> Time \<Rightarrow> Publish \<Rightarrow> (Publish \<times> bool) option" where
  "Publish_Expired set_it now msg =
     (if expireAt msg \<noteq> 0 then
        (let df = seconds_left (expireAt msg) now in
         if expireAt msg > now \<and> df > 0 then
           (if set_it \<and> h_version msg \<ge> ProtocolV50 then do {
              (p, err) \<leftarrow> property_Set (properties msg) (mType msg) PropertyPublicationExpiry (VInt df);
              Some (msg\<lparr>properties := p\<rparr>, False) }
            else Some (msg, False))
         else Some (msg, True))
      else Some (msg, False))"

text \<open>One of the five blocks of \<open>Clone\<close>: forward a property that is present.\<close>

definition forward_prop ::
    "Publish \<Rightarrow> PropertyID \<Rightarrow> Publish \<times> go_error option \<Rightarrow> (Publish \<times> go_error option) option" where
  "forward_prop msg pid r =
     (case r of
        (pkt, Some e) \<Rightarrow> Some (pkt, Some e)
      | (pkt, None) \<Rightarrow>
         (case map_of (props_list (properties msg)) pid of
            None \<Rightarrow> Some (pkt, None)
          | Some v \<Rightarrow> do {
              (p, err) \<leftarrow> property_Set (properties pkt) (mType msg) pid v;
              Some (pkt\<lparr>properties := p\<rparr>, err) }))"

text \<open>\<open>New(msg.version, PUBLISH)\<close> of \<open>packet.go\<close>, which never fails for PUBLISH.\<close>

definition New_Publish :: "ProtocolVersion \<Rightarrow> Publish" where
  "New_Publish v = header_init v PUBLISH newPublish"

text \<open>The error of the inner \<open>Set\<close> is dropped: a packet with an invalid topic is cloned empty.\<close>

definition Publish_Clone ::
    "ProtocolVersion \<Rightarrow> Publish \<Rightarrow> (Publish \<times> go_error option) option" where
  "Publish_Clone v msg =
     (let pkt0 = fst (Publish_Set (pub_topic msg) (pub_payload msg) (Publish_QoS msg)
                       (Publish_Retain msg) False (New_Publish (h_version msg)));
          pkt = pkt0\<lparr>expireAt := expireAt msg\<rparr>
      in if h_version msg = ProtocolV50 \<and> v = ProtocolV50 then do {
           r1 \<leftarrow> forward_prop msg PropertyPayloadFormat (pkt, None);
           r2 \<leftarrow> forward_prop msg PropertyResponseTopic r1;
           r3 \<leftarrow> forward_prop msg PropertyCorrelationData r2;
           r4 \<leftarrow> forward_prop msg PropertyUserProperty r3;
           forward_prop msg PropertyContentType r4 }
         else Some (pkt, None))"

section \<open>Codec\<close>

text \<open>An empty topic name needs a topic alias.\<close>

definition topic_alias_ok :: "Publish \<Rightarrow> bool" where
  "topic_alias_ok msg =
     (case header_PropertyGet msg PropertyTopicAlias of
        None \<Rightarrow> False
      | Some prop \<Rightarrow> (case AsShort prop of (val, err) \<Rightarrow> err = None \<and> val > 0))"

text \<open>The last part of \<open>decodeMessage\<close>: what remains of the packet is the payload.\<close>

definition Publish_decodePayload ::
    "byte list \<Rightarrow> Publish \<Rightarrow> nat \<Rightarrow> (Publish, go_error) decoded" where
  "Publish_decodePayload from msg offset =
     (let pLen = sint (remLen msg) - int offset in
      if pLen < 0 then Some (msg, offset, v5_code msg CodeMalformedPacket)
      else do {
        sl \<leftarrow> go_slice_from from offset;
        if int (length sl) < pLen then Some (msg, offset, v5_code msg CodeMalformedPacket)
        else if pLen > 0
        then Some (msg\<lparr>pub_payload := take (nat pLen) sl\<rparr>, offset + nat pLen, None)
        else Some (msg, offset, None) })"

definition Publish_decodeProps :: "byte list \<Rightarrow> Publish \<Rightarrow> nat \<Rightarrow> (Publish, go_error) decoded" where
  "Publish_decodeProps from msg offset =
     (if h_version msg = ProtocolV50 then
        d_then (decode_props from msg offset)
          (\<lambda>m o'. if length (pub_topic m) = 0 \<and> \<not> topic_alias_ok m
                  then Some (m, o', Some (ECode CodeProtocolError)) else Some (m, o', None))
      else Some (msg, offset, None))"

definition Publish_decodeID :: "byte list \<Rightarrow> Publish \<Rightarrow> nat \<Rightarrow> (Publish, go_error) decoded" where
  "Publish_decodeID from msg offset =
     (if Publish_QoS msg \<noteq> QoS0 then do {
        sl \<leftarrow> go_slice_from from offset;
        let (m, n) = header_decodePacketID sl msg;
        Some (m, offset + n, None) }
      else Some (msg, offset, None))"

definition Publish_decodeMessage :: "Publish \<Rightarrow> byte list \<Rightarrow> (Publish, go_error) decoded" where
  "Publish_decodeMessage msg from =
     (if \<not> Qos_IsValid (Publish_QoS msg) then Some (msg, 0, v5_code msg CodeProtocolError)
      else if Publish_QoS msg = QoS0 \<and> Publish_Dup msg
      then Some (msg, 0, v5_code msg CodeProtocolError)
      else (case ReadLPBytes from of
        (buf, n, Some e) \<Rightarrow> Some (msg, n, Some e)
      | (buf, n, None) \<Rightarrow>
          if length buf = 0 \<and> h_version msg < ProtocolV50
          then Some (msg, n, Some (ECode CodeRefusedServerUnavailable))
          else if \<not> ValidTopic buf then Some (msg, n, v5_code msg CodeInvalidTopicName)
          else d_then (d_then (Publish_decodeID from (msg\<lparr>pub_topic := buf\<rparr>) n)
                 (Publish_decodeProps from)) (Publish_decodePayload from)))"

text \<open>A failed \<open>WriteLPBytes\<close> returns the offset before it, here 0.\<close>

definition w_lp0 :: "byte list \<Rightarrow> go_error writer" where
  "w_lp0 b to = do {
     (to', n, err) \<leftarrow> WriteLPBytes b to;
     Some (to', if err = None then n else 0, err) }"

definition Publish_encodeMessage :: "Publish \<Rightarrow> go_error writer" where
  "Publish_encodeMessage msg =
     (if \<not> ValidTopic (pub_topic msg) then w_fail 0 (EPkt ErrInvalidTopic)
      else if \<not> Qos_IsValid (Publish_QoS msg) then w_fail 0 (EPkt ErrInvalidQoS)
      else if Publish_QoS msg = QoS0 \<and> Publish_Dup msg then w_fail 0 (EPkt ErrDupViolation)
      else if Publish_QoS msg \<noteq> QoS0 \<and> packetID msg = [] then w_fail 0 (EPkt ErrPackedIDZero)
      else w_then (w_lp0 (pub_topic msg))
            (w_then (if Publish_QoS msg \<noteq> QoS0 then header_encodePacketID msg else w_skip)
              (w_then (if h_version msg = ProtocolV50 then property_encode (properties msg) else w_skip)
                (w_copy (pub_payload msg)))))"

definition Publish_size :: "Publish \<Rightarrow> nat" where
  "Publish_size msg =
     2 + length (pub_topic msg) + length (pub_payload msg) +
     (if Publish_QoS msg \<noteq> 0 then 2 else 0) +
     (if h_version msg = ProtocolV50 then unat (property_FullLen (properties msg)) else 0)"

section \<open>Wire format\<close>

text \<open>
  The packets that can be sent to a receiver of version \<open>v\<close>: the flags and the topic are the
  ones the encoder accepts, the packet identifier is there exactly for QoS 1 and 2, and the
  fields that never travel (\<open>publishID\<close>, \<open>expireAt\<close>) have their zero value.
\<close>

definition Publish_wf :: "ProtocolVersion \<Rightarrow> Publish \<Rightarrow> bool" where
  "Publish_wf v m =
     (ProtocolVersion_IsValid v \<and> h_version m = v \<and> mType m = PUBLISH \<and> flags_ok PUBLISH (mFlags m) \<and>
      \<not> (Publish_QoS m = QoS0 \<and> Publish_Dup m) \<and>
      ValidTopic (pub_topic m) \<and> length (pub_topic m) \<le> MaxLPString \<and>
      (pub_topic m = [] \<longrightarrow> v = ProtocolV50 \<and> topic_alias_ok m) \<and>
      length (packetID m) = (if Publish_QoS m = QoS0 then 0 else 2) \<and>
      props_wf m \<and> publishID m = 0 \<and> expireAt m = 0 \<and>
      int (Publish_size m) \<le> maxRemainingLength)"

definition Publish_body :: "Publish \<Rightarrow> byte list" where
  "Publish_body m = lp_bytes (pub_topic m) @ packetID m @ props_wire m @ pub_payload m"

lemma ProtocolVersion_IsValid_less: "ProtocolVersion_IsValid v \<Longrightarrow> v < ProtocolV50 \<longleftrightarrow> v \<noteq> ProtocolV50"
  by (auto simp: ProtocolVersion_IsValid_def SupportedVersions_def split: if_splits)

lemma emits_w_lp0 [emits_intros]:
  "length b \<le> MaxLPString \<Longrightarrow> emits (w_lp0 b) (lp_bytes b)"
  using emits_WriteLPBytes [of b] by (simp add: emits_def w_lp0_def)

lemma emits_properties:
  "props_wf h \<Longrightarrow>
   emits (if h_version h = ProtocolV50 then property_encode (properties h) else w_skip) (props_wire h)"
  by (auto simp: props_wf_def props_wire_def intro: emits_intros)

lemma Publish_size_body:
  assumes "Publish_wf v m"
  shows "Publish_size m = length (Publish_body m)"
  using assms length_props_wire [of m]
  by (auto simp: Publish_wf_def Publish_size_def Publish_body_def props_wire_def)

lemma Publish_encode_body:
  assumes "Publish_wf v m"
  shows "emits (Publish_encodeMessage m) (Publish_body m)"
proof -
  have "emits (w_then (w_lp0 (pub_topic m))
            (w_then (if Publish_QoS m \<noteq> QoS0 then header_encodePacketID m else w_skip)
              (w_then (if h_version m = ProtocolV50 then property_encode (properties m) else w_skip)
                (w_copy (pub_payload m))))) (Publish_body m)"
    unfolding Publish_body_def
    by (intro emits_then emits_w_lp0 emits_properties emits_copy)
       (use assms in \<open>auto simp: Publish_wf_def header_encodePacketID_def split: if_splits
          intro: emits_intros\<close>)
  with assms show ?thesis
    by (auto simp: Publish_encodeMessage_def Publish_wf_def flags_ok_def Publish_QoS_def split: if_splits)
qed

lemma Publish_decodeID_wire:
  assumes "packetID h = []" and "length b = (if Publish_QoS h = QoS0 then 0 else 2)"
    and "from = pre @ b @ rest" and "offset = length pre"
  shows "Publish_decodeID from h offset = Some (h\<lparr>packetID := b\<rparr>, length (pre @ b), None)"
  using assms decodePacketID_new [of h b rest]
  by (auto simp: Publish_decodeID_def)

lemma Publish_decodeProps_wire:
  assumes wf: "props_wf m" and new: "properties h = props_new (h_version m)"
    and h: "m = h\<lparr>properties := properties m\<rparr>"
    and al: "pub_topic m = [] \<longrightarrow> h_version m = ProtocolV50 \<and> topic_alias_ok m"
    and v: "ProtocolVersion_IsValid (h_version m)"
    and "from = pre @ props_wire m @ rest" and "offset = length pre"
  shows "Publish_decodeProps from h offset = Some (m, length (pre @ props_wire m), None)"
proof -
  have ty: "mType h = mType m" "h_version h = h_version m" by (subst h, simp)+
  show ?thesis
  proof (cases "h_version m = ProtocolV50")
    case True
    then have "decode_props from h offset = Some (h\<lparr>properties := properties m\<rparr>,
        length pre + length (property_bytes (properties m)), None)"
      using assms ty by (intro decode_props_wire) (auto simp: props_wf_def props_new_def props_wire_def)
    with h True al ty show ?thesis
      by (auto simp: Publish_decodeProps_def props_wire_def)
  next
    case False
    then have "m = h"
      using h new wf ProtocolVersion_IsValid_less [OF v] by (simp add: props_wf_def props_new_def not_le [symmetric])
    with False show ?thesis
      by (simp add: Publish_decodeProps_def props_wire_def assms(7))
  qed
qed

lemma Publish_decodePayload_wire:
  assumes "remLen h = of_nat (length from)" and "from = pre @ pl" and "offset = length pre"
    and "int (length from) \<le> maxRemainingLength" and "pub_payload h = []"
  shows "Publish_decodePayload from h offset = Some (h\<lparr>pub_payload := pl\<rparr>, length from, None)"
  using assms(1-3) remLen_of_nat(1) [OF assms(4)] assms(5)
  by (cases pl; cases h) (auto simp: Publish_decodePayload_def Let_def)

lemma Publish_decode_body:
  assumes wf: "Publish_wf v m"
  shows "Publish_decodeMessage
     ((header_init v PUBLISH newPublish)\<lparr>mFlags := mFlags m, remLen := of_nat (length (Publish_body m))\<rparr>)
     (Publish_body m) =
   Some (m\<lparr>remLen := of_nat (length (Publish_body m))\<rparr>, length (Publish_body m), None)"
proof -
  define h where "h = (header_init v PUBLISH newPublish)
      \<lparr>mFlags := mFlags m, remLen := of_nat (length (Publish_body m)), pub_topic := pub_topic m\<rparr>"
  let ?m = "m\<lparr>remLen := of_nat (length (Publish_body m))\<rparr>"
  let ?tp = "lp_bytes (pub_topic m)"
  note w = wf [unfolded Publish_wf_def flags_ok_def]
  have lp: "ReadLPBytes (Publish_body m) = (pub_topic m, length ?tp, None)"
    using w by (simp add: Publish_body_def ReadLPBytes_roundtrip)
  have 1: "Publish_decodeID (Publish_body m) h (length ?tp) =
      Some (h\<lparr>packetID := packetID m\<rparr>, length (?tp @ packetID m), None)"
    using w by (intro Publish_decodeID_wire) (auto simp: h_def newPublish_def Publish_body_def Publish_QoS_def)
  have 2: "Publish_decodeProps (Publish_body m) (h\<lparr>packetID := packetID m\<rparr>) (length (?tp @ packetID m)) =
      Some (?m\<lparr>pub_payload := []\<rparr>, length ((?tp @ packetID m) @ props_wire (?m\<lparr>pub_payload := []\<rparr>)), None)"
    by (rule Publish_decodeProps_wire [where rest = "pub_payload m"])
       (use w in \<open>auto simp: h_def newPublish_def Publish_body_def props_wf_def props_wire_def
          topic_alias_ok_def header_PropertyGet_def header_init_def header_setType_def props_new_def Let_def\<close>)
  have 3: "Publish_decodePayload (Publish_body m) (?m\<lparr>pub_payload := []\<rparr>)
       (length ((?tp @ packetID m) @ props_wire (?m\<lparr>pub_payload := []\<rparr>))) =
      Some (?m, length (Publish_body m), None)"
    using w Publish_size_body [OF wf]
    by (subst Publish_decodePayload_wire [where pl = "pub_payload m"])
       (auto simp: Publish_body_def props_wire_def)
  define h0 where "h0 = (header_init v PUBLISH newPublish)
      \<lparr>mFlags := mFlags m, remLen := of_nat (length (Publish_body m))\<rparr>"
  have h0: "h0\<lparr>pub_topic := pub_topic m\<rparr> = h" "Publish_QoS h0 = Publish_QoS m" "Publish_Dup h0 = Publish_Dup m"
    "h_version h0 = v"
    by (simp_all add: h0_def h_def Publish_QoS_def Publish_Dup_def)
  have "\<not> (pub_topic m = [] \<and> v < ProtocolV50)" "Qos_IsValid (Publish_QoS m)"
    using w by (auto simp: Publish_QoS_def)
  moreover have "\<not> (Publish_QoS m = QoS0 \<and> Publish_Dup m)" "ValidTopic (pub_topic m)" using w by auto
  moreover have "d_then (d_then (Publish_decodeID (Publish_body m) h (length ?tp))
      (Publish_decodeProps (Publish_body m))) (Publish_decodePayload (Publish_body m)) =
     Some (?m, length (Publish_body m), None)"
    by (simp only: 1 2 3 d_then_ok)
  ultimately show ?thesis
    unfolding h0_def [symmetric] Publish_decodeMessage_def lp h0
    by (auto simp: h0(1) simp del: length_lp_bytes)
qed


interpretation publish: provider Publish_size Publish_encodeMessage Publish_decodeMessage
    Publish_wf Publish_body newPublish PUBLISH
proof (unfold_locales, goal_cases)
  case (3 r m)
  show ?case
    by (simp add: Publish_encodeMessage_def Publish_QoS_def Publish_Dup_def header_encodePacketID_def
        Publish_size_def)
next
  case (5 v m)
  then show ?case using Publish_size_body [OF 5] by (simp add: Publish_wf_def)
qed (use Publish_size_body Publish_encode_body Publish_decode_body in blast)+

end
