(* ===== verification/Once_Wait.thy ===== *)
theory Once_Wait
  imports Publish
begin

text \<open>
  \<open>OnceWait\<close> and \<open>Once\<close> of \<open>src/types/types.go\<close>, with the goroutines that call \<open>Do\<close> at the same time. A
  goroutine is the point it has reached in \<open>Do\<close>; a step is one atomic action of one of them, and
  a schedule chooses who is next. A goroutine that cannot go on (the lock is taken, the wait group is not
  zero) stays where it is. A panic of \<open>f\<close> is one that a caller of \<open>Do\<close> recovers.
\<close>

section \<open>OnceWait\<close>

datatype once_pc =
    AtLock | AtCAS | AtAdd | AtUnlock bool | AtCall | InF | AtDone | AtWait | Returned bool | Panicked

record once_wait =
  ow_val :: uintptr
  ow_wait :: int
  ow_lock :: "nat option"
  ow_pcs :: "once_pc list"
  ow_started :: nat
  ow_ended :: nat

definition new_OnceWait :: "nat \<Rightarrow> once_wait" where
  "new_OnceWait n =
     \<lparr>ow_val = 0, ow_wait = 0, ow_lock = None, ow_pcs = replicate n AtLock, ow_started = 0, ow_ended = 0\<rparr>"

definition goto :: "nat \<Rightarrow> once_pc \<Rightarrow> once_wait \<Rightarrow> once_wait" where
  "goto i pc s = s\<lparr>ow_pcs := (ow_pcs s)[i := pc]\<rparr>"

text \<open>The next action of goroutine \<open>i\<close>; \<open>panics\<close> is how \<open>f\<close> ends if it is what \<open>i\<close> is in.\<close>

definition OnceWait_Do :: "bool \<Rightarrow> nat \<Rightarrow> once_wait \<Rightarrow> once_wait option" where
  "OnceWait_Do panics i s =
     (if i < length (ow_pcs s) then
        (case ow_pcs s ! i of
           AtLock \<Rightarrow> if ow_lock s = None then Some (goto i AtCAS (s\<lparr>ow_lock := Some i\<rparr>)) else None
         | AtCAS \<Rightarrow> Some (if ow_val s = 0 then goto i AtAdd (s\<lparr>ow_val := 1\<rparr>) else goto i (AtUnlock False) s)
         | AtAdd \<Rightarrow> Some (goto i (AtUnlock True) (s\<lparr>ow_wait := ow_wait s + 1\<rparr>))
         | AtUnlock res \<Rightarrow> Some (goto i (if res then AtCall else AtWait) (s\<lparr>ow_lock := None\<rparr>))
         | AtCall \<Rightarrow> Some (goto i InF (s\<lparr>ow_started := ow_started s + 1\<rparr>))
         | InF \<Rightarrow> Some (if panics then goto i Panicked s else goto i AtDone (s\<lparr>ow_ended := ow_ended s + 1\<rparr>))
         | AtDone \<Rightarrow> Some (goto i (Returned True) (s\<lparr>ow_wait := ow_wait s - 1\<rparr>))
         | AtWait \<Rightarrow> if ow_wait s = 0 then Some (goto i (Returned False) s) else None
         | Returned _ \<Rightarrow> None
         | Panicked \<Rightarrow> None)
      else None)"

definition once_next :: "bool \<times> nat \<Rightarrow> once_wait \<Rightarrow> once_wait" where
  "once_next e s = (case OnceWait_Do (fst e) (snd e) s of Some s' \<Rightarrow> s' | None \<Rightarrow> s)"

section \<open>The invariant\<close>

text \<open>The goroutines that won the race, those past the lock, and those that lost.\<close>

definition won :: "once_pc \<Rightarrow> bool" where
  "won pc = (pc \<in> {AtAdd, AtUnlock True, AtCall, InF, AtDone, Returned True, Panicked})"

definition locked :: "once_pc \<Rightarrow> bool" where
  "locked pc = (pc = AtCAS \<or> pc = AtAdd \<or> (\<exists>b. pc = AtUnlock b))"

definition lost :: "once_pc \<Rightarrow> bool" where
  "lost pc = (pc \<in> {AtUnlock False, AtWait, Returned False})"

text \<open>What the counters are when the winner is at \<open>pc\<close>.\<close>

definition winner_state :: "once_pc \<Rightarrow> int \<Rightarrow> nat \<Rightarrow> nat \<Rightarrow> bool" where
  "winner_state pc w started ended =
     (w = of_bool (pc \<in> {AtUnlock True, AtCall, InF, AtDone, Panicked}) \<and>
      started = of_bool (pc \<in> {InF, AtDone, Returned True, Panicked}) \<and>
      ended = of_bool (pc \<in> {AtDone, Returned True}))"

definition winner_ok :: "nat \<Rightarrow> once_wait \<Rightarrow> bool" where
  "winner_ok w s =
     (w < length (ow_pcs s) \<and> ow_val s \<noteq> 0 \<and> won (ow_pcs s ! w) \<and>
      winner_state (ow_pcs s ! w) (ow_wait s) (ow_started s) (ow_ended s) \<and>
      (\<forall>i < length (ow_pcs s). i \<noteq> w \<longrightarrow> \<not> won (ow_pcs s ! i) \<and>
        (lost (ow_pcs s ! i) \<longrightarrow> \<not> locked (ow_pcs s ! w)) \<and>
        (ow_pcs s ! i = Returned False \<longrightarrow> ow_pcs s ! w = Returned True)))"

definition nobody_yet :: "once_wait \<Rightarrow> bool" where
  "nobody_yet s =
     (ow_val s = 0 \<and> ow_wait s = 0 \<and> ow_started s = 0 \<and> ow_ended s = 0 \<and>
      (\<forall>i < length (ow_pcs s). ow_pcs s ! i \<in> {AtLock, AtCAS}))"

definition lock_ok :: "once_wait \<Rightarrow> bool" where
  "lock_ok s =
     ((\<forall>i < length (ow_pcs s). locked (ow_pcs s ! i) \<longleftrightarrow> ow_lock s = Some i) \<and>
      (\<forall>i. ow_lock s = Some i \<longrightarrow> i < length (ow_pcs s)))"

definition once_inv :: "once_wait \<Rightarrow> bool" where
  "once_inv s = (lock_ok s \<and> (nobody_yet s \<or> (\<exists>w. winner_ok w s)))"

lemmas once_defs = won_def locked_def lost_def winner_state_def

lemma goto_simps [simp]:
  "ow_val (goto i pc s) = ow_val s" "ow_wait (goto i pc s) = ow_wait s" "ow_lock (goto i pc s) = ow_lock s"
  "ow_started (goto i pc s) = ow_started s" "ow_ended (goto i pc s) = ow_ended s"
  "ow_pcs (goto i pc s) = (ow_pcs s)[i := pc]"
  by (simp_all add: goto_def)

lemma once_inv_new: "once_inv (new_OnceWait n)"
  by (simp add: once_inv_def nobody_yet_def new_OnceWait_def lock_ok_def locked_def)

text \<open>The step, by the point where the goroutine is: only this point and the shared fields change.\<close>

fun once_effect :: "bool \<Rightarrow> nat \<Rightarrow> once_pc \<Rightarrow> once_wait \<Rightarrow> (once_pc \<times> once_wait) option" where
  "once_effect panics i AtLock s = (if ow_lock s = None then Some (AtCAS, s\<lparr>ow_lock := Some i\<rparr>) else None)"
| "once_effect panics i AtCAS s = Some (if ow_val s = 0 then (AtAdd, s\<lparr>ow_val := 1\<rparr>) else (AtUnlock False, s))"
| "once_effect panics i AtAdd s = Some (AtUnlock True, s\<lparr>ow_wait := ow_wait s + 1\<rparr>)"
| "once_effect panics i (AtUnlock res) s = Some (if res then AtCall else AtWait, s\<lparr>ow_lock := None\<rparr>)"
| "once_effect panics i AtCall s = Some (InF, s\<lparr>ow_started := ow_started s + 1\<rparr>)"
| "once_effect panics i InF s = Some (if panics then (Panicked, s) else (AtDone, s\<lparr>ow_ended := ow_ended s + 1\<rparr>))"
| "once_effect panics i AtDone s = Some (Returned True, s\<lparr>ow_wait := ow_wait s - 1\<rparr>)"
| "once_effect panics i AtWait s = (if ow_wait s = 0 then Some (Returned False, s) else None)"
| "once_effect panics i (Returned b) s = None"
| "once_effect panics i Panicked s = None"

lemma OnceWait_Do_effect:
  assumes "OnceWait_Do panics i s = Some s'"
  obtains pc t where "i < length (ow_pcs s)" and "once_effect panics i (ow_pcs s ! i) s = Some (pc, t)"
    and "s' = goto i pc t" and "ow_pcs t = ow_pcs s"
proof -
  have i: "i < length (ow_pcs s)" using assms by (simp add: OnceWait_Do_def split: if_split_asm)
  show thesis
    by (cases "ow_pcs s ! i") (use assms i in \<open>auto simp: OnceWait_Do_def intro!: that split: if_split_asm\<close>)
qed

lemma lock_ok_Do:
  assumes "OnceWait_Do panics i s = Some s'" and "lock_ok s"
  shows "lock_ok s'"
proof -
  obtain pc t where e: "i < length (ow_pcs s)" "once_effect panics i (ow_pcs s ! i) s = Some (pc, t)"
    "s' = goto i pc t" "ow_pcs t = ow_pcs s" using assms(1) by (rule OnceWait_Do_effect)
  have l: "locked (ow_pcs s ! j) \<longleftrightarrow> ow_lock s = Some j" if "j < length (ow_pcs s)" for j
    using assms(2) that by (simp add: lock_ok_def)
  have own: "locked pc \<longleftrightarrow> ow_lock t = Some i"
    using e(1,2) l [OF e(1)] by (cases "ow_pcs s ! i") (auto simp: locked_def split: if_split_asm)
  have other: "ow_lock t = Some j \<longleftrightarrow> ow_lock s = Some j" if "j \<noteq> i" for j
    using e(1,2) l [OF e(1)] that by (cases "ow_pcs s ! i") (auto simp: locked_def split: if_split_asm)
  have "j < length (ow_pcs s)" if "ow_lock t = Some j" for j
    using other [of j] that e(1) assms(2) by (cases "j = i") (auto simp: lock_ok_def)
  with e l own other show ?thesis by (simp add: lock_ok_def nth_list_update)
qed

lemma nobody_Do:
  assumes "OnceWait_Do panics i s = Some s'" and "nobody_yet s"
  shows "nobody_yet s' \<or> winner_ok i s'"
proof -
  obtain pc t where e: "i < length (ow_pcs s)" "once_effect panics i (ow_pcs s ! i) s = Some (pc, t)"
    "s' = goto i pc t" "ow_pcs t = ow_pcs s" using assms(1) by (rule OnceWait_Do_effect)
  have pcs: "ow_pcs s ! j = AtLock \<or> ow_pcs s ! j = AtCAS" if "j < length (ow_pcs s)" for j
    using assms(2) that by (auto simp: nobody_yet_def)
  from pcs [OF e(1)] show ?thesis
  proof
    assume "ow_pcs s ! i = AtLock"
    then have "nobody_yet s'" using e assms(2) by (auto simp: nobody_yet_def nth_list_update split: if_split_asm)
    then show ?thesis ..
  next
    assume "ow_pcs s ! i = AtCAS"
    then have s': "s' = goto i AtAdd (s\<lparr>ow_val := 1\<rparr>)" using e assms(2) by (simp add: nobody_yet_def)
    have "\<not> won (ow_pcs s ! j) \<and> \<not> lost (ow_pcs s ! j) \<and> ow_pcs s ! j \<noteq> Returned False" if "j < length (ow_pcs s)" for j
      using pcs [OF that] by (auto simp: once_defs)
    then have "winner_ok i s'" using e(1) assms(2) by (simp add: s' winner_ok_def nobody_yet_def once_defs nth_list_update)
    then show ?thesis ..
  qed
qed

lemma winner_Do:
  assumes "OnceWait_Do panics w s = Some s'" and "winner_ok w s"
  shows "winner_ok w s'"
proof -
  obtain pc t where e: "w < length (ow_pcs s)" "once_effect panics w (ow_pcs s ! w) s = Some (pc, t)"
    "s' = goto w pc t" "ow_pcs t = ow_pcs s" using assms(1) by (rule OnceWait_Do_effect)
  have own: "ow_val t \<noteq> 0 \<and> won pc \<and> winner_state pc (ow_wait t) (ow_started t) (ow_ended t) \<and>
      (locked pc \<longrightarrow> locked (ow_pcs s ! w)) \<and> ow_pcs s ! w \<noteq> Returned True"
    using e(2) assms(2) by (cases "ow_pcs s ! w") (auto simp: winner_ok_def once_defs split: if_split_asm)
  then show ?thesis using e(1,3,4) assms(2) by (auto simp: winner_ok_def nth_list_update)
qed

lemma loser_Do:
  assumes "OnceWait_Do panics i s = Some s'" and "winner_ok w s" and "lock_ok s" and "i \<noteq> w"
  shows "winner_ok w s'"
proof -
  obtain pc t where e: "i < length (ow_pcs s)" "once_effect panics i (ow_pcs s ! i) s = Some (pc, t)"
    "s' = goto i pc t" "ow_pcs t = ow_pcs s" using assms(1) by (rule OnceWait_Do_effect)
  have w: "w < length (ow_pcs s)" "\<not> won (ow_pcs s ! i)" "won (ow_pcs s ! w)"
      "winner_state (ow_pcs s ! w) (ow_wait s) (ow_started s) (ow_ended s)" "ow_val s \<noteq> 0"
      "lost (ow_pcs s ! i) \<longrightarrow> \<not> locked (ow_pcs s ! w)"
    using assms(2,4) e(1) by (auto simp: winner_ok_def)
  have l: "\<not> (locked (ow_pcs s ! i) \<and> locked (ow_pcs s ! w))" using assms(3,4) e(1) w(1) by (auto simp: lock_ok_def)
  have same: "ow_val t = ow_val s" "ow_wait t = ow_wait s" "ow_started t = ow_started s" "ow_ended t = ow_ended s"
    using e(2) w(2,5) by (cases "ow_pcs s ! i"; auto simp: won_def split: if_split_asm)+
  have own: "\<not> won pc \<and> (lost pc \<longrightarrow> \<not> locked (ow_pcs s ! w)) \<and> (pc = Returned False \<longrightarrow> ow_pcs s ! w = Returned True)"
  proof -
    have "ow_wait s = 0 \<longrightarrow> \<not> locked (ow_pcs s ! w) \<longrightarrow> ow_pcs s ! w = Returned True"
      using w(3,4) by (cases "ow_pcs s ! w") (simp_all add: once_defs)
    with e(2) w(2,5,6) l show ?thesis
      by (cases "ow_pcs s ! i") (auto simp: won_def lost_def locked_def split: if_split_asm)
  qed
  show ?thesis using e(1,3,4) assms(2,4) same own w(1) by (simp add: winner_ok_def nth_list_update)
qed

lemma once_inv_next: "once_inv s \<Longrightarrow> once_inv (once_next e s)"
proof -
  assume inv: "once_inv s"
  show ?thesis
  proof (cases "OnceWait_Do (fst e) (snd e) s")
    case (Some s')
    moreover have "nobody_yet s' \<or> (\<exists>w. winner_ok w s')"
      using nobody_Do [OF Some] winner_Do [OF Some] loser_Do [OF Some] inv by (auto simp: once_inv_def)
    ultimately show ?thesis using inv lock_ok_Do [OF Some] by (simp add: once_next_def once_inv_def)
  qed (use inv in \<open>simp add: once_next_def\<close>)
qed

lemma once_inv_run: "once_inv (fold once_next es (new_OnceWait n))"
  using once_inv_new [of n] by (induction es arbitrary: n rule: rev_induct) (simp_all add: once_inv_next)


section \<open>What Do guarantees\<close>

lemma once_next_length [simp]: "length (ow_pcs (once_next e s)) = length (ow_pcs s)"
  by (auto simp: once_next_def elim!: OnceWait_Do_effect split: option.split)

lemma once_run_length [simp]: "length (ow_pcs (fold once_next es s)) = length (ow_pcs s)"
  by (induction es arbitrary: s) simp_all

text \<open>
  C18. Whatever goroutines call \<open>Do\<close> and however they are scheduled, \<open>f\<close> is started at most once, only
  the call that ran it returns true, and no call returns before \<open>f\<close> has returned. So if \<open>f\<close> panics, no
  call ever returns, although the comment says that later calls then return at once.
\<close>

theorem once_wait_exact:
  fixes n :: nat and es :: "(bool \<times> nat) list"
  defines "s \<equiv> fold once_next es (new_OnceWait n)"
  assumes "i < n" and "ow_pcs s ! i = Returned b"
  shows "ow_started s = 1 \<and> ow_ended s = 1 \<and> (\<forall>j < n. j \<noteq> i \<longrightarrow> b \<longrightarrow> ow_pcs s ! j \<noteq> Returned True)"
proof -
  have n: "length (ow_pcs s) = n" by (simp add: s_def new_OnceWait_def)
  obtain w where w: "winner_ok w s"
    using once_inv_run [of es n] assms(2,3) n by (auto simp: once_inv_def nobody_yet_def simp flip: s_def)
  have "ow_pcs s ! w = Returned True \<and> (b \<longrightarrow> i = w)"
    using w assms(2,3) n by (cases b; cases "i = w") (auto simp: winner_ok_def won_def)
  then show ?thesis using w n by (auto simp: winner_ok_def winner_state_def won_def)
qed

theorem once_wait_exact_witness:
  "ow_ended (fold once_next
      [(False, 0), (False, 0), (False, 0), (False, 0), (False, 1), (False, 1), (False, 1), (False, 1), (False, 0), (False, 0),
       (False, 0), (False, 1)] (new_OnceWait 2)) = 1"
proof -
  let ?es = "[(False, 0), (False, 0), (False, 0), (False, 0), (False, 1), (False, 1), (False, 1), (False, 1), (False, 0), (False, 0),
       (False, 0), (False, 1)]"
  have "ow_pcs (fold once_next ?es (new_OnceWait 2)) ! 1 = Returned False" by code_simp
  from once_wait_exact [OF _ this] show ?thesis by simp
qed

text \<open>How many actions a goroutine still has at most.\<close>

fun once_rank :: "once_pc \<Rightarrow> nat" where
  "once_rank AtLock = 8"
| "once_rank AtCAS = 7"
| "once_rank AtAdd = 6"
| "once_rank (AtUnlock b) = 5"
| "once_rank AtCall = 4"
| "once_rank InF = 3"
| "once_rank AtDone = 2"
| "once_rank AtWait = 1"
| "once_rank (Returned b) = 0"
| "once_rank Panicked = 0"

definition once_left :: "once_wait \<Rightarrow> nat" where
  "once_left s = sum_list (map once_rank (ow_pcs s))"

lemma once_left_Do: "OnceWait_Do panics i s = Some s' \<Longrightarrow> once_left s' < once_left s"
proof -
  assume "OnceWait_Do panics i s = Some s'"
  then obtain pc t where e: "i < length (ow_pcs s)" "once_effect panics i (ow_pcs s ! i) s = Some (pc, t)"
    "s' = goto i pc t" "ow_pcs t = ow_pcs s" by (rule OnceWait_Do_effect)
  have "once_rank pc < once_rank (ow_pcs s ! i)" using e(2) by (cases "ow_pcs s ! i") (auto split: if_split_asm)
  moreover have "sum_list (map once_rank (xs[i := pc])) + once_rank (xs ! i) = sum_list (map once_rank xs) + once_rank pc"
    if "i < length xs" for xs using that by (induction xs arbitrary: i) (auto split: nat.split)
  ultimately show ?thesis using e(1,3,4) by (simp add: once_left_def) (metis add_less_cancel_left add.commute nat_add_left_cancel_less)
qed

lemma once_stuck:
  assumes "once_inv s" and "Panicked \<notin> set (ow_pcs s)" and "\<And>i. OnceWait_Do False i s = None" and "i < length (ow_pcs s)"
  shows "\<exists>b. ow_pcs s ! i = Returned b"
proof -
  have pc: "ow_pcs s ! j \<in> {AtLock, AtWait} \<or> (\<exists>b. ow_pcs s ! j = Returned b)" if "j < length (ow_pcs s)" for j
    using assms(3) [of j] assms(2) that nth_mem [OF that]
    by (cases "ow_pcs s ! j") (auto simp: OnceWait_Do_def)
  have "ow_lock s = None"
  proof (cases "ow_lock s")
    case (Some j)
    then have "j < length (ow_pcs s)" "locked (ow_pcs s ! j)" using assms(1) by (auto simp: once_inv_def lock_ok_def)
    then show ?thesis using pc [of j] by (auto simp: locked_def)
  qed
  then have lock: "ow_pcs s ! j \<noteq> AtLock" if "j < length (ow_pcs s)" for j
    using assms(3) [of j] that by (auto simp: OnceWait_Do_def)
  then obtain w where w: "winner_ok w s"
    using assms(1,4) pc by (fastforce simp: once_inv_def nobody_yet_def)
  then have "w < length (ow_pcs s)" "won (ow_pcs s ! w)" by (auto simp: winner_ok_def)
  then have "ow_pcs s ! w = Returned True" using pc [of w] by (auto simp: won_def)
  then have "ow_wait s = 0" using w by (simp add: winner_ok_def winner_state_def)
  then show ?thesis using pc [OF assms(4)] lock [OF assms(4)] assms(3) [of i] assms(4) by (auto simp: OnceWait_Do_def)
qed

lemma once_no_panic:
  "Panicked \<notin> set (ow_pcs s) \<Longrightarrow> Panicked \<notin> set (ow_pcs (once_next (False, i) s))"
proof (cases "OnceWait_Do False i s")
  case (Some s')
  assume p: "Panicked \<notin> set (ow_pcs s)"
  obtain pc t where e: "i < length (ow_pcs s)" "once_effect False i (ow_pcs s ! i) s = Some (pc, t)"
    "s' = goto i pc t" "ow_pcs t = ow_pcs s" using Some by (rule OnceWait_Do_effect)
  have "pc \<noteq> Panicked" using e(2) by (cases "ow_pcs s ! i") (auto split: if_split_asm)
  then show ?thesis using Some e p set_update_subset_insert [of "ow_pcs s" i pc] by (auto simp: once_next_def)
qed (simp add: once_next_def)

lemma once_finish:
  assumes "once_inv s" and "Panicked \<notin> set (ow_pcs s)"
  shows "\<exists>ks. \<forall>i < length (ow_pcs s). \<exists>b. ow_pcs (fold (\<lambda>i. once_next (False, i)) ks s) ! i = Returned b"
  using assms
proof (induction "once_left s" arbitrary: s rule: less_induct)
  case less
  show ?case
  proof (cases "\<exists>i. OnceWait_Do False i s \<noteq> None")
    case True
    then obtain i s' where i: "OnceWait_Do False i s = Some s'" by auto
    then have s': "s' = once_next (False, i) s" by (simp add: once_next_def)
    have "\<exists>ks. \<forall>i < length (ow_pcs s'). \<exists>b. ow_pcs (fold (\<lambda>i. once_next (False, i)) ks s') ! i = Returned b"
      using less once_left_Do [OF i] once_inv_next once_no_panic unfolding s' by blast
    then obtain js where "\<forall>j < length (ow_pcs s). \<exists>b. ow_pcs (fold (\<lambda>i. once_next (False, i)) (i # js) s) ! j = Returned b"
      by (auto simp: s')
    then show ?thesis by blast
  next
    case False
    then have "\<forall>i < length (ow_pcs s). \<exists>b. ow_pcs s ! i = Returned b" using once_stuck [OF less.prems] by blast
    then show ?thesis by (intro exI [of _ "[]"]) simp
  qed
qed

text \<open>
  C28. \<open>Do\<close> does not deadlock: as long as \<open>f\<close> returns, every state that goroutines calling \<open>Do\<close> can get into
  can be continued until all calls have returned.
\<close>

theorem once_wait_returns:
  fixes n :: nat and ks :: "nat list"
  defines "s \<equiv> fold (\<lambda>i. once_next (False, i)) ks (new_OnceWait n)"
  shows "\<exists>js. \<forall>i < n. \<exists>b. ow_pcs (fold (\<lambda>i. once_next (False, i)) js s) ! i = Returned b"
proof -
  have "once_inv s \<and> Panicked \<notin> set (ow_pcs s) \<and> length (ow_pcs s) = n"
    unfolding s_def
  proof (induction ks rule: rev_induct)
    case Nil
    show ?case using once_inv_new [of n] by (auto simp: new_OnceWait_def)
  qed (simp add: once_inv_next once_no_panic)
  then show ?thesis using once_finish [of s] by auto
qed

theorem once_wait_returns_witness:
  "\<exists>js. \<forall>i < 2. \<exists>b.
     ow_pcs (fold (\<lambda>i. once_next (False, i)) js (fold (\<lambda>i. once_next (False, i)) [0, 1, 0] (new_OnceWait 2))) ! i = Returned b"
  by (rule once_wait_returns)

section \<open>Once\<close>

text \<open>
  \<open>Once.Do\<close> has no lock and no wait group: a call that comes while \<open>f\<close> runs returns at once. This is what
  lets \<open>stop\<close> of a session and the \<open>onDisconnect\<close> it causes share one \<open>Once\<close>.
\<close>

definition Once_step :: "nat \<Rightarrow> once_wait \<Rightarrow> once_wait option" where
  "Once_step i s =
     (if i < length (ow_pcs s) then
        (case ow_pcs s ! i of
           AtCAS \<Rightarrow> Some (if ow_val s = 0 then goto i AtCall (s\<lparr>ow_val := 1\<rparr>) else goto i (Returned False) s)
         | AtCall \<Rightarrow> Some (goto i InF (s\<lparr>ow_started := ow_started s + 1\<rparr>))
         | InF \<Rightarrow> Some (goto i (Returned True) (s\<lparr>ow_ended := ow_ended s + 1\<rparr>))
         | _ \<Rightarrow> None)
      else None)"

lemma Once_loser_returns_early:
  "\<exists>s1 s2 s3. Once_step 0 (new_OnceWait 2\<lparr>ow_pcs := [AtCAS, AtCAS]\<rparr>) = Some s1 \<and> Once_step 0 s1 = Some s2 \<and>
     Once_step 1 s2 = Some s3 \<and> ow_pcs s3 = [InF, Returned False] \<and> ow_ended s3 = 0"
  by (simp add: Once_step_def new_OnceWait_def)

end
