(* ===== verification/Connect.thy ===== *)
theory Connect
  imports Header
begin

text \<open>
  \<open>src/packet/connect.go\<close>: the CONNECT packet, the first one a client sends. Its decoder
  takes the protocol version from the packet itself; the broker creates the message with
  \<open>New(ProtocolV50, CONNECT)\<close> before it knows that version.
\<close>

section \<open>State\<close>

record ConnectWill =
  will_topic :: gostring
  will_message :: "byte list"

record Connect = header +
  keepAlive :: uint16
  connectFlags :: byte
  clientID :: "byte list"
  username :: "byte list"
  password :: "byte list"
  will :: ConnectWill

definition newConnect :: Connect where
  "newConnect =
     \<lparr>properties = \<lparr>props = None, plen = 0\<rparr>, packetID = [], remLen = 0, mFlags = 0, mType = 0,
      h_version = 0, keepAlive = 0, connectFlags = 0, clientID = [], username = [], password = [],
      will = \<lparr>will_topic = [], will_message = []\<rparr>\<rparr>"

section \<open>Flags\<close>

definition Connect_IsClean :: "Connect \<Rightarrow> bool" where
  "Connect_IsClean msg = (connectFlags msg AND maskConnFlagClean \<noteq> 0)"

definition Connect_SetClean :: "bool \<Rightarrow> Connect \<Rightarrow> Connect" where
  "Connect_SetClean v msg =
     (if v then msg\<lparr>connectFlags := connectFlags msg OR maskConnFlagClean\<rparr>
      else msg\<lparr>connectFlags := connectFlags msg AND NOT maskConnFlagClean\<rparr>)"

definition Connect_willFlag :: "Connect \<Rightarrow> bool" where
  "Connect_willFlag msg = (connectFlags msg AND maskConnFlagWill \<noteq> 0)"

definition Connect_willQos :: "Connect \<Rightarrow> QosType" where
  "Connect_willQos msg = drop_bit offsetConnFlagWillQoS (connectFlags msg AND maskConnFlagWillQos)"

definition Connect_willRetain :: "Connect \<Rightarrow> bool" where
  "Connect_willRetain msg = (connectFlags msg AND maskConnFlagWillRetain \<noteq> 0)"

definition Connect_usernameFlag :: "Connect \<Rightarrow> bool" where
  "Connect_usernameFlag msg = (connectFlags msg AND maskConnFlagUsername \<noteq> 0)"

definition Connect_passwordFlag :: "Connect \<Rightarrow> bool" where
  "Connect_passwordFlag msg = (connectFlags msg AND maskConnFlagPassword \<noteq> 0)"

section \<open>Contents\<close>

text \<open>The character class of the regular expression \<open>^[0-9a-zA-Z \-_,.|]*$\<close>.\<close>

definition clientID_char :: "byte \<Rightarrow> bool" where
  "clientID_char c =
     (0x30 \<le> c \<and> c \<le> 0x39 \<or> 0x61 \<le> c \<and> c \<le> 0x7A \<or> 0x41 \<le> c \<and> c \<le> 0x5A \<or>
      c = 0x20 \<or> c = 0x2D \<or> c = 0x5F \<or> c = 0x2C \<or> c = 0x2E \<or> c = 0x7C)"

definition validClientID :: "byte list \<Rightarrow> bool" where
  "validClientID cid =
     (if length cid = 0 then True else utf8_valid cid \<and> list_all clientID_char cid)"

definition Connect_SetClientID :: "byte list \<Rightarrow> Connect \<Rightarrow> Connect \<times> go_error option" where
  "Connect_SetClientID v msg =
     (if \<not> validClientID v then (msg, Some (EPkt ErrInvalid)) else (msg\<lparr>clientID := v\<rparr>, None))"

definition Connect_Will :: "Connect \<Rightarrow> gostring \<times> byte list \<times> QosType \<times> bool \<times> bool" where
  "Connect_Will msg =
     (will_topic (will msg), will_message (will msg),
      drop_bit offsetConnFlagWillQoS (connectFlags msg AND maskConnFlagWillQos),
      connectFlags msg AND maskConnFlagWillRetain \<noteq> 0,
      connectFlags msg AND maskConnFlagWill \<noteq> 0)"

definition Connect_ResetWill :: "Connect \<Rightarrow> Connect" where
  "Connect_ResetWill msg =
     msg\<lparr>connectFlags := connectFlags msg AND NOT maskConnFlagWill AND NOT maskConnFlagWillQos
                        AND NOT maskConnFlagWillRetain,
         will := \<lparr>will_topic = [], will_message = []\<rparr>\<rparr>"

definition Connect_SetWill ::
    "gostring \<Rightarrow> byte list \<Rightarrow> QosType \<Rightarrow> bool \<Rightarrow> Connect \<Rightarrow> Connect \<times> go_error option" where
  "Connect_SetWill t m qos retain msg =
     (let ok = \<not> (length t = 0 \<or> length m = 0 \<or> \<not> Qos_IsValid qos);
          m0 = Connect_ResetWill msg in
      if \<not> ok then (m0, Some (EPkt ErrInvalidArgs))
      else (let m1 = (if retain then m0\<lparr>connectFlags := connectFlags m0 OR maskConnFlagWillRetain\<rparr> else m0)
            in (m1\<lparr>connectFlags := connectFlags m1 OR push_bit offsetConnFlagWillQoS qos OR maskConnFlagWill,
                   will := \<lparr>will_topic = t, will_message = m\<rparr>\<rparr>, None)))"

text \<open>The check on the old user name and password, as the code has it.\<close>

definition Connect_SetCredentials ::
    "byte list \<Rightarrow> byte list \<Rightarrow> Connect \<Rightarrow> Connect \<times> go_error option" where
  "Connect_SetCredentials u p msg =
     (let m0 = msg\<lparr>connectFlags := connectFlags msg AND NOT maskConnFlagUsername AND NOT maskConnFlagPassword\<rparr> in
      if length (username m0) = 0 \<and> length (password m0) \<noteq> 0 \<and> h_version m0 < ProtocolV50
      then (m0, Some (EPkt ErrInvalidArgs))
      else if length u \<noteq> 0 \<and> \<not> utf8_valid u then (m0, Some (EPkt ErrInvalidUtf8))
      else (let m1 = (if length u \<noteq> 0
                      then m0\<lparr>connectFlags := connectFlags m0 OR maskConnFlagUsername, username := u\<rparr> else m0);
                m2 = (if length p \<noteq> 0
                      then m1\<lparr>connectFlags := connectFlags m1 OR maskConnFlagPassword, password := p\<rparr> else m1)
            in (m2, None)))"

section \<open>Codec\<close>

definition Connect_encodeMessage :: "Connect \<Rightarrow> go_error writer" where
  "Connect_encodeMessage msg =
     (case map_of SupportedVersions (h_version msg) of
        None \<Rightarrow> w_fail 0 (EPkt ErrInvalidProtocolVersion)
      | Some name \<Rightarrow>
          w_then (WriteLPBytes name)
           (w_then (w_put [h_version msg])
             (w_then (w_put [connectFlags msg])
               (w_then (w_put (be_bytes16 (keepAlive msg)))
                 (w_then (if h_version msg \<ge> ProtocolV50 then property_encode (properties msg) else w_skip)
                   (w_then (WriteLPBytes (clientID msg))
                     (w_then (if Connect_willFlag msg
                              then w_then (WriteLPBytes (will_topic (will msg)))
                                     (WriteLPBytes (will_message (will msg))) else w_skip)
                       (w_then (if Connect_usernameFlag msg then WriteLPBytes (username msg) else w_skip)
                         (if Connect_passwordFlag msg then WriteLPBytes (password msg) else w_skip)))))))))"

text \<open>The two ways the fields of the payload are read: the first assigns before the error
  check, the second only after it.\<close>

definition decode_lp ::
    "byte list \<Rightarrow> (byte list \<Rightarrow> 'm \<Rightarrow> 'm) \<Rightarrow> 'm \<Rightarrow> nat \<Rightarrow> ('m, go_error) decoded" where
  "decode_lp from assign m offset = do {
     sl \<leftarrow> go_slice_from from offset;
     let (b, n, err) = ReadLPBytes sl;
     Some (assign b m, offset + n, err) }"

definition decode_lp_ok ::
    "byte list \<Rightarrow> (byte list \<Rightarrow> 'm \<Rightarrow> 'm) \<Rightarrow> 'm \<Rightarrow> nat \<Rightarrow> ('m, go_error) decoded" where
  "decode_lp_ok from assign m offset = do {
     sl \<leftarrow> go_slice_from from offset;
     let (b, n, err) = ReadLPBytes sl;
     Some (if err = None then assign b m else m, offset + n, err) }"

text \<open>Protocol name, version, flags and keep alive.\<close>

definition Connect_checkFlags :: "Connect \<Rightarrow> go_error option" where
  "Connect_checkFlags msg =
     (if connectFlags msg AND maskConnFlagReserved \<noteq> 0 then v5_code msg CodeMalformedPacket
      else if \<not> Qos_IsValid (Connect_willQos msg) then v5_code msg CodeMalformedPacket
      else if \<not> Connect_willFlag msg \<and> (Connect_willRetain msg \<or> Connect_willQos msg \<noteq> QoS0)
      then v5_code msg CodeMalformedPacket
      else if \<not> Connect_usernameFlag msg \<and> Connect_passwordFlag msg \<and> h_version msg < ProtocolV50
      then Some (ECode CodeRefusedBadUsernameOrPassword)
      else None)"

definition Connect_decodeHead :: "Connect \<Rightarrow> byte list \<Rightarrow> (Connect, go_error) decoded" where
  "Connect_decodeHead msg from =
     (case ReadLPBytes from of
        (protoName, n, Some e) \<Rightarrow> Some (msg, 0, Some e)
      | (protoName, n, None) \<Rightarrow>
          if \<not> utf8_valid protoName then Some (msg, n, Some (EPkt ErrProtocolInvalidName))
          else do {
            ver \<leftarrow> go_index from n;
            let m1 = msg\<lparr>h_version := ver\<rparr>;
            if map_of SupportedVersions ver \<noteq> Some protoName
            then Some (m1, n + 1, Some (EPkt ErrInvalidProtocolVersion))
            else do {
              flags \<leftarrow> go_index from (n + 1);
              let m2 = m1\<lparr>connectFlags := flags\<rparr>;
              (case Connect_checkFlags m2 of
                 Some e \<Rightarrow> Some (m2, n + 2, Some e)
               | None \<Rightarrow> do {
                   sl \<leftarrow> go_slice_from from (n + 2);
                   ka \<leftarrow> be_uint16 sl;
                   Some (m2\<lparr>keepAlive := ka\<rparr>, n + 4, None) }) } })"

definition Connect_decodeClientID :: "byte list \<Rightarrow> Connect \<Rightarrow> nat \<Rightarrow> (Connect, go_error) decoded" where
  "Connect_decodeClientID from msg offset =
     d_then (decode_lp from (\<lambda>b m. m\<lparr>clientID := b\<rparr>) msg offset)
       (\<lambda>m o'. if length (clientID m) = 0 \<and> \<not> Connect_IsClean m
               then Some (m, o', Some (ECode CodeRefusedIdentifierRejected))
               else if \<not> validClientID (clientID m)
               then Some (m, o', Some (ECode (if h_version m = ProtocolV50 then CodeInvalidClientID
                                              else CodeRefusedIdentifierRejected)))
               else Some (m, o', None))"

definition Connect_decodeWill :: "byte list \<Rightarrow> Connect \<Rightarrow> nat \<Rightarrow> (Connect, go_error) decoded" where
  "Connect_decodeWill from msg offset =
     (if Connect_willFlag msg
      then d_then (decode_lp_ok from (\<lambda>b m. m\<lparr>will := (will m)\<lparr>will_topic := b\<rparr>\<rparr>) msg offset)
             (decode_lp_ok from (\<lambda>b m. m\<lparr>will := (will m)\<lparr>will_message := b\<rparr>\<rparr>))
      else Some (msg, offset, None))"

definition Connect_decodeUsername :: "byte list \<Rightarrow> Connect \<Rightarrow> nat \<Rightarrow> (Connect, go_error) decoded" where
  "Connect_decodeUsername from msg offset =
     (if Connect_usernameFlag msg then decode_lp from (\<lambda>b m. m\<lparr>username := b\<rparr>) msg offset
      else Some (msg, offset, None))"

definition Connect_decodePassword :: "byte list \<Rightarrow> Connect \<Rightarrow> nat \<Rightarrow> (Connect, go_error) decoded" where
  "Connect_decodePassword from msg offset =
     (if Connect_passwordFlag msg then decode_lp from (\<lambda>b m. m\<lparr>password := b\<rparr>) msg offset
      else Some (msg, offset, None))"

definition Connect_decodeProps :: "byte list \<Rightarrow> Connect \<Rightarrow> nat \<Rightarrow> (Connect, go_error) decoded" where
  "Connect_decodeProps from msg offset =
     (if h_version msg \<ge> ProtocolV50 then decode_props from msg offset else Some (msg, offset, None))"

definition Connect_decodeMessage :: "Connect \<Rightarrow> byte list \<Rightarrow> (Connect, go_error) decoded" where
  "Connect_decodeMessage msg from =
     d_then (d_then (d_then (d_then (d_then (Connect_decodeHead msg from)
       (Connect_decodeProps from)) (Connect_decodeClientID from)) (Connect_decodeWill from))
       (Connect_decodeUsername from)) (Connect_decodePassword from)"

definition Connect_size :: "Connect \<Rightarrow> nat" where
  "Connect_size msg =
     (case map_of SupportedVersions (h_version msg) of
        None \<Rightarrow> 0
      | Some name \<Rightarrow>
          (2 + length name + 1 + 1 + 2) +
          (if h_version msg \<ge> ProtocolV50 then unat (property_FullLen (properties msg)) else 0) +
          (2 + length (clientID msg)) +
          (if Connect_willFlag msg
           then 2 + length (will_topic (will msg)) + 2 + length (will_message (will msg)) else 0) +
          (if Connect_usernameFlag msg then 2 + length (username msg) else 0) +
          (if Connect_passwordFlag msg then 2 + length (password msg) else 0))"

section \<open>Wire format\<close>

text \<open>
  The messages a client of version \<open>h_version m\<close> can send, for a receiver that starts from
  \<open>New(ProtocolV50, CONNECT)\<close>: flags the decoder accepts, fields empty unless their flag is
  set, and before V5.0 no properties.
\<close>

definition Connect_wf :: "ProtocolVersion \<Rightarrow> Connect \<Rightarrow> bool" where
  "Connect_wf v m =
     (v = ProtocolV50 \<and> ProtocolVersion_IsValid (h_version m) \<and>
      mType m = CONNECT \<and> mFlags m = 0 \<and> packetID m = [] \<and>
      Connect_checkFlags m = None \<and>
      (if h_version m = ProtocolV50 then wf_property CONNECT (properties m)
       else properties m = \<lparr>props = Some [], plen = 0\<rparr>) \<and>
      validClientID (clientID m) \<and> length (clientID m) \<le> MaxLPString \<and>
      (clientID m = [] \<longrightarrow> Connect_IsClean m) \<and>
      (if Connect_willFlag m
       then length (will_topic (will m)) \<le> MaxLPString \<and> length (will_message (will m)) \<le> MaxLPString
       else will m = \<lparr>will_topic = [], will_message = []\<rparr>) \<and>
      (if Connect_usernameFlag m then length (username m) \<le> MaxLPString else username m = []) \<and>
      (if Connect_passwordFlag m then length (password m) \<le> MaxLPString else password m = []) \<and>
      int (Connect_size m) \<le> maxRemainingLength)"

definition protoName :: "Connect \<Rightarrow> gostring" where
  "protoName m = (case map_of SupportedVersions (h_version m) of Some name \<Rightarrow> name | None \<Rightarrow> [])"

definition Connect_head :: "Connect \<Rightarrow> byte list" where
  "Connect_head m = lp_bytes (protoName m) @ [h_version m, connectFlags m] @ be_bytes16 (keepAlive m)"

definition lp_if :: "bool \<Rightarrow> byte list \<Rightarrow> byte list" where
  "lp_if c b = (if c then lp_bytes b else [])"

definition Connect_body :: "Connect \<Rightarrow> byte list" where
  "Connect_body m =
     Connect_head m @ props_wire m @ lp_bytes (clientID m) @
     lp_if (Connect_willFlag m) (will_topic (will m)) @ lp_if (Connect_willFlag m) (will_message (will m)) @
     lp_if (Connect_usernameFlag m) (username m) @ lp_if (Connect_passwordFlag m) (password m)"

lemma SupportedVersions_cases:
  assumes "ProtocolVersion_IsValid v"
  obtains name where "map_of SupportedVersions v = Some name" and "length name \<le> MaxLPString"
    and "utf8_valid name"
  using assms that
  by (auto simp: ProtocolVersion_IsValid_def SupportedVersions_def MaxLPString_def split: if_splits)

lemma version_ge_V50:
  "ProtocolVersion_IsValid v \<Longrightarrow> ProtocolV50 \<le> v \<longleftrightarrow> v = ProtocolV50"
  by (auto simp: ProtocolVersion_IsValid_def SupportedVersions_def split: if_splits)

lemma decode_lp_wire:
  assumes "length b \<le> MaxLPString" and "from = pre @ lp_bytes b @ rest" and "offset = length pre"
  shows "decode_lp from f m offset = Some (f b m, length (pre @ lp_bytes b), None)"
    and "decode_lp_ok from f m offset = Some (f b m, length (pre @ lp_bytes b), None)"
  using ReadLPBytes_roundtrip [OF assms(1), of rest]
  by (simp_all add: decode_lp_def decode_lp_ok_def assms(2,3))

lemma Connect_size_body:
  assumes "Connect_wf v m"
  shows "Connect_size m = length (Connect_body m)"
proof -
  have v: "ProtocolVersion_IsValid (h_version m)" using assms by (simp add: Connect_wf_def)
  then obtain name where "map_of SupportedVersions (h_version m) = Some name"
    by (rule SupportedVersions_cases)
  moreover have "h_version m = ProtocolV50 \<Longrightarrow>
      unat (property_FullLen (properties m)) = length (property_bytes (properties m))"
    using assms length_property_bytes [of CONNECT "properties m"] by (simp add: Connect_wf_def)
  ultimately show ?thesis
    using version_ge_V50 [OF v]
    by (auto simp: Connect_size_def Connect_body_def Connect_head_def protoName_def lp_if_def props_wire_def)
qed

lemma emits_lp_if:
  "(c \<Longrightarrow> length b \<le> MaxLPString) \<Longrightarrow> emits (if c then WriteLPBytes b else w_skip) (lp_if c b)"
  by (auto simp: lp_if_def intro: emits_intros)

lemma Connect_encode_body:
  assumes wf: "Connect_wf v m"
  shows "emits (Connect_encodeMessage m) (Connect_body m)"
proof -
  have v: "ProtocolVersion_IsValid (h_version m)" using wf by (simp add: Connect_wf_def)
  then obtain name where name: "map_of SupportedVersions (h_version m) = Some name" "length name \<le> MaxLPString"
    by (rule SupportedVersions_cases)
  have enc: "emits (w_then (WriteLPBytes name) (w_then (w_put [h_version m]) (w_then (w_put [connectFlags m])
      (w_then (w_put (be_bytes16 (keepAlive m)))
      (w_then (if h_version m \<ge> ProtocolV50 then property_encode (properties m) else w_skip)
      (w_then (WriteLPBytes (clientID m))
      (w_then (if Connect_willFlag m then w_then (WriteLPBytes (will_topic (will m)))
                 (WriteLPBytes (will_message (will m))) else w_skip)
      (w_then (if Connect_usernameFlag m then WriteLPBytes (username m) else w_skip)
         (if Connect_passwordFlag m then WriteLPBytes (password m) else w_skip)))))))))
    (lp_bytes name @ [h_version m] @ [connectFlags m] @ be_bytes16 (keepAlive m) @ props_wire m @
     lp_bytes (clientID m) @
     (if Connect_willFlag m then lp_bytes (will_topic (will m)) @ lp_bytes (will_message (will m)) else []) @
     lp_if (Connect_usernameFlag m) (username m) @ lp_if (Connect_passwordFlag m) (password m))"
    by (intro emits_then emits_put emits_lp_if emits_WriteLPBytes emits_if)
       (use wf name version_ge_V50 [OF v] in
          \<open>auto simp: Connect_wf_def props_wire_def intro: emits_intros split: if_splits\<close>)
  have "lp_bytes name @ [h_version m] @ [connectFlags m] @ be_bytes16 (keepAlive m) @ props_wire m @
     lp_bytes (clientID m) @
     (if Connect_willFlag m then lp_bytes (will_topic (will m)) @ lp_bytes (will_message (will m)) else []) @
     lp_if (Connect_usernameFlag m) (username m) @ lp_if (Connect_passwordFlag m) (password m) =
    Connect_body m"
    by (simp add: Connect_body_def Connect_head_def protoName_def name lp_if_def)
  with enc name(1) show ?thesis
    by (simp add: Connect_encodeMessage_def)
qed

text \<open>The stages of the decoder, each on its own part of the body.\<close>

lemma Connect_checkFlags_cong:
  "h_version h = h_version m \<Longrightarrow> connectFlags h = connectFlags m \<Longrightarrow> Connect_checkFlags h = Connect_checkFlags m"
  by (simp only: Connect_checkFlags_def Connect_willQos_def Connect_willFlag_def Connect_willRetain_def
      Connect_usernameFlag_def Connect_passwordFlag_def v5_code_def)

lemma Connect_decodeHead_wire:
  assumes "ProtocolVersion_IsValid (h_version m)" and "Connect_checkFlags m = None"
    and "from = Connect_head m @ rest"
  shows "Connect_decodeHead h from =
     Some (h\<lparr>h_version := h_version m, connectFlags := connectFlags m, keepAlive := keepAlive m\<rparr>,
           length (Connect_head m), None)"
proof -
  obtain name where name: "map_of SupportedVersions (h_version m) = Some name" "length name \<le> MaxLPString"
      "utf8_valid name"
    using assms(1) by (rule SupportedVersions_cases)
  have pn: "protoName m = name" by (simp add: protoName_def name)
  have "ReadLPBytes from = (name, length (lp_bytes name), None)"
    using name(2) by (simp add: assms(3) Connect_head_def pn ReadLPBytes_roundtrip)
  moreover have "go_index from (length (lp_bytes name)) = Some (h_version m)"
    "go_index from (length (lp_bytes name) + 1) = Some (connectFlags m)"
    "go_slice_from from (length (lp_bytes name) + 2) = Some (be_bytes16 (keepAlive m) @ rest)"
    by (simp_all add: assms(3) Connect_head_def pn go_index_def go_slice_from_def nth_append del: length_lp_bytes)
  moreover have "Connect_checkFlags (h\<lparr>h_version := h_version m, connectFlags := connectFlags m\<rparr>) = None"
    using assms(2) by (subst Connect_checkFlags_cong [of _ m]) simp_all
  ultimately show ?thesis
    using name by (simp add: Connect_decodeHead_def Connect_head_def pn Let_def del: length_lp_bytes)
qed

lemma Connect_decodeClientID_wire:
  assumes "from = pre @ lp_bytes b @ rest" and "offset = length pre" and "length b \<le> MaxLPString"
    and "validClientID b" and "b = [] \<longrightarrow> Connect_IsClean h"
  shows "Connect_decodeClientID from h offset = Some (h\<lparr>clientID := b\<rparr>, length (pre @ lp_bytes b), None)"
  using assms(4,5)
  by (auto simp: Connect_decodeClientID_def decode_lp_wire(1) [OF assms(3,1,2)] Connect_IsClean_def)

lemma Connect_decodeWill_wire:
  assumes "from = pre @ lp_if (Connect_willFlag h) t @ lp_if (Connect_willFlag h) msg @ rest"
    and "offset = length pre"
    and "if Connect_willFlag h then length t \<le> MaxLPString \<and> length msg \<le> MaxLPString else t = [] \<and> msg = []"
    and "will h = \<lparr>will_topic = [], will_message = []\<rparr>"
  shows "Connect_decodeWill from h offset = Some (h\<lparr>will := \<lparr>will_topic = t, will_message = msg\<rparr>\<rparr>,
     length (pre @ lp_if (Connect_willFlag h) t @ lp_if (Connect_willFlag h) msg), None)"
proof (cases "Connect_willFlag h")
  case True
  then have fr: "from = pre @ lp_bytes t @ lp_bytes msg @ rest" "from = (pre @ lp_bytes t) @ lp_bytes msg @ rest"
    and len: "length t \<le> MaxLPString" "length msg \<le> MaxLPString"
    using assms(1,3) by (simp_all add: lp_if_def)
  show ?thesis
    using True assms(4)
    by (simp add: Connect_decodeWill_def decode_lp_wire(2) [OF len(1) fr(1) assms(2)]
        decode_lp_wire(2) [OF len(2) fr(2) refl, simplified] lp_if_def)
qed (use assms in \<open>cases h; simp add: Connect_decodeWill_def lp_if_def\<close>)

lemma Connect_decode_credentials_wire:
  assumes "from = pre @ lp_if (Connect_usernameFlag h) u @ lp_if (Connect_passwordFlag h) p"
    and "offset = length pre"
    and "if Connect_usernameFlag h then length u \<le> MaxLPString else u = []"
    and "if Connect_passwordFlag h then length p \<le> MaxLPString else p = []"
    and "username h = []" and "password h = []"
  shows "d_then (Connect_decodeUsername from h offset) (Connect_decodePassword from) =
     Some (h\<lparr>username := u, password := p\<rparr>, length from, None)"
proof -
  let ?pre = "pre @ lp_if (Connect_usernameFlag h) u"
  have u: "Connect_decodeUsername from h offset = Some (h\<lparr>username := u\<rparr>, length ?pre, None)"
  proof (cases "Connect_usernameFlag h")
    case True
    then have "length u \<le> MaxLPString" "from = pre @ lp_bytes u @ lp_if (Connect_passwordFlag h) p"
      using assms(1,3) by (simp_all add: lp_if_def)
    from decode_lp_wire(1) [OF this assms(2)] True show ?thesis
      by (simp add: Connect_decodeUsername_def lp_if_def)
  qed (use assms in \<open>cases h; simp add: Connect_decodeUsername_def lp_if_def\<close>)
  have p: "Connect_decodePassword from (h\<lparr>username := u\<rparr>) (length ?pre) =
      Some (h\<lparr>username := u, password := p\<rparr>, length from, None)"
  proof (cases "Connect_passwordFlag h")
    case True
    then have len: "length p \<le> MaxLPString" and fr: "from = ?pre @ lp_bytes p @ []"
      using assms(1,4) by (simp_all add: lp_if_def)
    from decode_lp_wire(1) [OF len fr refl] True show ?thesis
      by (simp add: Connect_decodePassword_def Connect_passwordFlag_def fr)
  next
    case False
    with assms show ?thesis
      by (cases h) (simp add: Connect_decodePassword_def Connect_passwordFlag_def lp_if_def)
  qed
  show ?thesis by (simp only: u d_then_ok p)
qed

lemma Connect_decodeProps_wire:
  assumes "if h_version m = ProtocolV50 then wf_property CONNECT (properties m)
           else properties m = \<lparr>props = Some [], plen = 0\<rparr>"
    and v: "ProtocolVersion_IsValid (h_version m)"
    and "mType h = CONNECT" and "h_version h = h_version m" and "properties h = \<lparr>props = Some [], plen = 0\<rparr>"
    and "from = pre @ props_wire m @ rest" and "offset = length pre"
  shows "Connect_decodeProps from h offset =
     Some (h\<lparr>properties := properties m\<rparr>, length (pre @ props_wire m), None)"
proof (cases "h_version m = ProtocolV50")
  case True
  with assms decode_props_wire [of h "properties m" "from" pre rest offset] show ?thesis
    by (simp add: Connect_decodeProps_def props_wire_def)
next
  case False
  with assms version_ge_V50 [OF v] show ?thesis
    by (cases h) (simp add: Connect_decodeProps_def props_wire_def)
qed

lemma d_then_assoc: "d_then (d_then r f) g = d_then r (\<lambda>m n. d_then (f m n) g)"
  by (cases r) (auto simp: d_then_def split: option.splits)

lemma Connect_decode_body:
  assumes wf: "Connect_wf v m"
  shows "Connect_decodeMessage
     ((header_init v CONNECT newConnect)\<lparr>mFlags := mFlags m, remLen := of_nat (length (Connect_body m))\<rparr>)
     (Connect_body m) =
   Some (m\<lparr>remLen := of_nat (length (Connect_body m))\<rparr>, length (Connect_body m), None)"
proof -
  define fr where "fr = Connect_body m"
  define h0 where "h0 = (header_init v CONNECT newConnect)\<lparr>mFlags := mFlags m, remLen := of_nat (length fr)\<rparr>"
  define h1 where "h1 = h0\<lparr>h_version := h_version m, connectFlags := connectFlags m, keepAlive := keepAlive m\<rparr>"
  define h2 where "h2 = h1\<lparr>properties := properties m\<rparr>"
  define h3 where "h3 = h2\<lparr>clientID := clientID m\<rparr>"
  define h4 where "h4 = h3\<lparr>will := will m\<rparr>"
  note w = wf [unfolded Connect_wf_def]
  note hs = h0_def h1_def h2_def h3_def h4_def
  have flags: "Connect_IsClean h2 = Connect_IsClean m" "Connect_willFlag h3 = Connect_willFlag m"
    "Connect_usernameFlag h4 = Connect_usernameFlag m" "Connect_passwordFlag h4 = Connect_passwordFlag m"
    by (simp_all add: hs Connect_IsClean_def Connect_willFlag_def Connect_usernameFlag_def Connect_passwordFlag_def)
  let ?p1 = "Connect_head m" let ?p2 = "?p1 @ props_wire m" let ?p3 = "?p2 @ lp_bytes (clientID m)"
  let ?p4 = "?p3 @ lp_if (Connect_willFlag m) (will_topic (will m)) @ lp_if (Connect_willFlag m) (will_message (will m))"
  have 1: "Connect_decodeHead h0 fr = Some (h1, length ?p1, None)"
    unfolding h1_def using w by (intro Connect_decodeHead_wire) (auto simp: fr_def Connect_body_def)
  have 2: "Connect_decodeProps fr h1 (length ?p1) = Some (h2, length ?p2, None)"
    unfolding h2_def using w
    by (intro Connect_decodeProps_wire)
       (auto simp: fr_def Connect_body_def h1_def h0_def newConnect_def props_new_def)
  have 3: "Connect_decodeClientID fr h2 (length ?p2) = Some (h3, length ?p3, None)"
    unfolding h3_def using w flags(1)
    by (intro Connect_decodeClientID_wire) (auto simp: fr_def Connect_body_def)
  have 4: "Connect_decodeWill fr h3 (length ?p3) = Some (h4, length ?p4, None)"
  proof -
    have "will h3 = \<lparr>will_topic = [], will_message = []\<rparr>"
      by (simp add: hs newConnect_def header_init_def header_setType_def Let_def)
    moreover have "fr = ?p3 @ lp_if (Connect_willFlag h3) (will_topic (will m)) @
        lp_if (Connect_willFlag h3) (will_message (will m)) @
        lp_if (Connect_usernameFlag m) (username m) @ lp_if (Connect_passwordFlag m) (password m)"
      by (simp add: fr_def Connect_body_def flags)
    moreover have "if Connect_willFlag h3 then length (will_topic (will m)) \<le> MaxLPString \<and>
        length (will_message (will m)) \<le> MaxLPString else will_topic (will m) = [] \<and> will_message (will m) = []"
      using w by (auto simp: flags split: if_splits)
    ultimately show ?thesis
      using Connect_decodeWill_wire [OF _ refl, of fr ?p3 h3 "will_topic (will m)" "will_message (will m)"]
      by (simp add: h4_def flags(2))
  qed
  have 5: "d_then (Connect_decodeUsername fr h4 (length ?p4)) (Connect_decodePassword fr) =
      Some (h4\<lparr>username := username m, password := password m\<rparr>, length fr, None)"
    using w flags(3,4)
    by (intro Connect_decode_credentials_wire [where pre = ?p4])
       (auto simp: fr_def Connect_body_def hs newConnect_def header_init_def header_setType_def Let_def)
  have "h4\<lparr>username := username m, password := password m\<rparr> = m\<lparr>remLen := of_nat (length fr)\<rparr>"
    using w by (cases m) (simp add: hs newConnect_def header_init_def header_setType_def Let_def)
  then have "Connect_decodeMessage h0 fr = Some (m\<lparr>remLen := of_nat (length fr)\<rparr>, length fr, None)"
    unfolding Connect_decodeMessage_def d_then_assoc by (simp only: 1 2 3 4 5 d_then_ok)
  then show ?thesis unfolding h0_def fr_def .
qed

interpretation connect: provider Connect_size Connect_encodeMessage Connect_decodeMessage
    Connect_wf Connect_body newConnect CONNECT
proof (unfold_locales, goal_cases)
  case (3 r m)
  have "Connect_willFlag (m\<lparr>remLen := r\<rparr>) = Connect_willFlag m"
    "Connect_usernameFlag (m\<lparr>remLen := r\<rparr>) = Connect_usernameFlag m"
    "Connect_passwordFlag (m\<lparr>remLen := r\<rparr>) = Connect_passwordFlag m"
    by (simp_all add: Connect_willFlag_def Connect_usernameFlag_def Connect_passwordFlag_def)
  then show ?case
    by (cases "map_of SupportedVersions (h_version m)") (simp_all add: Connect_encodeMessage_def Connect_size_def)
next
  case (5 v m)
  then show ?case using Connect_size_body [OF 5]
    by (simp add: Connect_wf_def flags_ok_def DefaultFlags_def typeDefaultFlags_def Qos_IsValid_def)
qed (use Connect_size_body Connect_encode_body Connect_decode_body in blast)+

end
