(* ===== verification/Acks.thy ===== *)
theory Acks
  imports Publish Connect
begin

text \<open>
  The acknowledgement packets of \<open>src/packet\<close>: \<open>connack.go\<close> (CONNACK), \<open>puback.go\<close> (PUBACK,
  PUBREC, PUBREL and PUBCOMP, one Go type), \<open>suback.go\<close> and \<open>unsuback.go\<close>. Each section has
  the packet's state, its operations, its wire format and the interpretation of \<open>provider\<close>.
\<close>

section \<open>CONNACK\<close>

record ConnAck = header +
  sessionPresent :: bool
  connack_returnCode :: ReasonCode

definition newConnAck :: ConnAck where
  "newConnAck =
     \<lparr>properties = \<lparr>props = None, plen = 0\<rparr>, packetID = [], remLen = 0, mFlags = 0, mType = 0,
      h_version = 0, sessionPresent = False, connack_returnCode = 0\<rparr>"

definition ConnAck_SetSessionPresent :: "bool \<Rightarrow> ConnAck \<Rightarrow> ConnAck" where
  "ConnAck_SetSessionPresent v msg = msg\<lparr>sessionPresent := v\<rparr>"

definition ConnAck_SetReturnCode :: "ReasonCode \<Rightarrow> ConnAck \<Rightarrow> ConnAck \<times> go_error option" where
  "ConnAck_SetReturnCode ret msg =
     (if \<not> Code_IsValidForType ret (mType msg) then (msg, Some (EPkt ErrInvalidReturnCode))
      else (msg\<lparr>connack_returnCode := ret\<rparr>, None))"

text \<open>The properties of a V5.0 packet at the end of the variable header.\<close>

definition decode_props_v5 ::
    "byte list \<Rightarrow> 'a header_scheme \<Rightarrow> nat \<Rightarrow> ('a header_scheme, go_error) decoded" where
  "decode_props_v5 from msg offset =
     (if h_version msg = ProtocolV50 then decode_props from msg offset else Some (msg, offset, None))"

definition ConnAck_decodeMessage :: "ConnAck \<Rightarrow> byte list \<Rightarrow> (ConnAck, go_error) decoded" where
  "ConnAck_decodeMessage msg from = do {
     b \<leftarrow> go_index from 0;
     if b AND NOT maskConnAckSessionPresent \<noteq> 0 then Some (msg, 0, v5_code msg CodeMalformedPacket)
     else do {
       let m1 = msg\<lparr>sessionPresent := (b AND maskConnAckSessionPresent \<noteq> 0)\<rparr>;
       c \<leftarrow> go_index from 1;
       let m2 = m1\<lparr>connack_returnCode := c\<rparr>;
       if \<not> Code_IsValidForType (connack_returnCode m2) (mType m2)
       then Some (m2, 1, v5_code m2 CodeProtocolError)
       else decode_props_v5 from m2 2 } }"

definition ConnAck_encodeMessage :: "ConnAck \<Rightarrow> go_error writer" where
  "ConnAck_encodeMessage msg =
     w_then (w_put [if sessionPresent msg then 1 else 0])
       (w_then (w_put [Code_Value (connack_returnCode msg)])
         (if h_version msg = ProtocolV50 then property_encode (properties msg) else w_skip))"

definition ConnAck_size :: "ConnAck \<Rightarrow> nat" where
  "ConnAck_size msg =
     2 + (if h_version msg = ProtocolV50 then unat (property_FullLen (properties msg)) else 0)"

definition ConnAck_wf :: "ProtocolVersion \<Rightarrow> ConnAck \<Rightarrow> bool" where
  "ConnAck_wf v m =
     (ProtocolVersion_IsValid v \<and> h_version m = v \<and> mType m = CONNACK \<and> mFlags m = 0 \<and>
      packetID m = [] \<and> Code_IsValidForType (connack_returnCode m) CONNACK \<and> props_wf m \<and>
      int (ConnAck_size m) \<le> maxRemainingLength)"

definition ConnAck_body :: "ConnAck \<Rightarrow> byte list" where
  "ConnAck_body m =
     [if sessionPresent m then 1 else 0] @ [connack_returnCode m] @ props_wire m"

text \<open>Reading the properties back, when \<open>h\<close> agrees with \<open>m\<close> on all but them.\<close>

lemma decode_props_v5_wire:
  assumes "props_wf m" and "properties h = props_new (h_version m)"
    and h: "m = h\<lparr>properties := properties m\<rparr>" and v: "ProtocolVersion_IsValid (h_version m)"
    and "from = pre @ props_wire m @ rest" and "offset = length pre"
  shows "decode_props_v5 from h offset = Some (m, length (pre @ props_wire m), None)"
proof -
  have ty: "mType h = mType m" "h_version h = h_version m" by (subst h, simp)+
  show ?thesis
  proof (cases "h_version m = ProtocolV50")
    case True
    then have "decode_props from h offset = Some (h\<lparr>properties := properties m\<rparr>,
        length pre + length (property_bytes (properties m)), None)"
      using assms ty by (intro decode_props_wire) (auto simp: props_wf_def props_new_def props_wire_def)
    with h True ty show ?thesis by (simp add: decode_props_v5_def props_wire_def)
  next
    case False
    then have "m = h"
      using h assms(1,2) version_ge_V50 [OF v] by (simp add: props_wf_def props_new_def)
    with False show ?thesis by (simp add: decode_props_v5_def props_wire_def assms(6))
  qed
qed

lemma props_wf_remLen [simp]: "props_wf (m\<lparr>remLen := r\<rparr>) = props_wf m"
  "props_wire (m\<lparr>remLen := r\<rparr>) = props_wire m"
  by (simp_all add: props_wf_def props_wire_def)

lemmas blank_defs = header_init_def header_setType_def props_new_def Let_def
lemmas flags_defs = flags_ok_def DefaultFlags_def typeDefaultFlags_def Qos_IsValid_def

lemma length_if_props:
  "props_wf h \<Longrightarrow> (if h_version h = ProtocolV50 then unat (property_FullLen (properties h)) else 0) =
     length (props_wire h)"
  using length_props_wire [of h] by (simp add: props_wire_def)

lemma emits_Cons: "emits w bs \<Longrightarrow> emits (w_then (w_put [b]) w) (b # bs)"
  using emits_put [of "[b]"] emits_then [of "w_put [b]" "[b]" w bs] by auto

interpretation connack: provider ConnAck_size ConnAck_encodeMessage ConnAck_decodeMessage
    ConnAck_wf ConnAck_body newConnAck CONNACK
proof (unfold_locales, goal_cases)
  case (1 v m)
  then show ?case
    using length_if_props [of m] by (simp add: ConnAck_wf_def ConnAck_size_def ConnAck_body_def)
next
  case (2 v m)
  then show ?case
    unfolding ConnAck_encodeMessage_def ConnAck_body_def Code_Value_def
    by (intro emits_then emits_put emits_properties) (simp add: ConnAck_wf_def)
next
  case (3 r m)
  show ?case by (simp add: ConnAck_encodeMessage_def ConnAck_size_def)
next
  case (4 v m)
  have "decode_props_v5 (ConnAck_body m)
      ((header_init v CONNACK newConnAck)\<lparr>mFlags := mFlags m, remLen := of_nat (length (ConnAck_body m)),
         sessionPresent := sessionPresent m, connack_returnCode := connack_returnCode m\<rparr>)
      (length [if sessionPresent m then 1 else 0, connack_returnCode m]) =
     Some (m\<lparr>remLen := of_nat (length (ConnAck_body m))\<rparr>,
       length ([if sessionPresent m then 1 else 0, connack_returnCode m] @
         props_wire (m\<lparr>remLen := of_nat (length (ConnAck_body m))\<rparr>)), None)"
    using 4 by (intro decode_props_v5_wire [where rest = "[]"])
      (auto simp: ConnAck_wf_def ConnAck_body_def newConnAck_def blank_defs)
  with 4 show ?case
    by (auto simp: ConnAck_decodeMessage_def ConnAck_wf_def ConnAck_body_def go_index_def Let_def
        numeral_2_eq_2)
next
  case (5 v m)
  then show ?case
    using length_if_props [of m] by (auto simp: ConnAck_wf_def flags_defs ConnAck_size_def ConnAck_body_def)
qed

section \<open>PUBACK, PUBREC, PUBREL, PUBCOMP\<close>

record Ack = header +
  ack_reasonCode :: ReasonCode

definition newAck :: Ack where
  "newAck =
     \<lparr>properties = \<lparr>props = None, plen = 0\<rparr>, packetID = [], remLen = 0, mFlags = 0, mType = 0,
      h_version = 0, ack_reasonCode = 0\<rparr>"

definition Ack_SetReason :: "ReasonCode \<Rightarrow> Ack \<Rightarrow> Ack" where
  "Ack_SetReason c msg =
     (if h_version msg \<noteq> ProtocolV50 then msg else msg\<lparr>ack_reasonCode := c\<rparr>)"

definition Ack_decodeMessage :: "Ack \<Rightarrow> byte list \<Rightarrow> (Ack, go_error) decoded" where
  "Ack_decodeMessage msg from = do {
     let (m, offset) = header_decodePacketID from msg;
     if h_version m = ProtocolV50 then do {
       sl \<leftarrow> go_slice_from from offset;
       if length sl = 0 then Some (m\<lparr>ack_reasonCode := CodeSuccess\<rparr>, offset, None)
       else do {
         c \<leftarrow> go_index from offset;
         let m1 = m\<lparr>ack_reasonCode := c\<rparr>;
         if \<not> Code_IsValidForType (ack_reasonCode m1) (mType m1)
         then Some (m1, offset, Some (ECode CodeMalformedPacket))
         else do {
           sl' \<leftarrow> go_slice_from from (offset + 1);
           if length sl' > 0 then decode_props from m1 (offset + 1)
           else Some (m1, offset + 1, None) } } }
     else Some (m, offset, None) }"

definition Ack_encodeMessage :: "Ack \<Rightarrow> go_error writer" where
  "Ack_encodeMessage msg =
     (if packetID msg = [] then w_fail 0 (EPkt ErrPackedIDZero)
      else w_then (header_encodePacketID msg)
        (let pLen = property_FullLen (properties msg) in
         if h_version msg = ProtocolV50 \<and> (pLen > 1 \<or> ack_reasonCode msg \<noteq> CodeSuccess)
         then w_then (w_put [ack_reasonCode msg])
                (if pLen > 1 then property_encode (properties msg) else w_skip)
         else w_skip))"

definition Ack_size :: "Ack \<Rightarrow> nat" where
  "Ack_size msg =
     2 + (let pLen = property_FullLen (properties msg) in
          if h_version msg = ProtocolV50 \<and> (pLen > 1 \<or> ack_reasonCode msg \<noteq> CodeSuccess)
          then 1 + (if pLen > 1 then unat pLen else 0) else 0)"

definition is_ack_type :: "Type \<Rightarrow> bool" where
  "is_ack_type t = (t = PUBACK \<or> t = PUBREC \<or> t = PUBREL \<or> t = PUBCOMP)"

definition Ack_wf :: "Type \<Rightarrow> ProtocolVersion \<Rightarrow> Ack \<Rightarrow> bool" where
  "Ack_wf t v m =
     (is_ack_type t \<and> ProtocolVersion_IsValid v \<and> h_version m = v \<and> mType m = t \<and>
      mFlags m = DefaultFlags t \<and> length (packetID m) = 2 \<and> props_wf m \<and>
      (if v = ProtocolV50 then Code_IsValidForType (ack_reasonCode m) t else ack_reasonCode m = 0) \<and>
      int (Ack_size m) \<le> maxRemainingLength)"

text \<open>The reason code and the properties, left out when they say nothing.\<close>

definition reason_wire :: "'a header_scheme \<Rightarrow> ReasonCode \<Rightarrow> byte list" where
  "reason_wire m c =
     (if h_version m = ProtocolV50
      then (if plen (properties m) \<noteq> 0 then [c] @ property_bytes (properties m)
            else if c \<noteq> CodeSuccess then [c] else [])
      else [])"

definition Ack_body :: "Ack \<Rightarrow> byte list" where
  "Ack_body m = packetID m @ reason_wire m (ack_reasonCode m)"

lemma plen_zero_empty:
  assumes "wf_property t p" and "plen p = 0"
  shows "p = \<lparr>props = Some [], plen = 0\<rparr>" and "property_FullLen p = 1"
proof -
  obtain m where m: "props p = Some m" "list_all (wf_prop t) m" "unat (plen p) = props_len m"
    using assms(1) by (rule wf_property_facts)
  with assms(2) have "m = []" using prop_len_pos [of t "hd m"] by (cases m) (auto simp: props_len_def)
  with m(1) assms(2) show "p = \<lparr>props = Some [], plen = 0\<rparr>" by (cases p) simp
  show "property_FullLen p = 1"
    using assms(2) by (simp add: property_FullLen_def uvarintCalc_short)
qed

lemma property_FullLen_gt_1:
  assumes "wf_property t p"
  shows "property_FullLen p > 1 \<longleftrightarrow> plen p \<noteq> 0"
proof
  assume "property_FullLen p > 1"
  then show "plen p \<noteq> 0" using plen_zero_empty(2) [OF assms] by auto
next
  assume "plen p \<noteq> 0"
  then have "0 < unat (plen p)" by (simp add: unat_gt_0)
  moreover have "0 < length (uvarint_bytes (ucast (plen p)))" by simp
  moreover have "unat (plen p) < 2 ^ 29" using assms by (rule wf_property_facts) simp
  ultimately have "1 < unat (property_FullLen p)" using unat_property_FullLen [of p] by linarith
  then show "property_FullLen p > 1" by (simp add: word_less_nat_alt)
qed

lemma length_reason_wire:
  assumes "props_wf m"
  shows "(let pLen = property_FullLen (properties m) in
          if h_version m = ProtocolV50 \<and> (pLen > 1 \<or> c \<noteq> CodeSuccess)
          then 1 + (if pLen > 1 then unat pLen else 0) else 0) = length (reason_wire m c)"
proof (cases "h_version m = ProtocolV50")
  case True
  then have wf: "wf_property (mType m) (properties m)" using assms by (simp add: props_wf_def)
  show ?thesis
    unfolding Let_def property_FullLen_gt_1 [OF wf]
    using True length_property_bytes [OF wf] by (simp add: reason_wire_def)
qed (simp add: reason_wire_def)

lemma emits_reason:
  assumes "props_wf m"
  shows "emits (let pLen = property_FullLen (properties m) in
         if h_version m = ProtocolV50 \<and> (pLen > 1 \<or> c \<noteq> CodeSuccess)
         then w_then (w_put [c]) (if pLen > 1 then property_encode (properties m) else w_skip)
         else w_skip) (reason_wire m c)"
proof (cases "h_version m = ProtocolV50")
  case True
  then have wf: "wf_property (mType m) (properties m)" using assms by (simp add: props_wf_def)
  show ?thesis
    unfolding Let_def property_FullLen_gt_1 [OF wf]
    using True by (auto simp: reason_wire_def intro: emits_Cons emits_property_encode [OF wf] emits_skip)
qed (simp add: reason_wire_def emits_skip)

text \<open>Both \<open>Ack\<close> and the other packets with an identifier start by reading it.\<close>

lemma decodePacketID_body:
  assumes "packetID h = []" and "length b = 2" and "from = b @ rest"
  shows "header_decodePacketID from h = (h\<lparr>packetID := b\<rparr>, length b)"
  using decodePacketID_new [OF assms(1,2)] by (simp add: assms(2,3))

lemma Ack_decode_body:
  assumes wf: "Ack_wf t v m"
  shows "Ack_decodeMessage
     ((header_init v t newAck)\<lparr>mFlags := mFlags m, remLen := of_nat (length (Ack_body m))\<rparr>) (Ack_body m) =
   Some (m\<lparr>remLen := of_nat (length (Ack_body m))\<rparr>, length (Ack_body m), None)"
proof -
  define n :: int32 where "n = of_nat (length (Ack_body m))"
  define h0 where "h0 = (header_init v t newAck)\<lparr>mFlags := mFlags m, remLen := n\<rparr>"
  define h where "h = h0\<lparr>packetID := packetID m\<rparr>"
  note w = wf [unfolded Ack_wf_def]
  have id: "header_decodePacketID (Ack_body m) h0 = (h, length (packetID m))"
    unfolding h_def by (rule decodePacketID_body) (use w in \<open>auto simp: Ack_body_def h0_def newAck_def blank_defs\<close>)
  have h: "h_version h = v" "mType h = t" "properties h = props_new v" "header.more h = \<lparr>ack_reasonCode = 0\<rparr>"
    by (simp_all add: h_def h0_def newAck_def Ack.defs)
  have m: "m\<lparr>remLen := n\<rparr> = h\<lparr>properties := properties m, ack_reasonCode := ack_reasonCode m\<rparr>"
    using w by (cases m) (simp add: h_def h0_def newAck_def blank_defs)
  have "Ack_decodeMessage h0 (Ack_body m) = Some (m\<lparr>remLen := n\<rparr>, length (Ack_body m), None)"
  proof (cases "v = ProtocolV50")
    case False
    then have "reason_wire m (ack_reasonCode m) = []" "h = m\<lparr>remLen := n\<rparr>"
      using w version_ge_V50 [of v] by (simp_all add: reason_wire_def m props_wf_def props_new_def h(3) [symmetric])
        (cases h, use h w in \<open>simp add: m props_wf_def props_new_def\<close>)
    with False h(1) show ?thesis
      unfolding Ack_decodeMessage_def id by (simp add: Ack_body_def)
  next
    case True
    then have wfp: "wf_property t (properties m)" using w by (auto simp: props_wf_def)
    have empty: "properties h = properties m" if "plen (properties m) = 0"
      using plen_zero_empty(1) [OF wfp that] h(3) True by (simp add: props_new_def)
    consider "plen (properties m) = 0" "ack_reasonCode m = 0"
      | "plen (properties m) = 0" "ack_reasonCode m \<noteq> 0" | "plen (properties m) \<noteq> 0" by blast
    then show ?thesis
    proof cases
      case 1
      then have "h\<lparr>ack_reasonCode := 0\<rparr> = m\<lparr>remLen := n\<rparr>" using empty by (simp add: m)
      with 1 True h(1) show ?thesis
        unfolding Ack_decodeMessage_def id by (simp add: Ack_body_def reason_wire_def)
    next
      case 2
      then have "h\<lparr>ack_reasonCode := ack_reasonCode m\<rparr> = m\<lparr>remLen := n\<rparr>" using empty by (simp add: m)
      moreover have body: "Ack_body m = packetID m @ [ack_reasonCode m]"
        using 2 True w by (simp add: Ack_body_def reason_wire_def)
      ultimately show ?thesis
        using True w h(1,2)
        unfolding Ack_decodeMessage_def id
        by (simp add: body go_slice_from_def go_index_def nth_append Let_def)
    next
      case 3
      let ?pre = "packetID m @ [ack_reasonCode m]"
      have body: "Ack_body m = ?pre @ property_bytes (properties m) @ []"
        using 3 True w by (simp add: Ack_body_def reason_wire_def)
      have ne: "property_bytes (properties m) \<noteq> []" by (simp add: property_bytes_def)
      have "decode_props (Ack_body m) (h\<lparr>ack_reasonCode := ack_reasonCode m\<rparr>) (length ?pre) =
          Some (h\<lparr>ack_reasonCode := ack_reasonCode m, properties := properties m\<rparr>,
            length ?pre + length (property_bytes (properties m)), None)"
        by (rule decode_props_wire [OF _ _ body refl]) (use wfp h True in \<open>auto simp: props_new_def\<close>)
      moreover have "h\<lparr>ack_reasonCode := ack_reasonCode m, properties := properties m\<rparr> = m\<lparr>remLen := n\<rparr>"
        by (simp add: m)
      ultimately show ?thesis
        using True w h(1,2) ne
        unfolding Ack_decodeMessage_def id by (simp add: body go_slice_from_def go_index_def nth_append Let_def)
    qed
  qed
  then show ?thesis by (simp add: h0_def n_def)
qed

interpretation ack: provider Ack_size Ack_encodeMessage Ack_decodeMessage
    "Ack_wf t" Ack_body newAck t for t
proof (unfold_locales, goal_cases)
  case (1 v m)
  then show ?case
    using length_reason_wire [of m "ack_reasonCode m"] by (simp add: Ack_wf_def Ack_size_def Ack_body_def)
next
  case (2 v m)
  then have "emits (w_then (header_encodePacketID m)
        (let pLen = property_FullLen (properties m) in
         if h_version m = ProtocolV50 \<and> (pLen > 1 \<or> ack_reasonCode m \<noteq> CodeSuccess)
         then w_then (w_put [ack_reasonCode m])
                (if pLen > 1 then property_encode (properties m) else w_skip)
         else w_skip)) (Ack_body m)"
    unfolding Ack_body_def header_encodePacketID_def
    by (intro emits_then emits_copy emits_reason) (simp add: Ack_wf_def)
  with 2 show ?case by (auto simp: Ack_encodeMessage_def Ack_wf_def)
next
  case (3 r m)
  show ?case by (simp add: Ack_encodeMessage_def header_encodePacketID_def Let_def Ack_size_def)
next
  case (4 v m)
  then show ?case by (rule Ack_decode_body)
next
  case (5 v m)
  then show ?case
    using length_reason_wire [of m "ack_reasonCode m"]
    by (auto simp: Ack_wf_def flags_defs Ack_size_def Ack_body_def is_ack_type_def)
qed

section \<open>SUBACK\<close>

record SubAck = header +
  suback_returnCodes :: "ReasonCode list"

definition newSubAck :: SubAck where
  "newSubAck =
     \<lparr>properties = \<lparr>props = None, plen = 0\<rparr>, packetID = [], remLen = 0, mFlags = 0, mType = 0,
      h_version = 0, suback_returnCodes = []\<rparr>"

text \<open>The condition both loops of the file reject a code with; V5.0 codes pass both checks.\<close>

fun SubAck_AddReturnCodes :: "ReasonCode list \<Rightarrow> SubAck \<Rightarrow> SubAck \<times> go_error option" where
  "SubAck_AddReturnCodes [] msg = (msg, None)"
| "SubAck_AddReturnCodes (c # ret) msg =
     (if h_version msg = ProtocolV50 \<and> \<not> Code_IsValidForType c (mType msg)
      then (msg, Some (EPkt ErrInvalidReturnCode))
      else if \<not> Qos_IsValidFull c then (msg, Some (EPkt ErrInvalidReturnCode))
      else SubAck_AddReturnCodes ret (msg\<lparr>suback_returnCodes := suback_returnCodes msg @ [c]\<rparr>))"

definition SubAck_AddReturnCode :: "ReasonCode \<Rightarrow> SubAck \<Rightarrow> SubAck \<times> go_error option" where
  "SubAck_AddReturnCode ret msg = SubAck_AddReturnCodes [ret] msg"

fun SubAck_decodeCodes :: "byte list \<Rightarrow> SubAck \<Rightarrow> nat \<Rightarrow> (SubAck, go_error) decoded" where
  "SubAck_decodeCodes [] msg pos = Some (msg, pos, None)"
| "SubAck_decodeCodes (q # qs) msg pos =
     (if h_version msg = ProtocolV50 \<and> \<not> Code_IsValidForType q (mType msg)
      then Some (msg, pos, Some (ECode CodeProtocolError))
      else if \<not> Qos_IsValidFull q then Some (msg, pos, Some (ECode CodeRefusedServerUnavailable))
      else SubAck_decodeCodes qs (msg\<lparr>suback_returnCodes := suback_returnCodes msg @ [q]\<rparr>) (pos + 1))"

definition SubAck_decodeMessage :: "SubAck \<Rightarrow> byte list \<Rightarrow> (SubAck, go_error) decoded" where
  "SubAck_decodeMessage msg from =
     (let (m, offset) = header_decodePacketID from msg in
      d_then (decode_props_v5 from m offset)
        (\<lambda>m' off. do {
           let numCodes = sint (remLen m') - int off;
           codes \<leftarrow> go_slice from (int off) (int off + numCodes);
           SubAck_decodeCodes codes m' off }))"

definition SubAck_encodeMessage :: "SubAck \<Rightarrow> go_error writer" where
  "SubAck_encodeMessage msg =
     (if packetID msg = [] then w_fail 0 (EPkt ErrPackedIDZero)
      else w_then (header_encodePacketID msg)
        (w_then (if h_version msg = ProtocolV50 then property_encode (properties msg) else w_skip)
          (w_all (map (\<lambda>q. w_put [q]) (suback_returnCodes msg)))))"

definition SubAck_size :: "SubAck \<Rightarrow> nat" where
  "SubAck_size msg =
     2 + length (suback_returnCodes msg) +
     (if h_version msg = ProtocolV50 then unat (property_FullLen (properties msg)) else 0)"

definition SubAck_wf :: "ProtocolVersion \<Rightarrow> SubAck \<Rightarrow> bool" where
  "SubAck_wf v m =
     (ProtocolVersion_IsValid v \<and> h_version m = v \<and> mType m = SUBACK \<and> mFlags m = 0 \<and>
      length (packetID m) = 2 \<and> props_wf m \<and> list_all Qos_IsValidFull (suback_returnCodes m) \<and>
      int (SubAck_size m) \<le> maxRemainingLength)"

definition SubAck_body :: "SubAck \<Rightarrow> byte list" where
  "SubAck_body m = packetID m @ props_wire m @ suback_returnCodes m"

lemma Qos_IsValidFull_SUBACK: "Qos_IsValidFull c \<Longrightarrow> Code_IsValidForType c SUBACK"
  by (auto simp: Qos_IsValidFull_def Code_IsValidForType_def packetTypeCodeMap_def split: if_splits)

lemma SubAck_decodeCodes_ok:
  assumes "list_all Qos_IsValidFull codes" and "mType h = SUBACK"
  shows "SubAck_decodeCodes codes h pos =
     Some (h\<lparr>suback_returnCodes := suback_returnCodes h @ codes\<rparr>, pos + length codes, None)"
  using assms by (induction codes arbitrary: h pos) (simp_all add: Qos_IsValidFull_SUBACK)

lemma emits_bytes: "emits (w_all (map (\<lambda>q. w_put [q]) bs)) bs"
proof -
  have "list_all2 emits (map (\<lambda>q. w_put [q]) bs) (map (\<lambda>q. [q]) bs)"
    by (simp add: list_all2_conv_all_nth emits_put)
  from emits_all [OF this] show ?thesis by simp
qed

lemma SubAck_decode_body:
  assumes wf: "SubAck_wf v m"
  shows "SubAck_decodeMessage
     ((header_init v SUBACK newSubAck)\<lparr>mFlags := mFlags m, remLen := of_nat (length (SubAck_body m))\<rparr>)
     (SubAck_body m) =
   Some (m\<lparr>remLen := of_nat (length (SubAck_body m))\<rparr>, length (SubAck_body m), None)"
proof -
  define n :: int32 where "n = of_nat (length (SubAck_body m))"
  define h0 where "h0 = (header_init v SUBACK newSubAck)\<lparr>mFlags := mFlags m, remLen := n\<rparr>"
  let ?m = "m\<lparr>remLen := n, suback_returnCodes := []\<rparr>"
  note w = wf [unfolded SubAck_wf_def]
  have len: "sint n = int (length (SubAck_body m))"
    unfolding n_def using w length_if_props [of m]
    by (intro remLen_of_nat) (auto simp: SubAck_size_def SubAck_body_def)
  have id: "header_decodePacketID (SubAck_body m) h0 = (h0\<lparr>packetID := packetID m\<rparr>, length (packetID m))"
    by (rule decodePacketID_body) (use w in \<open>auto simp: SubAck_body_def h0_def newSubAck_def blank_defs\<close>)
  have "decode_props_v5 (SubAck_body m) (h0\<lparr>packetID := packetID m\<rparr>) (length (packetID m)) =
      Some (?m, length (packetID m @ props_wire ?m), None)"
    using w by (intro decode_props_v5_wire [where rest = "suback_returnCodes m"])
      (auto simp: SubAck_body_def h0_def newSubAck_def blank_defs props_wf_def props_wire_def)
  moreover have "props_wire ?m = props_wire m" by (simp add: props_wire_def)
  moreover have "go_slice (SubAck_body m) (int (length (packetID m @ props_wire m)))
      (int (length (SubAck_body m))) = Some (suback_returnCodes m)"
    by (simp add: go_slice_def SubAck_body_def)
  moreover have "SubAck_decodeCodes (suback_returnCodes m) ?m (length (packetID m @ props_wire m)) =
      Some (m\<lparr>remLen := n\<rparr>, length (SubAck_body m), None)"
    using w by (subst SubAck_decodeCodes_ok) (auto simp: SubAck_body_def)
  ultimately have "SubAck_decodeMessage h0 (SubAck_body m) = Some (m\<lparr>remLen := n\<rparr>, length (SubAck_body m), None)"
    unfolding SubAck_decodeMessage_def id by (simp add: len Let_def del: length_append)
  then show ?thesis by (simp add: h0_def n_def)
qed

interpretation suback: provider SubAck_size SubAck_encodeMessage SubAck_decodeMessage
    SubAck_wf SubAck_body newSubAck SUBACK
proof (unfold_locales, goal_cases)
  case (1 v m)
  then show ?case
    using length_if_props [of m] by (auto simp: SubAck_wf_def SubAck_size_def SubAck_body_def)
next
  case (2 v m)
  then have "emits (w_then (header_encodePacketID m)
        (w_then (if h_version m = ProtocolV50 then property_encode (properties m) else w_skip)
          (w_all (map (\<lambda>q. w_put [q]) (suback_returnCodes m))))) (SubAck_body m)"
    unfolding SubAck_body_def header_encodePacketID_def
    by (intro emits_then emits_copy emits_properties emits_bytes) (simp add: SubAck_wf_def)
  with 2 show ?case by (auto simp: SubAck_encodeMessage_def SubAck_wf_def)
next
  case (3 r m)
  show ?case by (simp add: SubAck_encodeMessage_def header_encodePacketID_def SubAck_size_def)
next
  case (4 v m)
  then show ?case by (rule SubAck_decode_body)
next
  case (5 v m)
  then show ?case
    using length_if_props [of m] by (auto simp: SubAck_wf_def flags_defs SubAck_size_def SubAck_body_def)
qed

section \<open>UNSUBACK\<close>

record UnSubAck = header +
  unsuback_returnCodes :: "ReasonCode list"

definition newUnSubAck :: UnSubAck where
  "newUnSubAck =
     \<lparr>properties = \<lparr>props = None, plen = 0\<rparr>, packetID = [], remLen = 0, mFlags = 0, mType = 0,
      h_version = 0, unsuback_returnCodes = []\<rparr>"

fun UnSubAck_AddReturnCodes :: "ReasonCode list \<Rightarrow> UnSubAck \<Rightarrow> UnSubAck \<times> go_error option" where
  "UnSubAck_AddReturnCodes [] msg = (msg, None)"
| "UnSubAck_AddReturnCodes (c # ret) msg =
     (if h_version msg = ProtocolV50 \<and> \<not> Code_IsValidForType c (mType msg)
      then (msg, Some (EPkt ErrInvalidReturnCode))
      else if \<not> Qos_IsValidFull c then (msg, Some (EPkt ErrInvalidReturnCode))
      else UnSubAck_AddReturnCodes ret (msg\<lparr>unsuback_returnCodes := unsuback_returnCodes msg @ [c]\<rparr>))"

definition UnSubAck_AddReturnCode :: "ReasonCode \<Rightarrow> UnSubAck \<Rightarrow> UnSubAck \<times> go_error option" where
  "UnSubAck_AddReturnCode ret msg = UnSubAck_AddReturnCodes [ret] msg"

definition UnSubAck_decodeMessage :: "UnSubAck \<Rightarrow> byte list \<Rightarrow> (UnSubAck, go_error) decoded" where
  "UnSubAck_decodeMessage msg from =
     (let (m, offset) = header_decodePacketID from msg in
      if h_version m = ProtocolV50 \<and> sint (remLen m) - int offset > 0
      then decode_props from m offset else Some (m, offset, None))"

text \<open>The return codes are not written.\<close>

definition UnSubAck_encodeMessage :: "UnSubAck \<Rightarrow> go_error writer" where
  "UnSubAck_encodeMessage msg =
     (if packetID msg = [] then w_fail 0 (EPkt ErrPackedIDZero)
      else w_then (header_encodePacketID msg)
        (if h_version msg = ProtocolV50 then property_encode (properties msg) else w_skip))"

definition UnSubAck_size :: "UnSubAck \<Rightarrow> nat" where
  "UnSubAck_size msg =
     2 + (if h_version msg = ProtocolV50 then unat (property_FullLen (properties msg)) else 0)"

definition UnSubAck_wf :: "ProtocolVersion \<Rightarrow> UnSubAck \<Rightarrow> bool" where
  "UnSubAck_wf v m =
     (ProtocolVersion_IsValid v \<and> h_version m = v \<and> mType m = UNSUBACK \<and> mFlags m = 0 \<and>
      length (packetID m) = 2 \<and> props_wf m \<and> unsuback_returnCodes m = [] \<and>
      int (UnSubAck_size m) \<le> maxRemainingLength)"

definition UnSubAck_body :: "UnSubAck \<Rightarrow> byte list" where
  "UnSubAck_body m = packetID m @ props_wire m"

lemma UnSubAck_decode_body:
  assumes wf: "UnSubAck_wf v m"
  shows "UnSubAck_decodeMessage
     ((header_init v UNSUBACK newUnSubAck)\<lparr>mFlags := mFlags m, remLen := of_nat (length (UnSubAck_body m))\<rparr>)
     (UnSubAck_body m) =
   Some (m\<lparr>remLen := of_nat (length (UnSubAck_body m))\<rparr>, length (UnSubAck_body m), None)"
proof -
  define n :: int32 where "n = of_nat (length (UnSubAck_body m))"
  define h0 where "h0 = (header_init v UNSUBACK newUnSubAck)\<lparr>mFlags := mFlags m, remLen := n\<rparr>"
  define h where "h = h0\<lparr>packetID := packetID m\<rparr>"
  note w = wf [unfolded UnSubAck_wf_def]
  have len: "sint n = int (length (UnSubAck_body m))"
    unfolding n_def using w length_if_props [of m]
    by (intro remLen_of_nat) (auto simp: UnSubAck_size_def UnSubAck_body_def)
  have id: "header_decodePacketID (UnSubAck_body m) h0 = (h, length (packetID m))"
    unfolding h_def
    by (rule decodePacketID_body) (use w in \<open>auto simp: UnSubAck_body_def h0_def newUnSubAck_def blank_defs\<close>)
  have v5: "decode_props_v5 (UnSubAck_body m) h (length (packetID m)) =
      Some (m\<lparr>remLen := n\<rparr>, length (packetID m @ props_wire (m\<lparr>remLen := n\<rparr>)), None)"
    using w by (intro decode_props_v5_wire [where rest = "[]"])
      (auto simp: UnSubAck_body_def h_def h0_def newUnSubAck_def blank_defs)
  have "h_version h = v" "remLen h = n" by (simp_all add: h_def h0_def)
  moreover have "v = ProtocolV50 \<Longrightarrow> props_wire m \<noteq> []"
    using w by (simp add: props_wire_def property_bytes_def)
  ultimately have "UnSubAck_decodeMessage h0 (UnSubAck_body m) =
      decode_props_v5 (UnSubAck_body m) h (length (packetID m))"
    unfolding UnSubAck_decodeMessage_def id
    by (auto simp: decode_props_v5_def len) (auto simp: UnSubAck_body_def)
  then show ?thesis by (simp add: v5 h0_def n_def) (simp add: UnSubAck_body_def)
qed

interpretation unsuback: provider UnSubAck_size UnSubAck_encodeMessage UnSubAck_decodeMessage
    UnSubAck_wf UnSubAck_body newUnSubAck UNSUBACK
proof (unfold_locales, goal_cases)
  case (1 v m)
  then show ?case
    using length_if_props [of m] by (auto simp: UnSubAck_wf_def UnSubAck_size_def UnSubAck_body_def)
next
  case (2 v m)
  then have "emits (w_then (header_encodePacketID m)
        (if h_version m = ProtocolV50 then property_encode (properties m) else w_skip)) (UnSubAck_body m)"
    unfolding UnSubAck_body_def header_encodePacketID_def
    by (intro emits_then emits_copy emits_properties) (simp add: UnSubAck_wf_def)
  with 2 show ?case by (auto simp: UnSubAck_encodeMessage_def UnSubAck_wf_def)
next
  case (3 r m)
  show ?case by (simp add: UnSubAck_encodeMessage_def header_encodePacketID_def UnSubAck_size_def)
next
  case (4 v m)
  then show ?case by (rule UnSubAck_decode_body)
next
  case (5 v m)
  then show ?case
    using length_if_props [of m] by (auto simp: UnSubAck_wf_def flags_defs UnSubAck_size_def UnSubAck_body_def)
qed

end
