(* ===== verification/Subscriptions.thy ===== *)
theory Subscriptions
  imports Acks
begin

text \<open>
  \<open>src/packet/subscribe.go\<close> and \<open>src/packet/unsubscribe.go\<close>. Both decoders count the bytes
  they still expect in a variable \<open>remLen\<close> that may become negative, so the loops carry it as
  an \<open>int\<close>. The loop of UNSUBSCRIBE takes one byte too many off that count for every topic.
\<close>

section \<open>SUBSCRIBE\<close>

record Subscribe = header +
  sub_topics :: "gostring list"
  sub_ops :: "SubscriptionOptions list"

definition newSubscribe :: Subscribe where
  "newSubscribe =
     \<lparr>properties = \<lparr>props = None, plen = 0\<rparr>, packetID = [], remLen = 0, mFlags = 0, mType = 0,
      h_version = 0, sub_topics = [], sub_ops = []\<rparr>"

text \<open>\<open>RangeTopics\<close>: the calls of the callback; \<open>msg.ops[i]\<close> panics when there are fewer options.\<close>

definition Subscribe_RangeTopics :: "Subscribe \<Rightarrow> (gostring \<times> SubscriptionOptions) list option" where
  "Subscribe_RangeTopics msg =
     (if length (sub_ops msg) < length (sub_topics msg) then None
      else Some (zip (sub_topics msg) (sub_ops msg)))"

definition Subscribe_AddTopic ::
    "gostring \<Rightarrow> SubscriptionOptions \<Rightarrow> Subscribe \<Rightarrow> Subscribe \<times> go_error option" where
  "Subscribe_AddTopic topic ops msg =
     (if h_version msg = ProtocolV50 \<and> ops AND maskSubscriptionReserved \<noteq> 0
      then (msg, Some (EPkt ErrInvalidArgs))
      else if h_version msg \<noteq> ProtocolV50 \<and> \<not> Qos_IsValid ops then (msg, Some (EPkt ErrInvalidQoS))
      else if \<not> utf8_valid topic then (msg, Some (EPkt ErrMalformedTopic))
      else (msg\<lparr>sub_topics := sub_topics msg @ [topic], sub_ops := sub_ops msg @ [ops]\<rparr>, None))"

text \<open>\<open>rejectReason := CodeProtocolError; if msg.version <= ProtocolV50 { ... }\<close>\<close>

definition reject_le_v5 :: "'a header_scheme \<Rightarrow> go_error option" where
  "reject_le_v5 msg =
     Some (ECode (if h_version msg \<le> ProtocolV50 then CodeRefusedServerUnavailable else CodeProtocolError))"

function Subscribe_decodeTopics ::
    "byte list \<Rightarrow> Subscribe \<Rightarrow> nat \<Rightarrow> int \<Rightarrow> (Subscribe, go_error) decoded" where
  "Subscribe_decodeTopics from msg offset rem =
     (if rem > 0 then
        (case go_slice_from from offset of
           None \<Rightarrow> None
         | Some sl \<Rightarrow>
            (case ReadLPBytes sl of
               (t, n, Some e) \<Rightarrow> Some (msg, offset + n, Some e)
             | (t, n, None) \<Rightarrow>
                 if \<not> utf8_valid t then Some (msg, 0, reject_le_v5 msg)
                 else (case go_index from (offset + n) of
                    None \<Rightarrow> None
                  | Some subsOptions \<Rightarrow>
                      if h_version msg = ProtocolV50 \<and> subsOptions AND maskSubscriptionReserved \<noteq> 0
                      then Some (msg, offset + n + 1, Some (ECode CodeProtocolError))
                      else if \<not> Qos_IsValid (Ops_QoS subsOptions)
                      then Some (msg, offset + n + 1, reject_le_v5 msg)
                      else Subscribe_decodeTopics from
                             (msg\<lparr>sub_topics := sub_topics msg @ [t],
                                  sub_ops := sub_ops msg @ [subsOptions]\<rparr>)
                             (offset + n + 1) (rem - int n - 1))))
      else Some (msg, offset, None))"
  by pat_completeness auto
termination
  by (relation "measure (\<lambda>(from, msg, offset, rem). nat rem)") auto

declare Subscribe_decodeTopics.simps [simp del]

definition Subscribe_decodeMessage :: "Subscribe \<Rightarrow> byte list \<Rightarrow> (Subscribe, go_error) decoded" where
  "Subscribe_decodeMessage msg from =
     (let (m, offset) = header_decodePacketID from msg in
      d_then (d_then (decode_props_v5 from m offset)
        (\<lambda>m' off. Subscribe_decodeTopics from m' off (sint (remLen m') - int off)))
        (\<lambda>m' off. if length (sub_topics m') = 0 then Some (m', 0, reject_le_v5 m')
                  else Some (m', off, None)))"

fun Subscribe_encodeTopics :: "gostring list \<Rightarrow> SubscriptionOptions list \<Rightarrow> go_error writer list" where
  "Subscribe_encodeTopics [] ops = []"
| "Subscribe_encodeTopics (t # ts) (q # ops) =
     w_then (WriteLPBytes t) (w_put [q]) # Subscribe_encodeTopics ts ops"
| "Subscribe_encodeTopics (t # ts) [] = [w_then (WriteLPBytes t) w_panic]"

definition Subscribe_encodeMessage :: "Subscribe \<Rightarrow> go_error writer" where
  "Subscribe_encodeMessage msg =
     (if packetID msg = [] then w_fail 0 (EPkt ErrPackedIDZero)
      else w_then (header_encodePacketID msg)
        (w_then (if h_version msg = ProtocolV50 then property_encode (properties msg) else w_skip)
          (w_all (Subscribe_encodeTopics (sub_topics msg) (sub_ops msg)))))"

definition Subscribe_size :: "Subscribe \<Rightarrow> nat" where
  "Subscribe_size msg =
     2 + (if h_version msg = ProtocolV50 then unat (property_FullLen (properties msg)) else 0) +
     sum_list (map (\<lambda>t. 2 + length t + 1) (sub_topics msg))"

subsection \<open>Wire format\<close>

definition topic_ok :: "ProtocolVersion \<Rightarrow> gostring \<times> SubscriptionOptions \<Rightarrow> bool" where
  "topic_ok v tq =
     (length (fst tq) \<le> MaxLPString \<and> utf8_valid (fst tq) \<and> Qos_IsValid (Ops_QoS (snd tq)) \<and>
      (v = ProtocolV50 \<longrightarrow> snd tq AND maskSubscriptionReserved = 0))"

definition topics_bytes :: "(gostring \<times> SubscriptionOptions) list \<Rightarrow> byte list" where
  "topics_bytes tqs = concat (map (\<lambda>tq. lp_bytes (fst tq) @ [snd tq]) tqs)"

definition Subscribe_wf :: "ProtocolVersion \<Rightarrow> Subscribe \<Rightarrow> bool" where
  "Subscribe_wf v m =
     (ProtocolVersion_IsValid v \<and> h_version m = v \<and> mType m = SUBSCRIBE \<and> mFlags m = 2 \<and>
      length (packetID m) = 2 \<and> props_wf m \<and> sub_topics m \<noteq> [] \<and>
      length (sub_ops m) = length (sub_topics m) \<and>
      list_all (topic_ok v) (zip (sub_topics m) (sub_ops m)) \<and>
      int (Subscribe_size m) \<le> maxRemainingLength)"

definition Subscribe_body :: "Subscribe \<Rightarrow> byte list" where
  "Subscribe_body m = packetID m @ props_wire m @ topics_bytes (zip (sub_topics m) (sub_ops m))"

lemma length_topics_bytes:
  "length ops = length ts \<Longrightarrow>
   length (topics_bytes (zip ts ops)) = sum_list (map (\<lambda>t. 2 + length t + 1) ts)"
  by (induction ops ts rule: list_induct2) (auto simp: topics_bytes_def)

lemma emits_encodeTopics:
  assumes "length ops = length ts" and "list_all (topic_ok v) (zip ts ops)"
  shows "emits (w_all (Subscribe_encodeTopics ts ops)) (topics_bytes (zip ts ops))"
proof -
  have "list_all2 emits (Subscribe_encodeTopics ts ops)
      (map (\<lambda>tq. lp_bytes (fst tq) @ [snd tq]) (zip ts ops))"
    using assms
    by (induction ops ts rule: list_induct2) (auto simp: topic_ok_def intro: emits_intros)
  from emits_all [OF this] show ?thesis by (simp add: topics_bytes_def)
qed

lemma Subscribe_decodeTopics_wire:
  assumes "list_all (topic_ok (h_version h)) tqs" and "from = pre @ topics_bytes tqs"
    and "rem = int (length (topics_bytes tqs))"
  shows "Subscribe_decodeTopics from h (length pre) rem =
     Some (h\<lparr>sub_topics := sub_topics h @ map fst tqs, sub_ops := sub_ops h @ map snd tqs\<rparr>,
           length from, None)"
  using assms
proof (induction tqs arbitrary: h pre rem)
  case Nil
  then show ?case by (subst Subscribe_decodeTopics.simps) (simp add: topics_bytes_def)
next
  case (Cons tq tqs)
  obtain t q where tq: "tq = (t, q)" by (cases tq)
  have split: "topics_bytes (tq # tqs) = lp_bytes t @ q # topics_bytes tqs"
    by (simp add: topics_bytes_def tq)
  have ok: "topic_ok (h_version h) (t, q)" using Cons.prems(1) by (simp add: tq)
  let ?h = "h\<lparr>sub_topics := sub_topics h @ [t], sub_ops := sub_ops h @ [q]\<rparr>"
  let ?pre = "pre @ lp_bytes t @ [q]"
  have "ReadLPBytes (lp_bytes t @ q # topics_bytes tqs) = (t, length (lp_bytes t), None)"
    using ok by (simp add: topic_ok_def ReadLPBytes_roundtrip)
  moreover have "go_index from (length pre + length (lp_bytes t)) = Some q"
    by (simp add: Cons.prems(2) split go_index_def nth_append del: length_lp_bytes)
  moreover have "go_slice_from from (length pre) = Some (lp_bytes t @ q # topics_bytes tqs)"
    by (simp add: Cons.prems(2) split)
  moreover have "rem > 0" by (simp add: Cons.prems(3) split)
  ultimately have "Subscribe_decodeTopics from h (length pre) rem =
      Subscribe_decodeTopics from ?h (length ?pre) (rem - int (length (lp_bytes t)) - 1)"
    using ok
    by (subst Subscribe_decodeTopics.simps) (auto simp: topic_ok_def simp del: length_lp_bytes)
  also have "\<dots> = Some (?h\<lparr>sub_topics := sub_topics ?h @ map fst tqs, sub_ops := sub_ops ?h @ map snd tqs\<rparr>,
           length from, None)"
    by (rule Cons.IH) (use Cons.prems in \<open>auto simp: split [unfolded tq] tq\<close>)
  finally show ?case by (simp add: tq)
qed

lemma Subscribe_size_body:
  assumes "Subscribe_wf v m"
  shows "Subscribe_size m = length (Subscribe_body m)"
  using assms length_if_props [of m]
  by (auto simp: Subscribe_wf_def Subscribe_size_def Subscribe_body_def length_topics_bytes)

lemma Subscribe_decode_body:
  assumes wf: "Subscribe_wf v m"
  shows "Subscribe_decodeMessage
     ((header_init v SUBSCRIBE newSubscribe)\<lparr>mFlags := mFlags m, remLen := of_nat (length (Subscribe_body m))\<rparr>)
     (Subscribe_body m) =
   Some (m\<lparr>remLen := of_nat (length (Subscribe_body m))\<rparr>, length (Subscribe_body m), None)"
proof -
  define n :: int32 where "n = of_nat (length (Subscribe_body m))"
  define h0 where "h0 = (header_init v SUBSCRIBE newSubscribe)\<lparr>mFlags := mFlags m, remLen := n\<rparr>"
  let ?m = "m\<lparr>remLen := n, sub_topics := [], sub_ops := []\<rparr>"
  let ?tqs = "zip (sub_topics m) (sub_ops m)"
  note w = wf [unfolded Subscribe_wf_def]
  have len: "sint n = int (length (Subscribe_body m))"
    unfolding n_def using w Subscribe_size_body [OF wf] by (intro remLen_of_nat) auto
  have id: "header_decodePacketID (Subscribe_body m) h0 = (h0\<lparr>packetID := packetID m\<rparr>, length (packetID m))"
    by (rule decodePacketID_body) (use w in \<open>auto simp: Subscribe_body_def h0_def newSubscribe_def blank_defs\<close>)
  have "decode_props_v5 (Subscribe_body m) (h0\<lparr>packetID := packetID m\<rparr>) (length (packetID m)) =
      Some (?m, length (packetID m @ props_wire ?m), None)"
    using w by (intro decode_props_v5_wire [where rest = "topics_bytes ?tqs"])
      (auto simp: Subscribe_body_def h0_def newSubscribe_def blank_defs props_wf_def props_wire_def)
  moreover have "props_wire ?m = props_wire m" by (simp add: props_wire_def)
  moreover have "Subscribe_decodeTopics (Subscribe_body m) ?m (length (packetID m @ props_wire m))
      (sint n - int (length (packetID m @ props_wire m))) =
     Some (m\<lparr>remLen := n\<rparr>, length (Subscribe_body m), None)"
    using w by (subst Subscribe_decodeTopics_wire [where tqs = ?tqs]) (auto simp: len Subscribe_body_def)
  ultimately have "Subscribe_decodeMessage h0 (Subscribe_body m) =
      Some (m\<lparr>remLen := n\<rparr>, length (Subscribe_body m), None)"
    unfolding Subscribe_decodeMessage_def id using w by (simp add: Let_def del: length_append)
  then show ?thesis by (simp add: h0_def n_def)
qed

interpretation subscribe: provider Subscribe_size Subscribe_encodeMessage Subscribe_decodeMessage
    Subscribe_wf Subscribe_body newSubscribe SUBSCRIBE
proof (unfold_locales, goal_cases)
  case (2 v m)
  then have "emits (w_then (header_encodePacketID m)
        (w_then (if h_version m = ProtocolV50 then property_encode (properties m) else w_skip)
          (w_all (Subscribe_encodeTopics (sub_topics m) (sub_ops m))))) (Subscribe_body m)"
    unfolding Subscribe_body_def header_encodePacketID_def
    by (intro emits_then emits_copy emits_properties emits_encodeTopics [where v = v])
       (simp_all add: Subscribe_wf_def)
  with 2 show ?case by (auto simp: Subscribe_encodeMessage_def Subscribe_wf_def)
next
  case (3 r m)
  show ?case by (simp add: Subscribe_encodeMessage_def header_encodePacketID_def Subscribe_size_def)
next
  case (5 v m)
  then show ?case
    using Subscribe_size_body [OF 5] by (auto simp: Subscribe_wf_def flags_defs)
qed (use Subscribe_size_body Subscribe_decode_body in blast)+

section \<open>UNSUBSCRIBE\<close>

record UnSubscribe = header +
  unsub_topics :: "gostring list"

definition newUnSubscribe :: UnSubscribe where
  "newUnSubscribe =
     \<lparr>properties = \<lparr>props = None, plen = 0\<rparr>, packetID = [], remLen = 0, mFlags = 0, mType = 0,
      h_version = 0, unsub_topics = []\<rparr>"

definition UnSubscribe_AddTopic :: "gostring \<Rightarrow> UnSubscribe \<Rightarrow> UnSubscribe \<times> go_error option" where
  "UnSubscribe_AddTopic topic msg =
     (if \<not> utf8_valid topic then (msg, Some (EPkt ErrMalformedTopic))
      else (msg\<lparr>unsub_topics := unsub_topics msg @ [topic]\<rparr>, None))"

function UnSubscribe_decodeTopics ::
    "byte list \<Rightarrow> UnSubscribe \<Rightarrow> nat \<Rightarrow> int \<Rightarrow> (UnSubscribe, go_error) decoded" where
  "UnSubscribe_decodeTopics src msg total_n rem =
     (if rem > 0 then
        (case go_slice_from src total_n of
           None \<Rightarrow> None
         | Some sl \<Rightarrow>
            (case ReadLPBytes sl of
               (t, n, Some e) \<Rightarrow> Some (msg, total_n + n, Some e)
             | (t, n, None) \<Rightarrow>
                 if \<not> utf8_valid t then Some (msg, total_n + n, Some (EPkt ErrMalformedTopic))
                 else UnSubscribe_decodeTopics src (msg\<lparr>unsub_topics := unsub_topics msg @ [t]\<rparr>)
                        (total_n + n) (rem - int n - 1)))
      else Some (msg, total_n, None))"
  by pat_completeness auto
termination
  by (relation "measure (\<lambda>(src, msg, total_n, rem). nat rem)") auto

declare UnSubscribe_decodeTopics.simps [simp del]

definition UnSubscribe_decodeMessage :: "UnSubscribe \<Rightarrow> byte list \<Rightarrow> (UnSubscribe, go_error) decoded" where
  "UnSubscribe_decodeMessage msg src =
     (let (m, total_n) = header_decodePacketID src msg in
      d_then (UnSubscribe_decodeTopics src m total_n (sint (remLen m) - int total_n))
        (\<lambda>m' off. if length (unsub_topics m') = 0 then Some (m', 0, reject_le_v5 m')
                  else Some (m', off, None)))"

definition UnSubscribe_encodeMessage :: "UnSubscribe \<Rightarrow> go_error writer" where
  "UnSubscribe_encodeMessage msg =
     (if packetID msg = [] then w_fail 0 (EPkt ErrPackedIDZero)
      else if length (unsub_topics msg) = 0 then w_fail 0 (EPkt ErrInvalidLength)
      else w_then (header_encodePacketID msg) (w_all (map WriteLPBytes (unsub_topics msg))))"

definition UnSubscribe_size :: "UnSubscribe \<Rightarrow> nat" where
  "UnSubscribe_size msg = 2 + sum_list (map (\<lambda>t. 2 + length t) (unsub_topics msg))"

subsection \<open>Wire format\<close>

text \<open>
  The decoder reads all topics back exactly when the last one, with its two length bytes, is
  at least as long as the list: the byte the loop loses on each topic must not use it up.
\<close>

definition filter_ok :: "gostring \<Rightarrow> bool" where
  "filter_ok t = (length t \<le> MaxLPString \<and> utf8_valid t)"

definition UnSubscribe_wf :: "ProtocolVersion \<Rightarrow> UnSubscribe \<Rightarrow> bool" where
  "UnSubscribe_wf v m =
     (ProtocolVersion_IsValid v \<and> h_version m = v \<and> mType m = UNSUBSCRIBE \<and> mFlags m = 2 \<and>
      length (packetID m) = 2 \<and> properties m = props_new v \<and>
      unsub_topics m \<noteq> [] \<and> list_all filter_ok (unsub_topics m) \<and>
      length (unsub_topics m) \<le> 2 + length (last (unsub_topics m)) \<and>
      int (UnSubscribe_size m) \<le> maxRemainingLength)"

definition filters_bytes :: "gostring list \<Rightarrow> byte list" where
  "filters_bytes ts = concat (map lp_bytes ts)"

definition UnSubscribe_body :: "UnSubscribe \<Rightarrow> byte list" where
  "UnSubscribe_body m = packetID m @ filters_bytes (unsub_topics m)"

lemma length_filters_bytes: "length (filters_bytes ts) = sum_list (map (\<lambda>t. 2 + length t) ts)"
  by (induction ts) (auto simp: filters_bytes_def)

lemma UnSubscribe_size_body: "length (packetID m) = 2 \<Longrightarrow> UnSubscribe_size m = length (UnSubscribe_body m)"
  by (simp add: UnSubscribe_size_def UnSubscribe_body_def length_filters_bytes)

lemma emits_filters:
  assumes "list_all filter_ok ts"
  shows "emits (w_all (map WriteLPBytes ts)) (filters_bytes ts)"
  unfolding filters_bytes_def
  by (rule emits_all)
     (use assms in \<open>auto simp: list_all2_conv_all_nth list_all_length filter_ok_def intro: emits_intros\<close>)

text \<open>One round of the loop, with \<open>d\<close> bytes lost before it.\<close>

lemma UnSubscribe_decodeTopics_step:
  assumes "filter_ok t" and "src = pre @ lp_bytes t @ rest" and "rem > 0"
  shows "UnSubscribe_decodeTopics src h (length pre) rem =
     UnSubscribe_decodeTopics src (h\<lparr>unsub_topics := unsub_topics h @ [t]\<rparr>)
       (length (pre @ lp_bytes t)) (rem - int (length (lp_bytes t)) - 1)"
proof -
  have "ReadLPBytes (lp_bytes t @ rest) = (t, length (lp_bytes t), None)"
    using assms(1) by (simp add: filter_ok_def ReadLPBytes_roundtrip)
  moreover have "go_slice_from src (length pre) = Some (lp_bytes t @ rest)"
    by (simp add: assms(2))
  ultimately show ?thesis
    using assms(1,3)
    by (subst UnSubscribe_decodeTopics.simps) (auto simp: filter_ok_def simp del: length_lp_bytes)
qed

text \<open>
  The topics \<open>ts\<close> are read and then the loop stops, with \<open>rest\<close> unread, when \<open>rest\<close> is no
  longer than the bytes lost by then.
\<close>

lemma UnSubscribe_decodeTopics_wire:
  assumes "list_all filter_ok ts" and "src = pre @ filters_bytes ts @ rest"
    and "rem = int (length (filters_bytes ts @ rest)) - int d"
    and "ts \<noteq> [] \<longrightarrow> d + length ts \<le> 2 + length (last ts) + length rest"
    and "length rest \<le> d + length ts"
  shows "UnSubscribe_decodeTopics src h (length pre) rem =
     Some (h\<lparr>unsub_topics := unsub_topics h @ ts\<rparr>, length (pre @ filters_bytes ts), None)"
  using assms
proof (induction ts arbitrary: h pre rem d)
  case Nil
  then show ?case
    by (subst UnSubscribe_decodeTopics.simps) (simp add: filters_bytes_def)
next
  case (Cons t ts)
  have split: "filters_bytes (t # ts) = lp_bytes t @ filters_bytes ts"
    by (simp add: filters_bytes_def)
  have pos: "rem > 0"
  proof -
    have "2 + length (last (t # ts)) \<le> length (filters_bytes (t # ts))"
    proof -
      have "2 + length (last (t # ts)) \<in> set (map (\<lambda>t. 2 + length t) (t # ts))"
        using last_in_set [of "t # ts"] by (simp only: set_map) (rule imageI, simp)
      from member_le_sum_list [OF this] show ?thesis by (simp only: length_filters_bytes)
    qed
    with Cons.prems(3,4) show ?thesis by simp
  qed
  have "UnSubscribe_decodeTopics src h (length pre) rem =
     UnSubscribe_decodeTopics src (h\<lparr>unsub_topics := unsub_topics h @ [t]\<rparr>)
       (length (pre @ lp_bytes t)) (rem - int (length (lp_bytes t)) - 1)"
    using Cons.prems(1,2) pos by (intro UnSubscribe_decodeTopics_step) (auto simp: split)
  also have "\<dots> = Some (h\<lparr>unsub_topics := unsub_topics h @ [t]\<rparr>\<lparr>unsub_topics :=
        unsub_topics (h\<lparr>unsub_topics := unsub_topics h @ [t]\<rparr>) @ ts\<rparr>,
        length ((pre @ lp_bytes t) @ filters_bytes ts), None)"
    by (rule Cons.IH [where d = "Suc d"]) (use Cons.prems in \<open>auto simp: split\<close>)
  finally show ?case by (simp add: split)
qed

text \<open>The decoder on the body of a packet, of which it may read only the first topics \<open>ts\<close>.\<close>

lemma UnSubscribe_decode_prefix:
  assumes m: "length (packetID m) = 2" "h_version m = v" "mType m = UNSUBSCRIBE" "properties m = props_new v"
    and ok: "list_all filter_ok ts" "ts \<noteq> []" "unsub_topics m = ts @ ls"
    and reach: "length ts \<le> 2 + length (last ts) + length (filters_bytes ls)"
    and stop: "length (filters_bytes ls) \<le> length ts"
    and size: "int (UnSubscribe_size m) \<le> maxRemainingLength"
  shows "UnSubscribe_decodeMessage
     ((header_init v UNSUBSCRIBE newUnSubscribe)\<lparr>mFlags := mFlags m, remLen := of_nat (length (UnSubscribe_body m))\<rparr>)
     (UnSubscribe_body m) =
   Some (m\<lparr>remLen := of_nat (length (UnSubscribe_body m)), unsub_topics := ts\<rparr>,
         length (UnSubscribe_body m) - length (filters_bytes ls), None)"
proof -
  define n :: int32 where "n = of_nat (length (UnSubscribe_body m))"
  define h0 where "h0 = (header_init v UNSUBSCRIBE newUnSubscribe)\<lparr>mFlags := mFlags m, remLen := n\<rparr>"
  have body: "UnSubscribe_body m = packetID m @ filters_bytes ts @ filters_bytes ls"
    by (simp add: UnSubscribe_body_def ok(3) filters_bytes_def)
  have len: "sint n = int (length (UnSubscribe_body m))"
    unfolding n_def using size UnSubscribe_size_body [OF m(1)] by (intro remLen_of_nat) auto
  let ?h = "h0\<lparr>packetID := packetID m\<rparr>"
  have id: "header_decodePacketID (UnSubscribe_body m) h0 = (?h, length (packetID m))"
    by (rule decodePacketID_body [OF _ m(1) body]) (simp add: h0_def newUnSubscribe_def blank_defs)
  have "UnSubscribe_decodeTopics (UnSubscribe_body m) ?h (length (packetID m)) (sint n - int (length (packetID m))) =
     Some (?h\<lparr>unsub_topics := unsub_topics ?h @ ts\<rparr>, length (packetID m @ filters_bytes ts), None)"
    using ok reach stop by (intro UnSubscribe_decodeTopics_wire [where d = 0]) (auto simp: len body)
  moreover have "?h\<lparr>unsub_topics := unsub_topics ?h @ ts\<rparr> = m\<lparr>remLen := n, unsub_topics := ts\<rparr>"
    using m by (cases m) (auto simp: h0_def newUnSubscribe_def blank_defs)
  moreover have "remLen ?h = n" by (simp add: h0_def)
  ultimately have "UnSubscribe_decodeMessage h0 (UnSubscribe_body m) =
      Some (m\<lparr>remLen := n, unsub_topics := ts\<rparr>, length (packetID m @ filters_bytes ts), None)"
    unfolding UnSubscribe_decodeMessage_def id using ok(2) by simp
  then show ?thesis by (simp add: h0_def n_def) (simp add: body)
qed

lemma UnSubscribe_decode_body:
  assumes "UnSubscribe_wf v m"
  shows "UnSubscribe_decodeMessage
     ((header_init v UNSUBSCRIBE newUnSubscribe)\<lparr>mFlags := mFlags m, remLen := of_nat (length (UnSubscribe_body m))\<rparr>)
     (UnSubscribe_body m) =
   Some (m\<lparr>remLen := of_nat (length (UnSubscribe_body m))\<rparr>, length (UnSubscribe_body m), None)"
  using assms UnSubscribe_decode_prefix [of m v "unsub_topics m" "[]"]
  by (simp add: UnSubscribe_wf_def filters_bytes_def)

lemma UnSubscribe_encode_body:
  assumes "packetID m \<noteq> []" and "unsub_topics m \<noteq> []" and "list_all filter_ok (unsub_topics m)"
  shows "emits (UnSubscribe_encodeMessage m) (UnSubscribe_body m)"
proof -
  have "emits (w_then (header_encodePacketID m) (w_all (map WriteLPBytes (unsub_topics m)))) (UnSubscribe_body m)"
    unfolding UnSubscribe_body_def header_encodePacketID_def
    by (intro emits_then emits_copy emits_filters assms)
  with assms show ?thesis by (simp add: UnSubscribe_encodeMessage_def)
qed

interpretation unsubscribe: provider UnSubscribe_size UnSubscribe_encodeMessage UnSubscribe_decodeMessage
    UnSubscribe_wf UnSubscribe_body newUnSubscribe UNSUBSCRIBE
proof (unfold_locales, goal_cases)
  case (1 v m)
  then show ?case by (intro UnSubscribe_size_body) (simp add: UnSubscribe_wf_def)
next
  case (2 v m)
  then show ?case by (intro UnSubscribe_encode_body) (auto simp: UnSubscribe_wf_def)
next
  case (3 r m)
  show ?case by (simp add: UnSubscribe_encodeMessage_def header_encodePacketID_def UnSubscribe_size_def)
next
  case (4 v m)
  then show ?case by (rule UnSubscribe_decode_body)
next
  case (5 v m)
  then show ?case
    using UnSubscribe_size_body [of m] by (auto simp: UnSubscribe_wf_def flags_defs)
qed

section \<open>Properties\<close>

text \<open>
  The UNSUBSCRIBE decoder takes one byte too many off the remaining length for every topic.
  When the topics before the last one, \<open>ts\<close>, are at least as many as the last one's bytes with
  its length prefix, the packet the encoder writes is read back without error and without its
  last topic.
\<close>

theorem unsubscribe_last_topic_lost:
  assumes "length (packetID m) = 2" and "h_version m = v" and "mType m = UNSUBSCRIBE"
    and "properties m = props_new v" and "unsub_topics m = ts @ [t]" and "ts \<noteq> []"
    and "list_all filter_ok (ts @ [t])" and "2 + length t \<le> length ts"
    and "length ts \<le> 4 + length (last ts) + length t"
    and "int (UnSubscribe_size m) \<le> maxRemainingLength"
  shows "emits (UnSubscribe_encodeMessage m) (UnSubscribe_body m) \<and>
    UnSubscribe_decodeMessage
     ((header_init v UNSUBSCRIBE newUnSubscribe)\<lparr>mFlags := mFlags m, remLen := of_nat (length (UnSubscribe_body m))\<rparr>)
     (UnSubscribe_body m) =
    Some (m\<lparr>remLen := of_nat (length (UnSubscribe_body m)), unsub_topics := ts\<rparr>,
          length (UnSubscribe_body m) - (2 + length t), None)"
proof
  show "emits (UnSubscribe_encodeMessage m) (UnSubscribe_body m)"
    by (rule UnSubscribe_encode_body) (use assms in auto)
  show "UnSubscribe_decodeMessage
     ((header_init v UNSUBSCRIBE newUnSubscribe)\<lparr>mFlags := mFlags m, remLen := of_nat (length (UnSubscribe_body m))\<rparr>)
     (UnSubscribe_body m) =
    Some (m\<lparr>remLen := of_nat (length (UnSubscribe_body m)), unsub_topics := ts\<rparr>,
          length (UnSubscribe_body m) - (2 + length t), None)"
    using UnSubscribe_decode_prefix [of m v ts "[t]"] assms by (simp add: filters_bytes_def)
qed

definition ex_unsubscribe :: UnSubscribe where
  "ex_unsubscribe =
     \<lparr>properties = props_new ProtocolV311, packetID = [0, 1], remLen = 0, mFlags = 2, mType = UNSUBSCRIBE,
      h_version = ProtocolV311, unsub_topics = [[0x61], [0x62], [0x63], [0x64]]\<rparr>"

theorem unsubscribe_last_topic_lost_witness:
  "emits (UnSubscribe_encodeMessage ex_unsubscribe) (UnSubscribe_body ex_unsubscribe) \<and>
    UnSubscribe_decodeMessage
     ((header_init ProtocolV311 UNSUBSCRIBE newUnSubscribe)
        \<lparr>mFlags := mFlags ex_unsubscribe, remLen := of_nat (length (UnSubscribe_body ex_unsubscribe))\<rparr>)
     (UnSubscribe_body ex_unsubscribe) =
    Some (ex_unsubscribe\<lparr>remLen := of_nat (length (UnSubscribe_body ex_unsubscribe)),
            unsub_topics := [[0x61], [0x62], [0x63]]\<rparr>,
          length (UnSubscribe_body ex_unsubscribe) - (2 + length [0x64 :: byte]), None)"
  by (rule unsubscribe_last_topic_lost)
     (simp_all add: ex_unsubscribe_def filter_ok_def UnSubscribe_size_def maxRemainingLength_def MaxLPString_def)

end
