(* ===== verification/Session_Packets.thy ===== *)
theory Session_Packets
  imports Acks
begin

text \<open>
  The packets without a packet identifier that end or keep up a session: \<open>pingreq.go\<close>,
  \<open>pingresp.go\<close>, \<open>disconnect.go\<close> and \<open>auth.go\<close> of \<open>src/packet\<close>. AUTH is no \<open>provider\<close>: its
  encoder and its decoder both forget to step over the reason code.
\<close>

section \<open>PINGREQ and PINGRESP\<close>

definition newPing :: header where
  "newPing =
     \<lparr>properties = \<lparr>props = None, plen = 0\<rparr>, packetID = [], remLen = 0, mFlags = 0, mType = 0,
      h_version = 0\<rparr>"

definition Ping_decodeMessage :: "header \<Rightarrow> byte list \<Rightarrow> (header, go_error) decoded" where
  "Ping_decodeMessage msg src = Some (msg, 0, None)"

definition Ping_encodeMessage :: "header \<Rightarrow> go_error writer" where
  "Ping_encodeMessage msg = w_skip"

definition Ping_size :: "header \<Rightarrow> nat" where
  "Ping_size msg = 0"

definition Ping_wf :: "Type \<Rightarrow> ProtocolVersion \<Rightarrow> header \<Rightarrow> bool" where
  "Ping_wf t v m =
     ((t = PINGREQ \<or> t = PINGRESP) \<and> h_version m = v \<and> mType m = t \<and> mFlags m = 0 \<and>
      packetID m = [] \<and> properties m = props_new v)"

definition Ping_body :: "header \<Rightarrow> byte list" where
  "Ping_body m = []"

interpretation ping: provider Ping_size Ping_encodeMessage Ping_decodeMessage "Ping_wf t" Ping_body newPing t
  for t
proof (unfold_locales, goal_cases)
  case (4 v m)
  then show ?case
    by (cases m) (auto simp: Ping_decodeMessage_def Ping_wf_def Ping_body_def newPing_def blank_defs)
qed (auto simp: Ping_size_def Ping_body_def Ping_encodeMessage_def Ping_wf_def flags_defs
      maxRemainingLength_def emits_skip)

section \<open>DISCONNECT\<close>

record Disconnect = header +
  disc_reasonCode :: ReasonCode

definition newDisconnect :: Disconnect where
  "newDisconnect =
     \<lparr>properties = \<lparr>props = None, plen = 0\<rparr>, packetID = [], remLen = 0, mFlags = 0, mType = 0,
      h_version = 0, disc_reasonCode = 0\<rparr>"

definition Disconnect_SetReasonCode :: "ReasonCode \<Rightarrow> Disconnect \<Rightarrow> Disconnect" where
  "Disconnect_SetReasonCode c msg = msg\<lparr>disc_reasonCode := c\<rparr>"

definition Disconnect_decodeMessage :: "Disconnect \<Rightarrow> byte list \<Rightarrow> (Disconnect, go_error) decoded" where
  "Disconnect_decodeMessage msg from =
     (if h_version msg = ProtocolV50 then
        (if sint (remLen msg) < 1 then Some (msg\<lparr>disc_reasonCode := CodeSuccess\<rparr>, 0, None)
         else do {
           c \<leftarrow> go_index from 0;
           let m = msg\<lparr>disc_reasonCode := c\<rparr>;
           if \<not> Code_IsValidForType (disc_reasonCode m) (mType m)
           then Some (m, 0, Some (ECode CodeProtocolError))
           else do {
             sl \<leftarrow> go_slice_from from 1;
             if length sl < 1 \<and> sint (remLen m) < 2 then Some (m, 1, Some (ECode CodeMalformedPacket))
             else if sint (remLen m) < 2 then Some (m, 2, None)
             else decode_props from m 1 } })
      else if sint (remLen msg) > 0 then Some (msg, 0, Some (ECode CodeRefusedServerUnavailable))
      else Some (msg, 0, None))"

definition Disconnect_encodeMessage :: "Disconnect \<Rightarrow> go_error writer" where
  "Disconnect_encodeMessage msg =
     (let pLen = property_FullLen (properties msg) in
      if h_version msg = ProtocolV50 \<and> (pLen > 1 \<or> disc_reasonCode msg \<noteq> CodeSuccess)
      then w_then (w_put [disc_reasonCode msg])
             (if pLen > 1 then property_encode (properties msg) else w_skip)
      else w_skip)"

definition Disconnect_size :: "Disconnect \<Rightarrow> nat" where
  "Disconnect_size msg =
     (let pLen = property_FullLen (properties msg) in
      if h_version msg = ProtocolV50 \<and> (pLen > 1 \<or> disc_reasonCode msg \<noteq> CodeSuccess)
      then 1 + (if pLen > 1 then unat pLen else 0) else 0)"

text \<open>A reason without properties is a one-byte body, which the decoder rejects.\<close>

definition Disconnect_wf :: "ProtocolVersion \<Rightarrow> Disconnect \<Rightarrow> bool" where
  "Disconnect_wf v m =
     (ProtocolVersion_IsValid v \<and> h_version m = v \<and> mType m = DISCONNECT \<and> mFlags m = 0 \<and>
      packetID m = [] \<and> props_wf m \<and>
      (if v = ProtocolV50
       then Code_IsValidForType (disc_reasonCode m) DISCONNECT \<and>
            (disc_reasonCode m \<noteq> CodeSuccess \<longrightarrow> plen (properties m) \<noteq> 0)
       else disc_reasonCode m = 0) \<and>
      int (Disconnect_size m) \<le> maxRemainingLength)"

definition Disconnect_body :: "Disconnect \<Rightarrow> byte list" where
  "Disconnect_body m = reason_wire m (disc_reasonCode m)"

lemma Disconnect_size_body: "props_wf m \<Longrightarrow> Disconnect_size m = length (Disconnect_body m)"
  using length_reason_wire [of m "disc_reasonCode m"]
  by (simp add: Disconnect_size_def Disconnect_body_def)

lemma Disconnect_decode_body:
  assumes wf: "Disconnect_wf v m"
  shows "Disconnect_decodeMessage
     ((header_init v DISCONNECT newDisconnect)\<lparr>mFlags := mFlags m, remLen := of_nat (length (Disconnect_body m))\<rparr>)
     (Disconnect_body m) =
   Some (m\<lparr>remLen := of_nat (length (Disconnect_body m))\<rparr>, length (Disconnect_body m), None)"
proof -
  define n :: int32 where "n = of_nat (length (Disconnect_body m))"
  define h where "h = (header_init v DISCONNECT newDisconnect)\<lparr>mFlags := mFlags m, remLen := n\<rparr>"
  note w = wf [unfolded Disconnect_wf_def]
  have len: "sint n = int (length (Disconnect_body m))"
    unfolding n_def using w Disconnect_size_body [of m] by (intro remLen_of_nat) auto
  have h: "h_version h = v" "mType h = DISCONNECT" "properties h = props_new v" "remLen h = n"
    by (simp_all add: h_def newDisconnect_def)
  have m: "m\<lparr>remLen := n\<rparr> = h\<lparr>properties := properties m, disc_reasonCode := disc_reasonCode m\<rparr>"
    using w by (cases m) (auto simp: h_def newDisconnect_def blank_defs)
  have h': "h\<lparr>properties := props_new v, disc_reasonCode := 0\<rparr> = h"
    by (simp add: h_def newDisconnect_def blank_defs)
  have "Disconnect_decodeMessage h (Disconnect_body m) =
      Some (m\<lparr>remLen := n\<rparr>, length (Disconnect_body m), None)"
  proof (cases "v = ProtocolV50 \<and> plen (properties m) \<noteq> 0")
    case False
    then have body: "Disconnect_body m = []" and c: "disc_reasonCode m = 0"
      using w by (auto simp: Disconnect_body_def reason_wire_def split: if_splits)
    have "properties m = props_new v"
    proof (cases "v = ProtocolV50")
      case True
      with w have "wf_property DISCONNECT (properties m)" by (auto simp: props_wf_def)
      with plen_zero_empty(1) True False show ?thesis by (simp add: props_new_def)
    next
      case False
      with w version_ge_V50 [of v] show ?thesis by (auto simp: props_wf_def props_new_def)
    qed
    then have eq: "m\<lparr>remLen := n\<rparr> = h" by (simp add: m c h')
    have "h\<lparr>disc_reasonCode := 0\<rparr> = h" by (simp add: h_def newDisconnect_def blank_defs)
    with len show ?thesis
      by (auto simp: Disconnect_decodeMessage_def h body eq)
  next
    case True
    then have body: "Disconnect_body m = [disc_reasonCode m] @ property_bytes (properties m) @ []"
      and wfp: "wf_property DISCONNECT (properties m)"
      using w by (auto simp: Disconnect_body_def reason_wire_def props_wf_def)
    have "decode_props (Disconnect_body m) (h\<lparr>disc_reasonCode := disc_reasonCode m\<rparr>) 1 =
        Some (h\<lparr>disc_reasonCode := disc_reasonCode m, properties := properties m\<rparr>,
          length [disc_reasonCode m] + length (property_bytes (properties m)), None)"
      by (rule decode_props_wire [OF _ _ body]) (use wfp h True in \<open>auto simp: props_new_def\<close>)
    moreover have "0 < length (property_bytes (properties m))" by (simp add: property_bytes_def)
    moreover have "h\<lparr>disc_reasonCode := disc_reasonCode m, properties := properties m\<rparr> = m\<lparr>remLen := n\<rparr>"
      by (simp add: m)
    ultimately show ?thesis
      using True w h len by (simp add: Disconnect_decodeMessage_def body go_slice_from_def Let_def)
  qed
  then show ?thesis by (simp add: h_def n_def)
qed

interpretation disconnect: provider Disconnect_size Disconnect_encodeMessage Disconnect_decodeMessage
    Disconnect_wf Disconnect_body newDisconnect DISCONNECT
proof (unfold_locales, goal_cases)
  case (1 v m)
  then show ?case by (intro Disconnect_size_body) (simp add: Disconnect_wf_def)
next
  case (2 v m)
  then show ?case
    unfolding Disconnect_encodeMessage_def Disconnect_body_def
    by (intro emits_reason) (simp add: Disconnect_wf_def)
next
  case (3 r m)
  show ?case by (simp add: Disconnect_encodeMessage_def Disconnect_size_def Let_def)
next
  case (4 v m)
  then show ?case by (rule Disconnect_decode_body)
next
  case (5 v m)
  then show ?case
    using Disconnect_size_body [of m] by (auto simp: Disconnect_wf_def flags_defs)
qed

section \<open>AUTH\<close>

record Auth = header +
  authReason :: ReasonCode

definition newAuth :: Auth where
  "newAuth =
     \<lparr>properties = \<lparr>props = None, plen = 0\<rparr>, packetID = [], remLen = 0, mFlags = 0, mType = 0,
      h_version = 0, authReason = 0\<rparr>"

text \<open>The check reads the old reason and rejects it when it is valid.\<close>

definition Auth_SetReasonCode :: "ReasonCode \<Rightarrow> Auth \<Rightarrow> Auth \<times> go_error option" where
  "Auth_SetReasonCode c msg =
     (if Code_IsValidForType (authReason msg) (mType msg)
      then (msg, Some (EPkt ErrInvalidMessageType)) else (msg\<lparr>authReason := c\<rparr>, None))"

definition Auth_decodeMessage :: "Auth \<Rightarrow> byte list \<Rightarrow> (Auth, go_error) decoded" where
  "Auth_decodeMessage msg from = do {
     c \<leftarrow> go_index from 0;
     let m = msg\<lparr>authReason := c\<rparr>;
     if \<not> Code_IsValidForType (authReason m) (mType m) then Some (m, 0, Some (ECode CodeProtocolError))
     else decode_props from m 0 }"

definition Auth_encodeMessage :: "Auth \<Rightarrow> go_error writer" where
  "Auth_encodeMessage msg to = do {
     (to', n, err) \<leftarrow> (w_put [authReason msg] :: go_error writer) to;
     property_encode (properties msg) to' }"

definition Auth_size :: "Auth \<Rightarrow> nat" where
  "Auth_size msg = 1 + unat (property_FullLen (properties msg))"

section \<open>Properties\<close>

text \<open>
  A V5.0 DISCONNECT with a reason and no properties, which MQTT 5 allows, is written as a
  one-byte body, and the decoder of the same package rejects that body as malformed.
\<close>

theorem disconnect_reason_rejected:
  assumes "h_version m = ProtocolV50" and "mType m = DISCONNECT"
    and "properties m = \<lparr>props = Some [], plen = 0\<rparr>" and "disc_reasonCode m \<noteq> CodeSuccess"
    and "Code_IsValidForType (disc_reasonCode m) DISCONNECT"
  shows "emits (Disconnect_encodeMessage m) [disc_reasonCode m] \<and>
    Disconnect_decodeMessage (m\<lparr>remLen := 1\<rparr>) [disc_reasonCode m] =
      Some (m\<lparr>remLen := 1\<rparr>, 1, Some (ECode CodeMalformedPacket))"
proof
  have "property_FullLen (properties m) = 1"
    using assms(3) by (simp add: property_FullLen_def uvarintCalc_short)
  then show "emits (Disconnect_encodeMessage m) [disc_reasonCode m]"
    using assms(1,4) by (simp add: Disconnect_encodeMessage_def emits_Cons emits_skip)
  show "Disconnect_decodeMessage (m\<lparr>remLen := 1\<rparr>) [disc_reasonCode m] =
      Some (m\<lparr>remLen := 1\<rparr>, 1, Some (ECode CodeMalformedPacket))"
    using assms by (simp add: Disconnect_decodeMessage_def Let_def go_slice_from_def)
qed

definition ex_disconnect :: Disconnect where
  "ex_disconnect = Disconnect_SetReasonCode CodeServerBusy (header_init ProtocolV50 DISCONNECT newDisconnect)"

theorem disconnect_reason_rejected_witness:
  "emits (Disconnect_encodeMessage ex_disconnect) [disc_reasonCode ex_disconnect] \<and>
    Disconnect_decodeMessage (ex_disconnect\<lparr>remLen := 1\<rparr>) [disc_reasonCode ex_disconnect] =
      Some (ex_disconnect\<lparr>remLen := 1\<rparr>, 1, Some (ECode CodeMalformedPacket))"
  by (rule disconnect_reason_rejected)
     (simp_all add: ex_disconnect_def Disconnect_SetReasonCode_def newDisconnect_def blank_defs
       Code_IsValidForType_def packetTypeCodeMap_def)

text \<open>
  An AUTH packet that asks to continue or to repeat the authentication cannot be read back:
  the encoder reports one byte less than it announced, and the decoder takes the reason code for
  the length of the properties and rejects the packet. A fresh AUTH packet moreover keeps its
  reason code when \<open>SetReasonCode\<close> is called, whatever code is given.
\<close>

theorem auth_unreadable:
  fixes c :: ReasonCode and msg :: Auth
  defines "msg \<equiv> header_init ProtocolV50 AUTH newAuth"
  assumes "c = CodeContinueAuthentication \<or> c = CodeReAuthenticate"
  shows "Auth_size (msg\<lparr>authReason := c\<rparr>) = 2 \<and>
    Auth_encodeMessage (msg\<lparr>authReason := c\<rparr>) [0, 0] = Some ([c, 0], 1, None) \<and>
    Auth_decodeMessage msg [c, 0] = Some (msg\<lparr>authReason := c\<rparr>, 1, Some (ECode CodeMalformedPacket)) \<and>
    Auth_SetReasonCode c msg = (msg, Some (EPkt ErrInvalidMessageType))"
proof -
  have props: "properties msg = \<lparr>props = Some [], plen = 0\<rparr>" "mType msg = AUTH" "authReason msg = 0"
    by (simp_all add: msg_def newAuth_def blank_defs)
  have valid: "Code_IsValidForType c AUTH" "Code_IsValidForType 0 AUTH"
    using assms(2) by (auto simp: Code_IsValidForType_def packetTypeCodeMap_def)
  have full: "property_FullLen \<lparr>props = Some [], plen = 0\<rparr> = 1"
    by (simp add: property_FullLen_def uvarintCalc_short)
  have c: "c < 0x80" "ucast c \<noteq> (0 :: uint32)" using assms(2) by auto
  have "property_decode \<lparr>props = Some [], plen = 0\<rparr> AUTH [c, 0] =
      Some (\<lparr>props = Some [], plen = 0\<rparr>, 1, Some (ECode CodeMalformedPacket))"
    using c by (simp add: property_decode_def uvarint_Cons_short property_decode_loop.simps go_slice_from_def
        IsValidPacketType_def propertyAllowedMessageTypes_def)
  then have "Auth_decodeMessage msg [c, 0] = Some (msg\<lparr>authReason := c\<rparr>, 1, Some (ECode CodeMalformedPacket))"
    using valid props by (simp add: Auth_decodeMessage_def decode_props_def Let_def)
  then show ?thesis
    using props valid
    by (simp add: Auth_size_def Auth_encodeMessage_def Auth_SetReasonCode_def w_put_def
        property_encode_def full)
qed

theorem auth_unreadable_witness:
  "Auth_size (header_init ProtocolV50 AUTH newAuth\<lparr>authReason := CodeReAuthenticate\<rparr>) = 2 \<and>
   Auth_encodeMessage (header_init ProtocolV50 AUTH newAuth\<lparr>authReason := CodeReAuthenticate\<rparr>) [0, 0] =
     Some ([CodeReAuthenticate, 0], 1, None) \<and>
   Auth_decodeMessage (header_init ProtocolV50 AUTH newAuth) [CodeReAuthenticate, 0] =
     Some (header_init ProtocolV50 AUTH newAuth\<lparr>authReason := CodeReAuthenticate\<rparr>, 1,
           Some (ECode CodeMalformedPacket)) \<and>
   Auth_SetReasonCode CodeReAuthenticate (header_init ProtocolV50 AUTH newAuth) =
     (header_init ProtocolV50 AUTH newAuth, Some (EPkt ErrInvalidMessageType))"
  by (rule auth_unreadable) simp

end
