(* ===== verification/Packet.thy ===== *)
theory Packet
  imports Publish Connect Acks Subscriptions Session_Packets
begin

text \<open>
  \<open>src/packet/packet.go\<close>: the interface \<open>Provider\<close> as the sum of the packet types, the
  constructor \<open>New\<close>, and the package's \<open>Encode\<close> and \<open>Decode\<close>, which call the methods through
  the interface and turn a panic of a decoder into \<open>ErrPanicDetected\<close>.
\<close>

section \<open>The packets\<close>

datatype packet =
    PConnect Connect | PConnAck ConnAck | PPublish Publish | PAck Ack
  | PSubscribe Subscribe | PSubAck SubAck | PUnSubscribe UnSubscribe | PUnSubAck UnSubAck
  | PPingReq header | PPingResp header | PDisconnect Disconnect | PAuth Auth

text \<open>\<open>New\<close> and \<open>newMessage\<close>.\<close>

definition newMessage :: "ProtocolVersion \<Rightarrow> Type \<Rightarrow> go_error + packet" where
  "newMessage v t =
     (if t = CONNECT then Inr (PConnect (header_init v t newConnect))
      else if t = CONNACK then Inr (PConnAck (header_init v t newConnAck))
      else if t = PUBLISH then Inr (PPublish (header_init v t newPublish))
      else if t = PUBACK \<or> t = PUBREC \<or> t = PUBREL \<or> t = PUBCOMP
      then Inr (PAck (header_init v t newAck))
      else if t = SUBSCRIBE then Inr (PSubscribe (header_init v t newSubscribe))
      else if t = SUBACK then Inr (PSubAck (header_init v t newSubAck))
      else if t = UNSUBSCRIBE then Inr (PUnSubscribe (header_init v t newUnSubscribe))
      else if t = UNSUBACK then Inr (PUnSubAck (header_init v t newUnSubAck))
      else if t = PINGREQ then Inr (PPingReq (header_init v t newPing))
      else if t = PINGRESP then Inr (PPingResp (header_init v t newPing))
      else if t = DISCONNECT then Inr (PDisconnect (header_init v t newDisconnect))
      else if t = AUTH then
        (if v \<noteq> ProtocolV50 then Inl (EPkt ErrInvalidMessageType)
         else Inr (PAuth (header_init v t newAuth)))
      else Inl (EPkt ErrInvalidMessageType))"

section \<open>Methods through the interface\<close>

fun Packet_Type :: "packet \<Rightarrow> Type" where
  "Packet_Type (PConnect m) = mType m"
| "Packet_Type (PConnAck m) = mType m"
| "Packet_Type (PPublish m) = mType m"
| "Packet_Type (PAck m) = mType m"
| "Packet_Type (PSubscribe m) = mType m"
| "Packet_Type (PSubAck m) = mType m"
| "Packet_Type (PUnSubscribe m) = mType m"
| "Packet_Type (PUnSubAck m) = mType m"
| "Packet_Type (PPingReq m) = mType m"
| "Packet_Type (PPingResp m) = mType m"
| "Packet_Type (PDisconnect m) = mType m"
| "Packet_Type (PAuth m) = mType m"

fun Packet_Flags :: "packet \<Rightarrow> byte" where
  "Packet_Flags (PConnect m) = mFlags m"
| "Packet_Flags (PConnAck m) = mFlags m"
| "Packet_Flags (PPublish m) = mFlags m"
| "Packet_Flags (PAck m) = mFlags m"
| "Packet_Flags (PSubscribe m) = mFlags m"
| "Packet_Flags (PSubAck m) = mFlags m"
| "Packet_Flags (PUnSubscribe m) = mFlags m"
| "Packet_Flags (PUnSubAck m) = mFlags m"
| "Packet_Flags (PPingReq m) = mFlags m"
| "Packet_Flags (PPingResp m) = mFlags m"
| "Packet_Flags (PDisconnect m) = mFlags m"
| "Packet_Flags (PAuth m) = mFlags m"

fun Packet_Size :: "packet \<Rightarrow> packet \<times> nat \<times> go_error option" where
  "Packet_Size (PConnect m) = apfst PConnect (header_Size Connect_size m)"
| "Packet_Size (PConnAck m) = apfst PConnAck (header_Size ConnAck_size m)"
| "Packet_Size (PPublish m) = apfst PPublish (header_Size Publish_size m)"
| "Packet_Size (PAck m) = apfst PAck (header_Size Ack_size m)"
| "Packet_Size (PSubscribe m) = apfst PSubscribe (header_Size Subscribe_size m)"
| "Packet_Size (PSubAck m) = apfst PSubAck (header_Size SubAck_size m)"
| "Packet_Size (PUnSubscribe m) = apfst PUnSubscribe (header_Size UnSubscribe_size m)"
| "Packet_Size (PUnSubAck m) = apfst PUnSubAck (header_Size UnSubAck_size m)"
| "Packet_Size (PPingReq m) = apfst PPingReq (header_Size Ping_size m)"
| "Packet_Size (PPingResp m) = apfst PPingResp (header_Size Ping_size m)"
| "Packet_Size (PDisconnect m) = apfst PDisconnect (header_Size Disconnect_size m)"
| "Packet_Size (PAuth m) = apfst PAuth (header_Size Auth_size m)"

fun Packet_Encode :: "packet \<Rightarrow> byte list \<Rightarrow> (packet \<times> byte list \<times> nat \<times> go_error option) option" where
  "Packet_Encode (PConnect m) to = map_option (apfst PConnect) (header_Encode Connect_size Connect_encodeMessage m to)"
| "Packet_Encode (PConnAck m) to = map_option (apfst PConnAck) (header_Encode ConnAck_size ConnAck_encodeMessage m to)"
| "Packet_Encode (PPublish m) to = map_option (apfst PPublish) (header_Encode Publish_size Publish_encodeMessage m to)"
| "Packet_Encode (PAck m) to = map_option (apfst PAck) (header_Encode Ack_size Ack_encodeMessage m to)"
| "Packet_Encode (PSubscribe m) to = map_option (apfst PSubscribe) (header_Encode Subscribe_size Subscribe_encodeMessage m to)"
| "Packet_Encode (PSubAck m) to = map_option (apfst PSubAck) (header_Encode SubAck_size SubAck_encodeMessage m to)"
| "Packet_Encode (PUnSubscribe m) to = map_option (apfst PUnSubscribe) (header_Encode UnSubscribe_size UnSubscribe_encodeMessage m to)"
| "Packet_Encode (PUnSubAck m) to = map_option (apfst PUnSubAck) (header_Encode UnSubAck_size UnSubAck_encodeMessage m to)"
| "Packet_Encode (PPingReq m) to = map_option (apfst PPingReq) (header_Encode Ping_size Ping_encodeMessage m to)"
| "Packet_Encode (PPingResp m) to = map_option (apfst PPingResp) (header_Encode Ping_size Ping_encodeMessage m to)"
| "Packet_Encode (PDisconnect m) to = map_option (apfst PDisconnect) (header_Encode Disconnect_size Disconnect_encodeMessage m to)"
| "Packet_Encode (PAuth m) to = map_option (apfst PAuth) (header_Encode Auth_size Auth_encodeMessage m to)"

fun Packet_decode :: "packet \<Rightarrow> byte list \<Rightarrow> (packet, go_error) decoded" where
  "Packet_decode (PConnect m) buf = map_option (apfst PConnect) (header_decode Connect_decodeMessage m buf)"
| "Packet_decode (PConnAck m) buf = map_option (apfst PConnAck) (header_decode ConnAck_decodeMessage m buf)"
| "Packet_decode (PPublish m) buf = map_option (apfst PPublish) (header_decode Publish_decodeMessage m buf)"
| "Packet_decode (PAck m) buf = map_option (apfst PAck) (header_decode Ack_decodeMessage m buf)"
| "Packet_decode (PSubscribe m) buf = map_option (apfst PSubscribe) (header_decode Subscribe_decodeMessage m buf)"
| "Packet_decode (PSubAck m) buf = map_option (apfst PSubAck) (header_decode SubAck_decodeMessage m buf)"
| "Packet_decode (PUnSubscribe m) buf = map_option (apfst PUnSubscribe) (header_decode UnSubscribe_decodeMessage m buf)"
| "Packet_decode (PUnSubAck m) buf = map_option (apfst PUnSubAck) (header_decode UnSubAck_decodeMessage m buf)"
| "Packet_decode (PPingReq m) buf = map_option (apfst PPingReq) (header_decode Ping_decodeMessage m buf)"
| "Packet_decode (PPingResp m) buf = map_option (apfst PPingResp) (header_decode Ping_decodeMessage m buf)"
| "Packet_decode (PDisconnect m) buf = map_option (apfst PDisconnect) (header_decode Disconnect_decodeMessage m buf)"
| "Packet_decode (PAuth m) buf = map_option (apfst PAuth) (header_decode Auth_decodeMessage m buf)"

section \<open>Encode and Decode\<close>

definition Encode :: "packet \<Rightarrow> (packet \<times> byte list \<times> go_error option) option" where
  "Encode p =
     (case Packet_Size p of
        (p', sz, Some e) \<Rightarrow> Some (p', [], Some e)
      | (p', sz, None) \<Rightarrow> do {
          (p'', buf, n, err) \<leftarrow> Packet_Encode p' (replicate sz 0);
          Some (p'', buf, err) })"

definition Decode :: "ProtocolVersion \<Rightarrow> byte list \<Rightarrow> packet option \<times> nat \<times> go_error option" where
  "Decode v buf =
     (if length buf < 1 then (None, 0, Some (EPkt ErrInsufficientBufferSize))
      else (case newMessage v (drop_bit offsetPacketType (hd buf)) of
        Inl e \<Rightarrow> (None, 0, Some e)
      | Inr msg \<Rightarrow>
         (case Packet_decode msg buf of
            None \<Rightarrow> (None, 0, Some (EPkt ErrPanicDetected))
          | Some (_, n, Some e) \<Rightarrow> (None, n, Some e)
          | Some (m, n, None) \<Rightarrow> (Some m, n, None))))"

section \<open>Round trip\<close>

text \<open>
  \<open>packet_wf v p\<close>: the packet is well formed for a receiver of version \<open>v\<close>. It is narrower than
  what the encoder accepts where the code has no inverse: no AUTH packet (the code has no codec for
  it), no return codes in an UNSUBACK (\<open>unsuback.go\<close> does not write them), only
  UNSUBSCRIBE packets without properties whose last topic is long enough for the decoder to read
  the list to its end, and no V5.0 DISCONNECT with a reason code and no properties.
  \<open>packet_bytes\<close> is
  its wire format and \<open>packet_norm\<close> the packet with its remaining length filled in, as
  \<open>Size\<close> and the decoder leave it.
\<close>

fun packet_wf :: "ProtocolVersion \<Rightarrow> packet \<Rightarrow> bool" where
  "packet_wf v (PConnect m) = Connect_wf v m"
| "packet_wf v (PConnAck m) = ConnAck_wf v m"
| "packet_wf v (PPublish m) = Publish_wf v m"
| "packet_wf v (PAck m) = Ack_wf (mType m) v m"
| "packet_wf v (PSubscribe m) = Subscribe_wf v m"
| "packet_wf v (PSubAck m) = SubAck_wf v m"
| "packet_wf v (PUnSubscribe m) = UnSubscribe_wf v m"
| "packet_wf v (PUnSubAck m) = UnSubAck_wf v m"
| "packet_wf v (PPingReq m) = Ping_wf PINGREQ v m"
| "packet_wf v (PPingResp m) = Ping_wf PINGRESP v m"
| "packet_wf v (PDisconnect m) = Disconnect_wf v m"
| "packet_wf v (PAuth m) = False"

fun packet_body :: "packet \<Rightarrow> byte list" where
  "packet_body (PConnect m) = Connect_body m"
| "packet_body (PConnAck m) = ConnAck_body m"
| "packet_body (PPublish m) = Publish_body m"
| "packet_body (PAck m) = Ack_body m"
| "packet_body (PSubscribe m) = Subscribe_body m"
| "packet_body (PSubAck m) = SubAck_body m"
| "packet_body (PUnSubscribe m) = UnSubscribe_body m"
| "packet_body (PUnSubAck m) = UnSubAck_body m"
| "packet_body (PPingReq m) = Ping_body m"
| "packet_body (PPingResp m) = Ping_body m"
| "packet_body (PDisconnect m) = Disconnect_body m"
| "packet_body (PAuth m) = []"

definition packet_bytes :: "packet \<Rightarrow> byte list" where
  "packet_bytes p = frame (Packet_Type p) (Packet_Flags p) (packet_body p)"

fun packet_set_remLen :: "int32 \<Rightarrow> packet \<Rightarrow> packet" where
  "packet_set_remLen r (PConnect m) = PConnect (m\<lparr>remLen := r\<rparr>)"
| "packet_set_remLen r (PConnAck m) = PConnAck (m\<lparr>remLen := r\<rparr>)"
| "packet_set_remLen r (PPublish m) = PPublish (m\<lparr>remLen := r\<rparr>)"
| "packet_set_remLen r (PAck m) = PAck (m\<lparr>remLen := r\<rparr>)"
| "packet_set_remLen r (PSubscribe m) = PSubscribe (m\<lparr>remLen := r\<rparr>)"
| "packet_set_remLen r (PSubAck m) = PSubAck (m\<lparr>remLen := r\<rparr>)"
| "packet_set_remLen r (PUnSubscribe m) = PUnSubscribe (m\<lparr>remLen := r\<rparr>)"
| "packet_set_remLen r (PUnSubAck m) = PUnSubAck (m\<lparr>remLen := r\<rparr>)"
| "packet_set_remLen r (PPingReq m) = PPingReq (m\<lparr>remLen := r\<rparr>)"
| "packet_set_remLen r (PPingResp m) = PPingResp (m\<lparr>remLen := r\<rparr>)"
| "packet_set_remLen r (PDisconnect m) = PDisconnect (m\<lparr>remLen := r\<rparr>)"
| "packet_set_remLen r (PAuth m) = PAuth (m\<lparr>remLen := r\<rparr>)"

definition packet_norm :: "packet \<Rightarrow> packet" where
  "packet_norm p = packet_set_remLen (of_nat (length (packet_body p))) p"

text \<open>The lemmas of \<open>provider\<close> for all packets that interpret it.\<close>

lemmas Size_frames =
  connect.Size_frame connack.Size_frame publish.Size_frame ack.Size_frame subscribe.Size_frame suback.Size_frame unsubscribe.Size_frame unsuback.Size_frame ping.Size_frame disconnect.Size_frame
lemmas Encode_frames =
  connect.Encode_frame connack.Encode_frame publish.Encode_frame ack.Encode_frame subscribe.Encode_frame suback.Encode_frame unsubscribe.Encode_frame unsuback.Encode_frame ping.Encode_frame disconnect.Encode_frame
lemmas Encode_shorts =
  connect.Encode_short connack.Encode_short publish.Encode_short ack.Encode_short subscribe.Encode_short suback.Encode_short unsubscribe.Encode_short unsuback.Encode_short ping.Encode_short disconnect.Encode_short
lemmas decode_frames =
  connect.decode_frame connack.decode_frame publish.decode_frame ack.decode_frame subscribe.decode_frame suback.decode_frame unsubscribe.decode_frame unsuback.decode_frame ping.decode_frame disconnect.decode_frame
lemmas decode_truncateds =
  connect.decode_truncated connack.decode_truncated publish.decode_truncated subscribe.decode_truncated
  suback.decode_truncated unsubscribe.decode_truncated unsuback.decode_truncated
  ping.decode_truncated disconnect.decode_truncated
lemmas wf_headers =
  connect.wf_header connack.wf_header publish.wf_header ack.wf_header subscribe.wf_header suback.wf_header unsubscribe.wf_header unsuback.wf_header ping.wf_header disconnect.wf_header

lemmas wf_types =
  connect.wf_header [THEN conjunct1] connack.wf_header [THEN conjunct1] publish.wf_header [THEN conjunct1]
  subscribe.wf_header [THEN conjunct1] suback.wf_header [THEN conjunct1]
  unsubscribe.wf_header [THEN conjunct1] unsuback.wf_header [THEN conjunct1]
  ping.wf_header [of PINGREQ, THEN conjunct1] ping.wf_header [of PINGRESP, THEN conjunct1]
  disconnect.wf_header [THEN conjunct1]

lemma packet_wf_type:
  assumes "packet_wf v p"
  shows "flags_ok (Packet_Type p) (Packet_Flags p)" and "int (length (packet_body p)) \<le> maxRemainingLength"
  using assms by (cases p; auto dest: wf_headers)+

lemma packet_Size_bytes:
  assumes "packet_wf v p"
  shows "Packet_Size (packet_set_remLen r p) = (packet_norm p, length (packet_bytes p), None)"
  using assms
  by (cases p) (auto simp: packet_bytes_def packet_norm_def Size_frames wf_types)

lemma packet_Encode_bytes:
  assumes "packet_wf v p"
  shows "Packet_Encode (packet_set_remLen r p) (replicate (length (packet_bytes p) + k) 0) =
     Some (packet_norm p, packet_bytes p @ replicate k 0, length (packet_bytes p), None)"
  using assms
  by (cases p) (auto simp: packet_bytes_def packet_norm_def Encode_frames wf_types)

lemma packet_Encode_short:
  assumes "packet_wf v p" and "length to < length (packet_bytes p)"
  shows "Packet_Encode (packet_set_remLen r p) to =
     Some (packet_norm p, to, length (packet_bytes p), Some (EPkt ErrInsufficientBufferSize))"
  using assms
  by (cases p) (auto simp: packet_bytes_def packet_norm_def Encode_shorts wf_types)

lemma newMessage_Ack: "Ack_wf t v m \<Longrightarrow> newMessage v t = Inr (PAck (header_init v t newAck))"
  by (auto simp: Ack_wf_def is_ack_type_def newMessage_def)

lemma newMessage_decode:
  assumes "packet_wf v p"
  shows "\<exists>msg. newMessage v (Packet_Type p) = Inr msg \<and>
    Packet_decode msg (packet_bytes p) = Some (packet_norm p, length (packet_bytes p), None)"
  using assms
proof (cases p)
  case (PAck m)
  with assms show ?thesis
    by (auto simp: newMessage_Ack packet_bytes_def packet_norm_def ack.decode_frame)
qed (auto simp: newMessage_def packet_bytes_def packet_norm_def decode_frames wf_types)

lemma newMessage_truncated:
  assumes "packet_wf v p" and "0 < k" and "k < length (packet_bytes p)"
  shows "\<exists>msg. newMessage v (Packet_Type p) = Inr msg \<and>
    (\<exists>h n. Packet_decode msg (take k (packet_bytes p)) = Some (h, n, Some (EPkt ErrInsufficientDataSize)))"
  using assms
proof (cases p)
  case (PAck m)
  with assms ack.decode_truncated [of "mType m" v m k] show ?thesis
    by (auto simp: newMessage_Ack packet_bytes_def)
qed (auto simp: newMessage_def packet_bytes_def wf_types dest: decode_truncateds)

lemma hd_packet_bytes:
  "packet_wf v p \<Longrightarrow> drop_bit offsetPacketType (hd (packet_bytes p)) = Packet_Type p"
  using packet_wf_type(1) [of v p] fixed_header_byte(1) [of "Packet_Type p" "Packet_Flags p"]
  by (simp add: packet_bytes_def frame_def flags_ok_def)

lemma packet_bytes_not_Nil [simp]: "packet_bytes p \<noteq> []"
  by (simp add: packet_bytes_def frame_def)

lemma Decode_bytes:
  assumes "packet_wf v p"
  shows "Decode v (packet_bytes p) = (Some (packet_norm p), length (packet_bytes p), None)"
  using newMessage_decode [OF assms] hd_packet_bytes [OF assms] by (auto simp: Decode_def Suc_le_eq)

lemma packet_set_remLen_id: "\<exists>r. packet_set_remLen r p = p"
proof (cases p)
  case (PConnect m) then show ?thesis by (intro exI [of _ "remLen m"]) simp
next
  case (PConnAck m) then show ?thesis by (intro exI [of _ "remLen m"]) simp
next
  case (PPublish m) then show ?thesis by (intro exI [of _ "remLen m"]) simp
next
  case (PAck m) then show ?thesis by (intro exI [of _ "remLen m"]) simp
next
  case (PSubscribe m) then show ?thesis by (intro exI [of _ "remLen m"]) simp
next
  case (PSubAck m) then show ?thesis by (intro exI [of _ "remLen m"]) simp
next
  case (PUnSubscribe m) then show ?thesis by (intro exI [of _ "remLen m"]) simp
next
  case (PUnSubAck m) then show ?thesis by (intro exI [of _ "remLen m"]) simp
next
  case (PPingReq m) then show ?thesis by (intro exI [of _ "remLen m"]) simp
next
  case (PPingResp m) then show ?thesis by (intro exI [of _ "remLen m"]) simp
next
  case (PDisconnect m) then show ?thesis by (intro exI [of _ "remLen m"]) simp
next
  case (PAuth m) then show ?thesis by (intro exI [of _ "remLen m"]) simp
qed

lemma Encode_bytes:
  assumes "packet_wf v p"
  shows "Encode p = Some (packet_norm p, packet_bytes p, None)"
proof -
  obtain r where r: "packet_set_remLen r p = p" using packet_set_remLen_id by blast
  from packet_Size_bytes [OF assms, of r] r
  have "Packet_Size p = (packet_norm p, length (packet_bytes p), None)" by simp
  moreover have "Packet_Encode (packet_norm p) (replicate (length (packet_bytes p)) 0) =
      Some (packet_norm p, packet_bytes p, length (packet_bytes p), None)"
    using packet_Encode_bytes [OF assms, of _ 0] by (simp add: packet_norm_def)
  ultimately show ?thesis by (simp add: Encode_def)
qed

lemma Decode_truncated:
  assumes "packet_wf v p" and "0 < k" and "k < length (packet_bytes p)"
  shows "\<exists>n. Decode v (take k (packet_bytes p)) = (None, n, Some (EPkt ErrInsufficientDataSize))"
proof -
  have "hd (take k (packet_bytes p)) = hd (packet_bytes p)" "take k (packet_bytes p) \<noteq> []"
    using assms(2) by (auto simp: hd_take)
  with newMessage_truncated [OF assms] hd_packet_bytes [OF assms(1)] show ?thesis
    by (auto simp: Decode_def Suc_le_eq)
qed

section \<open>Properties\<close>

text \<open>
  C1. Every packet of the eleven types that implement the codec that is well formed (in the sense
  of \<open>packet_wf\<close>, with its restrictions on UNSUBACK, UNSUBSCRIBE and DISCONNECT) survives the wire:
  \<open>Encode\<close> returns exactly its wire format, and \<open>Decode\<close> of those bytes returns the packet with
  its remaining length filled in, and the number of bytes.
\<close>

theorem packet_roundtrip:
  assumes "packet_wf v p"
  shows "Encode p = Some (packet_norm p, packet_bytes p, None) \<and>
    Decode v (packet_bytes p) = (Some (packet_norm p), length (packet_bytes p), None)"
  using Encode_bytes [OF assms] Decode_bytes [OF assms] by blast

definition ex_publish :: Publish where
  "ex_publish =
     \<lparr>properties = \<lparr>props = Some [(PropertyContentType, VString [0x74])], plen = 4\<rparr>,
      packetID = [0, 7], remLen = 0, mFlags = 2, mType = PUBLISH, h_version = ProtocolV50,
      pub_payload = [1, 2], pub_topic = [0x61, 0x2F, 0x62], publishID = 0, expireAt = 0\<rparr>"

lemma ex_publish_wf: "packet_wf ProtocolV50 (PPublish ex_publish)"
  by (simp add: ex_publish_def wf_eval Publish_wf_def Publish_QoS_def Publish_Dup_def Publish_size_def
      calcLenString_def)

lemma ex_publish_bytes:
  "packet_bytes (PPublish ex_publish) = [0x32, 14, 0, 3, 0x61, 0x2F, 0x62, 0, 7, 4, 3, 0, 1, 0x74, 1, 2]"
  by code_simp

theorem packet_roundtrip_witness:
  "Encode (PPublish ex_publish) =
     Some (packet_norm (PPublish ex_publish), [0x32, 14, 0, 3, 0x61, 0x2F, 0x62, 0, 7, 4, 3, 0, 1, 0x74, 1, 2], None) \<and>
   Decode ProtocolV50 [0x32, 14, 0, 3, 0x61, 0x2F, 0x62, 0, 7, 4, 3, 0, 1, 0x74, 1, 2] =
     (Some (packet_norm (PPublish ex_publish)), 16, None)"
  using packet_roundtrip [OF ex_publish_wf] by (simp add: ex_publish_bytes)

text \<open>
  C38. A packet that has not arrived completely is never mistaken for one: \<open>Decode\<close> of a proper
  non-empty prefix of a well-formed packet returns no message and \<open>ErrInsufficientDataSize\<close>.
\<close>

theorem packet_truncated:
  assumes "packet_wf v p" and "0 < k" and "k < length (packet_bytes p)"
  shows "\<exists>n. Decode v (take k (packet_bytes p)) = (None, n, Some (EPkt ErrInsufficientDataSize))"
  by (rule Decode_truncated [OF assms])

theorem packet_truncated_witness:
  "\<exists>n. Decode ProtocolV50 (take 15 (packet_bytes (PPublish ex_publish))) =
     (None, n, Some (EPkt ErrInsufficientDataSize))"
  by (rule packet_truncated [OF ex_publish_wf]) (simp_all add: ex_publish_bytes)

text \<open>
  A buffer of the wrong size is handled without a stray write: \<open>Encode\<close> into a buffer that
  is too short leaves it as it is and reports the size needed; into a larger one it stores the
  packet at the front and leaves the rest alone.
\<close>

theorem packet_encode_buffer:
  assumes "packet_wf v p"
  shows "(\<forall>to. length to < length (packet_bytes p) \<longrightarrow>
           Packet_Encode (packet_norm p) to =
             Some (packet_norm p, to, length (packet_bytes p), Some (EPkt ErrInsufficientBufferSize))) \<and>
         (\<forall>k. Packet_Encode (packet_norm p) (replicate (length (packet_bytes p) + k) 0) =
             Some (packet_norm p, packet_bytes p @ replicate k 0, length (packet_bytes p), None))"
  using packet_Encode_short [OF assms] packet_Encode_bytes [OF assms] by (simp add: packet_norm_def)

theorem packet_encode_buffer_witness:
  "Packet_Encode (packet_norm (PPublish ex_publish)) [1, 2] =
     Some (packet_norm (PPublish ex_publish), [1, 2], 16, Some (EPkt ErrInsufficientBufferSize)) \<and>
   Packet_Encode (packet_norm (PPublish ex_publish)) (replicate 18 0) =
     Some (packet_norm (PPublish ex_publish), packet_bytes (PPublish ex_publish) @ [0, 0], 16, None)"
  using packet_encode_buffer [OF ex_publish_wf, THEN conjunct1, rule_format, of "[1, 2]"]
    packet_encode_buffer [OF ex_publish_wf, THEN conjunct2, rule_format, of 2]
  by (simp add: ex_publish_bytes eval_nat_numeral)

section \<open>Messages read with another version\<close>

text \<open>
  The wire format of a message of version 5.0 without properties, read by a decoder for an older
  version: the length of the properties, a byte 0, is the first byte of the payload. Any version below
  5.0 is read like version 3.1.1, the zero value included.
\<close>

definition Publish_as_old :: "ProtocolVersion \<Rightarrow> Publish \<Rightarrow> Publish" where
  "Publish_as_old v m = m\<lparr>h_version := v, properties := \<lparr>props = None, plen = 0\<rparr>, pub_payload := 0 # pub_payload m\<rparr>"

lemma Publish_as_old_flags [simp]:
  "Publish_QoS (Publish_as_old v m) = Publish_QoS m" "Publish_Dup (Publish_as_old v m) = Publish_Dup m"
  "mFlags (Publish_as_old v m) = mFlags m"
  by (simp_all add: Publish_as_old_def Publish_QoS_def Publish_Dup_def)

lemma Publish_as_old_wire:
  assumes "Publish_wf ProtocolV50 m" and "properties m = props_new ProtocolV50" and "pub_topic m \<noteq> []"
    and "ProtocolVersion_IsValid v" and "v \<noteq> ProtocolV50"
  shows "Publish_wf v (Publish_as_old v m)" and "Publish_body (Publish_as_old v m) = Publish_body m"
    and "packet_bytes (PPublish (Publish_as_old v m)) = packet_bytes (PPublish m)"
proof -
  note wf = assms(1) [unfolded Publish_wf_def]
  have full: "unat (property_FullLen (props_new ProtocolV50)) = 1"
    by (simp add: props_new_def property_FullLen_def uvarintCalc_short)
  have size: "Publish_size (Publish_as_old v m) = Publish_size m"
    using wf assms(2,5) full by (simp add: Publish_size_def) (simp add: Publish_as_old_def)
  show "Publish_wf v (Publish_as_old v m)"
    using wf size assms(3-5) unfolding Publish_wf_def Publish_as_old_flags size
    by (auto simp: Publish_as_old_def props_wf_def split: if_splits)
  have "property_bytes (props_new ProtocolV50) = [0]" by code_simp
  then show b: "Publish_body (Publish_as_old v m) = Publish_body m"
    using wf assms(2,5) by (simp add: Publish_body_def props_wire_def Publish_as_old_def)
  have "mType (Publish_as_old v m) = mType m" by (simp add: Publish_as_old_def)
  with b show "packet_bytes (PPublish (Publish_as_old v m)) = packet_bytes (PPublish m)"
    by (simp add: packet_bytes_def)
qed

text \<open>The decoder only asks whether the version is 5.0: a version below is read like version 0.\<close>

abbreviation (input) zero_version :: "Publish \<Rightarrow> Publish" where "zero_version m \<equiv> m\<lparr>h_version := 0\<rparr>"

definition zeroed :: "(Publish, go_error) decoded \<Rightarrow> (Publish, go_error) decoded" where
  "zeroed r = map_option (apfst zero_version) r"

lemma zeroed_simps [simp]: "zeroed None = None" "zeroed (Some (m, n, e)) = Some (zero_version m, n, e)"
  by (simp_all add: zeroed_def)

lemma d_then_zeroed:
  assumes "\<And>m n. r = Some (m, n, None) \<Longrightarrow> k (zero_version m) n = zeroed (k m n)"
  shows "d_then (zeroed r) k = zeroed (d_then r k)"
proof (cases r)
  case (Some x)
  then show ?thesis using assms by (cases x; cases "snd (snd x)") auto
qed (simp add: d_then_def)

lemma Publish_decode_zeroed:
  fixes m :: Publish
  assumes "h_version m < ProtocolV50"
  shows "Publish_decodeID buf (zero_version m) n = zeroed (Publish_decodeID buf m n)"
    and "Publish_decodeProps buf (zero_version m) n = zeroed (Publish_decodeProps buf m n)"
    and "Publish_decodePayload buf (zero_version m) n = zeroed (Publish_decodePayload buf m n)"
  using assms
  by (auto simp: Publish_decodeID_def Publish_decodeProps_def Publish_decodePayload_def Publish_QoS_def v5_code_def
      header_decodePacketID_def alloc_packetID_def go_slice_from_def Let_def case_prod_beta)

lemma Publish_decodeID_version:
  "Publish_decodeID buf m n = Some (m', n', e) \<Longrightarrow> h_version m' = h_version m"
  by (auto simp: Publish_decodeID_def header_decodePacketID_def go_slice_from_def Let_def case_prod_beta split: if_splits)

lemma Publish_decodeMessage_zero:
  assumes "h_version m < ProtocolV50"
  shows "Publish_decodeMessage (zero_version m) buf = zeroed (Publish_decodeMessage m buf)"
proof -
  have *: "d_then (d_then (Publish_decodeID buf (zero_version x) n) (Publish_decodeProps buf)) (Publish_decodePayload buf) =
      zeroed (d_then (d_then (Publish_decodeID buf x n) (Publish_decodeProps buf)) (Publish_decodePayload buf))"
    if "h_version x < ProtocolV50" for x n
  proof -
    have p: "Publish_decodeProps buf y k = Some (y, k, None)" if "h_version y < ProtocolV50" for y k
      using that by (auto simp: Publish_decodeProps_def)
    have v: "h_version y < ProtocolV50" if "Publish_decodeID buf x n = Some (y, k, e)" for y k e
      using that \<open>h_version x < ProtocolV50\<close> by (auto dest: Publish_decodeID_version)
    have "d_then (zeroed (Publish_decodeID buf x n)) (Publish_decodeProps buf) =
        zeroed (d_then (Publish_decodeID buf x n) (Publish_decodeProps buf))"
      by (rule d_then_zeroed) (use v in \<open>blast intro: Publish_decode_zeroed(2)\<close>)
    moreover have "h_version y < ProtocolV50"
      if "d_then (Publish_decodeID buf x n) (Publish_decodeProps buf) = Some (y, k, None)" for y k
      using that v p by (cases "Publish_decodeID buf x n") (auto simp: d_then_def split: option.split_asm)
    ultimately show ?thesis
      by (simp only: Publish_decode_zeroed(1) [OF that]) (rule d_then_zeroed, blast intro: Publish_decode_zeroed(3))
  qed
  obtain b n e where r: "ReadLPBytes buf = (b, n, e)" by (cases "ReadLPBytes buf")
  have m: "h_version m \<noteq> ProtocolV50" "(0 :: ProtocolVersion) < ProtocolV50" using assms by auto
  have q: "Publish_QoS (zero_version m) = Publish_QoS m" "Publish_Dup (zero_version m) = Publish_Dup m"
    by (simp_all add: Publish_QoS_def Publish_Dup_def)
  have c: "(zero_version m)\<lparr>pub_topic := b\<rparr> = zero_version (m\<lparr>pub_topic := b\<rparr>)" by (cases m) simp
  show ?thesis
    using assms m * [of "m\<lparr>pub_topic := b\<rparr>" n, folded c]
    by (cases e) (simp_all add: Publish_decodeMessage_def r q v5_code_def if_distrib [of zeroed])
qed

lemma Decode_zero:
  assumes "Publish_wf v m" and "v < ProtocolV50"
  shows "Decode 0 (packet_bytes (PPublish m)) =
    (Some (PPublish (m\<lparr>h_version := 0, remLen := of_nat (length (Publish_body m))\<rparr>)), length (packet_bytes (PPublish m)), None)"
proof -
  let ?f = "frame PUBLISH (mFlags m) (Publish_body m)"
  note wf = assms(1) [unfolded Publish_wf_def]
  have f: "packet_bytes (PPublish m) = ?f" using wf by (simp add: packet_bytes_def)
  define h where "h = (header_init v PUBLISH newPublish)\<lparr>mFlags := mFlags m, remLen := of_nat (length (Publish_body m))\<rparr>"
  have h: "(header_init 0 PUBLISH newPublish)\<lparr>mType := PUBLISH, mFlags := mFlags m, remLen := of_nat (length (Publish_body m))\<rparr> =
      zero_version h" "h_version h < ProtocolV50"
    using assms(2) by (simp_all add: h_def header_init_def header_setType_def Let_def)
  have "Publish_decodeMessage (zero_version h) (Publish_body m) =
      Some (m\<lparr>h_version := 0, remLen := of_nat (length (Publish_body m))\<rparr>, length (Publish_body m), None)"
    using Publish_decodeMessage_zero [OF h(2)] Publish_decode_body [OF assms(1)] by (simp add: h_def)
  then have "header_decode Publish_decodeMessage (header_init 0 PUBLISH newPublish) ?f =
      Some (m\<lparr>h_version := 0, remLen := of_nat (length (Publish_body m))\<rparr>, length ?f, None)"
    using wf Publish_size_body [OF assms(1)] h by (intro header_decode_frame) simp_all
  moreover have "drop_bit offsetPacketType (hd ?f) = PUBLISH"
    using hd_packet_bytes [of v "PPublish m"] assms(1) wf f by simp
  moreover have "?f \<noteq> []" by (simp add: frame_def)
  ultimately show ?thesis by (simp add: Decode_def newMessage_def f Suc_le_eq)
qed

end
