(* ===== verification/Topic_Tree.thy ===== *)
theory Topic_Tree
  imports Publish "HOL-Library.AList" "HOL-Library.Multiset"
begin

text \<open>
  \<open>src/topics/mem/node.go\<close> with the types of \<open>src/topics/types/types.go\<close>: the tree of topic
  levels that holds the subscriptions and the retained messages.

  A \<open>*node\<close> is a value of the datatype \<open>node\<close>; the pointer to the parent is the path from the
  root, so the operations that walk up the parents recurse down the path instead. A Go map is an
  association list with distinct keys, in the order in which \<open>range\<close> visits it. A subscriber is
  known by its \<open>Hash()\<close>. The functions that fill a \<open>publishEntries\<close> return \<open>None\<close> for the panic
  of \<open>s[0]\<close> on an empty list.
\<close>

section \<open>State\<close>

definition MWC :: gostring where "MWC = [byte_hash]"
definition SWC :: gostring where "SWC = [byte_plus]"

datatype topics_error =
    ErrInvalidArgs_topics | ErrUnexpectedObjectType | ErrUnknownProvider | ErrAlreadyExists | ErrNotFound

record SubscriptionParams =
  sp_ID :: uint32
  sp_Ops :: SubscriptionOptions
  sp_Granted :: QosType

record subscribedEntry =
  se_s :: uintptr
  se_p :: SubscriptionParams

record publishEntry =
  pe_s :: uintptr
  pe_ops :: SubscriptionOptions
  pe_qos :: QosType
  pe_ids :: "uint32 list"

type_synonym subscribedEntries = "(uintptr \<times> subscribedEntry) list"
type_synonym publishEntries = "(uintptr \<times> publishEntry list) list"

text \<open>
  What a node retains: a message, or a dynamic value of the system tree, known by its topic,
  whose message is computed when it is read.
\<close>

datatype RetainObject = RPublish Publish | RDynamic gostring

fun RetainObject_Topic :: "RetainObject \<Rightarrow> gostring" where
  "RetainObject_Topic (RPublish p) = pub_topic p"
| "RetainObject_Topic (RDynamic t) = t"

datatype node =
  Node (n_retained: "RetainObject option") (n_subs: subscribedEntries) (n_children: "(gostring \<times> node) list")

definition newNode :: node where
  "newNode = Node None [] []"

definition acquire :: "subscribedEntry \<Rightarrow> publishEntry" where
  "acquire s =
     \<lparr>pe_s = se_s s, pe_ops = sp_Ops (se_p s), pe_qos = sp_Granted (se_p s),
      pe_ids = (if sp_ID (se_p s) > 0 then [sp_ID (se_p s)] else [])\<rparr>"

section \<open>Walking the tree\<close>

text \<open>\<open>leafInsertNode\<close>: the tree with the path present; the leaf is found with \<open>leafSearchNode\<close>.\<close>

fun leafInsertNode :: "gostring list \<Rightarrow> node \<Rightarrow> node" where
  "leafInsertNode [] root = root"
| "leafInsertNode (level # levels) root =
     (let child = (case map_of (n_children root) level of Some n \<Rightarrow> n | None \<Rightarrow> newNode) in
      Node (n_retained root) (n_subs root)
        (AList.update level (leafInsertNode levels child) (n_children root)))"

fun leafSearchNode :: "gostring list \<Rightarrow> node \<Rightarrow> node option" where
  "leafSearchNode [] root = Some root"
| "leafSearchNode (token # levels) root =
     (case map_of (n_children root) token of None \<Rightarrow> None | Some n \<Rightarrow> leafSearchNode levels n)"

text \<open>A write through the pointer to the node at a path.\<close>

fun node_modify :: "gostring list \<Rightarrow> (node \<Rightarrow> node) \<Rightarrow> node \<Rightarrow> node" where
  "node_modify [] f root = f root"
| "node_modify (level # levels) f root =
     (case map_of (n_children root) level of
        None \<Rightarrow> root
      | Some n \<Rightarrow> Node (n_retained root) (n_subs root)
                    (AList.update level (node_modify levels f n) (n_children root)))"

text \<open>\<open>len(subs) == 0 && len(children) == 0 && retained == nil\<close>\<close>

definition node_empty :: "node \<Rightarrow> bool" where
  "node_empty n = (length (n_subs n) = 0 \<and> length (n_children n) = 0 \<and> n_retained n = None)"

text \<open>
  The loop that runs up from the leaf: an empty node is deleted from its parent. The second
  result is the list of arguments of the calls of \<open>onCleanUnsubscribe\<close>, from the leaf up;
  \<open>path\<close> is the path of \<open>root\<close>.
\<close>

fun prune_up :: "gostring list \<Rightarrow> gostring list \<Rightarrow> node \<Rightarrow> node \<times> gostring list list" where
  "prune_up path [] root = (root, if node_empty root then [path] else [])"
| "prune_up path (level # levels) root =
     (case map_of (n_children root) level of
        None \<Rightarrow> (root, [])
      | Some n \<Rightarrow>
         (let (n', calls) = prune_up (path @ [level]) levels n;
              children = (if node_empty n' then AList.delete level (n_children root)
                          else AList.update level n' (n_children root));
              root' = Node (n_retained root) (n_subs root) children
          in (root', calls @ (if node_empty root' then [path] else []))))"

section \<open>Subscriptions\<close>

definition set_sub :: "uintptr \<Rightarrow> SubscriptionParams \<Rightarrow> node \<Rightarrow> node" where
  "set_sub sub p n =
     (case map_of (n_subs n) sub of
        None \<Rightarrow> Node (n_retained n) (AList.update sub \<lparr>se_s = sub, se_p = p\<rparr> (n_subs n)) (n_children n)
      | Some s \<Rightarrow> Node (n_retained n) (AList.update sub (s\<lparr>se_p := p\<rparr>) (n_subs n)) (n_children n))"

definition subscriptionInsert ::
    "gostring \<Rightarrow> uintptr \<Rightarrow> SubscriptionParams \<Rightarrow> node \<Rightarrow> node \<times> bool" where
  "subscriptionInsert filter_s sub p root =
     (let levels = go_split byte_slash filter_s;
          root' = leafInsertNode levels root;
          exists = (case leafSearchNode levels root' of
                      Some leaf \<Rightarrow> map_of (n_subs leaf) sub \<noteq> None | None \<Rightarrow> False)
      in (node_modify levels (set_sub sub p) root', exists))"

text \<open>The subscriber is \<open>None\<close> for the nil argument that removes all of them.\<close>

definition del_sub :: "uintptr option \<Rightarrow> node \<Rightarrow> node" where
  "del_sub sub n =
     (case sub of
        None \<Rightarrow> Node (n_retained n) [] (n_children n)
      | Some i \<Rightarrow> Node (n_retained n) (AList.delete i (n_subs n)) (n_children n))"

definition subscriptionRemove ::
    "gostring \<Rightarrow> uintptr option \<Rightarrow> node \<Rightarrow> node \<times> gostring list list \<times> topics_error option" where
  "subscriptionRemove topic sub root =
     (let levels = go_split byte_slash topic in
      case leafSearchNode levels root of
        None \<Rightarrow> (root, [], Some ErrNotFound)
      | Some leaf \<Rightarrow>
         (let err = (case sub of
                       None \<Rightarrow> None
                     | Some i \<Rightarrow> if map_of (n_subs leaf) i \<noteq> None then None else Some ErrNotFound);
              (root', calls) = prune_up [] levels (node_modify levels (del_sub sub) root)
          in (root', calls, err)))"

section \<open>Subscribers of a topic\<close>

definition overlap_one :: "uintptr \<Rightarrow> publishEntries \<Rightarrow> uintptr \<times> subscribedEntry \<Rightarrow> publishEntries option" where
  "overlap_one pubID p kv =
     (case kv of (i, sub) \<Rightarrow>
        (case map_of p i of
           Some [] \<Rightarrow> None
         | Some (e # es) \<Rightarrow>
             (let e1 = (if sp_ID (se_p sub) > 0 then e\<lparr>pe_ids := pe_ids e @ [sp_ID (se_p sub)]\<rparr> else e);
                  e2 = (if pe_qos e1 < sp_Granted (se_p sub) then e1\<lparr>pe_qos := sp_Granted (se_p sub)\<rparr> else e1)
              in Some (AList.update i (e2 # es) p))
         | None \<Rightarrow>
             if \<not> Ops_NL (sp_Ops (se_p sub)) \<or> i \<noteq> pubID
             then Some (AList.update i [acquire sub] p) else Some p))"

definition nonoverlap_one :: "uintptr \<Rightarrow> publishEntries \<Rightarrow> uintptr \<times> subscribedEntry \<Rightarrow> publishEntries option" where
  "nonoverlap_one pubID p kv =
     (case kv of (i, sub) \<Rightarrow>
        if \<not> Ops_NL (sp_Ops (se_p sub)) \<or> i \<noteq> pubID
        then (case map_of p i of
                Some es \<Rightarrow> Some (AList.update i (es @ [acquire sub]) p)
              | None \<Rightarrow> Some (AList.update i [acquire sub] p))
        else Some p)"

text \<open>The loops \<open>for id, sub := range sn.subs\<close> of both functions.\<close>

fun fold_opt :: "('s \<Rightarrow> 'a \<Rightarrow> 's option) \<Rightarrow> 's \<Rightarrow> 'a list \<Rightarrow> 's option" where
  "fold_opt f s [] = Some s"
| "fold_opt f s (x # xs) = do { s' \<leftarrow> f s x; fold_opt f s' xs }"

definition overlappingSubscribers :: "uintptr \<Rightarrow> node \<Rightarrow> publishEntries \<Rightarrow> publishEntries option" where
  "overlappingSubscribers pubID sn p = fold_opt (overlap_one pubID) p (n_subs sn)"

definition nonOverlappingSubscribers :: "uintptr \<Rightarrow> node \<Rightarrow> publishEntries \<Rightarrow> publishEntries option" where
  "nonOverlappingSubscribers pubID sn p = fold_opt (nonoverlap_one pubID) p (n_subs sn)"

text \<open>The field \<open>getSubscribers\<close>, which \<open>newNode\<close> fills from \<open>allowOverlapping\<close>.\<close>

definition getSubscribers :: "bool \<Rightarrow> uintptr \<Rightarrow> node \<Rightarrow> publishEntries \<Rightarrow> publishEntries option" where
  "getSubscribers overlap =
     (if overlap then overlappingSubscribers else nonOverlappingSubscribers)"

fun subscriptionRecurseSearch ::
    "bool \<Rightarrow> node \<Rightarrow> gostring list \<Rightarrow> uintptr \<Rightarrow> publishEntries \<Rightarrow> publishEntries option" where
  "subscriptionRecurseSearch overlap root [] pubID p = do {
     p1 \<leftarrow> getSubscribers overlap pubID root p;
     (case map_of (n_children root) MWC of
        Some n \<Rightarrow> getSubscribers overlap pubID n p1 | None \<Rightarrow> Some p1) }"
| "subscriptionRecurseSearch overlap root (level # levels) pubID p = do {
     p1 \<leftarrow> (case map_of (n_children root) MWC of
              Some n \<Rightarrow> if length level \<noteq> 0 then getSubscribers overlap pubID n p else Some p
            | None \<Rightarrow> Some p);
     p2 \<leftarrow> (case map_of (n_children root) level of
              Some n \<Rightarrow> subscriptionRecurseSearch overlap n levels pubID p1 | None \<Rightarrow> Some p1);
     (case map_of (n_children root) SWC of
        Some n \<Rightarrow> subscriptionRecurseSearch overlap n levels pubID p2 | None \<Rightarrow> Some p2) }"

definition subscriptionSearch ::
    "bool \<Rightarrow> node \<Rightarrow> gostring \<Rightarrow> uintptr \<Rightarrow> publishEntries \<Rightarrow> publishEntries option" where
  "subscriptionSearch overlap root topic pubID p =
     (let levels = go_split byte_slash topic; level = hd levels in
      if \<not> go_hasPrefix level [byte_dollar] then subscriptionRecurseSearch overlap root levels pubID p
      else (case map_of (n_children root) level of
              Some n \<Rightarrow> subscriptionRecurseSearch overlap n (tl levels) pubID p
            | None \<Rightarrow> Some p))"

section \<open>Retained messages\<close>

definition set_retained :: "RetainObject option \<Rightarrow> node \<Rightarrow> node" where
  "set_retained r n = Node r (n_subs n) (n_children n)"

definition retainInsert :: "gostring \<Rightarrow> RetainObject \<Rightarrow> node \<Rightarrow> node" where
  "retainInsert topic obj root =
     (let levels = go_split byte_slash topic in
      node_modify levels (set_retained (Some obj)) (leafInsertNode levels root))"

definition retainRemove :: "gostring \<Rightarrow> node \<Rightarrow> node \<times> topics_error option" where
  "retainRemove topic root =
     (let levels = go_split byte_slash topic in
      case leafSearchNode levels root of
        None \<Rightarrow> (root, Some ErrNotFound)
      | Some _ \<Rightarrow> (fst (prune_up [] levels (node_modify levels (set_retained None) root)), None))"

text \<open>
  \<open>getRetained\<close>: \<open>now\<close> is \<open>time.Now()\<close> and \<open>dyn\<close> gives the message of a dynamic value. A
  message that has expired is forgotten. The result is the node and the messages appended.
\<close>

definition pub_expired :: "Time \<Rightarrow> Publish \<Rightarrow> bool" where
  "pub_expired now p = (case Publish_Expired False now p of Some (_, b) \<Rightarrow> b | None \<Rightarrow> False)"

definition retained_msg :: "(gostring \<Rightarrow> Publish) \<Rightarrow> RetainObject \<Rightarrow> Publish" where
  "retained_msg dyn r = (case r of RPublish p \<Rightarrow> p | RDynamic t \<Rightarrow> dyn t)"

definition getRetained :: "Time \<Rightarrow> (gostring \<Rightarrow> Publish) \<Rightarrow> node \<Rightarrow> node \<times> Publish list" where
  "getRetained now dyn sn =
     (case n_retained sn of
        None \<Rightarrow> (sn, [])
      | Some r \<Rightarrow>
          if \<not> pub_expired now (retained_msg dyn r) then (sn, [retained_msg dyn r])
          else (set_retained None sn, []))"

text \<open>A loop over the children that each may change and each append messages.\<close>

definition collect_children ::
    "(gostring \<Rightarrow> node \<Rightarrow> node \<times> Publish list) \<Rightarrow> node \<Rightarrow> node \<times> Publish list" where
  "collect_children f sn =
     (Node (n_retained sn) (n_subs sn) (map (\<lambda>(k, c). (k, fst (f k c))) (n_children sn)),
      concat (map (\<lambda>(k, c). snd (f k c)) (n_children sn)))"

lemma collect_children_cong [fundef_cong]:
  "n = m \<Longrightarrow> (\<And>k c. (k, c) \<in> set (n_children m) \<Longrightarrow> f k c = g k c) \<Longrightarrow>
   collect_children f n = collect_children g m"
  by (auto simp: collect_children_def intro!: map_cong arg_cong [where f = concat])

lemma n_children_getRetained [simp]: "n_children (fst (getRetained now dyn sn)) = n_children sn"
  by (auto simp: getRetained_def set_retained_def split: option.splits)

lemma size_child: "(k, c) \<in> set (n_children sn) \<Longrightarrow> size c < size sn"
proof -
  assume "(k, c) \<in> set (n_children sn)"
  then have "size_prod (\<lambda>_. 0) size (k, c) \<le> size_list (size_prod (\<lambda>_. 0) size) (n_children sn)"
    by (rule size_list_estimation') simp
  then show ?thesis by (cases sn) auto
qed

function allRetained :: "Time \<Rightarrow> (gostring \<Rightarrow> Publish) \<Rightarrow> node \<Rightarrow> node \<times> Publish list" where
  "allRetained now dyn sn =
     (let (sn1, out) = getRetained now dyn sn;
          (sn2, out') = collect_children (\<lambda>_ n. allRetained now dyn n) sn1
      in (sn2, out @ out'))"
  by pat_completeness auto
termination
proof (relation "measure (\<lambda>(now, dyn, sn). size sn)", goal_cases)
  case (2 now dyn sn x sn1 out k c)
  then have "n_children sn1 = n_children sn" by (metis fst_conv n_children_getRetained)
  with 2 size_child show ?case by auto
qed simp

declare allRetained.simps [simp del]

text \<open>A step into one child, if it is there.\<close>

definition collect_child ::
    "gostring \<Rightarrow> (node \<Rightarrow> node \<times> Publish list) \<Rightarrow> node \<Rightarrow> node \<times> Publish list" where
  "collect_child level f root =
     (case map_of (n_children root) level of
        None \<Rightarrow> (root, [])
      | Some n \<Rightarrow> (Node (n_retained root) (n_subs root) (AList.update level (fst (f n)) (n_children root)),
                   snd (f n)))"

fun retainRecurseSearch ::
    "Time \<Rightarrow> (gostring \<Rightarrow> Publish) \<Rightarrow> node \<Rightarrow> gostring list \<Rightarrow> node \<times> Publish list" where
  "retainRecurseSearch now dyn root [] =
     (let (root1, out) = getRetained now dyn root;
          (root2, out') = collect_child MWC (allRetained now dyn) root1
      in (root2, out @ out'))"
| "retainRecurseSearch now dyn root (level # levels) =
     (if level = MWC then allRetained now dyn root
      else if level = SWC then collect_children (\<lambda>_ n. retainRecurseSearch now dyn n levels) root
      else collect_child level (\<lambda>n. retainRecurseSearch now dyn n levels) root)"

definition retainSearch ::
    "Time \<Rightarrow> (gostring \<Rightarrow> Publish) \<Rightarrow> gostring \<Rightarrow> node \<Rightarrow> node \<times> Publish list" where
  "retainSearch now dyn filter_s root =
     (let levels = go_split byte_slash filter_s; level = hd levels in
      if level = MWC then
        collect_children (\<lambda>t n. if t \<noteq> [] \<and> \<not> go_hasPrefix t [byte_dollar]
                                then allRetained now dyn n else (n, [])) root
      else if go_hasPrefix level [byte_dollar] \<and> map_of (n_children root) level \<noteq> None
      then collect_child level (\<lambda>n. retainRecurseSearch now dyn n (tl levels)) root
      else retainRecurseSearch now dyn root levels)"

end
