(* ===== verification/Topic_Match.thy ===== *)
theory Topic_Match
  imports Topic_Tree
begin

text \<open>
  What the tree of \<open>Topic_Tree\<close> means. Its abstract contents are two maps: from a path of levels
  and a subscriber to the subscription, and from a path to the retained object. The lemmas show
  that every operation of \<open>node.go\<close> acts on these maps as its name says and that pruning does
  not change them; that a search visits exactly the filters that match the topic, each once; and
  what the two ways of collecting subscribers return.
\<close>

section \<open>Abstract contents\<close>

definition subs_at :: "node \<Rightarrow> gostring list \<Rightarrow> subscribedEntries" where
  "subs_at root f = (case leafSearchNode f root of Some n \<Rightarrow> n_subs n | None \<Rightarrow> [])"

definition retained_at :: "node \<Rightarrow> gostring list \<Rightarrow> RetainObject option" where
  "retained_at root f = (case leafSearchNode f root of Some n \<Rightarrow> n_retained n | None \<Rightarrow> None)"

definition sub_entry :: "node \<Rightarrow> gostring list \<Rightarrow> uintptr \<Rightarrow> subscribedEntry option" where
  "sub_entry root f i = map_of (subs_at root f) i"

definition content :: "node \<Rightarrow> gostring list \<Rightarrow> RetainObject option \<times> subscribedEntries" where
  "content root f = (retained_at root f, subs_at root f)"

lemma content_simps [simp]:
  "content root [] = (n_retained root, n_subs root)"
  "content root (l # ls) =
     (case map_of (n_children root) l of Some n \<Rightarrow> content n ls | None \<Rightarrow> (None, []))"
  by (auto simp: content_def retained_at_def subs_at_def split: option.splits)

lemma content_newNode [simp]: "content newNode f = (None, [])"
  by (cases f) (simp_all add: newNode_def)

lemma sub_entry_newNode [simp]: "sub_entry newNode f i = None" "retained_at newNode f = None"
  using content_newNode [of f] by (simp_all add: content_def sub_entry_def)

lemma content_eqD:
  assumes "content a f = content b g"
  shows "subs_at a f = subs_at b g" and "retained_at a f = retained_at b g"
  using assms by (simp_all add: content_def)

text \<open>The invariant on the association lists, and that an entry is filed under its subscriber.\<close>

function wf_node :: "node \<Rightarrow> bool" where
  "wf_node n =
     (distinct (map fst (n_subs n)) \<and> list_all (\<lambda>kv. se_s (snd kv) = fst kv) (n_subs n) \<and>
      distinct (map fst (n_children n)) \<and> list_all wf_node (map snd (n_children n)))"
  by pat_completeness auto
termination
proof (relation "measure size", goal_cases)
  case (2 n c)
  then show ?case using size_child by auto
qed simp

declare wf_node.simps [simp del]

lemma wf_node_Node:
  "wf_node (Node r s ch) \<longleftrightarrow>
     distinct (map fst s) \<and> list_all (\<lambda>kv. se_s (snd kv) = fst kv) s \<and>
     distinct (map fst ch) \<and> (\<forall>kc \<in> set ch. wf_node (snd kc))"
  by (subst wf_node.simps) (auto simp: list_all_iff)

lemma wf_nodeD:
  assumes "wf_node n"
  shows "distinct (map fst (n_subs n))" and "\<forall>kv \<in> set (n_subs n). se_s (snd kv) = fst kv"
    and "distinct (map fst (n_children n))"
  using assms by (cases n; simp add: wf_node_Node list_all_iff)+

lemma wf_node_newNode [simp]: "wf_node newNode"
  by (simp add: newNode_def wf_node_Node)

lemma wf_node_child: "wf_node n \<Longrightarrow> map_of (n_children n) l = Some c \<Longrightarrow> wf_node c"
  by (cases n) (auto simp: wf_node_Node dest: map_of_SomeD)

lemma set_AList_update: "kv \<in> set (AList.update k v al) \<Longrightarrow> kv = (k, v) \<or> kv \<in> set al"
  by (induction al) (auto split: if_splits)

lemma set_AList_delete: "kv \<in> set (AList.delete k al) \<Longrightarrow> kv \<in> set al"
  by (induction al) (auto split: if_splits)

lemma wf_node_update_child:
  assumes "wf_node n" and "wf_node c"
  shows "wf_node (Node (n_retained n) (n_subs n) (AList.update l c (n_children n)))"
  using assms by (cases n) (auto simp: wf_node_Node distinct_update dest!: set_AList_update)

lemma wf_node_delete_child:
  assumes "wf_node n"
  shows "wf_node (Node (n_retained n) (n_subs n) (AList.delete l (n_children n)))"
  using assms by (cases n) (auto simp: wf_node_Node distinct_delete dest!: set_AList_delete)

section \<open>The operations on the contents\<close>

lemma content_leafInsertNode [simp]: "content (leafInsertNode g root) f = content root f"
proof (induction g arbitrary: root f)
  case (Cons l ls)
  show ?case
  proof (cases f)
    case (Cons k ks)
    then show ?thesis
      using Cons.IH by (auto simp: update_conv' Let_def split: option.splits)
  qed (simp add: Let_def)
qed simp

lemma leafSearch_leafInsert: "\<exists>n. leafSearchNode g (leafInsertNode g root) = Some n"
  by (induction g arbitrary: root) (auto simp: update_conv' Let_def split: option.splits)

lemma wf_leafInsertNode: "wf_node root \<Longrightarrow> wf_node (leafInsertNode g root)"
  by (induction g arbitrary: root)
     (auto simp: Let_def intro!: wf_node_update_child dest: wf_node_child split: option.splits)

text \<open>A write to the node at \<open>g\<close> that leaves its children alone changes only the contents there.\<close>

lemma content_node_modify:
  assumes "\<And>n. n_children (h n) = n_children n" and "leafSearchNode g root = Some n"
  shows "content (node_modify g h root) f =
    (if f = g then (n_retained (h n), n_subs (h n)) else content root f)"
  using assms(2)
proof (induction g arbitrary: root f)
  case Nil
  then show ?case by (cases f) (simp_all add: assms(1))
next
  case (Cons l ls)
  then obtain c where c: "map_of (n_children root) l = Some c" "leafSearchNode ls c = Some n"
    by (auto split: option.splits)
  show ?case
    using Cons.IH [OF c(2)] c by (cases f) (auto simp: update_conv')
qed

lemma wf_node_modify:
  assumes "\<And>n. wf_node n \<Longrightarrow> wf_node (h n)"
  shows "wf_node root \<Longrightarrow> wf_node (node_modify g h root)"
  by (induction g arbitrary: root)
     (auto simp: assms intro!: wf_node_update_child dest: wf_node_child split: option.splits)

lemma node_empty_content: "node_empty n \<Longrightarrow> content n f = (None, [])"
  by (cases f) (simp_all add: node_empty_def)

text \<open>Pruning removes empty nodes only: the contents stay as they are.\<close>

lemma content_prune_up [simp]: "content (fst (prune_up path g root)) f = content root f"
proof (induction g arbitrary: path root f)
  case (Cons l ls)
  show ?case
  proof (cases "map_of (n_children root) l")
    case (Some n)
    obtain n' calls where n': "prune_up (path @ [l]) ls n = (n', calls)"
      by (cases "prune_up (path @ [l]) ls n")
    have IH: "content n' f = content n f" for f
      using Cons.IH [of "path @ [l]" n f] by (simp add: n')
    show ?thesis
    proof (cases f)
      case (Cons k ks)
      then show ?thesis
        using Some IH [of ks] node_empty_content [of n' ks]
        by (auto simp: n' update_conv' delete_conv' Let_def)
    qed (simp add: Some n' Let_def)
  qed simp
qed simp

lemma wf_prune_up: "wf_node root \<Longrightarrow> wf_node (fst (prune_up path g root))"
proof (induction g arbitrary: path root)
  case (Cons l ls)
  show ?case
  proof (cases "map_of (n_children root) l")
    case (Some n)
    obtain n' calls where n': "prune_up (path @ [l]) ls n = (n', calls)"
      by (cases "prune_up (path @ [l]) ls n")
    have "wf_node n'"
      using Cons.IH [OF wf_node_child [OF Cons.prems Some], of "path @ [l]"] by (simp add: n')
    then show ?thesis
      using Some Cons.prems by (simp add: n' Let_def wf_node_update_child wf_node_delete_child)
  qed (use Cons.prems in simp)
qed simp

lemma set_sub_simps [simp]:
  "n_children (set_sub i p n) = n_children n" "n_retained (set_sub i p n) = n_retained n"
  by (auto simp: set_sub_def split: option.splits)

lemma del_sub_simps [simp]:
  "n_children (del_sub i n) = n_children n" "n_retained (del_sub i n) = n_retained n"
  by (auto simp: del_sub_def split: option.splits)

lemma set_retained_simps [simp]:
  "n_children (set_retained r n) = n_children n" "n_subs (set_retained r n) = n_subs n"
  "n_retained (set_retained r n) = r"
  by (auto simp: set_retained_def)

lemma wf_set_sub: "wf_node n \<Longrightarrow> wf_node (set_sub i p n)"
  by (cases n)
     (auto simp: set_sub_def wf_node_Node distinct_update list_all_iff split: option.splits
       dest!: set_AList_update dest: map_of_SomeD)

lemma wf_del_sub: "wf_node n \<Longrightarrow> wf_node (del_sub i n)"
  by (cases n; cases i) (auto simp: del_sub_def wf_node_Node distinct_delete list_all_iff dest!: set_AList_delete)

lemma wf_set_retained: "wf_node n \<Longrightarrow> wf_node (set_retained r n)"
  by (cases n) (simp add: set_retained_def wf_node_Node)

section \<open>Subscribing and unsubscribing\<close>

lemma subs_at_leaf: "leafSearchNode f root = Some n \<Longrightarrow> n_subs n = subs_at root f"
  by (simp add: subs_at_def)

lemma sub_entry_insert:
  assumes "subscriptionInsert s i p root = (root', ex)" and wf: "wf_node root"
  shows "sub_entry root' f j =
      (if f = go_split byte_slash s \<and> j = i then Some \<lparr>se_s = i, se_p = p\<rparr> else sub_entry root f j)"
    and "retained_at root' f = retained_at root f"
    and "ex \<longleftrightarrow> sub_entry root (go_split byte_slash s) i \<noteq> None"
    and "wf_node root'"
proof -
  define g where "g = go_split byte_slash s"
  obtain n where n: "leafSearchNode g (leafInsertNode g root) = Some n"
    using leafSearch_leafInsert by blast
  have root': "root' = node_modify g (set_sub i p) (leafInsertNode g root)"
    and ex: "ex = (map_of (n_subs n) i \<noteq> None)"
    using assms(1) n by (auto simp: subscriptionInsert_def g_def Let_def)
  have ns: "n_subs n = subs_at root g"
    using subs_at_leaf [OF n] content_eqD(1) [OF content_leafInsertNode] by simp
  have c: "content root' f = (if f = g then (n_retained n, n_subs (set_sub i p n)) else content root f)" for f
    using content_node_modify [OF _ n, of "set_sub i p" f] by (simp add: root')
  have r: "n_retained n = retained_at root g"
    using n content_eqD(2) [OF content_leafInsertNode, of g root g] by (simp add: retained_at_def)
  have wfs: "list_all (\<lambda>kv. se_s (snd kv) = fst kv) (n_subs n)"
    using wf_node_modify wf_leafInsertNode [OF wf, of g] n
  proof -
    have "wf_node m \<Longrightarrow> leafSearchNode g m = Some n \<Longrightarrow> wf_node n" for m g
      by (induction g arbitrary: m) (auto dest: wf_node_child split: option.splits)
    with wf_leafInsertNode [OF wf, of g] n have "wf_node n" by blast
    then show ?thesis by (subst (asm) wf_node.simps) simp
  qed
  have "map_of (n_subs (set_sub i p n)) j =
      (if j = i then Some \<lparr>se_s = i, se_p = p\<rparr> else map_of (n_subs n) j)"
    using wfs by (auto simp: set_sub_def update_conv' list_all_iff split: option.splits dest!: map_of_SomeD)
  then show "sub_entry root' f j =
      (if f = go_split byte_slash s \<and> j = i then Some \<lparr>se_s = i, se_p = p\<rparr> else sub_entry root f j)"
    using c [of f] ns by (cases "f = g") (simp_all add: sub_entry_def content_def g_def [symmetric])
  show "retained_at root' f = retained_at root f"
    using c [of f] r by (cases "f = g") (simp_all add: content_def)
  show "ex \<longleftrightarrow> sub_entry root (go_split byte_slash s) i \<noteq> None"
    by (simp add: ex ns sub_entry_def g_def)
  show "wf_node root'"
    unfolding root' by (intro wf_node_modify wf_set_sub wf_leafInsertNode wf)
qed

lemma sub_entry_remove:
  assumes "subscriptionRemove s sub root = (root', calls, err)"
  shows "sub_entry root' f j =
      (if f = go_split byte_slash s \<and> (sub = None \<or> sub = Some j) then None else sub_entry root f j)"
    and "retained_at root' f = retained_at root f"
    and "\<And>i. sub = Some i \<Longrightarrow>
      err = (if sub_entry root (go_split byte_slash s) i = None then Some ErrNotFound else None)"
    and "wf_node root \<Longrightarrow> wf_node root'"
proof -
  define g where "g = go_split byte_slash s"
  have all: "(sub_entry root' f j =
      (if f = g \<and> (sub = None \<or> sub = Some j) then None else sub_entry root f j)) \<and>
    retained_at root' f = retained_at root f \<and>
    (\<forall>i. sub = Some i \<longrightarrow> err = (if sub_entry root g i = None then Some ErrNotFound else None)) \<and>
    (wf_node root \<longrightarrow> wf_node root')"
  proof (cases "leafSearchNode g root")
    case None
    then have "root' = root" "err = Some ErrNotFound" "subs_at root g = []"
      using assms by (auto simp: subscriptionRemove_def g_def [symmetric] subs_at_def Let_def)
    then show ?thesis by (auto simp: sub_entry_def)
  next
    case (Some n)
    then have root': "root' = fst (prune_up [] g (node_modify g (del_sub sub) root))"
      and err: "\<And>i. sub = Some i \<Longrightarrow> err = (if map_of (n_subs n) i \<noteq> None then None else Some ErrNotFound)"
      using assms
      by (auto simp: subscriptionRemove_def g_def [symmetric] Let_def split: prod.splits)
    have c: "content root' f = (if f = g then (n_retained n, n_subs (del_sub sub n)) else content root f)"
      using content_node_modify [OF _ Some, of "del_sub sub" f] by (simp add: root')
    have n: "n_subs n = subs_at root g" "n_retained n = retained_at root g"
      using Some by (simp_all add: subs_at_def retained_at_def)
    have "map_of (n_subs (del_sub sub n)) j = (if sub = None \<or> sub = Some j then None else map_of (n_subs n) j)"
      by (auto simp: del_sub_def delete_conv' split: option.splits)
    moreover have "wf_node root'" if "wf_node root"
      using that by (simp add: root' wf_prune_up wf_node_modify wf_del_sub)
    ultimately show ?thesis
      using c n err
      by (cases "f = g") (auto simp: sub_entry_def content_def root')
  qed
  then show "sub_entry root' f j =
      (if f = go_split byte_slash s \<and> (sub = None \<or> sub = Some j) then None else sub_entry root f j)"
    and "retained_at root' f = retained_at root f"
    and "wf_node root \<Longrightarrow> wf_node root'"
    by (auto simp: g_def)
  show "err = (if sub_entry root (go_split byte_slash s) i = None then Some ErrNotFound else None)"
    if "sub = Some i" for i
    using all that by (auto simp: g_def)
qed

end
