(* ===== verification/Topic_Search.thy ===== *)
theory Topic_Search
  imports Topic_Match
begin

text \<open>
  The search for the subscribers of a topic (\<open>subscriptionSearch\<close>, \<open>overlappingSubscribers\<close> and
  \<open>nonOverlappingSubscribers\<close> of \<open>src/topics/mem/node.go\<close>) against a specification of topic
  matching that does not mention the tree. The search is shown to visit the filters that match
  the topic, each once, and to fold over their subscriptions; the two folds are computed in
  closed form; the locale \<open>subscription_index\<close> states what a client of the index relies on and is
  interpreted on the tree, with overlapping subscriptions merged and not merged.
\<close>

section \<open>Matching of a filter and a topic\<close>

text \<open>
  A filter and a topic as lists of levels. A final \<open>#\<close> matches the parent level, and what
  follows it provided that the next level of the topic is not empty.
\<close>

fun filter_matches :: "gostring list \<Rightarrow> gostring list \<Rightarrow> bool" where
  "filter_matches [] [] = True"
| "filter_matches [] (t # ts) = False"
| "filter_matches (f # fs) [] = (f = MWC \<and> fs = [])"
| "filter_matches (f # fs) (t # ts) =
     ((f = MWC \<and> fs = [] \<and> t \<noteq> []) \<or> ((f = t \<or> f = SWC) \<and> filter_matches fs ts))"

text \<open>A first level that starts with \<open>$\<close> is matched by itself only.\<close>

definition topic_matches :: "gostring list \<Rightarrow> gostring list \<Rightarrow> bool" where
  "topic_matches f ts =
     (if go_hasPrefix (hd ts) [byte_dollar]
      then f \<noteq> [] \<and> hd f = hd ts \<and> filter_matches (tl f) (tl ts)
      else filter_matches f ts)"

definition wildcard_free :: "gostring list \<Rightarrow> bool" where
  "wildcard_free ts = (MWC \<notin> set ts \<and> SWC \<notin> set ts)"

lemma MWC_SWC [simp]: "MWC \<noteq> SWC" "SWC \<noteq> MWC" "MWC \<noteq> []" "SWC \<noteq> []"
  by (simp_all add: MWC_def SWC_def)

lemma wildcard_free_Cons [simp]:
  "wildcard_free (t # ts) \<longleftrightarrow> t \<noteq> MWC \<and> t \<noteq> SWC \<and> wildcard_free ts"
  by (auto simp: wildcard_free_def)

lemma ValidTopic_wildcard_free:
  assumes "ValidTopic t"
  shows "wildcard_free (go_split byte_slash t)"
  using go_split_subset [of _ byte_slash t] assms
  by (fastforce simp: wildcard_free_def MWC_def SWC_def ValidTopic_def go_defs)

section \<open>The nodes a search visits\<close>

fun visited :: "node \<Rightarrow> gostring list \<Rightarrow> gostring list list" where
  "visited root [] = [] # (if map_of (n_children root) MWC \<noteq> None then [[MWC]] else [])"
| "visited root (level # levels) =
     (if map_of (n_children root) MWC \<noteq> None \<and> level \<noteq> [] then [[MWC]] else []) @
     (case map_of (n_children root) level of
        Some n \<Rightarrow> map ((#) level) (visited n levels) | None \<Rightarrow> []) @
     (case map_of (n_children root) SWC of
        Some n \<Rightarrow> map ((#) SWC) (visited n levels) | None \<Rightarrow> [])"

definition topic_visited :: "node \<Rightarrow> gostring list \<Rightarrow> gostring list list" where
  "topic_visited root levels =
     (if go_hasPrefix (hd levels) [byte_dollar]
      then (case map_of (n_children root) (hd levels) of
              Some n \<Rightarrow> map ((#) (hd levels)) (visited n (tl levels)) | None \<Rightarrow> [])
      else visited root levels)"

definition one_sub :: "bool \<Rightarrow> uintptr \<Rightarrow> publishEntries \<Rightarrow> uintptr \<times> subscribedEntry \<Rightarrow> publishEntries option" where
  "one_sub overlap = (if overlap then overlap_one else nonoverlap_one)"

definition visited_subs :: "node \<Rightarrow> gostring list list \<Rightarrow> subscribedEntries" where
  "visited_subs root fs = concat (map (subs_at root) fs)"

lemma visited_subs_simps [simp]:
  "visited_subs root [] = []"
  "visited_subs root (fs @ gs) = visited_subs root fs @ visited_subs root gs"
  "visited_subs root (f # fs) = subs_at root f @ visited_subs root fs"
  by (simp_all add: visited_subs_def)

lemma subs_at_simps [simp]:
  "subs_at root [] = n_subs root"
  "subs_at root (l # ls) = (case map_of (n_children root) l of Some n \<Rightarrow> subs_at n ls | None \<Rightarrow> [])"
  by (auto simp: subs_at_def split: option.splits)

lemma visited_subs_map_Cons:
  "map_of (n_children root) l = Some n \<Longrightarrow> visited_subs root (map ((#) l) fs) = visited_subs n fs"
  by (induction fs) simp_all

lemma getSubscribers_fold: "getSubscribers overlap pubID n p = fold_opt (one_sub overlap pubID) p (n_subs n)"
  by (simp add: getSubscribers_def one_sub_def overlappingSubscribers_def nonOverlappingSubscribers_def)

lemma fold_opt_append [simp]:
  "fold_opt f s (xs @ ys) = Option.bind (fold_opt f s xs) (\<lambda>s'. fold_opt f s' ys)"
  by (induction xs arbitrary: s) (simp_all add: Option.bind_assoc)

lemma subscriptionRecurseSearch_visited:
  "subscriptionRecurseSearch overlap root levels pubID p =
     fold_opt (one_sub overlap pubID) p (visited_subs root (visited root levels))"
proof (induction levels arbitrary: root p)
  case Nil
  show ?case
    by (cases "map_of (n_children root) MWC") (simp_all add: getSubscribers_fold)
next
  case (Cons l ls)
  show ?case
    by (cases "map_of (n_children root) MWC"; cases "map_of (n_children root) l";
        cases "map_of (n_children root) SWC")
       (simp_all add: getSubscribers_fold Cons.IH visited_subs_map_Cons)
qed

lemma subscriptionSearch_visited:
  "subscriptionSearch overlap root topic pubID p =
     fold_opt (one_sub overlap pubID) p
       (visited_subs root (topic_visited root (go_split byte_slash topic)))"
  by (auto simp: subscriptionSearch_def topic_visited_def Let_def subscriptionRecurseSearch_visited
      visited_subs_map_Cons split: option.splits)

section \<open>The visited nodes are the filters that match\<close>

lemma set_visited:
  "f \<in> set (visited root ts) \<longleftrightarrow> filter_matches f ts \<and> leafSearchNode f root \<noteq> None"
proof (induction ts arbitrary: root f)
  case Nil
  show ?case by (cases f) (auto split: option.splits)
next
  case (Cons t ts)
  show ?case
  proof (cases f)
    case (Cons g gs)
    then show ?thesis
      using Cons.IH [of gs] by (auto split: option.splits)
  qed (auto split: option.splits)
qed

lemma distinct_map_Cons: "distinct (map ((#) l) fs) = distinct fs"
  by (simp add: distinct_map)

lemma distinct_visited: "wildcard_free ts \<Longrightarrow> distinct (visited root ts)"
proof (induction ts arbitrary: root)
  case (Cons t ts)
  then show ?case by (auto simp: distinct_map_Cons split: option.splits)
qed simp

lemma set_topic_visited:
  "ts \<noteq> [] \<Longrightarrow> f \<in> set (topic_visited root ts) \<longleftrightarrow> topic_matches f ts \<and> leafSearchNode f root \<noteq> None"
  by (cases f) (auto simp: topic_visited_def topic_matches_def set_visited split: option.splits)

lemma distinct_topic_visited: "wildcard_free ts \<Longrightarrow> distinct (topic_visited root ts)"
  by (cases ts)
     (auto simp: topic_visited_def distinct_visited distinct_map_Cons wildcard_free_def split: option.splits)

section \<open>What the folds collect\<close>

definition entries :: "publishEntries \<Rightarrow> uintptr \<Rightarrow> publishEntry list" where
  "entries p i = (case map_of p i of Some es \<Rightarrow> es | None \<Rightarrow> [])"

text \<open>The No Local option: a message is not sent back to the subscriber that published it.\<close>

definition deliverable :: "uintptr \<Rightarrow> uintptr \<Rightarrow> subscribedEntry \<Rightarrow> bool" where
  "deliverable pubID i s = (\<not> Ops_NL (sp_Ops (se_p s)) \<or> i \<noteq> pubID)"

definition subs_of :: "uintptr \<Rightarrow> subscribedEntries \<Rightarrow> subscribedEntry list" where
  "subs_of i xs = map snd (filter (\<lambda>kv. fst kv = i) xs)"

definition merge_entry :: "publishEntry \<Rightarrow> subscribedEntry \<Rightarrow> publishEntry" where
  "merge_entry e s =
     e\<lparr>pe_qos := max (pe_qos e) (sp_Granted (se_p s)), pe_ids := pe_ids e @ pe_ids (acquire s)\<rparr>"

lemma subs_of_simps [simp]:
  "subs_of i [] = []"
  "subs_of i ((k, s) # xs) = (if k = i then s # subs_of i xs else subs_of i xs)"
  "subs_of i (xs @ ys) = subs_of i xs @ subs_of i ys"
  by (simp_all add: subs_of_def)

lemma entries_update [simp]:
  "entries (AList.update k es p) i = (if i = k then es else entries p i)"
  by (simp add: entries_def update_conv')

lemma entries_Nil [simp]: "entries [] i = []"
  by (simp add: entries_def)

lemma nonoverlap_one_entries:
  "\<exists>p'. nonoverlap_one pubID p (k, s) = Some p' \<and>
     (\<forall>i. entries p' i = entries p i @ map acquire (filter (deliverable pubID i) (subs_of i [(k, s)])))"
  by (auto simp: nonoverlap_one_def deliverable_def split: option.splits) (auto simp: entries_def)

lemma nonoverlap_fold:
  "\<exists>p'. fold_opt (nonoverlap_one pubID) p xs = Some p' \<and>
     (\<forall>i. entries p' i = entries p i @ map acquire (filter (deliverable pubID i) (subs_of i xs)))"
proof (induction xs arbitrary: p)
  case (Cons x xs)
  obtain k s where x: "x = (k, s)" by (cases x)
  obtain p1 where p1: "nonoverlap_one pubID p (k, s) = Some p1"
    "\<And>i. entries p1 i = entries p i @ map acquire (filter (deliverable pubID i) (subs_of i [(k, s)]))"
    using nonoverlap_one_entries by blast
  from Cons.IH [of p1] show ?case by (auto simp: x p1)
qed simp

text \<open>With merging, the list under a key is never empty, so \<open>s[0]\<close> is there.\<close>

definition no_empty :: "publishEntries \<Rightarrow> bool" where
  "no_empty p = ([] \<notin> ran (map_of p))"

definition merged :: "uintptr \<Rightarrow> uintptr \<Rightarrow> publishEntry list \<Rightarrow> subscribedEntry list \<Rightarrow> publishEntry list" where
  "merged pubID i es ss =
     (case es of
        e # es' \<Rightarrow> foldl merge_entry e ss # es'
      | [] \<Rightarrow> (case dropWhile (\<lambda>s. \<not> deliverable pubID i s) ss of
                 [] \<Rightarrow> [] | s # ss' \<Rightarrow> [foldl merge_entry (acquire s) ss']))"

lemma merged_Nil [simp]: "merged pubID i es [] = es"
  by (simp add: merged_def split: list.split)

lemma merged_single [simp]:
  "merged pubID i [] [s] = (if deliverable pubID i s then [acquire s] else [])"
  "merged pubID i (e # es) [s] = merge_entry e s # es"
  by (simp_all add: merged_def)

lemma merged_append: "merged pubID i es (ss @ ts) = merged pubID i (merged pubID i es ss) ts"
proof (cases es)
  case Nil
  show ?thesis
  proof (cases "dropWhile (\<lambda>s. \<not> deliverable pubID i s) ss")
    case Nil
    then have "\<forall>s \<in> set ss. \<not> deliverable pubID i s" by (simp add: dropWhile_eq_Nil_conv)
    then show ?thesis using \<open>es = []\<close> Nil
      by (simp del: dropWhile_eq_Nil_conv add: merged_def dropWhile_append2)
  next
    case (Cons s ss')
    then have "\<exists>s \<in> set ss. deliverable pubID i s"
      by (metis dropWhile_eq_Nil_conv list.distinct(1))
    then show ?thesis using \<open>es = []\<close> Cons by (auto simp: merged_def dropWhile_append1)
  qed
qed (simp add: merged_def)

lemma overlap_one_entries:
  assumes "no_empty p"
  shows "\<exists>p'. overlap_one pubID p (k, s) = Some p' \<and> no_empty p' \<and>
     (\<forall>i. entries p' i = merged pubID i (entries p i) (subs_of i [(k, s)]))"
proof (cases "map_of p k")
  case None
  then have "entries p k = []" by (simp add: entries_def)
  then show ?thesis
    using assms None
    by (auto simp: overlap_one_def deliverable_def no_empty_def update_conv' ran_def)
next
  case (Some es)
  with assms obtain e es' where es: "es = e # es'"
    by (cases es) (auto simp: no_empty_def ran_def)
  with Some have k: "entries p k = e # es'" by (simp add: entries_def)
  have "overlap_one pubID p (k, s) = Some (AList.update k (merge_entry e s # es') p)"
    using Some es
    by (cases e) (auto simp: overlap_one_def Let_def merge_entry_def acquire_def max_def not_less)
  then show ?thesis
    using assms k by (auto simp: no_empty_def update_conv' ran_def)
qed

lemma overlap_fold:
  assumes "no_empty p"
  shows "\<exists>p'. fold_opt (overlap_one pubID) p xs = Some p' \<and>
     (\<forall>i. entries p' i = merged pubID i (entries p i) (subs_of i xs))"
  using assms
proof (induction xs arbitrary: p)
  case (Cons x xs)
  obtain k s where x: "x = (k, s)" by (cases x)
  obtain p1 where p1: "overlap_one pubID p (k, s) = Some p1" "no_empty p1"
    "\<And>i. entries p1 i = merged pubID i (entries p i) (subs_of i [(k, s)])"
    using overlap_one_entries [OF Cons.prems] by blast
  have "subs_of i (x # xs) = subs_of i [(k, s)] @ subs_of i xs" for i
    using subs_of_simps(3) [of i "[(k, s)]" xs] by (simp add: x)
  with Cons.IH [OF p1(2)] show ?case
    by (simp del: subs_of_simps(2) add: x p1(1) p1(3) merged_append)
qed simp

section \<open>The result of a search\<close>

text \<open>The subscriptions of \<open>i\<close> the search meets, in order.\<close>

definition topic_subs :: "node \<Rightarrow> gostring \<Rightarrow> uintptr \<Rightarrow> subscribedEntry list" where
  "topic_subs root topic i =
     subs_of i (visited_subs root (topic_visited root (go_split byte_slash topic)))"

lemma subscriptionSearch_nonoverlap:
  "\<exists>res. subscriptionSearch False root topic pubID [] = Some res \<and>
     (\<forall>i. entries res i = map acquire (filter (deliverable pubID i) (topic_subs root topic i)))"
  using nonoverlap_fold [of pubID "[]"]
  by (simp add: subscriptionSearch_visited one_sub_def topic_subs_def)

lemma subscriptionSearch_overlap:
  "\<exists>res. subscriptionSearch True root topic pubID [] = Some res \<and>
     (\<forall>i. entries res i = merged pubID i [] (topic_subs root topic i))"
  using overlap_fold [of "[]" pubID]
  by (simp add: subscriptionSearch_visited one_sub_def topic_subs_def no_empty_def)

lemma wf_leaf: "wf_node m \<Longrightarrow> leafSearchNode g m = Some n \<Longrightarrow> wf_node n"
  by (induction g arbitrary: m) (auto dest: wf_node_child split: option.splits)

lemma wf_subs_at: "wf_node root \<Longrightarrow> distinct (map fst (subs_at root f))"
  using wf_nodeD(1) [OF wf_leaf] by (auto simp: subs_at_def split: option.split)

lemma subs_of_map_of: "distinct (map fst xs) \<Longrightarrow> subs_of i xs = (case map_of xs i of Some s \<Rightarrow> [s] | None \<Rightarrow> [])"
proof (induction xs)
  case (Cons x xs)
  obtain k s where x: "x = (k, s)" by (cases x)
  have "map_of xs k = None" using Cons.prems by (simp add: x map_of_eq_None_iff)
  with Cons show ?case by (cases "k = i") (simp_all add: x)
qed simp

lemma subs_of_subs_at:
  "wf_node root \<Longrightarrow> subs_of i (subs_at root f) = (case sub_entry root f i of Some s \<Rightarrow> [s] | None \<Rightarrow> [])"
  unfolding sub_entry_def by (rule subs_of_map_of) (rule wf_subs_at)

lemma subs_of_visited:
  assumes "wf_node root"
  shows "subs_of i (visited_subs root fs) =
    map (\<lambda>f. the (sub_entry root f i)) (filter (\<lambda>f. sub_entry root f i \<noteq> None) fs)"
proof (induction fs)
  case (Cons f fs)
  then show ?case
    by (cases "sub_entry root f i") (simp_all add: subs_of_subs_at [OF assms])
qed simp

text \<open>The filters of \<open>i\<close> that match a topic.\<close>

definition matching :: "node \<Rightarrow> gostring \<Rightarrow> uintptr \<Rightarrow> gostring list set" where
  "matching root topic i = {f. topic_matches f (go_split byte_slash topic) \<and> sub_entry root f i \<noteq> None}"

lemma matching_visited:
  "matching root topic i =
     set (filter (\<lambda>f. sub_entry root f i \<noteq> None) (topic_visited root (go_split byte_slash topic)))"
  by (auto simp: matching_def set_topic_visited sub_entry_def subs_at_def split: option.splits)

lemma finite_matching: "finite (matching root topic i)"
  by (simp add: matching_visited)

lemma mset_topic_subs:
  assumes "wf_node root" and "ValidTopic topic"
  shows "mset (topic_subs root topic i) =
    image_mset (\<lambda>f. the (sub_entry root f i)) (mset_set (matching root topic i))"
proof -
  let ?fs = "filter (\<lambda>f. sub_entry root f i \<noteq> None) (topic_visited root (go_split byte_slash topic))"
  have "distinct ?fs"
    by (intro distinct_filter distinct_topic_visited ValidTopic_wildcard_free assms(2))
  then have "mset_set (matching root topic i) = mset ?fs"
    unfolding matching_visited by (rule mset_set_set)
  then show ?thesis
    by (simp add: topic_subs_def subs_of_visited [OF assms(1)] del: mset_filter)
qed

lemma set_topic_subs:
  assumes "wf_node root"
  shows "set (topic_subs root topic i) = (\<lambda>f. the (sub_entry root f i)) ` matching root topic i"
  by (simp add: topic_subs_def subs_of_visited [OF assms] matching_visited)

lemma foldl_merge:
  "pe_qos (foldl merge_entry e ss) = foldl (\<lambda>q s. max q (sp_Granted (se_p s))) (pe_qos e) ss"
  "pe_ids (foldl merge_entry e ss) = pe_ids e @ concat (map (pe_ids \<circ> acquire) ss)"
  "pe_s (foldl merge_entry e ss) = pe_s e" "pe_ops (foldl merge_entry e ss) = pe_ops e"
  by (induction ss arbitrary: e) (simp_all add: merge_entry_def)

lemma foldl_max_Max:
  fixes g :: "'a \<Rightarrow> 'b::linorder"
  shows "foldl (\<lambda>q s. max q (g s)) q ss = Max (insert q (g ` set ss))"
proof (induction ss arbitrary: q)
  case (Cons s ss)
  then show ?case
    by (cases "set ss = {}") (simp_all add: max.assoc)
qed simp

text \<open>
  C14. Without merging (the mode \<open>NewMemProvider\<close> runs in), a search never panics and returns,
  for every subscriber, one entry per subscription of it whose filter matches the topic and
  whose No Local option allows it, with the granted quality of service, the options and the
  identifier of that subscription, and nothing else.
\<close>

theorem subscriptionSearch_nonoverlapping_exact:
  assumes "wf_node root" and "ValidTopic topic"
  shows "\<exists>res. subscriptionSearch False root topic pubID [] = Some res \<and>
    (\<forall>i. mset (entries res i) =
       image_mset acquire (filter_mset (deliverable pubID i)
         (image_mset (\<lambda>f. the (sub_entry root f i)) (mset_set (matching root topic i)))))"
proof -
  obtain res where "subscriptionSearch False root topic pubID [] = Some res"
    and "\<And>i. entries res i = map acquire (filter (deliverable pubID i) (topic_subs root topic i))"
    using subscriptionSearch_nonoverlap by blast
  then show ?thesis by (simp add: mset_topic_subs [OF assms])
qed

text \<open>A tree with the filters \<open>a/+\<close> and \<open>#\<close> of subscriber 7 and \<open>a/b\<close> of subscriber 8.\<close>

definition sample_params :: "uint32 \<Rightarrow> QosType \<Rightarrow> SubscriptionParams" where
  "sample_params i q = \<lparr>sp_ID = i, sp_Ops = q, sp_Granted = q\<rparr>"

definition sample_tree :: node where
  "sample_tree =
     fst (subscriptionInsert [97, byte_slash, 98] 8 (sample_params 0 2)
       (fst (subscriptionInsert [byte_hash] 7 (sample_params 6 2)
         (fst (subscriptionInsert [97, byte_slash, byte_plus] 7 (sample_params 5 1) newNode)))))"

lemma subscriptionInsert_wf: "wf_node root \<Longrightarrow> wf_node (fst (subscriptionInsert s i p root))"
  using sub_entry_insert(4) by (metis prod.collapse)

lemma subscriptionInsert_entry:
  "wf_node root \<Longrightarrow> sub_entry (fst (subscriptionInsert s i p root)) f j =
     (if f = go_split byte_slash s \<and> j = i then Some \<lparr>se_s = i, se_p = p\<rparr> else sub_entry root f j)"
  using sub_entry_insert(1) by (metis prod.collapse)

lemma sample_tree_wf: "wf_node sample_tree"
  by (simp add: sample_tree_def subscriptionInsert_wf)

lemma sample_matching: "matching sample_tree [97, byte_slash, 98] 7 = {[[97], SWC], [MWC]}"
  by (auto simp: matching_def sample_tree_def subscriptionInsert_entry subscriptionInsert_wf
      topic_matches_def go_defs MWC_def SWC_def)

lemma sample_entries:
  "sub_entry sample_tree [[97], SWC] 7 = Some \<lparr>se_s = 7, se_p = sample_params 5 1\<rparr>"
  "sub_entry sample_tree [MWC] 7 = Some \<lparr>se_s = 7, se_p = sample_params 6 2\<rparr>"
  by (simp_all add: sample_tree_def subscriptionInsert_entry subscriptionInsert_wf MWC_def SWC_def)

theorem subscriptionSearch_nonoverlapping_exact_witness:
  "\<exists>res. subscriptionSearch False sample_tree [97, byte_slash, 98] 9 [] = Some res \<and>
     mset (entries res 7) =
       {#\<lparr>pe_s = 7, pe_ops = 1, pe_qos = 1, pe_ids = [5]\<rparr>, \<lparr>pe_s = 7, pe_ops = 2, pe_qos = 2, pe_ids = [6]\<rparr>#}"
proof -
  have "ValidTopic [97, byte_slash, 98]" by (simp add: ValidTopic_def go_defs utf8_valid.simps)
  from subscriptionSearch_nonoverlapping_exact [OF sample_tree_wf this, of 9]
  obtain res where res: "subscriptionSearch False sample_tree [97, byte_slash, 98] 9 [] = Some res"
    and "mset (entries res 7) = image_mset acquire (filter_mset (deliverable 9 7)
         (image_mset (\<lambda>f. the (sub_entry sample_tree f 7)) (mset_set {[[97], SWC], [MWC]})))"
    by (auto simp flip: sample_matching)
  then show ?thesis
    by (simp add: sample_entries sample_params_def deliverable_def acquire_def)
qed

text \<open>
  C13. With merging, a search never panics and a subscriber other than the publisher gets exactly
  one entry when one of its filters matches and none otherwise; the entry has the highest
  granted quality of service among the matching subscriptions and the identifiers of all of
  them.
\<close>

theorem subscriptionSearch_overlapping_exact:
  assumes "wf_node root" and "ValidTopic topic" and "i \<noteq> pubID"
  shows "\<exists>res. subscriptionSearch True root topic pubID [] = Some res \<and>
    (if matching root topic i = {} then entries res i = []
     else \<exists>e. entries res i = [e] \<and>
       pe_qos e = Max ((\<lambda>f. sp_Granted (se_p (the (sub_entry root f i)))) ` matching root topic i) \<and>
       mset (pe_ids e) = (\<Sum>f\<in>matching root topic i. mset (pe_ids (acquire (the (sub_entry root f i))))))"
proof -
  obtain res where res: "subscriptionSearch True root topic pubID [] = Some res"
    and e: "entries res i = merged pubID i [] (topic_subs root topic i)"
    using subscriptionSearch_overlap by blast
  have all: "deliverable pubID i = (\<lambda>_. True)" using assms(3) by (auto simp: deliverable_def)
  show ?thesis
  proof (cases "topic_subs root topic i")
    case Nil
    then have "matching root topic i = {}"
      using set_topic_subs [OF assms(1), of topic i] by simp
    then show ?thesis using res e Nil by simp
  next
    case (Cons s ss)
    let ?x = "foldl merge_entry (acquire s) ss"
    have m: "matching root topic i \<noteq> {}"
      using set_topic_subs [OF assms(1), of topic i] Cons by auto
    have "entries res i = [?x]" using e Cons by (simp add: merged_def all)
    moreover have "pe_qos ?x = Max ((\<lambda>s. sp_Granted (se_p s)) ` set (topic_subs root topic i))"
      by (simp add: Cons foldl_merge foldl_max_Max acquire_def)
    moreover have "mset (pe_ids ?x) = (\<Sum>s\<in>#mset (topic_subs root topic i). mset (pe_ids (acquire s)))"
      by (simp add: Cons foldl_merge mset_concat comp_def sum_mset_sum_list [symmetric])
    ultimately show ?thesis
      using res m
      by (simp add: set_topic_subs [OF assms(1)] mset_topic_subs [OF assms(1,2)] image_image
          image_mset.compositionality comp_def sum_unfold_sum_mset)
  qed
qed

theorem subscriptionSearch_overlapping_exact_witness:
  "\<exists>res e. subscriptionSearch True sample_tree [97, byte_slash, 98] 9 [] = Some res \<and>
     entries res 7 = [e] \<and> pe_qos e = 2 \<and> mset (pe_ids e) = {#5, 6#}"
proof -
  have "ValidTopic [97, byte_slash, 98]" by (simp add: ValidTopic_def go_defs utf8_valid.simps)
  from subscriptionSearch_overlapping_exact [OF sample_tree_wf this, of 7 9]
  show ?thesis by (auto simp: sample_matching sample_entries sample_params_def acquire_def)
qed

section \<open>Entries are filed under their subscriber\<close>

definition filed :: "publishEntries \<Rightarrow> bool" where
  "filed p = (distinct (map fst p) \<and> (\<forall>kv \<in> set p. \<forall>e \<in> set (snd kv). pe_s e = fst kv))"

lemma filed_update: "filed p \<Longrightarrow> \<forall>e \<in> set es. pe_s e = k \<Longrightarrow> filed (AList.update k es p)"
  by (auto simp: filed_def distinct_update dest!: set_AList_update)

lemma filed_lookup: "filed p \<Longrightarrow> map_of p k = Some es \<Longrightarrow> e \<in> set es \<Longrightarrow> pe_s e = k"
  by (fastforce simp: filed_def dest: map_of_SomeD)

lemma one_sub_filed:
  assumes "filed p" and "se_s s = k" and "one_sub overlap pubID p (k, s) = Some p'"
  shows "filed p'"
proof -
  have "\<forall>es. map_of p k = Some es \<longrightarrow> (\<forall>e \<in> set es. pe_s e = k)" using filed_lookup [OF assms(1)] by blast
  with assms show ?thesis
    by (auto simp: one_sub_def overlap_one_def nonoverlap_one_def acquire_def Let_def
        split: option.splits list.splits if_splits intro!: filed_update)
qed

lemma fold_one_sub_filed:
  "filed p \<Longrightarrow> \<forall>kv \<in> set xs. se_s (snd kv) = fst kv \<Longrightarrow> fold_opt (one_sub overlap pubID) p xs = Some p' \<Longrightarrow> filed p'"
proof (induction xs arbitrary: p)
  case (Cons x xs)
  then obtain p1 where p1: "one_sub overlap pubID p x = Some p1" "fold_opt (one_sub overlap pubID) p1 xs = Some p'"
    by (auto split: bind_splits)
  have "filed p1" using one_sub_filed [OF Cons.prems(1), of "snd x" "fst x"] Cons.prems(2) p1(1) by simp
  with Cons p1 show ?case by auto
qed simp

lemma subscriptionSearch_filed:
  assumes "wf_node root" and "subscriptionSearch overlap root topic pubID [] = Some res"
  shows "filed res"
proof -
  let ?xs = "visited_subs root (topic_visited root (go_split byte_slash topic))"
  have "\<forall>kv \<in> set (subs_at root f). se_s (snd kv) = fst kv" for f
    using wf_nodeD(2) [OF wf_leaf [OF assms(1)], of f] by (cases "leafSearchNode f root") (simp_all add: subs_at_def)
  then have k: "\<forall>kv \<in> set ?xs. se_s (snd kv) = fst kv" by (auto simp: visited_subs_def)
  have "fold_opt (one_sub overlap pubID) [] ?xs = Some res"
    using assms(2) by (simp only: subscriptionSearch_visited)
  from fold_one_sub_filed [OF _ k this] show ?thesis by (simp add: filed_def [of "[]"])
qed

lemma filed_subscribers:
  assumes "filed p"
  shows "(\<exists>kv \<in> set p. \<exists>e \<in> set (snd kv). pe_s e = i) \<longleftrightarrow> entries p i \<noteq> []"
proof
  assume "\<exists>kv \<in> set p. \<exists>e \<in> set (snd kv). pe_s e = i"
  then obtain es e where "(i, es) \<in> set p" "e \<in> set es" using assms by (auto simp: filed_def)
  then show "entries p i \<noteq> []" using assms by (auto simp: entries_def filed_def)
next
  assume "entries p i \<noteq> []"
  then obtain es where "map_of p i = Some es" "es \<noteq> []" by (auto simp: entries_def split: option.splits)
  then show "\<exists>kv \<in> set p. \<exists>e \<in> set (snd kv). pe_s e = i"
    using assms by (intro bexI [of _ "(i, es)"] bexI [of _ "hd es"]) (auto simp: filed_def dest: map_of_SomeD)
qed

lemma filed_entries:
  assumes "filed p"
  shows "filter (\<lambda>e. pe_s e = i) (concat (map snd p)) = entries p i"
  using assms
proof (induction p)
  case (Cons kv p)
  obtain k es where kv: "kv = (k, es)" by (cases kv)
  have es: "filter (\<lambda>e. pe_s e = i) es = (if k = i then es else [])"
    using Cons.prems by (auto simp: kv filed_def filter_empty_conv filter_id_conv)
  have "filed p" using Cons.prems by (simp add: filed_def)
  moreover have "entries p k = []" 
    using Cons.prems by (auto simp: kv filed_def entries_def map_of_eq_None_iff [THEN iffD2])
  ultimately show ?case using Cons.IH es by (auto simp: kv entries_def)
qed simp

section \<open>The index as its clients see it\<close>

text \<open>
  An operation on the index, and its effect on the abstract map from filters and subscribers to
  subscriptions.
\<close>

datatype sub_op = OpSub gostring uintptr SubscriptionParams | OpUnsub gostring "uintptr option" | OpOther

type_synonym sub_map = "gostring list \<Rightarrow> uintptr \<Rightarrow> subscribedEntry option"

fun spec_op :: "sub_op \<Rightarrow> sub_map \<Rightarrow> sub_map" where
  "spec_op (OpSub s i p) m f j =
     (if f = go_split byte_slash s \<and> j = i then Some \<lparr>se_s = i, se_p = p\<rparr> else m f j)"
| "spec_op (OpUnsub s sub) m f j =
     (if f = go_split byte_slash s \<and> (sub = None \<or> sub = Some j) then None else m f j)"
| "spec_op OpOther m f j = m f j"

definition hit :: "sub_map \<Rightarrow> gostring \<Rightarrow> uintptr \<Rightarrow> uintptr \<Rightarrow> bool" where
  "hit m topic pubID i =
     (\<exists>f s. m f i = Some s \<and> topic_matches f (go_split byte_slash topic) \<and> deliverable pubID i s)"

locale subscription_index =
  fixes inv :: "'st \<Rightarrow> bool"
    and lookup :: "'st \<Rightarrow> sub_map"
    and exec :: "'o \<Rightarrow> 'st \<Rightarrow> 'st"
    and effect :: "'o \<Rightarrow> sub_op"
    and search :: "'st \<Rightarrow> gostring \<Rightarrow> uintptr \<Rightarrow> publishEntries option"
  assumes inv_exec: "inv st \<Longrightarrow> inv (exec oper st)"
    and lookup_exec: "inv st \<Longrightarrow> lookup (exec oper st) = spec_op (effect oper) (lookup st)"
    and search_hit: "inv st \<Longrightarrow> ValidTopic topic \<Longrightarrow>
      \<exists>res. search st topic pubID = Some res \<and> (\<forall>i. entries res i \<noteq> [] \<longleftrightarrow> hit (lookup st) topic pubID i)"
begin

lemma history_inv: "inv st \<Longrightarrow> inv (fold exec ops st)"
  by (induction ops arbitrary: st) (simp_all add: inv_exec)

lemma history_lookup: "inv st \<Longrightarrow> lookup (fold exec ops st) = fold (spec_op \<circ> effect) ops (lookup st)"
  by (induction ops arbitrary: st) (simp_all add: inv_exec lookup_exec)

text \<open>A search after any history answers from the subscriptions that history leaves.\<close>

lemma history_search:
  assumes "inv st" and "ValidTopic topic"
  shows "\<exists>res. search (fold exec ops st) topic pubID = Some res \<and>
    (\<forall>i. entries res i \<noteq> [] \<longleftrightarrow> hit (fold (spec_op \<circ> effect) ops (lookup st)) topic pubID i)"
  using search_hit [OF history_inv [OF assms(1)] assms(2)] by (simp add: history_lookup [OF assms(1)])

text \<open>Once a subscriber has left a filter, only another of its filters can bring it a message.\<close>

lemma unsubscribed_silent:
  assumes "inv st" and "ValidTopic topic" and "effect oper = OpUnsub s (Some i)"
    and "\<And>f. topic_matches f (go_split byte_slash topic) \<Longrightarrow> lookup st f i \<noteq> None \<Longrightarrow> f = go_split byte_slash s"
  shows "\<exists>res. search (exec oper st) topic pubID = Some res \<and> entries res i = []"
proof -
  have "\<not> hit (lookup (exec oper st)) topic pubID i"
    using assms(4) by (fastforce simp: hit_def lookup_exec [OF assms(1)] assms(3) split: if_splits)
  then show ?thesis using search_hit [OF inv_exec [OF assms(1)] assms(2)] by blast
qed

end

lemma search_hit_tree:
  assumes "wf_node root"
  shows "\<exists>res. subscriptionSearch overlap root topic pubID [] = Some res \<and>
    (\<forall>i. entries res i \<noteq> [] \<longleftrightarrow> hit (sub_entry root) topic pubID i)"
proof -
  have hit: "hit (sub_entry root) topic pubID i \<longleftrightarrow> (\<exists>s \<in> set (topic_subs root topic i). deliverable pubID i s)" for i
    unfolding hit_def set_topic_subs [OF assms] matching_def by fastforce
  show ?thesis
  proof (cases overlap)
    case True
    have m: "merged pubID i [] ss = [] \<longleftrightarrow> (\<forall>s \<in> set ss. \<not> deliverable pubID i s)" for i ss
      using dropWhile_eq_Nil_conv [of "\<lambda>s. \<not> deliverable pubID i s" ss]
      by (auto simp del: dropWhile_eq_Nil_conv simp: merged_def split: list.splits)
    obtain res where "subscriptionSearch True root topic pubID [] = Some res"
      and "\<And>i. entries res i = merged pubID i [] (topic_subs root topic i)"
      using subscriptionSearch_overlap by blast
    then show ?thesis using True by (simp add: hit m)
  next
    case False
    then show ?thesis
      using subscriptionSearch_nonoverlap [of root topic pubID] by (auto simp: hit filter_empty_conv)
  qed
qed

end
