(* ===== verification/Topic_Retain.thy ===== *)
theory Topic_Retain
  imports Topic_Search
begin

text \<open>
  The retained messages of \<open>src/topics/mem/node.go\<close>: what \<open>retainInsert\<close> and \<open>retainRemove\<close> do to
  the abstract contents, and what \<open>retainSearch\<close> returns. A search is described by the paths it
  visits; it returns the live messages there and forgets the expired ones.
\<close>

section \<open>Insertion and removal\<close>

lemma retained_at_leaf: "leafSearchNode f root = Some n \<Longrightarrow> n_retained n = retained_at root f"
  by (simp add: retained_at_def)

lemma content_set_retained:
  assumes "leafSearchNode g root = Some n"
  shows "content (node_modify g (set_retained r) root) f =
    (if f = g then r else retained_at root f, subs_at root f)"
  using content_node_modify [OF _ assms, of "set_retained r" f] subs_at_leaf [OF assms]
  by (auto simp: content_def)

lemma retainInsert_content:
  "retained_at (retainInsert topic r root) f =
     (if f = go_split byte_slash topic then Some r else retained_at root f)"
  "subs_at (retainInsert topic r root) f = subs_at root f"
proof -
  let ?g = "go_split byte_slash topic"
  obtain n where n: "leafSearchNode ?g (leafInsertNode ?g root) = Some n"
    using leafSearch_leafInsert by blast
  have "content (retainInsert topic r root) f =
      (if f = ?g then Some r else retained_at root f, subs_at root f)"
    using content_set_retained [OF n, of "Some r" f] content_eqD [OF content_leafInsertNode, of ?g root f]
    by (simp add: retainInsert_def Let_def)
  then show "retained_at (retainInsert topic r root) f = (if f = ?g then Some r else retained_at root f)"
    and "subs_at (retainInsert topic r root) f = subs_at root f"
    by (simp_all add: content_def)
qed

lemma retainRemove_content:
  assumes "retainRemove topic root = (root', err)"
  shows "retained_at root' f = (if f = go_split byte_slash topic then None else retained_at root f)"
    and "subs_at root' f = subs_at root f"
    and "err = (if leafSearchNode (go_split byte_slash topic) root = None then Some ErrNotFound else None)"
proof -
  let ?g = "go_split byte_slash topic"
  have "content root' f = (if f = ?g then None else retained_at root f, subs_at root f) \<and>
      err = (if leafSearchNode ?g root = None then Some ErrNotFound else None)"
  proof (cases "leafSearchNode ?g root")
    case None
    then show ?thesis using assms by (auto simp: retainRemove_def content_def retained_at_def Let_def)
  next
    case (Some n)
    then show ?thesis
      using assms content_set_retained [OF Some, of None f] by (auto simp: retainRemove_def Let_def)
  qed
  then show "retained_at root' f = (if f = ?g then None else retained_at root f)"
    and "subs_at root' f = subs_at root f"
    and "err = (if leafSearchNode ?g root = None then Some ErrNotFound else None)"
    by (simp_all add: content_def)
qed

lemma wf_retainInsert: "wf_node root \<Longrightarrow> wf_node (retainInsert topic r root)"
  by (simp add: retainInsert_def Let_def wf_node_modify wf_set_retained wf_leafInsertNode)

lemma wf_retainRemove: "wf_node root \<Longrightarrow> wf_node (fst (retainRemove topic root))"
  by (auto simp: retainRemove_def Let_def intro!: wf_prune_up wf_node_modify wf_set_retained split: option.splits)

section \<open>The paths a search visits\<close>

function all_paths :: "node \<Rightarrow> gostring list list" where
  "all_paths n = [] # concat (map (\<lambda>kc. map ((#) (fst kc)) (all_paths (snd kc))) (n_children n))"
  by pat_completeness auto
termination
proof (relation "measure size", goal_cases)
  case (2 n kc)
  then show ?case using size_child [of "fst kc" "snd kc"] by simp
qed simp

declare all_paths.simps [simp del]

definition child_paths :: "(gostring \<Rightarrow> node \<Rightarrow> gostring list list) \<Rightarrow> node \<Rightarrow> gostring list list" where
  "child_paths h n = concat (map (\<lambda>kc. map ((#) (fst kc)) (h (fst kc) (snd kc))) (n_children n))"

definition one_child_paths :: "gostring \<Rightarrow> (node \<Rightarrow> gostring list list) \<Rightarrow> node \<Rightarrow> gostring list list" where
  "one_child_paths l h n =
     (case map_of (n_children n) l of Some c \<Rightarrow> map ((#) l) (h c) | None \<Rightarrow> [])"

fun retain_paths :: "node \<Rightarrow> gostring list \<Rightarrow> gostring list list" where
  "retain_paths root [] = [] # one_child_paths MWC all_paths root"
| "retain_paths root (level # levels) =
     (if level = MWC then all_paths root
      else if level = SWC then child_paths (\<lambda>_ n. retain_paths n levels) root
      else one_child_paths level (\<lambda>n. retain_paths n levels) root)"

definition topic_retain_paths :: "node \<Rightarrow> gostring list \<Rightarrow> gostring list list" where
  "topic_retain_paths root levels =
     (if hd levels = MWC
      then child_paths (\<lambda>t n. if t \<noteq> [] \<and> \<not> go_hasPrefix t [byte_dollar] then all_paths n else []) root
      else retain_paths root levels)"

text \<open>The matching of a filter and the topic of a retained message, without the tree.\<close>

fun retain_matches :: "gostring list \<Rightarrow> gostring list \<Rightarrow> bool" where
  "retain_matches [] ts = (ts = [] \<or> hd ts = MWC)"
| "retain_matches (f # fs) [] = (f = MWC)"
| "retain_matches (f # fs) (t # ts) = (f = MWC \<or> ((f = t \<or> f = SWC) \<and> retain_matches fs ts))"

definition topic_retain_matches :: "gostring list \<Rightarrow> gostring list \<Rightarrow> bool" where
  "topic_retain_matches f ts =
     (if hd f = MWC then ts \<noteq> [] \<and> hd ts \<noteq> [] \<and> \<not> go_hasPrefix (hd ts) [byte_dollar]
      else retain_matches f ts)"

lemma child_iff: "wf_node n \<Longrightarrow> map_of (n_children n) t = Some c \<longleftrightarrow> (t, c) \<in> set (n_children n)"
  by (simp add: wf_nodeD(3))

lemma in_child_paths:
  "wf_node n \<Longrightarrow> f \<in> set (child_paths h n) \<longleftrightarrow>
     (\<exists>t ts c. f = t # ts \<and> map_of (n_children n) t = Some c \<and> ts \<in> set (h t c))"
proof -
  assume wf: "wf_node n"
  have "f \<in> set (child_paths h n) \<longleftrightarrow>
      (\<exists>kc. kc \<in> set (n_children n) \<and> (\<exists>ts. ts \<in> set (h (fst kc) (snd kc)) \<and> f = fst kc # ts))"
    by (simp add: child_paths_def Bex_def) blast
  then show ?thesis unfolding split_paired_Ex child_iff [OF wf] by auto
qed

lemma in_one_child_paths:
  "f \<in> set (one_child_paths l h n) \<longleftrightarrow>
     (\<exists>ts c. f = l # ts \<and> map_of (n_children n) l = Some c \<and> ts \<in> set (h c))"
  by (cases "map_of (n_children n) l") (auto simp: one_child_paths_def)

lemma all_paths_unfold: "all_paths n = [] # child_paths (\<lambda>_. all_paths) n"
  by (subst all_paths.simps) (simp add: child_paths_def)

lemma in_all_paths: "wf_node n \<Longrightarrow> f \<in> set (all_paths n) \<longleftrightarrow> leafSearchNode f n \<noteq> None"
proof (induction f arbitrary: n)
  case (Cons t ts)
  then show ?case
    by (subst all_paths_unfold) (auto simp: in_child_paths dest: wf_node_child split: option.splits)
qed (simp add: all_paths_unfold)

lemma in_retain_paths:
  "wf_node root \<Longrightarrow> f \<in> set (retain_paths root ls) \<longleftrightarrow> retain_matches ls f \<and> leafSearchNode f root \<noteq> None"
proof (induction ls arbitrary: root f)
  case Nil
  then show ?case
    by (cases f) (auto simp: in_one_child_paths in_all_paths dest: wf_node_child split: option.splits)
next
  case (Cons l ls)
  then show ?case
    by (cases f)
       (auto simp: in_one_child_paths in_child_paths in_all_paths dest: wf_node_child split: option.splits)
qed

lemma in_topic_retain_paths:
  "wf_node root \<Longrightarrow> f \<in> set (topic_retain_paths root ls) \<longleftrightarrow>
     topic_retain_matches ls f \<and> leafSearchNode f root \<noteq> None"
  by (cases f)
     (auto simp: topic_retain_paths_def topic_retain_matches_def in_child_paths in_all_paths in_retain_paths
       dest: wf_node_child split: option.splits)

section \<open>What a search returns\<close>

definition live :: "Time \<Rightarrow> (gostring \<Rightarrow> Publish) \<Rightarrow> RetainObject option \<Rightarrow> Publish list" where
  "live now dyn r =
     (case r of None \<Rightarrow> []
      | Some x \<Rightarrow> if \<not> pub_expired now (retained_msg dyn x) then [retained_msg dyn x] else [])"

definition forget :: "Time \<Rightarrow> (gostring \<Rightarrow> Publish) \<Rightarrow> RetainObject option \<Rightarrow> RetainObject option" where
  "forget now dyn r = (if live now dyn r = [] then None else r)"

text \<open>
  \<open>visits fs root (root', out)\<close>: the step collects the live messages at the paths \<open>fs\<close>, in that
  order, forgets the expired ones there and changes nothing else.
\<close>

definition visits ::
    "Time \<Rightarrow> (gostring \<Rightarrow> Publish) \<Rightarrow> gostring list list \<Rightarrow> node \<Rightarrow> node \<times> Publish list \<Rightarrow> bool" where
  "visits now dyn fs root res \<longleftrightarrow>
     snd res = concat (map (\<lambda>f. live now dyn (retained_at root f)) fs) \<and>
     (\<forall>f. retained_at (fst res) f =
        (if f \<in> set fs then forget now dyn (retained_at root f) else retained_at root f)) \<and>
     (\<forall>f. subs_at (fst res) f = subs_at root f) \<and> wf_node (fst res)"

lemma live_forget [simp]:
  "live now dyn (forget now dyn r) = live now dyn r" "forget now dyn (forget now dyn r) = forget now dyn r"
  "live now dyn None = []" "forget now dyn None = None"
  by (auto simp: forget_def live_def)

lemma retained_at_simps [simp]:
  "retained_at root [] = n_retained root"
  "retained_at root (l # ls) = (case map_of (n_children root) l of Some n \<Rightarrow> retained_at n ls | None \<Rightarrow> None)"
  by (auto simp: retained_at_def split: option.splits)

lemma visits_append:
  assumes "visits now dyn fs root (root1, out1)" and "visits now dyn gs root1 (root2, out2)"
  shows "visits now dyn (fs @ gs) root (root2, out1 @ out2)"
proof -
  have "live now dyn (retained_at root1 f) = live now dyn (retained_at root f)" for f
    using assms(1) by (simp add: visits_def)
  then show ?thesis using assms by (auto simp: visits_def)
qed

lemma visits_getRetained: "wf_node root \<Longrightarrow> visits now dyn [[]] root (getRetained now dyn root)"
proof -
  assume wf: "wf_node root"
  have "retained_at (fst (getRetained now dyn root)) f =
      (if f = [] then forget now dyn (n_retained root) else retained_at root f)" for f
    by (cases f) (auto simp: getRetained_def live_def forget_def split: option.split)
  moreover have "subs_at (fst (getRetained now dyn root)) f = subs_at root f" for f
    by (cases f) (auto simp: getRetained_def split: option.split)
  moreover have "snd (getRetained now dyn root) = live now dyn (n_retained root)"
    by (auto simp: getRetained_def live_def split: option.split)
  moreover have "wf_node (fst (getRetained now dyn root))"
    using wf by (auto simp: getRetained_def wf_set_retained split: option.split)
  ultimately show ?thesis by (simp add: visits_def)
qed

lemma map_of_map_child:
  "map_of (map (\<lambda>(k, c). (k, h k c)) ch) t = map_option (h t) (map_of ch t)"
  by (induction ch) auto

lemma concat_map_concat: "concat (map h (concat xss)) = concat (map (\<lambda>xs. concat (map h xs)) xss)"
  by (induction xss) simp_all

lemma visits_collect_children:
  assumes wf: "wf_node root"
    and c: "\<And>k c. map_of (n_children root) k = Some c \<Longrightarrow> visits now dyn (h k c) c (g k c)"
  shows "visits now dyn (child_paths h root) root (collect_children g root)"
proof -
  let ?ch = "n_children root"
  have v: "visits now dyn (h k c) c (g k c)" if "(k, c) \<in> set ?ch" for k c
    using c child_iff [OF wf] that by blast
  have out: "snd (collect_children g root) =
      concat (map (\<lambda>f. live now dyn (retained_at root f)) (child_paths h root))"
  proof -
    have "snd (g k c) = concat (map (\<lambda>f. live now dyn (retained_at root (k # f))) (h k c))"
      if "(k, c) \<in> set ?ch" for k c
      using v [OF that] child_iff [OF wf, of k c] that by (simp add: visits_def)
    then have "map (\<lambda>(k, c). snd (g k c)) ?ch =
        map (\<lambda>kc. concat (map (\<lambda>f. live now dyn (retained_at root (fst kc # f))) (h (fst kc) (snd kc)))) ?ch"
      by auto
    then show ?thesis
      by (simp only: collect_children_def child_paths_def snd_conv concat_map_concat map_map comp_def)
  qed
  have r: "retained_at (fst (collect_children g root)) f =
      (if f \<in> set (child_paths h root) then forget now dyn (retained_at root f) else retained_at root f)" for f
  proof (cases f)
    case (Cons t ts)
    then show ?thesis
      using c by (cases "map_of ?ch t")
        (simp_all add: collect_children_def map_of_map_child in_child_paths [OF wf] visits_def)
  qed (simp add: collect_children_def in_child_paths [OF wf])
  have s: "subs_at (fst (collect_children g root)) f = subs_at root f" for f
  proof (cases f)
    case (Cons t ts)
    then show ?thesis
      using c by (cases "map_of ?ch t") (simp_all add: collect_children_def map_of_map_child visits_def)
  qed (simp add: collect_children_def)
  have "wf_node (fst (collect_children g root))"
    using wf v by (cases root) (auto simp: collect_children_def wf_node_Node visits_def comp_def case_prod_beta)
  with out r s show ?thesis by (simp add: visits_def)
qed

lemma visits_collect_child:
  assumes wf: "wf_node root"
    and c: "\<And>c. map_of (n_children root) l = Some c \<Longrightarrow> visits now dyn (h c) c (g c)"
  shows "visits now dyn (one_child_paths l h root) root (collect_child l g root)"
proof (cases "map_of (n_children root) l")
  case None
  then show ?thesis using wf by (simp add: visits_def collect_child_def one_child_paths_def)
next
  case (Some n)
  let ?root' = "fst (collect_child l g root)"
  have v: "visits now dyn (h n) n (g n)" using c [OF Some] .
  have r: "retained_at ?root' f =
      (if f \<in> set (one_child_paths l h root) then forget now dyn (retained_at root f) else retained_at root f)" for f
    using v Some by (cases f) (auto simp: collect_child_def one_child_paths_def update_conv' visits_def)
  have s: "subs_at ?root' f = subs_at root f" for f
    using v Some by (cases f) (auto simp: collect_child_def update_conv' visits_def)
  have "snd (collect_child l g root) = concat (map (\<lambda>f. live now dyn (retained_at root f)) (one_child_paths l h root))"
    using v Some by (simp add: collect_child_def one_child_paths_def visits_def comp_def)
  moreover have "wf_node ?root'"
    using v wf Some by (simp add: collect_child_def visits_def wf_node_update_child)
  ultimately show ?thesis using r s by (simp add: visits_def)
qed

lemma child_paths_getRetained [simp]:
  "child_paths h (fst (getRetained now dyn n)) = child_paths h n"
  "one_child_paths l k (fst (getRetained now dyn n)) = one_child_paths l k n"
  by (simp_all add: child_paths_def one_child_paths_def)

lemma visits_wf: "visits now dyn fs root (root', out) \<Longrightarrow> wf_node root'"
  by (simp add: visits_def)

lemma visits_allRetained: "wf_node n \<Longrightarrow> visits now dyn (all_paths n) n (allRetained now dyn n)"
proof (induction n rule: measure_induct_rule [where f = size])
  case (less n)
  obtain n1 out where n1: "getRetained now dyn n = (n1, out)" by (cases "getRetained now dyn n")
  have v1: "visits now dyn [[]] n (n1, out)" using visits_getRetained [OF less.prems] n1 by metis
  have ch: "n_children n1 = n_children n" using n_children_getRetained [of now dyn n] n1 by simp
  have "visits now dyn (child_paths (\<lambda>_. all_paths) n1) n1 (collect_children (\<lambda>_. allRetained now dyn) n1)"
  proof (rule visits_collect_children [OF visits_wf [OF v1]])
    fix k c assume "map_of (n_children n1) k = Some c"
    then have "map_of (n_children n) k = Some c" by (simp add: ch)
    then show "visits now dyn (all_paths c) c (allRetained now dyn c)"
      using less.IH size_child wf_node_child [OF less.prems] map_of_SomeD by metis
  qed
  moreover obtain n2 out' where "collect_children (\<lambda>_. allRetained now dyn) n1 = (n2, out')"
    by (cases "collect_children (\<lambda>_. allRetained now dyn) n1")
  moreover have "child_paths (\<lambda>_. all_paths) n1 = child_paths (\<lambda>_. all_paths) n" by (simp add: child_paths_def ch)
  ultimately show ?case
    using visits_append [OF v1] by (subst allRetained.simps, subst all_paths_unfold) (simp add: n1)
qed

lemma visits_retainRecurseSearch:
  "wf_node root \<Longrightarrow> visits now dyn (retain_paths root ls) root (retainRecurseSearch now dyn root ls)"
proof (induction ls arbitrary: root)
  case Nil
  obtain n1 out where n1: "getRetained now dyn root = (n1, out)" by (cases "getRetained now dyn root")
  have v1: "visits now dyn [[]] root (n1, out)" using visits_getRetained [OF Nil] n1 by metis
  have wf1: "wf_node n1" by (rule visits_wf [OF v1])
  have "visits now dyn (one_child_paths MWC all_paths n1) n1 (collect_child MWC (allRetained now dyn) n1)"
    by (intro visits_collect_child [OF wf1] visits_allRetained) (rule wf_node_child [OF wf1])
  moreover obtain n2 out' where "collect_child MWC (allRetained now dyn) n1 = (n2, out')"
    by (cases "collect_child MWC (allRetained now dyn) n1")
  moreover have "one_child_paths MWC all_paths n1 = one_child_paths MWC all_paths root"
    using child_paths_getRetained(2) [of MWC all_paths now dyn root] n1 by simp
  ultimately show ?case using visits_append [OF v1] by (simp add: n1)
next
  case (Cons l ls)
  then show ?case
    by (auto intro!: visits_allRetained visits_collect_children visits_collect_child dest: wf_node_child)
qed

lemma visits_retainSearch:
  assumes wf: "wf_node root"
  shows "visits now dyn (topic_retain_paths root (go_split byte_slash flt)) root (retainSearch now dyn flt root)"
proof -
  obtain l ls where l: "go_split byte_slash flt = l # ls" by (cases "go_split byte_slash flt") auto
  have "retain_paths root (l # ls) = one_child_paths l (\<lambda>n. retain_paths n ls) root"
    if "go_hasPrefix l [byte_dollar]"
    using that by (auto simp: go_defs MWC_def SWC_def)
  moreover have "visits now dyn [] n (n, [])" if "wf_node n" for n using that by (simp add: visits_def)
  ultimately show ?thesis
    unfolding retainSearch_def topic_retain_paths_def l Let_def
    by (auto intro!: visits_collect_children [OF wf] visits_collect_child [OF wf] visits_allRetained
        visits_retainRecurseSearch [OF wf] visits_retainRecurseSearch
        simp del: retain_paths.simps retainRecurseSearch.simps dest: wf_node_child [OF wf])
qed

section \<open>Every path once\<close>

lemma distinct_child_paths:
  assumes "distinct (map fst ch)" and "\<And>k c. (k, c) \<in> set ch \<Longrightarrow> distinct (h k c)"
  shows "distinct (concat (map (\<lambda>kc. map ((#) (fst kc)) (h (fst kc) (snd kc))) ch))"
  using assms
proof (induction ch)
  case (Cons x ch)
  obtain k c where x: "x = (k, c)" by (cases x)
  have "distinct (concat (map (\<lambda>kc. map ((#) (fst kc)) (h (fst kc) (snd kc))) ch))"
    using Cons by simp
  moreover have "k \<noteq> fst kc" if "kc \<in> set ch" for kc using Cons.prems(1) that by (auto simp: x)
  ultimately show ?case using Cons.prems(2) [of k c] by (auto simp: x distinct_map_Cons)
qed simp

lemma distinct_child_paths_wf:
  assumes "wf_node n" and "\<And>k c. map_of (n_children n) k = Some c \<Longrightarrow> distinct (h k c)"
  shows "distinct (child_paths h n)"
  unfolding child_paths_def
  by (rule distinct_child_paths) (use assms wf_nodeD(3) child_iff [OF assms(1)] in auto)

lemma distinct_one_child_paths:
  "(\<And>c. map_of (n_children n) l = Some c \<Longrightarrow> distinct (h c)) \<Longrightarrow> distinct (one_child_paths l h n)"
  by (simp add: one_child_paths_def distinct_map_Cons split: option.split)

lemma Nil_notin_child_paths [simp]:
  "[] \<notin> set (child_paths h n)" "[] \<notin> set (one_child_paths l g n)"
  by (auto simp: child_paths_def in_one_child_paths)

lemma distinct_all_paths: "wf_node n \<Longrightarrow> distinct (all_paths n)"
proof (induction n rule: measure_induct_rule [where f = size])
  case (less n)
  then have "distinct (child_paths (\<lambda>_. all_paths) n)"
    by (intro distinct_child_paths_wf) (metis map_of_SomeD size_child wf_node_child)+
  then show ?case by (simp add: all_paths_unfold)
qed

lemma distinct_retain_paths: "wf_node root \<Longrightarrow> distinct (retain_paths root ls)"
proof (induction ls arbitrary: root)
  case Nil
  then show ?case
    by (auto intro!: distinct_one_child_paths distinct_all_paths dest: wf_node_child)
next
  case (Cons l ls)
  then show ?case
    by (auto intro!: distinct_one_child_paths distinct_child_paths_wf distinct_all_paths dest: wf_node_child)
qed

lemma distinct_topic_retain_paths: "wf_node root \<Longrightarrow> distinct (topic_retain_paths root ls)"
  by (auto simp: topic_retain_paths_def distinct_retain_paths
      intro!: distinct_child_paths_wf distinct_all_paths dest: wf_node_child)

definition is_live :: "Time \<Rightarrow> (gostring \<Rightarrow> Publish) \<Rightarrow> RetainObject option \<Rightarrow> bool" where
  "is_live now dyn r = (case r of None \<Rightarrow> False | Some x \<Rightarrow> \<not> pub_expired now (retained_msg dyn x))"

lemma concat_live:
  "concat (map (\<lambda>f. live now dyn (retained_at root f)) fs) =
   map (\<lambda>f. retained_msg dyn (the (retained_at root f))) (filter (\<lambda>f. is_live now dyn (retained_at root f)) fs)"
  by (induction fs) (auto simp: live_def is_live_def split: option.split)

lemma retainSearch_paths:
  assumes "wf_node root" and "retainSearch now dyn flt root = (root', out)"
  shows "mset out = image_mset (\<lambda>f. retained_msg dyn (the (retained_at root f)))
      (mset_set {f. topic_retain_matches (go_split byte_slash flt) f \<and> is_live now dyn (retained_at root f)})"
    and "retained_at root' f = (if topic_retain_matches (go_split byte_slash flt) f \<and>
        \<not> is_live now dyn (retained_at root f) then None else retained_at root f)"
    and "subs_at root' f = subs_at root f"
    and "wf_node root'"
proof -
  let ?fs = "topic_retain_paths root (go_split byte_slash flt)"
  let ?live = "\<lambda>f. is_live now dyn (retained_at root f)"
  have v: "visits now dyn ?fs root (root', out)" using visits_retainSearch [OF assms(1)] assms(2) by metis
  have "set (filter ?live ?fs) = {f. topic_retain_matches (go_split byte_slash flt) f \<and> ?live f}"
    by (auto simp: in_topic_retain_paths [OF assms(1)] is_live_def retained_at_def split: option.splits)
  moreover have "mset (filter ?live ?fs) = mset_set (set (filter ?live ?fs))"
    using distinct_topic_retain_paths [OF assms(1)] by (metis distinct_filter mset_set_set)
  ultimately show "mset out = image_mset (\<lambda>f. retained_msg dyn (the (retained_at root f)))
      (mset_set {f. topic_retain_matches (go_split byte_slash flt) f \<and> ?live f})"
    using v by (simp del: mset_filter set_filter add: visits_def concat_live)
  show "retained_at root' f = (if topic_retain_matches (go_split byte_slash flt) f \<and>
        \<not> is_live now dyn (retained_at root f) then None else retained_at root f)"
    using v in_topic_retain_paths [OF assms(1), of f "go_split byte_slash flt"]
    by (auto simp: visits_def forget_def live_def is_live_def retained_at_def split: option.splits if_splits)
  show "subs_at root' f = subs_at root f" and "wf_node root'" using v by (simp_all add: visits_def)
qed

section \<open>Retained matching and live matching\<close>

fun multi_last :: "gostring list \<Rightarrow> bool" where
  "multi_last [] = True"
| "multi_last (f # fs) = ((f = MWC \<longrightarrow> fs = []) \<and> multi_last fs)"

lemma retain_filter_matches:
  "multi_last fs \<Longrightarrow> wildcard_free ts \<Longrightarrow> [] \<notin> set ts \<Longrightarrow> retain_matches fs ts = filter_matches fs ts"
proof (induction fs ts rule: filter_matches.induct)
  case (4 f fs t ts)
  then show ?case by auto
qed auto

lemma topic_retain_matches_iff:
  assumes "wildcard_free ts" and "[] \<notin> set ts" and "ts \<noteq> []"
    and "\<not> go_hasPrefix (hd ts) [byte_dollar]" and "multi_last fs" and "fs \<noteq> []"
  shows "topic_retain_matches fs ts = topic_matches fs ts"
proof (cases "hd fs = MWC")
  case True
  with assms show ?thesis
    by (cases fs; cases ts) (auto simp: topic_retain_matches_def topic_matches_def)
next
  case False
  with assms retain_filter_matches show ?thesis by (simp add: topic_retain_matches_def topic_matches_def)
qed

lemma retainSearch_single:
  assumes "\<not> pub_expired now m"
  shows "snd (retainSearch now dyn flt (retainInsert topic (RPublish m) newNode)) =
    (if topic_retain_matches (go_split byte_slash flt) (go_split byte_slash topic) then [m] else [])"
proof -
  let ?root = "retainInsert topic (RPublish m) newNode"
  have r: "retained_at ?root f = (if f = go_split byte_slash topic then Some (RPublish m) else None)" for f
    by (simp add: retainInsert_content)
  obtain root' out where o: "retainSearch now dyn flt ?root = (root', out)"
    by (cases "retainSearch now dyn flt ?root")
  have "{f. topic_retain_matches (go_split byte_slash flt) f \<and> is_live now dyn (retained_at ?root f)} =
      (if topic_retain_matches (go_split byte_slash flt) (go_split byte_slash topic)
       then {go_split byte_slash topic} else {})"
    using assms by (auto simp: r is_live_def retained_msg_def)
  then show ?thesis
    using retainSearch_paths(1) [OF wf_retainInsert [OF wf_node_newNode] o] o
    by (auto simp: r retained_msg_def split: if_splits)
qed

lemma subscriptionSearch_single:
  assumes "deliverable pubID i \<lparr>se_s = i, se_p = p\<rparr>"
  shows "\<exists>res. subscriptionSearch overlap (fst (subscriptionInsert flt i p newNode)) topic pubID [] = Some res \<and>
    (entries res i \<noteq> [] \<longleftrightarrow> topic_matches (go_split byte_slash flt) (go_split byte_slash topic))"
proof -
  obtain root ex where root: "subscriptionInsert flt i p newNode = (root, ex)"
    by (cases "subscriptionInsert flt i p newNode")
  have "hit (sub_entry root) topic pubID i \<longleftrightarrow>
      topic_matches (go_split byte_slash flt) (go_split byte_slash topic)"
    using assms by (simp add: hit_def sub_entry_insert(1) [OF root wf_node_newNode])
  then show ?thesis
    using search_hit_tree [OF sub_entry_insert(4) [OF root wf_node_newNode]] root by (metis fst_conv)
qed

lemma pub_expired_newPublish: "\<not> pub_expired now newPublish"
  by (simp add: pub_expired_def Publish_Expired_def newPublish_def)

section \<open>Properties\<close>

text \<open>
  C19. A search for the retained messages of a filter returns each retained message whose topic the
  filter matches and that has not expired, exactly once; it forgets the matching messages that
  have expired and changes no other message and no subscription.
\<close>

theorem retainSearch_exact:
  assumes "wf_node root" and "retainSearch now dyn flt root = (root', out)"
  shows "mset out = image_mset (\<lambda>f. retained_msg dyn (the (retained_at root f)))
      (mset_set {f. topic_retain_matches (go_split byte_slash flt) f \<and> is_live now dyn (retained_at root f)}) \<and>
    (\<forall>f. retained_at root' f = (if topic_retain_matches (go_split byte_slash flt) f \<and>
        \<not> is_live now dyn (retained_at root f) then None else retained_at root f)) \<and>
    (\<forall>f i. sub_entry root' f i = sub_entry root f i) \<and> wf_node root'"
  using retainSearch_paths [OF assms] by (simp add: sub_entry_def)

theorem retainSearch_exact_witness:
  "\<exists>root' out. retainSearch 5 (\<lambda>_. newPublish) [97, byte_slash, byte_hash]
       (retainInsert [97, byte_slash, 98] (RPublish newPublish) newNode) = (root', out) \<and>
     mset out = {#newPublish#} \<and> retained_at root' [[97], [98]] = Some (RPublish newPublish)"
proof -
  let ?root = "retainInsert [97, byte_slash, 98] (RPublish newPublish) newNode"
  obtain root' out where r: "retainSearch 5 (\<lambda>_. newPublish) [97, byte_slash, byte_hash] ?root = (root', out)"
    by (cases "retainSearch 5 (\<lambda>_. newPublish) [97, byte_slash, byte_hash] ?root")
  note t = retainSearch_exact [OF wf_retainInsert [OF wf_node_newNode] r]
  have at: "retained_at ?root f = (if f = [[97], [98]] then Some (RPublish newPublish) else None)" for f
    by (simp del: retained_at_simps add: retainInsert_content)
  have "{f. topic_retain_matches (go_split byte_slash [97, byte_slash, byte_hash]) f \<and>
      is_live 5 (\<lambda>_. newPublish) (retained_at ?root f)} = {[[97], [98]]}"
    by (auto simp: at is_live_def retained_msg_def pub_expired_newPublish topic_retain_matches_def MWC_def
        simp del: retained_at_simps split: if_splits)
  with t have "mset out = {#newPublish#}"
    by (simp del: retained_at_simps add: at retained_msg_def)
  moreover from t have "retained_at root' [[97], [98]] = Some (RPublish newPublish)"
    by (simp del: retained_at_simps add: at is_live_def retained_msg_def pub_expired_newPublish)
  ultimately show ?thesis using r by blast
qed

text \<open>
  C39. A subscription gets the retained message of a topic exactly if it gets the messages
  published to it, provided that the topic has no empty level and does not start with \<open>$\<close>,
  and that the filter has \<open>#\<close> at its end only.
\<close>

theorem retained_as_live:
  assumes "ValidTopic topic" and "[] \<notin> set (go_split byte_slash topic)"
    and "\<not> go_hasPrefix (hd (go_split byte_slash topic)) [byte_dollar]"
    and "multi_last (go_split byte_slash flt)"
    and "\<not> pub_expired now m" and "i \<noteq> pubID"
  shows "snd (retainSearch now dyn flt (retainInsert topic (RPublish m) newNode)) = [m] \<longleftrightarrow>
    (\<exists>res. subscriptionSearch overlap (fst (subscriptionInsert flt i p newNode)) topic pubID [] = Some res \<and>
       entries res i \<noteq> [])"
proof -
  have "deliverable pubID i \<lparr>se_s = i, se_p = p\<rparr>" using assms(6) by (simp add: deliverable_def)
  then obtain res where "subscriptionSearch overlap (fst (subscriptionInsert flt i p newNode)) topic pubID [] = Some res"
    and "entries res i \<noteq> [] \<longleftrightarrow> topic_matches (go_split byte_slash flt) (go_split byte_slash topic)"
    using subscriptionSearch_single by blast
  then show ?thesis
    using topic_retain_matches_iff [OF ValidTopic_wildcard_free [OF assms(1)] assms(2) _ assms(3,4)]
    by (simp add: retainSearch_single [OF assms(5)])
qed

theorem retained_as_live_witness:
  "snd (retainSearch 5 (\<lambda>_. newPublish) [97, byte_slash, byte_hash]
      (retainInsert [97, byte_slash, 98] (RPublish newPublish) newNode)) = [newPublish] \<longleftrightarrow>
   (\<exists>res. subscriptionSearch True
      (fst (subscriptionInsert [97, byte_slash, byte_hash] 7 \<lparr>sp_ID = 1, sp_Ops = 1, sp_Granted = 1\<rparr> newNode))
      [97, byte_slash, 98] 8 [] = Some res \<and> entries res 7 \<noteq> [])"
  by (rule retained_as_live)
     (simp_all add: pub_expired_newPublish ValidTopic_def go_defs MWC_def utf8_valid.simps)

text \<open>
  A filter that starts with the wildcard \<open>+\<close> is given the retained messages of topics that
  start with \<open>$\<close>, although it is not given the messages published to them.
\<close>

theorem retained_plus_matches_dollar:
  assumes "go_hasPrefix (hd (go_split byte_slash topic)) [byte_dollar]" and "\<not> pub_expired now m"
    and "hd (go_split byte_slash flt) = SWC"
    and "retain_matches (tl (go_split byte_slash flt)) (tl (go_split byte_slash topic))"
  shows "snd (retainSearch now dyn flt (retainInsert topic (RPublish m) newNode)) = [m] \<and>
    (\<exists>res. subscriptionSearch overlap (fst (subscriptionInsert flt i p newNode)) topic pubID [] = Some res \<and>
       entries res i = [])"
proof -
  obtain t ts fs where t: "go_split byte_slash topic = t # ts" "go_split byte_slash flt = SWC # fs"
    using assms(3) by (cases "go_split byte_slash topic"; cases "go_split byte_slash flt") auto
  obtain root ex where root: "subscriptionInsert flt i p newNode = (root, ex)"
    by (cases "subscriptionInsert flt i p newNode")
  have "t \<noteq> SWC" using assms(1) by (auto simp: t SWC_def go_defs)
  then have "\<not> hit (sub_entry root) topic pubID i"
    using assms(1)
    by (auto simp: hit_def sub_entry_insert(1) [OF root wf_node_newNode] t topic_matches_def)
  then have "\<exists>res. subscriptionSearch overlap root topic pubID [] = Some res \<and> entries res i = []"
    using search_hit_tree [OF sub_entry_insert(4) [OF root wf_node_newNode]] by blast
  moreover have "topic_retain_matches (go_split byte_slash flt) (go_split byte_slash topic)"
    using assms(4) by (simp add: t topic_retain_matches_def)
  ultimately show ?thesis using root by (simp add: retainSearch_single [OF assms(2)])
qed

theorem retained_plus_matches_dollar_witness:
  "snd (retainSearch 5 (\<lambda>_. newPublish) [byte_plus, byte_slash, 120]
      (retainInsert [byte_dollar, 83, byte_slash, 120] (RPublish newPublish) newNode)) = [newPublish] \<and>
   (\<exists>res. subscriptionSearch True
      (fst (subscriptionInsert [byte_plus, byte_slash, 120] 7 \<lparr>sp_ID = 1, sp_Ops = 1, sp_Granted = 1\<rparr> newNode))
      [byte_dollar, 83, byte_slash, 120] 8 [] = Some res \<and> entries res 7 = [])"
  by (rule retained_plus_matches_dollar)
     (simp_all add: pub_expired_newPublish go_defs MWC_def SWC_def)

end
