(* ===== verification/Mem_Provider.thy ===== *)
theory Mem_Provider
  imports Packet Topic_Retain
begin

text \<open>
  \<open>src/topics/mem/topics.go\<close> and \<open>src/topics/topics.go\<close>: the provider that owns the tree. Its
  methods run under the mutex \<open>smu\<close>; \<open>Publish\<close> and \<open>Retain\<close> only send to a channel, and the
  goroutines \<open>publisher\<close> and \<open>retainer\<close> receive from it. Every method is a function on the record
  \<open>provider\<close>; the goroutines and \<open>Close\<close> are the step relation \<open>prov_step\<close>, because \<open>Close\<close> holds
  the mutex while it waits for them.

  Parameters: \<open>now\<close> is \<open>time.Now()\<close>, \<open>dyn\<close> the message of a dynamic value, \<open>parse_time\<close> and
  \<open>fmt_time\<close> the \<open>RFC3339\<close> conversions of package \<open>time\<close>. The storage is the submodule
  \<open>persistence\<close>: what \<open>Load\<close> returned is a field of the configuration, what \<open>Store\<close> is given is a
  result.
\<close>

section \<open>State\<close>

record PersistedPacket =
  pp_Data :: "byte list"
  pp_ExpireAt :: gostring

datatype persist_error = PersistNotFound | PersistOther

record MemConfig =
  mc_Persist :: "(PersistedPacket list \<times> persist_error option) option"
  mc_MaxQosAllowed :: QosType
  mc_AllowOverlappingSubscriptions :: bool

definition NewMemConfig :: MemConfig where
  "NewMemConfig =
     \<lparr>mc_Persist = None, mc_MaxQosAllowed = QoS2, mc_AllowOverlappingSubscriptions = False\<rparr>"

record mem_provider =
  pv_root :: "node option"
  pv_allowOverlapping :: bool
  pv_persist :: bool
  pv_inbound :: "Publish list"
  pv_inRetained :: "RetainObject list"

definition chan_cap :: nat where "chan_cap = 1024 * 512"

section \<open>Methods\<close>

text \<open>\<open>Publish\<close> is given \<open>None\<close> when the argument is not a \<open>*packet.Publish\<close>.\<close>

definition provider_Publish :: "Publish option \<Rightarrow> mem_provider \<Rightarrow> (mem_provider \<times> topics_error option) go_run" where
  "provider_Publish m mT =
     (case m of
        None \<Rightarrow> Ret (mT, Some ErrUnexpectedObjectType)
      | Some msg \<Rightarrow>
          if length (pv_inbound mT) < chan_cap
          then Ret (mT\<lparr>pv_inbound := pv_inbound mT @ [msg]\<rparr>, None) else Block)"

definition provider_Retain :: "RetainObject \<Rightarrow> mem_provider \<Rightarrow> (mem_provider \<times> topics_error option) go_run" where
  "provider_Retain obj mT =
     (if length (pv_inRetained mT) < chan_cap
      then Ret (mT\<lparr>pv_inRetained := pv_inRetained mT @ [obj]\<rparr>, None) else Block)"

text \<open>The other methods need the root, which is nil after \<open>Close\<close>: then they panic.\<close>

definition provider_Subscribe ::
    "Time \<Rightarrow> (gostring \<Rightarrow> Publish) \<Rightarrow> gostring \<Rightarrow> uintptr \<Rightarrow> SubscriptionParams \<Rightarrow> mem_provider \<Rightarrow>
     (mem_provider \<times> QosType \<times> Publish list \<times> topics_error option) option" where
  "provider_Subscribe now dyn filter_s s p0 mT =
     (case pv_root mT of
        None \<Rightarrow> None
      | Some root \<Rightarrow>
         (let p = p0\<lparr>sp_Granted := Ops_QoS (sp_Ops p0)\<rparr>;
              (root1, exists) = subscriptionInsert filter_s s p root;
              rh = Ops_RetainHandling (sp_Ops p);
              (root2, r) = (if rh = RetainHandlingRetain \<or> (rh = RetainHandlingIfNotExists \<and> \<not> exists)
                            then retainSearch now dyn filter_s root1 else (root1, []))
          in Some (mT\<lparr>pv_root := Some root2\<rparr>, sp_Granted p, r, None)))"

definition provider_UnSubscribe ::
    "gostring \<Rightarrow> uintptr option \<Rightarrow> mem_provider \<Rightarrow> (mem_provider \<times> gostring list list \<times> topics_error option) option" where
  "provider_UnSubscribe topic sub mT =
     (case pv_root mT of
        None \<Rightarrow> None
      | Some root \<Rightarrow>
         (let (root', calls, err) = subscriptionRemove topic sub root
          in Some (mT\<lparr>pv_root := Some root'\<rparr>, calls, err)))"

definition provider_Retained ::
    "Time \<Rightarrow> (gostring \<Rightarrow> Publish) \<Rightarrow> gostring \<Rightarrow> mem_provider \<Rightarrow>
     (mem_provider \<times> Publish list \<times> topics_error option) option" where
  "provider_Retained now dyn filter_s mT =
     (case pv_root mT of
        None \<Rightarrow> None
      | Some root \<Rightarrow>
         (let (root', r) = retainSearch now dyn filter_s root in Some (mT\<lparr>pv_root := Some root'\<rparr>, r, None)))"

section \<open>The goroutines\<close>

definition retain_tree :: "RetainObject \<Rightarrow> node \<Rightarrow> node" where
  "retain_tree obj root =
     (case obj of
        RPublish t \<Rightarrow>
         (let root1 = (if length (pub_payload t) = 0 \<or> Publish_QoS t = QoS0
                       then fst (retainRemove (RetainObject_Topic obj) root) else root)
          in if length (pub_payload t) = 0 then root1
             else retainInsert (RetainObject_Topic obj) obj root1)
      | RDynamic _ \<Rightarrow> retainInsert (RetainObject_Topic obj) obj root)"

definition provider_retain :: "RetainObject \<Rightarrow> mem_provider \<Rightarrow> mem_provider option" where
  "provider_retain obj mT =
     (case pv_root mT of None \<Rightarrow> None | Some root \<Rightarrow> Some (mT\<lparr>pv_root := Some (retain_tree obj root)\<rparr>))"

text \<open>
  The calls \<open>e.s.Publish(msg, e.qos, e.ops, e.ids)\<close> the publisher makes for a message; their
  errors are logged and ignored.
\<close>

record delivery =
  d_sub :: uintptr
  d_msg :: Publish
  d_qos :: QosType
  d_ops :: SubscriptionOptions
  d_ids :: "uint32 list"

definition publish_one :: "Publish \<Rightarrow> mem_provider \<Rightarrow> delivery list option" where
  "publish_one msg mT = do {
     root \<leftarrow> pv_root mT;
     pubEntries \<leftarrow> subscriptionSearch (pv_allowOverlapping mT) root (pub_topic msg) (publishID msg) [];
     Some (concat (map (\<lambda>(i, pub). map (\<lambda>e. \<lparr>d_sub = pe_s e, d_msg = msg, d_qos = pe_qos e,
                                             d_ops = pe_ops e, d_ids = pe_ids e\<rparr>) pub) pubEntries)) }"

section \<open>NewMemProvider\<close>

definition load_entry :: "(gostring \<Rightarrow> Time option) \<Rightarrow> PersistedPacket \<Rightarrow> mem_provider \<Rightarrow> mem_provider go_run" where
  "load_entry parse_time d p =
     (case pp_Data d of
        [] \<Rightarrow> Panic
      | v # rest \<Rightarrow>
         (case Decode v rest of
            (_, _, Some err) \<Rightarrow> Ret p
          | (Some (PPublish m), _, None) \<Rightarrow>
             (let m' = (if length (pp_ExpireAt d) > 0
                        then (case parse_time (pp_ExpireAt d) of Some tm \<Rightarrow> m\<lparr>expireAt := tm\<rparr> | None \<Rightarrow> m)
                        else m)
              in (case provider_Retain (RPublish m') p of
                    Ret (p', _) \<Rightarrow> Ret p' | Panic \<Rightarrow> Panic | Block \<Rightarrow> Block))
          | (_, _, None) \<Rightarrow> Panic))"

fun load_entries :: "(gostring \<Rightarrow> Time option) \<Rightarrow> PersistedPacket list \<Rightarrow> mem_provider \<Rightarrow> mem_provider go_run" where
  "load_entries parse_time [] p = Ret p"
| "load_entries parse_time (d # ds) p =
     (case load_entry parse_time d p of
        Ret p' \<Rightarrow> load_entries parse_time ds p' | Panic \<Rightarrow> Panic | Block \<Rightarrow> Block)"

text \<open>\<open>allowOverlapping\<close> is never assigned: it keeps its zero value.\<close>

definition NewMemProvider ::
    "(gostring \<Rightarrow> Time option) \<Rightarrow> MemConfig \<Rightarrow> (persist_error + mem_provider) go_run" where
  "NewMemProvider parse_time config =
     (let p = \<lparr>pv_root = Some newNode, pv_allowOverlapping = False, pv_persist = (mc_Persist config \<noteq> None),
               pv_inbound = [], pv_inRetained = []\<rparr> in
      case mc_Persist config of
        None \<Rightarrow> Ret (Inr p)
      | Some (es, err) \<Rightarrow>
          (case err of
             Some PersistOther \<Rightarrow> Ret (Inl PersistOther)
           | _ \<Rightarrow> (case load_entries parse_time es p of
                     Ret p' \<Rightarrow> Ret (Inr p') | Panic \<Rightarrow> Panic | Block \<Rightarrow> Block)))"

text \<open>\<open>topics.New\<close>: the configuration is an interface value.\<close>

datatype ProviderConfig = CfgMem MemConfig | CfgUnknown

definition topics_New ::
    "(gostring \<Rightarrow> Time option) \<Rightarrow> ProviderConfig option \<Rightarrow> ((topics_error + persist_error) + mem_provider) go_run" where
  "topics_New parse_time config =
     (case config of
        None \<Rightarrow> Ret (Inl (Inl ErrInvalidArgs_topics))
      | Some (CfgMem cfg) \<Rightarrow>
          (case NewMemProvider parse_time cfg of
             Ret (Inl e) \<Rightarrow> Ret (Inl (Inr e)) | Ret (Inr p) \<Rightarrow> Ret (Inr p) | Panic \<Rightarrow> Panic | Block \<Rightarrow> Block)
      | Some CfgUnknown \<Rightarrow> Ret (Inl (Inl ErrUnknownProvider)))"

section \<open>Close\<close>

text \<open>The packets that \<open>Close\<close> hands to \<open>Store\<close>, once the goroutines have ended.\<close>

definition store_entry :: "(Time \<Rightarrow> gostring) \<Rightarrow> Time \<Rightarrow> Publish \<Rightarrow> PersistedPacket list option" where
  "store_entry fmt_time now pkt =
     (if Publish_QoS pkt \<noteq> QoS0 \<and> \<not> pub_expired now pkt
      then (case Encode (PPublish pkt) of
              None \<Rightarrow> None
            | Some (_, buf, Some err) \<Rightarrow> Some []
            | Some (_, buf, None) \<Rightarrow>
                Some [\<lparr>pp_Data = buf, pp_ExpireAt = (if expireAt pkt \<noteq> 0 then fmt_time (expireAt pkt) else [])\<rparr>])
      else Some [])"

fun store_entries :: "(Time \<Rightarrow> gostring) \<Rightarrow> Time \<Rightarrow> Publish list \<Rightarrow> PersistedPacket list option" where
  "store_entries fmt_time now [] = Some []"
| "store_entries fmt_time now (pkt # ps) = do {
     e \<leftarrow> store_entry fmt_time now pkt;
     es \<leftarrow> store_entries fmt_time now ps;
     Some (e @ es) }"

definition close_filters :: "gostring list" where
  "close_filters =
     [[byte_hash], [byte_slash, byte_hash],
      [byte_dollar, 0x73, 0x68, 0x61, 0x72, 0x65, byte_slash, byte_hash]]"

fun search_all :: "Time \<Rightarrow> (gostring \<Rightarrow> Publish) \<Rightarrow> gostring list \<Rightarrow> node \<Rightarrow> Publish list" where
  "search_all now dyn [] root = []"
| "search_all now dyn (f # fs) root =
     (let (root', r) = retainSearch now dyn f root in r @ search_all now dyn fs root')"

text \<open>The second result is the argument of \<open>Store\<close>, if it is called.\<close>

definition close_finish ::
    "(Time \<Rightarrow> gostring) \<Rightarrow> Time \<Rightarrow> (gostring \<Rightarrow> Publish) \<Rightarrow> mem_provider \<Rightarrow>
     (mem_provider \<times> PersistedPacket list option) option" where
  "close_finish fmt_time now dyn mT =
     (if pv_persist mT then do {
        root \<leftarrow> pv_root mT;
        encoded \<leftarrow> store_entries fmt_time now (search_all now dyn close_filters root);
        Some (mT\<lparr>pv_root := None\<rparr>, if length encoded > 0 then Some encoded else None) }
      else Some (mT\<lparr>pv_root := None\<rparr>, None))"

section \<open>Histories\<close>

text \<open>
  The calls that reach a provider, with what they need from outside, and what each is for the
  subscriptions. \<open>CRetain\<close> and \<open>CPublish\<close> are the sends, \<open>CRunRetain\<close> is one round of the retainer.
\<close>

datatype prov_call =
    CSubscribe Time gostring uintptr SubscriptionParams
  | CUnSubscribe gostring "uintptr option"
  | CRetained Time gostring
  | CPublish Publish
  | CRetain RetainObject
  | CRunRetain RetainObject

definition ret_state :: "('a \<times> 'b) go_run \<Rightarrow> 'a option" where
  "ret_state r = (case r of Ret (s, _) \<Rightarrow> Some s | _ \<Rightarrow> None)"

fun prov_run :: "(gostring \<Rightarrow> Publish) \<Rightarrow> prov_call \<Rightarrow> mem_provider \<Rightarrow> mem_provider option" where
  "prov_run dyn (CSubscribe now flt i p) mT = map_option fst (provider_Subscribe now dyn flt i p mT)"
| "prov_run dyn (CUnSubscribe flt sub) mT = map_option fst (provider_UnSubscribe flt sub mT)"
| "prov_run dyn (CRetained now flt) mT = map_option fst (provider_Retained now dyn flt mT)"
| "prov_run dyn (CPublish m) mT = ret_state (provider_Publish (Some m) mT)"
| "prov_run dyn (CRetain obj) mT = ret_state (provider_Retain obj mT)"
| "prov_run dyn (CRunRetain obj) mT = provider_retain obj mT"

text \<open>A call that panics or blocks leaves the provider as it is.\<close>

definition prov_exec :: "(gostring \<Rightarrow> Publish) \<Rightarrow> prov_call \<Rightarrow> mem_provider \<Rightarrow> mem_provider" where
  "prov_exec dyn c mT = (case prov_run dyn c mT of Some mT' \<Rightarrow> mT' | None \<Rightarrow> mT)"

fun call_effect :: "prov_call \<Rightarrow> sub_op" where
  "call_effect (CSubscribe now flt i p) = OpSub flt i (p\<lparr>sp_Granted := Ops_QoS (sp_Ops p)\<rparr>)"
| "call_effect (CUnSubscribe flt sub) = OpUnsub flt sub"
| "call_effect _ = OpOther"

definition prov_inv :: "mem_provider \<Rightarrow> bool" where
  "prov_inv mT = (case pv_root mT of None \<Rightarrow> False | Some root \<Rightarrow> wf_node root)"

definition prov_lookup :: "mem_provider \<Rightarrow> sub_map" where
  "prov_lookup mT f i = (case pv_root mT of None \<Rightarrow> None | Some root \<Rightarrow> sub_entry root f i)"

definition prov_search :: "mem_provider \<Rightarrow> gostring \<Rightarrow> uintptr \<Rightarrow> publishEntries option" where
  "prov_search mT topic pubID =
     (case pv_root mT of None \<Rightarrow> None
      | Some root \<Rightarrow> subscriptionSearch (pv_allowOverlapping mT) root topic pubID [])"

lemma retain_tree_content:
  "retained_at (retain_tree obj root) f =
     (if f = go_split byte_slash (RetainObject_Topic obj)
      then (case obj of RPublish t \<Rightarrow> if pub_payload t = [] then None else Some obj | RDynamic _ \<Rightarrow> Some obj)
      else retained_at root f)"
  "subs_at (retain_tree obj root) f = subs_at root f"
  "wf_node root \<Longrightarrow> wf_node (retain_tree obj root)"
proof -
  obtain root1 err where r: "retainRemove (RetainObject_Topic obj) root = (root1, err)"
    by (cases "retainRemove (RetainObject_Topic obj) root")
  note c = retainRemove_content [OF r]
  show "retained_at (retain_tree obj root) f =
     (if f = go_split byte_slash (RetainObject_Topic obj)
      then (case obj of RPublish t \<Rightarrow> if pub_payload t = [] then None else Some obj | RDynamic _ \<Rightarrow> Some obj)
      else retained_at root f)"
    using r by (auto simp: retain_tree_def retainInsert_content c Let_def split: RetainObject.split)
  show "subs_at (retain_tree obj root) f = subs_at root f"
    using r by (auto simp: retain_tree_def retainInsert_content c Let_def split: RetainObject.split)
  show "wf_node (retain_tree obj root)" if "wf_node root"
    using that r wf_retainRemove [OF that, of "RetainObject_Topic obj"]
    by (auto simp: retain_tree_def wf_retainInsert Let_def split: RetainObject.split)
qed

text \<open>Whether \<open>Subscribe\<close> sends the retained messages: by the option, and for 1 only if new.\<close>

definition wants_retained :: "SubscriptionParams \<Rightarrow> bool \<Rightarrow> bool" where
  "wants_retained p exists =
     (Ops_RetainHandling (sp_Ops p) = RetainHandlingRetain \<or>
      (Ops_RetainHandling (sp_Ops p) = RetainHandlingIfNotExists \<and> \<not> exists))"

definition live_retained :: "Time \<Rightarrow> (gostring \<Rightarrow> Publish) \<Rightarrow> gostring \<Rightarrow> node \<Rightarrow> Publish multiset" where
  "live_retained now dyn flt root =
     image_mset (\<lambda>f. retained_msg dyn (the (retained_at root f)))
       (mset_set {f. topic_retain_matches (go_split byte_slash flt) f \<and> is_live now dyn (retained_at root f)})"

lemma provider_Subscribe_run:
  assumes "pv_root mT = Some root" and "wf_node root"
  shows "\<exists>root' r. provider_Subscribe now dyn flt i p mT =
      Some (mT\<lparr>pv_root := Some root'\<rparr>, Ops_QoS (sp_Ops p), r, None) \<and> wf_node root' \<and>
    (\<forall>f j. sub_entry root' f j = (if f = go_split byte_slash flt \<and> j = i
       then Some \<lparr>se_s = i, se_p = p\<lparr>sp_Granted := Ops_QoS (sp_Ops p)\<rparr>\<rparr> else sub_entry root f j)) \<and>
    mset r = (if wants_retained p (sub_entry root (go_split byte_slash flt) i \<noteq> None)
              then live_retained now dyn flt root else {#})"
proof -
  let ?p = "p\<lparr>sp_Granted := Ops_QoS (sp_Ops p)\<rparr>"
  let ?w = "wants_retained p (sub_entry root (go_split byte_slash flt) i \<noteq> None)"
  obtain root1 ex where r1: "subscriptionInsert flt i ?p root = (root1, ex)"
    by (cases "subscriptionInsert flt i ?p root")
  note i = sub_entry_insert [OF r1 assms(2)]
  obtain root2 r where r2: "retainSearch now dyn flt root1 = (root2, r)" by (cases "retainSearch now dyn flt root1")
  note s = retainSearch_paths [OF i(4) r2]
  have run: "provider_Subscribe now dyn flt i p mT =
      Some (mT\<lparr>pv_root := Some (if ?w then root2 else root1)\<rparr>, Ops_QoS (sp_Ops p), if ?w then r else [], None)"
    by (simp add: provider_Subscribe_def assms(1) r1 r2 i(3) wants_retained_def)
  have "sub_entry root2 f j = sub_entry root1 f j" for f j using s(3) by (simp add: sub_entry_def)
  moreover have "mset r = live_retained now dyn flt root" using s(1) by (simp add: live_retained_def i(2))
  ultimately show ?thesis
    using run i s(4) by (intro exI [of _ "if ?w then root2 else root1"] exI [of _ "if ?w then r else []"]) simp
qed

lemma prov_exec_step:
  assumes "prov_inv mT"
  shows "prov_inv (prov_exec dyn c mT)"
    and "prov_lookup (prov_exec dyn c mT) = spec_op (call_effect c) (prov_lookup mT)"
    and "pv_allowOverlapping (prov_exec dyn c mT) = pv_allowOverlapping mT"
proof -
  obtain root where r: "pv_root mT = Some root" "wf_node root"
    using assms by (auto simp: prov_inv_def split: option.splits)
  have "prov_inv (prov_exec dyn c mT) \<and>
    prov_lookup (prov_exec dyn c mT) = spec_op (call_effect c) (prov_lookup mT) \<and>
    pv_allowOverlapping (prov_exec dyn c mT) = pv_allowOverlapping mT"
  proof (cases c)
    case (CSubscribe now flt i p)
    then show ?thesis
      using provider_Subscribe_run [OF r, of now dyn flt i p]
      by (auto simp: prov_exec_def prov_inv_def prov_lookup_def r fun_eq_iff)
  next
    case (CUnSubscribe flt sub)
    obtain root' calls err where u: "subscriptionRemove flt sub root = (root', calls, err)"
      by (cases "subscriptionRemove flt sub root")
    show ?thesis
      using sub_entry_remove [OF u] r
      by (auto simp: CUnSubscribe prov_exec_def provider_UnSubscribe_def prov_inv_def prov_lookup_def u fun_eq_iff)
  next
    case (CRetained now flt)
    obtain root' out where u: "retainSearch now dyn flt root = (root', out)"
      by (cases "retainSearch now dyn flt root")
    show ?thesis
      using retainSearch_paths [OF r(2) u] r
      by (auto simp: CRetained prov_exec_def provider_Retained_def prov_inv_def prov_lookup_def u fun_eq_iff sub_entry_def)
  next
    case (CRunRetain obj)
    then show ?thesis
      using retain_tree_content(2,3) [where obj = obj and root = root] r
      by (auto simp: prov_exec_def provider_retain_def prov_inv_def prov_lookup_def fun_eq_iff sub_entry_def)
  qed (use assms in \<open>auto simp: prov_exec_def ret_state_def provider_Publish_def provider_Retain_def
        prov_inv_def prov_lookup_def fun_eq_iff\<close>)
  then show "prov_inv (prov_exec dyn c mT)"
    and "prov_lookup (prov_exec dyn c mT) = spec_op (call_effect c) (prov_lookup mT)"
    and "pv_allowOverlapping (prov_exec dyn c mT) = pv_allowOverlapping mT" by blast+
qed

text \<open>The provider is an index in the sense of \<open>subscription_index\<close>, whatever the dynamic values.\<close>

interpretation mem: subscription_index prov_inv prov_lookup "prov_exec dyn" call_effect prov_search
  for dyn
proof (unfold_locales, goal_cases)
  case (3 st topic pubID)
  then show ?case
    using search_hit_tree [of _ "pv_allowOverlapping st" topic pubID]
    by (auto simp: prov_inv_def prov_search_def prov_lookup_def [abs_def] split: option.splits)
qed (simp_all add: prov_exec_step)

lemma publish_one_search:
  assumes "prov_inv mT" and "ValidTopic (pub_topic m)"
  shows "\<exists>ds. publish_one m mT = Some ds \<and>
    (\<forall>i. i \<in> d_sub ` set ds \<longleftrightarrow> hit (prov_lookup mT) (pub_topic m) (publishID m) i)"
proof -
  obtain root where r: "pv_root mT = Some root" "wf_node root"
    using assms by (auto simp: prov_inv_def split: option.splits)
  obtain res where res: "prov_search mT (pub_topic m) (publishID m) = Some res"
    and e: "\<And>i. entries res i \<noteq> [] \<longleftrightarrow> hit (prov_lookup mT) (pub_topic m) (publishID m) i"
    using mem.search_hit [OF assms] by blast
  have s: "subscriptionSearch (pv_allowOverlapping mT) root (pub_topic m) (publishID m) [] = Some res"
    using res r by (simp add: prov_search_def)
  let ?ds = "concat (map (\<lambda>(i, pub). map (\<lambda>e. \<lparr>d_sub = pe_s e, d_msg = m, d_qos = pe_qos e,
      d_ops = pe_ops e, d_ids = pe_ids e\<rparr>) pub) res)"
  have "publish_one m mT = Some ?ds" by (simp add: publish_one_def r s)
  moreover have "i \<in> d_sub ` set ?ds \<longleftrightarrow> (\<exists>kv \<in> set res. \<exists>e \<in> set (snd kv). pe_s e = i)" for i
  proof -
    have "d_sub ` set ?ds = (\<Union>kv \<in> set res. pe_s ` set (snd kv))"
      by (simp add: image_UN image_image case_prod_beta)
    then show ?thesis by (simp add: image_iff eq_commute [of i])
  qed
  ultimately show ?thesis
    using filed_subscribers [OF subscriptionSearch_filed [OF r(2) s]] e by auto
qed

lemma load_entries_root:
  "load_entries parse_time es p = Ret p' \<Longrightarrow>
     pv_root p' = pv_root p \<and> pv_allowOverlapping p' = pv_allowOverlapping p"
proof (induction es arbitrary: p)
  case (Cons d ds)
  have "pv_root q = pv_root p \<and> pv_allowOverlapping q = pv_allowOverlapping p"
    if "load_entry parse_time d p = Ret q" for q
    using that by (auto simp: load_entry_def provider_Retain_def Let_def
        split: list.splits prod.splits option.splits packet.splits if_splits)
  with Cons show ?case by (auto split: go_run.splits)
qed simp

lemma NewMemProvider_start:
  assumes "NewMemProvider parse_time config = Ret (Inr p)"
  shows "prov_inv p" and "prov_lookup p = (\<lambda>f i. None)" and "pv_allowOverlapping p = False"
proof -
  have "pv_root p = Some newNode \<and> pv_allowOverlapping p = False"
    using assms load_entries_root
    by (fastforce simp: NewMemProvider_def Let_def
        split: option.splits prod.splits go_run.splits persist_error.splits)
  then show "prov_inv p" and "prov_lookup p = (\<lambda>f i. None)" and "pv_allowOverlapping p = False"
    by (simp_all add: prov_inv_def prov_lookup_def fun_eq_iff)
qed

section \<open>Properties of the methods\<close>

definition sample_provider :: mem_provider where
  "sample_provider =
     \<lparr>pv_root = Some sample_tree, pv_allowOverlapping = False, pv_persist = False,
      pv_inbound = [], pv_inRetained = []\<rparr>"

text \<open>
  C2. After any sequence of calls on a new provider, the publisher hands a message to exactly the
  subscribers that, by the subscriptions these calls leave, have a filter that matches its topic
  and whose No Local option allows it. The subscriptions left are those of the abstract map on
  which \<open>Subscribe\<close> overwrites and \<open>UnSubscribe\<close> erases; no other call affects them.
\<close>

theorem provider_history:
  assumes "NewMemProvider parse_time config = Ret (Inr p)" and "ValidTopic (pub_topic m)"
  shows "\<exists>ds. publish_one m (fold (prov_exec dyn) calls p) = Some ds \<and>
    (\<forall>i. i \<in> d_sub ` set ds \<longleftrightarrow>
       hit (fold (spec_op \<circ> call_effect) calls (\<lambda>f i. None)) (pub_topic m) (publishID m) i)"
  using publish_one_search [OF mem.history_inv [OF NewMemProvider_start(1) [OF assms(1)]] assms(2), of dyn calls]
  by (simp add: mem.history_lookup [OF NewMemProvider_start(1) [OF assms(1)]] NewMemProvider_start(2) [OF assms(1)])

theorem provider_history_witness:
  "\<exists>ds. publish_one ex_publish
        (fold (prov_exec (\<lambda>_. newPublish))
          [CSubscribe 1 [0x61, byte_slash, byte_plus] 7 (sample_params 5 1),
           CSubscribe 2 [0x63] 8 (sample_params 0 1),
           CUnSubscribe [0x63] (Some 8)]
          \<lparr>pv_root = Some newNode, pv_allowOverlapping = False, pv_persist = False,
           pv_inbound = [], pv_inRetained = []\<rparr>) = Some ds \<and>
     7 \<in> d_sub ` set ds \<and> 8 \<notin> d_sub ` set ds"
proof -
  have "NewMemProvider (\<lambda>_. None) NewMemConfig =
      Ret (Inr \<lparr>pv_root = Some newNode, pv_allowOverlapping = False, pv_persist = False,
           pv_inbound = [], pv_inRetained = []\<rparr>)"
    by (simp add: NewMemProvider_def NewMemConfig_def)
  moreover have "ValidTopic (pub_topic ex_publish)"
    by (simp add: ex_publish_def ValidTopic_def go_defs)
  ultimately show ?thesis
    using provider_history [of "\<lambda>_. None" NewMemConfig _ ex_publish "\<lambda>_. newPublish"
        "[CSubscribe 1 [0x61, byte_slash, byte_plus] 7 (sample_params 5 1),
           CSubscribe 2 [0x63] 8 (sample_params 0 1), CUnSubscribe [0x63] (Some 8)]"]
    by (auto simp: hit_def ex_publish_def topic_matches_def go_defs SWC_def MWC_def deliverable_def)
qed

text \<open>
  \<open>Subscribe\<close> on an open provider always succeeds; it grants the requested quality of service,
  records the subscription and no other, and returns the live retained messages of the filter
  exactly if the retain handling option asks for them.
\<close>

theorem provider_Subscribe_exact:
  assumes "pv_root mT = Some root" and "wf_node root"
  shows "\<exists>root' r. provider_Subscribe now dyn flt i p mT =
      Some (mT\<lparr>pv_root := Some root'\<rparr>, Ops_QoS (sp_Ops p), r, None) \<and> wf_node root' \<and>
    (\<forall>f j. sub_entry root' f j = (if f = go_split byte_slash flt \<and> j = i
       then Some \<lparr>se_s = i, se_p = p\<lparr>sp_Granted := Ops_QoS (sp_Ops p)\<rparr>\<rparr> else sub_entry root f j)) \<and>
    mset r = (if wants_retained p (sub_entry root (go_split byte_slash flt) i \<noteq> None)
              then live_retained now dyn flt root else {#})"
  by (rule provider_Subscribe_run [OF assms])

theorem provider_Subscribe_exact_witness:
  "\<exists>root' r. provider_Subscribe 5 (\<lambda>_. newPublish) [97] 3 (sample_params 0 1) sample_provider =
       Some (sample_provider\<lparr>pv_root := Some root'\<rparr>, 1, r, None) \<and>
     sub_entry root' [[97]] 3 = Some \<lparr>se_s = 3, se_p = sample_params 0 1\<rparr>"
  using provider_Subscribe_exact [of sample_provider sample_tree 5 "\<lambda>_. newPublish" "[97]" 3 "sample_params 0 1"]
  by (auto simp: sample_provider_def sample_tree_wf sample_params_def Ops_QoS_def)

text \<open>
  \<open>UnSubscribe\<close> of one subscriber removes its subscription to the filter and no other,
  leaves the retained messages alone, and reports \<open>ErrNotFound\<close> exactly if there was none.
\<close>

theorem provider_UnSubscribe_exact:
  assumes "pv_root mT = Some root" and "wf_node root"
  shows "\<exists>root' calls. provider_UnSubscribe flt (Some i) mT =
      Some (mT\<lparr>pv_root := Some root'\<rparr>, calls,
        if sub_entry root (go_split byte_slash flt) i = None then Some ErrNotFound else None) \<and> wf_node root' \<and>
    (\<forall>f j. sub_entry root' f j =
       (if f = go_split byte_slash flt \<and> j = i then None else sub_entry root f j)) \<and>
    (\<forall>f. retained_at root' f = retained_at root f)"
proof -
  obtain root' calls err where u: "subscriptionRemove flt (Some i) root = (root', calls, err)"
    by (cases "subscriptionRemove flt (Some i) root")
  show ?thesis
    using sub_entry_remove [OF u] assms by (auto simp: provider_UnSubscribe_def u)
qed

theorem provider_UnSubscribe_exact_witness:
  "\<exists>root' calls. provider_UnSubscribe [byte_hash] (Some 7) sample_provider =
       Some (sample_provider\<lparr>pv_root := Some root'\<rparr>, calls, None) \<and>
     sub_entry root' [MWC] 7 = None \<and>
     sub_entry root' [[97], SWC] 7 = Some \<lparr>se_s = 7, se_p = sample_params 5 1\<rparr>"
proof -
  have "go_split byte_slash [byte_hash] = [MWC]" by (simp add: MWC_def)
  with provider_UnSubscribe_exact [of sample_provider sample_tree "[byte_hash]" 7] show ?thesis
    by (auto simp: sample_provider_def sample_tree_wf sample_entries)
qed

text \<open>
  The retainer stores a message under its topic, deletes what is stored there when the
  payload is empty, and touches neither other topics nor subscriptions.
\<close>

theorem provider_retain_exact:
  assumes "pv_root mT = Some root" and "wf_node root"
  shows "\<exists>root'. provider_retain (RPublish m) mT = Some (mT\<lparr>pv_root := Some root'\<rparr>) \<and> wf_node root' \<and>
    (\<forall>f. retained_at root' f =
       (if f = go_split byte_slash (pub_topic m)
        then (if pub_payload m = [] then None else Some (RPublish m)) else retained_at root f)) \<and>
    (\<forall>f j. sub_entry root' f j = sub_entry root f j)"
  using assms retain_tree_content [where obj = "RPublish m" and root = root]
  by (intro exI [of _ "retain_tree (RPublish m) root"]) (simp add: provider_retain_def sub_entry_def)

theorem provider_retain_exact_witness:
  "\<exists>root'. provider_retain (RPublish ex_publish) sample_provider = Some (sample_provider\<lparr>pv_root := Some root'\<rparr>) \<and>
     retained_at root' [[0x61], [0x62]] = Some (RPublish ex_publish) \<and>
     sub_entry root' [MWC] 7 = Some \<lparr>se_s = 7, se_p = sample_params 6 2\<rparr>"
  using provider_retain_exact [of sample_provider sample_tree ex_publish]
  by (auto simp: sample_provider_def sample_tree_wf sample_entries ex_publish_def simp del: retained_at_simps)

section \<open>The goroutines and Close\<close>

text \<open>
  The state of the whole provider: what each goroutine has taken from its channel, whether \<open>Close\<close>
  holds the mutex, whether the channels are closed, and what has been delivered and stored.
\<close>

record prov_sys =
  ps_mT :: mem_provider
  ps_pub :: "Publish option"
  ps_ret :: "RetainObject option"
  ps_closing :: bool
  ps_chanClosed :: bool
  ps_out :: "delivery list"
  ps_stored :: "PersistedPacket list option"

definition takes_lock :: "prov_call \<Rightarrow> bool" where
  "takes_lock c = (case c of CPublish _ \<Rightarrow> False | CRetain _ \<Rightarrow> False | _ \<Rightarrow> True)"

inductive prov_step ::
    "(gostring \<Rightarrow> Publish) \<Rightarrow> (Time \<Rightarrow> gostring) \<Rightarrow> prov_sys \<Rightarrow> prov_sys \<Rightarrow> bool"
  for dyn fmt_time where
  step_method:
    "takes_lock c \<Longrightarrow> \<not> ps_closing s \<Longrightarrow> prov_run dyn c (ps_mT s) = Some mT' \<Longrightarrow>
     (\<forall>obj. c \<noteq> CRunRetain obj) \<Longrightarrow> prov_step dyn fmt_time s (s\<lparr>ps_mT := mT'\<rparr>)"
| step_send:
    "\<not> takes_lock c \<Longrightarrow> \<not> ps_chanClosed s \<Longrightarrow> prov_run dyn c (ps_mT s) = Some mT' \<Longrightarrow>
     prov_step dyn fmt_time s (s\<lparr>ps_mT := mT'\<rparr>)"
| step_recv_publish:
    "ps_pub s = None \<Longrightarrow> pv_inbound (ps_mT s) = m # ms \<Longrightarrow>
     prov_step dyn fmt_time s (s\<lparr>ps_pub := Some m, ps_mT := (ps_mT s)\<lparr>pv_inbound := ms\<rparr>\<rparr>)"
| step_publish:
    "ps_pub s = Some m \<Longrightarrow> \<not> ps_closing s \<Longrightarrow> publish_one m (ps_mT s) = Some ds \<Longrightarrow>
     prov_step dyn fmt_time s (s\<lparr>ps_pub := None, ps_out := ps_out s @ ds\<rparr>)"
| step_recv_retain:
    "ps_ret s = None \<Longrightarrow> pv_inRetained (ps_mT s) = obj # objs \<Longrightarrow>
     prov_step dyn fmt_time s (s\<lparr>ps_ret := Some obj, ps_mT := (ps_mT s)\<lparr>pv_inRetained := objs\<rparr>\<rparr>)"
| step_retain:
    "ps_ret s = Some obj \<Longrightarrow> \<not> ps_closing s \<Longrightarrow> provider_retain obj (ps_mT s) = Some mT' \<Longrightarrow>
     prov_step dyn fmt_time s (s\<lparr>ps_ret := None, ps_mT := mT'\<rparr>)"
| step_close:
    "\<not> ps_closing s \<Longrightarrow> \<not> ps_chanClosed s \<Longrightarrow>
     prov_step dyn fmt_time s (s\<lparr>ps_closing := True, ps_chanClosed := True\<rparr>)"
| step_close_done:
    "ps_closing s \<Longrightarrow> pv_inbound (ps_mT s) = [] \<Longrightarrow> pv_inRetained (ps_mT s) = [] \<Longrightarrow>
     ps_pub s = None \<Longrightarrow> ps_ret s = None \<Longrightarrow> close_finish fmt_time now dyn (ps_mT s) = Some (mT', stored) \<Longrightarrow>
     prov_step dyn fmt_time s (s\<lparr>ps_closing := False, ps_mT := mT', ps_stored := stored\<rparr>)"

inductive_cases prov_stepE: "prov_step dyn fmt_time s s'"

definition pending :: "prov_sys \<Rightarrow> bool" where
  "pending s =
     (pv_inbound (ps_mT s) \<noteq> [] \<or> pv_inRetained (ps_mT s) \<noteq> [] \<or> ps_pub s \<noteq> None \<or> ps_ret s \<noteq> None)"

lemma closing_step:
  assumes "prov_step dyn fmt_time s s'" and "ps_closing s" and "ps_chanClosed s" and "pending s"
  shows "ps_closing s' \<and> ps_chanClosed s' \<and> pending s' \<and>
    pv_root (ps_mT s') = pv_root (ps_mT s) \<and> ps_out s' = ps_out s \<and> ps_stored s' = ps_stored s"
  using assms by (auto elim!: prov_stepE simp: pending_def)

lemma closing_steps:
  assumes "(prov_step dyn fmt_time)\<^sup>*\<^sup>* s s'" and "ps_closing s" and "ps_chanClosed s" and "pending s"
  shows "ps_closing s' \<and> ps_chanClosed s' \<and> pending s' \<and>
    pv_root (ps_mT s') = pv_root (ps_mT s) \<and> ps_out s' = ps_out s \<and> ps_stored s' = ps_stored s"
  using assms(1)
proof (induction rule: rtranclp_induct)
  case (step s1 s2)
  then show ?case using closing_step [OF step.hyps(2)] by simp
qed (use assms in simp)

text \<open>A provider just after a \<open>Retain\<close>.\<close>

definition busy_sys :: prov_sys where
  "busy_sys =
     \<lparr>ps_mT = \<lparr>pv_root = Some newNode, pv_allowOverlapping = False, pv_persist = True,
        pv_inbound = [], pv_inRetained = [RPublish newPublish]\<rparr>,
      ps_pub = None, ps_ret = None, ps_closing = False, ps_chanClosed = False, ps_out = [], ps_stored = None\<rparr>"

text \<open>
  If \<open>Close\<close> is called while a message is in a channel or in the hands of a goroutine, it never
  returns: it waits for the goroutines while it holds the mutex they need. In every later state
  \<open>Close\<close> still holds the mutex and nothing has been delivered, retained or stored.
\<close>

theorem close_deadlock:
  assumes "\<not> ps_closing s" and "\<not> ps_chanClosed s" and "pending s"
  shows "\<exists>s1. prov_step dyn fmt_time s s1 \<and> ps_closing s1 \<and>
    (\<forall>s2. (prov_step dyn fmt_time)\<^sup>*\<^sup>* s1 s2 \<longrightarrow>
       ps_closing s2 \<and> pending s2 \<and> pv_root (ps_mT s2) = pv_root (ps_mT s) \<and>
       ps_out s2 = ps_out s \<and> ps_stored s2 = ps_stored s)"
proof -
  let ?s1 = "s\<lparr>ps_closing := True, ps_chanClosed := True\<rparr>"
  have "prov_step dyn fmt_time s ?s1" using assms(1,2) by (rule step_close)
  moreover have "pending ?s1" using assms(3) by (simp add: pending_def)
  then have "ps_closing s2 \<and> pending s2 \<and> pv_root (ps_mT s2) = pv_root (ps_mT s) \<and>
       ps_out s2 = ps_out s \<and> ps_stored s2 = ps_stored s"
    if "(prov_step dyn fmt_time)\<^sup>*\<^sup>* ?s1 s2" for s2
    using closing_steps [OF that] by simp
  ultimately show ?thesis by (intro exI [of _ ?s1]) simp
qed

theorem close_deadlock_witness:
  "\<exists>s1. prov_step (\<lambda>_. newPublish) (\<lambda>_. []) busy_sys s1 \<and> ps_closing s1 \<and>
    (\<nexists>s2. (prov_step (\<lambda>_. newPublish) (\<lambda>_. []))\<^sup>*\<^sup>* s1 s2 \<and> \<not> ps_closing s2)"
proof -
  have "\<not> ps_closing busy_sys" "\<not> ps_chanClosed busy_sys" "pending busy_sys"
    by (simp_all add: busy_sys_def pending_def)
  from close_deadlock [OF this, of "\<lambda>_. newPublish" "\<lambda>_. []"] show ?thesis by blast
qed

section \<open>What Close stores is not what NewMemProvider loads\<close>

lemma small_frame:
  assumes "length body < 16"
  shows "\<exists>b. frame t fl body = b # of_nat (length body) # body" and "drop_bit 4 (of_nat (length body) :: byte) = 0"
proof -
  have u: "unat (of_nat (length body) :: uint64) = length body" "unat (of_nat (length body) :: byte) = length body"
    using assms by (simp_all add: unat_of_nat)
  then have "\<not> (0x80::uint64) \<le> of_nat (length body)" using assms by (simp add: word_le_nat_alt)
  moreover have "ucast (of_nat (length body) :: uint64) = (of_nat (length body) :: byte)"
    using assms by (simp add: unsigned_of_nat take_bit_nat_eq_self)
  ultimately show "\<exists>b. frame t fl body = b # of_nat (length body) # body"
    by (simp add: frame_def uvarint_bytes.simps [of "of_nat (length body)"])
  have "unat (drop_bit 4 (of_nat (length body) :: byte)) = 0"
    unfolding unat_drop_bit_eq u(2) using assms by (simp add: drop_bit_eq_div)
  then show "drop_bit 4 (of_nat (length body) :: byte) = 0" by (simp add: unat_eq_0)
qed

text \<open>
  \<open>Close\<close> stores a retained message as its packet, without the byte for the protocol version
  that \<open>NewMemProvider\<close> expects in front: a message whose packet body is shorter than 16 bytes is
  stored and then skipped when it is loaded.
\<close>

theorem retained_not_restored:
  assumes "packet_wf v (PPublish m)" and "Publish_QoS m \<noteq> QoS0" and "length (Publish_body m) < 16"
  shows "\<exists>e. store_entry fmt_time now m = Some [e] \<and> load_entry parse_time e p = Ret p"
proof -
  have x: "expireAt m = 0" using assms(1) by (simp add: Publish_wf_def)
  obtain b where b: "packet_bytes (PPublish m) = b # of_nat (length (Publish_body m)) # Publish_body m"
    using small_frame(1) [OF assms(3)] by (auto simp: packet_bytes_def)
  let ?e = "\<lparr>pp_Data = packet_bytes (PPublish m), pp_ExpireAt = []\<rparr>"
  have "store_entry fmt_time now m = Some [?e]"
    using assms(2) x by (simp add: store_entry_def pub_expired_def Publish_Expired_def Encode_bytes [OF assms(1)])
  moreover have "newMessage b 0 = Inl (EPkt ErrInvalidMessageType)" by (simp add: newMessage_def)
  then have "load_entry parse_time ?e p = Ret p"
    using small_frame(2) [OF assms(3)] by (simp add: load_entry_def b Decode_def)
  ultimately show ?thesis by blast
qed

theorem retained_not_restored_witness:
  "\<exists>e. store_entry (\<lambda>_. []) 5 ex_publish = Some [e] \<and>
     load_entry (\<lambda>_. None) e \<lparr>pv_root = Some newNode, pv_allowOverlapping = False, pv_persist = True,
       pv_inbound = [], pv_inRetained = []\<rparr> =
     Ret \<lparr>pv_root = Some newNode, pv_allowOverlapping = False, pv_persist = True,
       pv_inbound = [], pv_inRetained = []\<rparr>"
proof (rule retained_not_restored [OF ex_publish_wf])
  show "Publish_QoS ex_publish \<noteq> QoS0" by (simp add: Publish_QoS_def ex_publish_def)
  have "length (Publish_body ex_publish) = 14" by code_simp
  then show "length (Publish_body ex_publish) < 16" by simp
qed

end
