(* ===== verification/Subscriber.thy ===== *)
theory Subscriber
  imports Mem_Provider
begin

text \<open>
  \<open>src/subscriber/subscriber.go\<close>: the object a session registers with the topics provider. It keeps
  its own map of subscriptions, adapts a message to what a subscription was granted, and forwards
  it to the connection (online) or to the storage (offline).

  The provider is reached through the interface \<open>SubscriberInterface\<close>: its methods are arguments
  of the operations, its laws the locale \<open>topics_service\<close>, which \<open>provider_Subscribe\<close> and
  \<open>provider_UnSubscribe\<close> satisfy. The callbacks \<open>publishOnline\<close> and \<open>publishOffline\<close> are the
  values \<open>ToOnline\<close> and \<open>ToOffline\<close>; the channel \<open>isOnline\<close> is the flag \<open>sb_online\<close>.
\<close>

section \<open>State\<close>

record subscriber =
  sb_hash :: uintptr
  sb_id :: gostring
  sb_subscriptions :: "(gostring \<times> SubscriptionParams) list"
  sb_online :: bool
  sb_offlineQoS0 :: bool
  sb_version :: ProtocolVersion

definition subscriber_New :: "uintptr \<Rightarrow> gostring \<Rightarrow> bool \<Rightarrow> ProtocolVersion \<Rightarrow> subscriber" where
  "subscriber_New hash cid offlineQoS0 version =
     \<lparr>sb_hash = hash, sb_id = cid, sb_subscriptions = [], sb_online = False,
      sb_offlineQoS0 = offlineQoS0, sb_version = version\<rparr>"

definition HasSubscriptions :: "subscriber \<Rightarrow> bool" where
  "HasSubscriptions s = (length (sb_subscriptions s) \<noteq> 0)"

datatype forwarded = ToOnline Publish | ToOffline gostring Publish

section \<open>Operations\<close>

type_synonym 'st topics_Subscribe =
  "gostring \<Rightarrow> uintptr \<Rightarrow> SubscriptionParams \<Rightarrow> 'st \<Rightarrow>
   ('st \<times> QosType \<times> Publish list \<times> topics_error option) option"

type_synonym 'st topics_UnSubscribe =
  "gostring \<Rightarrow> uintptr option \<Rightarrow> 'st \<Rightarrow> ('st \<times> gostring list list \<times> topics_error option) option"

text \<open>The provider writes \<open>Granted\<close> through the pointer to the parameters that is stored here.\<close>

definition subscriber_Subscribe ::
    "'st topics_Subscribe \<Rightarrow> gostring \<Rightarrow> SubscriptionParams \<Rightarrow> subscriber \<Rightarrow> 'st \<Rightarrow>
     (subscriber \<times> 'st \<times> QosType \<times> Publish list \<times> topics_error option) option" where
  "subscriber_Subscribe subscribe topic params s st = do {
     (st', q, r, err) \<leftarrow> subscribe topic (sb_hash s) params st;
     Some (s\<lparr>sb_subscriptions := AList.update topic (params\<lparr>sp_Granted := q\<rparr>) (sb_subscriptions s)\<rparr>,
           st', q, r, err) }"

definition subscriber_UnSubscribe ::
    "'st topics_UnSubscribe \<Rightarrow> gostring \<Rightarrow> subscriber \<Rightarrow> 'st \<Rightarrow>
     (subscriber \<times> 'st \<times> topics_error option) option" where
  "subscriber_UnSubscribe unsubscribe topic s st = do {
     (st', calls, err) \<leftarrow> unsubscribe topic (Some (sb_hash s)) st;
     Some (s\<lparr>sb_subscriptions := AList.delete topic (sb_subscriptions s)\<rparr>, st', err) }"

definition subscriber_adapt ::
    "QosType \<Rightarrow> SubscriptionOptions \<Rightarrow> Publish \<Rightarrow> Publish option" where
  "subscriber_adapt grantedQoS ops pkt =
     (let p1 = (if \<not> Ops_RAP ops then Publish_SetRetain False pkt else pkt) in do {
        p2 \<leftarrow> (if Publish_QoS p1 \<noteq> QoS0 then header_setPacketID 0 p1 else Some p1);
        Some (if grantedQoS = QoS1 \<and> Publish_QoS p2 = QoS2 then fst (Publish_SetQoS QoS1 p2) else p2) })"

definition subscriber_forward :: "subscriber \<Rightarrow> Publish \<Rightarrow> forwarded list" where
  "subscriber_forward s pkt =
     (if \<not> sb_online s then
        (let qos = Publish_QoS pkt in
         if qos \<noteq> QoS0 \<or> (sb_offlineQoS0 s \<and> qos = QoS0) then [ToOffline (sb_id s) pkt] else [])
      else [ToOnline pkt])"

definition subscriber_Publish ::
    "subscriber \<Rightarrow> Publish \<Rightarrow> QosType \<Rightarrow> SubscriptionOptions \<Rightarrow> uint32 list \<Rightarrow>
     (forwarded list \<times> go_error option) option" where
  "subscriber_Publish s p grantedQoS ops ids = do {
     (pkt, err) \<leftarrow> Publish_Clone (sb_version s) p;
     if err \<noteq> None then Some ([], err)
     else do {
       (pkt1, err1) \<leftarrow> (if length ids > 0
                        then header_PropertySet pkt PropertySubscriptionIdentifier (VInts ids)
                        else Some (pkt, None));
       if err1 \<noteq> None then Some ([], err1)
       else do {
         pkt2 \<leftarrow> subscriber_adapt grantedQoS ops pkt1;
         Some (subscriber_forward s pkt2, None) } } }"

definition subscriber_Online :: "subscriber \<Rightarrow> subscriber" where
  "subscriber_Online s = s\<lparr>sb_online := True\<rparr>"

text \<open>The loop of \<open>Offline(true)\<close>, over the topics in the order of \<open>range\<close>.\<close>

fun offline_loop ::
    "'st topics_UnSubscribe \<Rightarrow> gostring list \<Rightarrow> subscriber \<Rightarrow> 'st \<Rightarrow> (subscriber \<times> 'st) option" where
  "offline_loop unsubscribe [] s st = Some (s, st)"
| "offline_loop unsubscribe (topic # topics) s st = do {
     (st', calls, err) \<leftarrow> unsubscribe topic (Some (sb_hash s)) st;
     offline_loop unsubscribe topics
       (s\<lparr>sb_subscriptions := AList.delete topic (sb_subscriptions s)\<rparr>) st' }"

definition subscriber_Offline ::
    "'st topics_UnSubscribe \<Rightarrow> bool \<Rightarrow> subscriber \<Rightarrow> 'st \<Rightarrow> (subscriber \<times> 'st) option" where
  "subscriber_Offline unsubscribe shutdown s st = do {
     (s', st') \<leftarrow> (if shutdown then offline_loop unsubscribe (map fst (sb_subscriptions s)) s st
                  else Some (s, st));
     Some (s'\<lparr>sb_online := False\<rparr>, st') }"

section \<open>The topics provider as a subscriber sees it\<close>

text \<open>The map of the subscriber agrees with what the provider has filed under it.\<close>

definition tracked ::
    "('st \<Rightarrow> gostring \<Rightarrow> uintptr \<Rightarrow> SubscriptionParams option) \<Rightarrow> subscriber \<Rightarrow> 'st \<Rightarrow> bool" where
  "tracked lookup s st = (\<forall>flt. map_of (sb_subscriptions s) flt = lookup st flt (sb_hash s))"

locale topics_service =
  fixes inv :: "'st \<Rightarrow> bool"
    and lookup :: "'st \<Rightarrow> gostring \<Rightarrow> uintptr \<Rightarrow> SubscriptionParams option"
    and subscribe :: "'st topics_Subscribe"
    and unsubscribe :: "'st topics_UnSubscribe"
  assumes subscribe_law: "inv st \<Longrightarrow>
      \<exists>st' q r. subscribe flt i p st = Some (st', q, r, None) \<and> inv st' \<and>
        (\<forall>g j. lookup st' g j = (if g = flt \<and> j = i then Some (p\<lparr>sp_Granted := q\<rparr>) else lookup st g j))"
    and unsubscribe_law: "inv st \<Longrightarrow>
      \<exists>st' calls. unsubscribe flt (Some i) st =
          Some (st', calls, if lookup st flt i = None then Some ErrNotFound else None) \<and> inv st' \<and>
        (\<forall>g j. lookup st' g j = (if g = flt \<and> j = i then None else lookup st g j))"
begin

lemma Subscribe_tracked:
  assumes "inv st" and "tracked lookup s st"
  shows "\<exists>s' st' q r. subscriber_Subscribe subscribe flt p s st = Some (s', st', q, r, None) \<and>
    inv st' \<and> tracked lookup s' st' \<and> sb_hash s' = sb_hash s \<and>
    (\<forall>g j. lookup st' g j = (if g = flt \<and> j = sb_hash s then Some (p\<lparr>sp_Granted := q\<rparr>) else lookup st g j))"
proof -
  obtain st' q r where "subscribe flt (sb_hash s) p st = Some (st', q, r, None)" "inv st'"
    "\<forall>g j. lookup st' g j = (if g = flt \<and> j = sb_hash s then Some (p\<lparr>sp_Granted := q\<rparr>) else lookup st g j)"
    using subscribe_law [OF assms(1)] by blast
  then show ?thesis
    using assms(2) by (auto simp: subscriber_Subscribe_def tracked_def update_conv')
qed

lemma UnSubscribe_tracked:
  assumes "inv st" and "tracked lookup s st"
  shows "\<exists>s' st'. subscriber_UnSubscribe unsubscribe flt s st =
      Some (s', st', if map_of (sb_subscriptions s) flt = None then Some ErrNotFound else None) \<and>
    inv st' \<and> tracked lookup s' st' \<and> sb_hash s' = sb_hash s \<and>
    (\<forall>g j. lookup st' g j = (if g = flt \<and> j = sb_hash s then None else lookup st g j))"
proof -
  obtain st' calls where u: "unsubscribe flt (Some (sb_hash s)) st =
      Some (st', calls, if lookup st flt (sb_hash s) = None then Some ErrNotFound else None)" "inv st'"
    "\<forall>g j. lookup st' g j = (if g = flt \<and> j = sb_hash s then None else lookup st g j)"
    using unsubscribe_law [OF assms(1)] by blast
  have "subscriber_UnSubscribe unsubscribe flt s st =
      Some (s\<lparr>sb_subscriptions := AList.delete flt (sb_subscriptions s)\<rparr>, st',
        if map_of (sb_subscriptions s) flt = None then Some ErrNotFound else None)"
    using assms(2) by (simp add: subscriber_UnSubscribe_def u(1) tracked_def)
  moreover have "tracked lookup (s\<lparr>sb_subscriptions := AList.delete flt (sb_subscriptions s)\<rparr>) st'"
    using assms(2) u(3) by (simp add: tracked_def delete_conv')
  ultimately show ?thesis
    using u by (intro exI [of _ "s\<lparr>sb_subscriptions := AList.delete flt (sb_subscriptions s)\<rparr>"] exI [of _ st']) simp
qed

lemma offline_loop_tracked:
  assumes "inv st" and "tracked lookup s st"
  shows "\<exists>s' st'. offline_loop unsubscribe topics s st = Some (s', st') \<and> inv st' \<and> tracked lookup s' st' \<and>
    sb_hash s' = sb_hash s \<and>
    (\<forall>g j. lookup st' g j = (if g \<in> set topics \<and> j = sb_hash s then None else lookup st g j))"
  using assms
proof (induction topics arbitrary: s st)
  case (Cons t ts)
  let ?s1 = "s\<lparr>sb_subscriptions := AList.delete t (sb_subscriptions s)\<rparr>"
  obtain st1 calls err where u: "unsubscribe t (Some (sb_hash s)) st = Some (st1, calls, err)" "inv st1"
    "\<forall>g j. lookup st1 g j = (if g = t \<and> j = sb_hash s then None else lookup st g j)"
    using unsubscribe_law [OF Cons.prems(1), of t "sb_hash s"] by blast
  have "tracked lookup ?s1 st1" using Cons.prems(2) u(3) by (simp add: tracked_def delete_conv')
  from Cons.IH [OF u(2) this] u(1,3) show ?case by auto
qed simp

lemma Offline_shutdown:
  assumes "inv st" and "tracked lookup s st"
  shows "\<exists>s' st'. subscriber_Offline unsubscribe True s st = Some (s', st') \<and> inv st' \<and>
    \<not> sb_online s' \<and> (\<forall>flt. map_of (sb_subscriptions s') flt = None) \<and>
    (\<forall>g j. lookup st' g j = (if j = sb_hash s then None else lookup st g j))"
proof -
  let ?ts = "map fst (sb_subscriptions s)"
  obtain s' st' where o: "offline_loop unsubscribe ?ts s st = Some (s', st')" "inv st'" "tracked lookup s' st'"
    "sb_hash s' = sb_hash s"
    "\<forall>g j. lookup st' g j = (if g \<in> set ?ts \<and> j = sb_hash s then None else lookup st g j)"
    using offline_loop_tracked [OF assms, of ?ts] by blast
  have "lookup st g (sb_hash s) = None" if "g \<notin> set ?ts" for g
    using assms(2) that unfolding tracked_def by (metis map_of_eq_None_iff set_map)
  then have l: "lookup st' g j = (if j = sb_hash s then None else lookup st g j)" for g j
    using o(5) by auto
  moreover have "map_of (sb_subscriptions s') flt = None" for flt
    using o(3,4) l by (simp add: tracked_def)
  ultimately show ?thesis using o by (auto simp: subscriber_Offline_def)
qed

end

definition prov_params :: "mem_provider \<Rightarrow> gostring \<Rightarrow> uintptr \<Rightarrow> SubscriptionParams option" where
  "prov_params mT flt i = map_option se_p (prov_lookup mT (go_split byte_slash flt) i)"

interpretation service: topics_service prov_inv prov_params "provider_Subscribe now dyn" provider_UnSubscribe
  for now dyn
proof (unfold_locales, goal_cases)
  case (1 st flt i p)
  then obtain root where r: "pv_root st = Some root" "wf_node root"
    by (auto simp: prov_inv_def split: option.splits)
  show ?case
    using provider_Subscribe_run [OF r, of now dyn flt i p]
    by (auto simp: prov_inv_def prov_params_def prov_lookup_def r)
next
  case (2 st flt i)
  then obtain root where r: "pv_root st = Some root" "wf_node root"
    by (auto simp: prov_inv_def split: option.splits)
  obtain root' calls err where u: "subscriptionRemove flt (Some i) root = (root', calls, err)"
    by (cases "subscriptionRemove flt (Some i) root")
  show ?case
    using sub_entry_remove [OF u] r
    by (auto simp: provider_UnSubscribe_def u prov_inv_def prov_params_def prov_lookup_def)
qed

section \<open>Properties of the subscriptions\<close>

text \<open>
  C20. \<open>Subscribe\<close>, \<open>UnSubscribe\<close> and \<open>Offline(true)\<close> of a subscriber keep its own map of
  subscriptions equal to what the topics provider has filed under it, and change nothing of
  other subscribers; after \<open>Offline(true)\<close> neither has any subscription of it left.
\<close>

theorem subscriber_tracked:
  assumes "prov_inv mT" and "tracked prov_params s mT"
  shows "(\<exists>s' mT' q r. subscriber_Subscribe (provider_Subscribe now dyn) flt p s mT = Some (s', mT', q, r, None) \<and>
      prov_inv mT' \<and> tracked prov_params s' mT' \<and>
      (\<forall>g j. j \<noteq> sb_hash s \<longrightarrow> prov_params mT' g j = prov_params mT g j)) \<and>
    (\<exists>s' mT' err. subscriber_UnSubscribe provider_UnSubscribe flt s mT = Some (s', mT', err) \<and>
      prov_inv mT' \<and> tracked prov_params s' mT' \<and> (err = None \<longleftrightarrow> map_of (sb_subscriptions s) flt \<noteq> None) \<and>
      (\<forall>g j. j \<noteq> sb_hash s \<longrightarrow> prov_params mT' g j = prov_params mT g j)) \<and>
    (\<exists>s' mT'. subscriber_Offline provider_UnSubscribe True s mT = Some (s', mT') \<and> prov_inv mT' \<and>
      \<not> sb_online s' \<and> (\<forall>g. map_of (sb_subscriptions s') g = None) \<and>
      (\<forall>g j. prov_params mT' g j = (if j = sb_hash s then None else prov_params mT g j)))"
proof (intro conjI)
  obtain s' mT' q r where
    "subscriber_Subscribe (provider_Subscribe now dyn) flt p s mT = Some (s', mT', q, r, None)" "prov_inv mT'"
    "tracked prov_params s' mT'"
    "\<forall>g j. prov_params mT' g j = (if g = flt \<and> j = sb_hash s then Some (p\<lparr>sp_Granted := q\<rparr>) else prov_params mT g j)"
    using service.Subscribe_tracked [OF assms] by blast
  then show "\<exists>s' mT' q r. subscriber_Subscribe (provider_Subscribe now dyn) flt p s mT = Some (s', mT', q, r, None) \<and>
      prov_inv mT' \<and> tracked prov_params s' mT' \<and>
      (\<forall>g j. j \<noteq> sb_hash s \<longrightarrow> prov_params mT' g j = prov_params mT g j)" by simp
  obtain s' mT' where u: "subscriber_UnSubscribe provider_UnSubscribe flt s mT =
      Some (s', mT', if map_of (sb_subscriptions s) flt = None then Some ErrNotFound else None)" "prov_inv mT'"
    "tracked prov_params s' mT'"
    "\<forall>g j. prov_params mT' g j = (if g = flt \<and> j = sb_hash s then None else prov_params mT g j)"
    using service.UnSubscribe_tracked [OF assms] by blast
  then show "\<exists>s' mT' err. subscriber_UnSubscribe provider_UnSubscribe flt s mT = Some (s', mT', err) \<and>
      prov_inv mT' \<and> tracked prov_params s' mT' \<and> (err = None \<longleftrightarrow> map_of (sb_subscriptions s) flt \<noteq> None) \<and>
      (\<forall>g j. j \<noteq> sb_hash s \<longrightarrow> prov_params mT' g j = prov_params mT g j)" by simp
  show "\<exists>s' mT'. subscriber_Offline provider_UnSubscribe True s mT = Some (s', mT') \<and> prov_inv mT' \<and>
      \<not> sb_online s' \<and> (\<forall>g. map_of (sb_subscriptions s') g = None) \<and>
      (\<forall>g j. prov_params mT' g j = (if j = sb_hash s then None else prov_params mT g j))"
    using service.Offline_shutdown [OF assms] .
qed

theorem subscriber_tracked_witness:
  "\<exists>s' mT' q r. subscriber_Subscribe (provider_Subscribe 5 (\<lambda>_. newPublish)) [0x61] (sample_params 0 1)
       (subscriber_New 3 [0x63] False ProtocolV311) sample_provider = Some (s', mT', q, r, None) \<and>
     tracked prov_params s' mT'"
proof -
  have "prov_inv sample_provider" by (simp add: prov_inv_def sample_provider_def sample_tree_wf)
  moreover have "tracked prov_params (subscriber_New 3 [0x63] False ProtocolV311) sample_provider"
    by (simp add: tracked_def subscriber_New_def prov_params_def prov_lookup_def sample_provider_def
        sample_tree_def subscriptionInsert_entry subscriptionInsert_wf)
  ultimately show ?thesis
    using subscriber_tracked [of sample_provider "subscriber_New 3 [0x63] False ProtocolV311"] by blast
qed

section \<open>Delivery\<close>

lemma New_Publish_simps [simp]:
  "mFlags (New_Publish v) = 0" "mType (New_Publish v) = PUBLISH" "h_version (New_Publish v) = v"
  "packetID (New_Publish v) = []" "expireAt (New_Publish v) = 0"
  "v = ProtocolV50 \<Longrightarrow> props (properties (New_Publish v)) \<noteq> None"
  by (simp_all add: New_Publish_def header_init_def header_setType_def newPublish_def props_new_def
      DefaultFlags_def typeDefaultFlags_def Let_def)

lemma Qos_cases:
  assumes "Qos_IsValid q"
  obtains "q = 0" | "q = 1" | "q = 2"
  using assms by (auto simp: Qos_IsValid_def)

text \<open>The properties \<open>Clone\<close> forwards can be set on a new V5.0 PUBLISH, so it does not fail.\<close>

definition forwarded_props :: "PropertyID list" where
  "forwarded_props =
     [PropertyPayloadFormat, PropertyResponseTopic, PropertyCorrelationData, PropertyUserProperty, PropertyContentType]"

lemma forward_prop_ok:
  assumes "mType msg = PUBLISH" and "props (properties pkt) \<noteq> None" and "pid \<in> set forwarded_props"
  shows "\<exists>p. forward_prop msg pid (pkt, None) = Some (pkt\<lparr>properties := p\<rparr>, None) \<and> props p \<noteq> None"
proof (cases "map_of (props_list (properties msg)) pid")
  case None
  then show ?thesis using assms(2) by (intro exI [of _ "properties pkt"]) (simp add: forward_prop_def)
next
  case (Some v)
  obtain m where m: "props (properties pkt) = Some m" using assms(2) by blast
  have "\<exists>p. property_Set (properties pkt) PUBLISH pid v = Some (p, None) \<and> props p \<noteq> None"
    using assms(3)
    by (auto simp: forwarded_props_def property_Set_def props_assign_def m propertyAllowedMessageTypes_def
        propertyTypeOf_def propertyTypeMap_def propertyCalcLen_def)
  then show ?thesis using Some assms(1) by (auto simp: forward_prop_def)
qed

lemma Clone_ok:
  assumes "ValidTopic (pub_topic msg)" and "Qos_IsValid (Publish_QoS msg)" and "mType msg = PUBLISH"
  shows "\<exists>p. Publish_Clone v msg =
      Some ((New_Publish (h_version msg))\<lparr>pub_topic := pub_topic msg, pub_payload := pub_payload msg,
        mFlags := push_bit 1 (Publish_QoS msg) OR (if Publish_Retain msg then 1 else 0),
        expireAt := expireAt msg, properties := p\<rparr>, None) \<and>
    (h_version msg = ProtocolV50 \<longrightarrow> props p \<noteq> None)"
proof -
  define pkt where "pkt = (New_Publish (h_version msg))\<lparr>pub_topic := pub_topic msg, pub_payload := pub_payload msg,
        mFlags := push_bit 1 (Publish_QoS msg) OR (if Publish_Retain msg then 1 else 0),
        expireAt := expireAt msg\<rparr>"
  have set: "(fst (Publish_Set (pub_topic msg) (pub_payload msg) (Publish_QoS msg)
                       (Publish_Retain msg) False (New_Publish (h_version msg))))\<lparr>expireAt := expireAt msg\<rparr> = pkt"
    using assms(1,2)
    by (elim Qos_cases; cases "Publish_Retain msg")
       (simp_all add: Publish_Set_def Publish_SetRetain_def Publish_SetDup_def pkt_def Qos_IsValid_def)
  show ?thesis
  proof (cases "h_version msg = ProtocolV50 \<and> v = ProtocolV50")
    case True
    note f = forward_prop_ok [OF assms(3)]
    have "props (properties pkt) \<noteq> None" using True by (simp add: pkt_def)
    then obtain p1 where p1: "forward_prop msg PropertyPayloadFormat (pkt, None) = Some (pkt\<lparr>properties := p1\<rparr>, None)"
      "props p1 \<noteq> None" using f [of pkt] by (auto simp: forwarded_props_def)
    then obtain p2 where p2: "forward_prop msg PropertyResponseTopic (pkt\<lparr>properties := p1\<rparr>, None) =
      Some (pkt\<lparr>properties := p2\<rparr>, None)" "props p2 \<noteq> None"
      using f [of "pkt\<lparr>properties := p1\<rparr>" PropertyResponseTopic] by (auto simp: forwarded_props_def)
    then obtain p3 where p3: "forward_prop msg PropertyCorrelationData (pkt\<lparr>properties := p2\<rparr>, None) =
      Some (pkt\<lparr>properties := p3\<rparr>, None)" "props p3 \<noteq> None"
      using f [of "pkt\<lparr>properties := p2\<rparr>" PropertyCorrelationData] by (auto simp: forwarded_props_def)
    then obtain p4 where p4: "forward_prop msg PropertyUserProperty (pkt\<lparr>properties := p3\<rparr>, None) =
      Some (pkt\<lparr>properties := p4\<rparr>, None)" "props p4 \<noteq> None"
      using f [of "pkt\<lparr>properties := p3\<rparr>" PropertyUserProperty] by (auto simp: forwarded_props_def)
    then obtain p5 where p5: "forward_prop msg PropertyContentType (pkt\<lparr>properties := p4\<rparr>, None) =
      Some (pkt\<lparr>properties := p5\<rparr>, None)" "props p5 \<noteq> None"
      using f [of "pkt\<lparr>properties := p4\<rparr>" PropertyContentType] by (auto simp: forwarded_props_def)
    show ?thesis
      using True p1 p2 p3 p4 p5 set
      by (intro exI [of _ p5]) (simp add: Publish_Clone_def Let_def, simp add: pkt_def)
  next
    case False
    then have "Publish_Clone v msg = Some (pkt, None)" using set by (auto simp: Publish_Clone_def Let_def)
    then show ?thesis by (intro exI [of _ "properties (New_Publish (h_version msg))"]) (simp add: pkt_def)
  qed
qed

text \<open>The quality of service a message leaves with: only from 2 to 1, never to 0.\<close>

definition delivered_QoS :: "QosType \<Rightarrow> QosType \<Rightarrow> QosType" where
  "delivered_QoS granted qos = (if granted = QoS1 \<and> qos = QoS2 then QoS1 else qos)"

lemma adapt_ok:
  assumes "mFlags pkt = push_bit 1 q OR (if r then 1 else 0)" and "Qos_IsValid q" and "packetID pkt = []"
  shows "\<exists>pkt'. subscriber_adapt granted ops pkt = Some pkt' \<and>
    pub_topic pkt' = pub_topic pkt \<and> pub_payload pkt' = pub_payload pkt \<and> expireAt pkt' = expireAt pkt \<and>
    h_version pkt' = h_version pkt \<and> properties pkt' = properties pkt \<and> mType pkt' = mType pkt \<and>
    Publish_QoS pkt' = delivered_QoS granted q \<and> Publish_Retain pkt' = (Ops_RAP ops \<and> r) \<and> \<not> Publish_Dup pkt' \<and>
    packetID pkt' = (if q = QoS0 then [] else [0, 0])"
proof -
  have flags: "mFlags pkt \<in> {0, 1, 2, 3, 4, 5}" "mFlags pkt = 2 * q + (if r then 1 else 0)"
    using assms(2) unfolding assms(1) by (elim Qos_cases; cases r; simp)+
  show ?thesis
    using assms(2)
    by (elim Qos_cases; cases r; cases "Ops_RAP ops"; cases "granted = QoS1")
       (simp_all add: subscriber_adapt_def Let_def Publish_SetRetain_def Publish_QoS_def Publish_Retain_def
         Publish_Dup_def Publish_SetQoS_def Qos_IsValid_def header_setPacketID_def alloc_packetID_def
         be_bytes16_def delivered_QoS_def assms(1,3))
qed

text \<open>
  A subscriber forwards every valid message once: with the same topic, payload and expiry,
  without the DUP flag, with the RETAIN flag only where the subscription asked for it as
  published, and with the quality of service lowered from 2 to 1 if 1 was granted. A message for
  a subscription that was granted 0 keeps the quality of service it was published with.
\<close>

theorem subscriber_Publish_adapts:
  assumes "ValidTopic (pub_topic p)" and "Qos_IsValid (Publish_QoS p)" and "mType p = PUBLISH"
    and "h_version p = ProtocolV50 \<or> ids = []"
  shows "\<exists>pkt. subscriber_Publish s p granted ops ids = Some (subscriber_forward s pkt, None) \<and>
    pub_topic pkt = pub_topic p \<and> pub_payload pkt = pub_payload p \<and> expireAt pkt = expireAt p \<and>
    h_version pkt = h_version p \<and> Publish_QoS pkt = delivered_QoS granted (Publish_QoS p) \<and>
    Publish_Retain pkt = (Ops_RAP ops \<and> Publish_Retain p) \<and> \<not> Publish_Dup pkt"
proof -
  define q r where "q = Publish_QoS p" and "r = Publish_Retain p"
  obtain pr where c: "Publish_Clone (sb_version s) p =
      Some ((New_Publish (h_version p))\<lparr>pub_topic := pub_topic p, pub_payload := pub_payload p,
        mFlags := push_bit 1 q OR (if r then 1 else 0), expireAt := expireAt p, properties := pr\<rparr>, None)"
    and pr: "h_version p = ProtocolV50 \<longrightarrow> props pr \<noteq> None"
    using Clone_ok [OF assms(1-3), of "sb_version s"] unfolding q_def r_def by blast
  define pkt where "pkt pr = (New_Publish (h_version p))\<lparr>pub_topic := pub_topic p, pub_payload := pub_payload p,
        mFlags := push_bit 1 q OR (if r then 1 else 0), expireAt := expireAt p, properties := pr\<rparr>" for pr
  have "\<exists>pr'. (if length ids > 0 then header_PropertySet (pkt pr) PropertySubscriptionIdentifier (VInts ids)
      else Some (pkt pr, None)) = Some (pkt pr', None)"
  proof (cases "ids = []")
    case False
    then have v: "h_version p = ProtocolV50" using assms(4) by simp
    then obtain m where "props pr = Some m" using pr by auto
    then show ?thesis
      using v False
      by (simp add: pkt_def header_PropertySet_def property_Set_def props_assign_def propertyAllowedMessageTypes_def
          propertyTypeOf_def propertyTypeMap_def propertyCalcLen_def) blast
  qed auto
  then obtain pr' where ps: "(if length ids > 0
      then header_PropertySet (pkt pr) PropertySubscriptionIdentifier (VInts ids)
      else Some (pkt pr, None)) = Some (pkt pr', None)" by blast
  obtain pkt' where a: "subscriber_adapt granted ops (pkt pr') = Some pkt'"
    "pub_topic pkt' = pub_topic p" "pub_payload pkt' = pub_payload p" "expireAt pkt' = expireAt p"
    "h_version pkt' = h_version p" "Publish_QoS pkt' = delivered_QoS granted q"
    "Publish_Retain pkt' = (Ops_RAP ops \<and> r)" "\<not> Publish_Dup pkt'"
    using adapt_ok [of "pkt pr'" q r granted ops] assms(2) by (auto simp: q_def pkt_def)
  have "subscriber_Publish s p granted ops ids = Some (subscriber_forward s pkt', None)"
    unfolding subscriber_Publish_def c pkt_def [symmetric] using ps a(1)
    by (simp split del: if_split)
  with a show ?thesis unfolding q_def r_def by blast
qed

theorem subscriber_Publish_adapts_witness:
  "\<exists>pkt. subscriber_Publish ((subscriber_New 7 [0x63] False ProtocolV50)\<lparr>sb_online := True\<rparr>)
       ((New_Publish ProtocolV50)\<lparr>pub_topic := [0x61], pub_payload := [1], mFlags := 5\<rparr>) QoS1 0 [5] =
     Some ([ToOnline pkt], None) \<and>
   pub_topic pkt = [0x61] \<and> Publish_QoS pkt = QoS1 \<and> \<not> Publish_Retain pkt"
  using subscriber_Publish_adapts [of "(New_Publish ProtocolV50)\<lparr>pub_topic := [0x61], pub_payload := [1], mFlags := 5\<rparr>"
      "[5]" "(subscriber_New 7 [0x63] False ProtocolV50)\<lparr>sb_online := True\<rparr>" QoS1 0]
  by (auto simp: ValidTopic_def go_defs Qos_IsValid_def Publish_QoS_def subscriber_forward_def Ops_RAP_def
      delivered_QoS_def)

text \<open>
  A message published in another protocol version than 5.0 never reaches a subscription that
  has a subscription identifier: setting the identifier on the copy fails and the message is
  dropped.
\<close>

theorem subscriber_identifier_lost:
  assumes "ValidTopic (pub_topic p)" and "Qos_IsValid (Publish_QoS p)" and "mType p = PUBLISH"
    and "h_version p \<noteq> ProtocolV50" and "ids \<noteq> []"
  shows "subscriber_Publish s p granted ops ids = Some ([], Some (EPkt ErrNotSupported))"
  using Clone_ok [OF assms(1-3), of "sb_version s"] assms(4,5)
  by (auto simp: subscriber_Publish_def header_PropertySet_def)

theorem subscriber_identifier_lost_witness:
  "subscriber_Publish (subscriber_New 7 [0x63] False ProtocolV50)
     ((New_Publish ProtocolV311)\<lparr>pub_topic := [0x61]\<rparr>) QoS1 1 [5] = Some ([], Some (EPkt ErrNotSupported))"
  by (rule subscriber_identifier_lost)
     (simp_all add: ValidTopic_def go_defs Qos_IsValid_def Publish_QoS_def)

end
