(* ===== verification/Sub_Interleaving.thy ===== *)
theory Sub_Interleaving
  imports Subscriber
begin

text \<open>
  \<open>Publish\<close> and \<open>Offline\<close> of \<open>src/subscriber/subscriber.go\<close> as goroutines: the channel \<open>isOnline\<close>, the lock
  \<open>publishLock\<close> and the two wait groups decide whether a message goes to the connection or to the
  store while the connection closes. A goroutine is the point it has reached; a step is one atomic action of
  one of them and a schedule chooses who is next.
\<close>

section \<open>Goroutines\<close>

text \<open>
  A call of \<open>Publish\<close>, after the message has been adapted: the argument says which branch of the
  \<open>select\<close> it took, \<open>True\<close> for the connection. It returns with the branch, or \<open>None\<close> if the message was dropped.
\<close>

datatype pub_pc =
    AtSelect | AtRLock bool | AtWgAdd bool | AtRUnlock bool | AtForward bool | AtWgDone bool | PubReturned "bool option"

datatype off_pc = OffSelect | OffClose | OffLock | OffDrain | OffWait | OffUnlock | OffReturned

text \<open>
  \<open>sr_open\<close>: the channel is not closed; \<open>sr_writer\<close>: \<open>Lock\<close> has been called and not released, which keeps new readers
  out; \<open>sr_conn\<close> and \<open>sr_store\<close>: the calls of \<open>Publish\<close> that have called \<open>publishOnline\<close> and \<open>publishOffline\<close>.
\<close>

record sub_race =
  sr_open :: bool
  sr_writer :: bool
  sr_readers :: int
  sr_wgOnline :: int
  sr_wgOffline :: int
  sr_keeps :: "bool list"
  sr_pcs :: "pub_pc list"
  sr_off :: off_pc
  sr_conn :: "nat list"
  sr_store :: "nat list"

text \<open>The messages \<open>ms\<close> are about to be published and a call of \<open>Offline\<close> is about to begin.\<close>

definition race_start :: "bool \<Rightarrow> Publish list \<Rightarrow> sub_race" where
  "race_start offlineQoS0 ms =
     \<lparr>sr_open = True, sr_writer = False, sr_readers = 0, sr_wgOnline = 0, sr_wgOffline = 0,
      sr_keeps = map (\<lambda>m. Publish_QoS m \<noteq> QoS0 \<or> (offlineQoS0 \<and> Publish_QoS m = QoS0)) ms,
      sr_pcs = replicate (length ms) AtSelect, sr_off = OffSelect, sr_conn = [], sr_store = []\<rparr>"

definition wg_add :: "bool \<Rightarrow> int \<Rightarrow> sub_race \<Rightarrow> sub_race" where
  "wg_add on d s = (if on then s\<lparr>sr_wgOnline := sr_wgOnline s + d\<rparr> else s\<lparr>sr_wgOffline := sr_wgOffline s + d\<rparr>)"

fun pub_effect :: "nat \<Rightarrow> pub_pc \<Rightarrow> sub_race \<Rightarrow> (pub_pc \<times> sub_race) option" where
  "pub_effect i AtSelect s =
     Some (if sr_open s then AtRLock True else if sr_keeps s ! i then AtRLock False else PubReturned None, s)"
| "pub_effect i (AtRLock on) s = (if sr_writer s then None else Some (AtWgAdd on, s\<lparr>sr_readers := sr_readers s + 1\<rparr>))"
| "pub_effect i (AtWgAdd on) s = Some (AtRUnlock on, wg_add on 1 s)"
| "pub_effect i (AtRUnlock on) s = Some (AtForward on, s\<lparr>sr_readers := sr_readers s - 1\<rparr>)"
| "pub_effect i (AtForward on) s =
     Some (AtWgDone on, if on then s\<lparr>sr_conn := sr_conn s @ [i]\<rparr> else s\<lparr>sr_store := sr_store s @ [i]\<rparr>)"
| "pub_effect i (AtWgDone on) s = Some (PubReturned (Some on), wg_add on (- 1) s)"
| "pub_effect i (PubReturned r) s = None"

definition race_Publish :: "nat \<Rightarrow> sub_race \<Rightarrow> sub_race option" where
  "race_Publish i s =
     (if i < length (sr_pcs s) then
        map_option (\<lambda>(pc, t). t\<lparr>sr_pcs := (sr_pcs t)[i := pc]\<rparr>) (pub_effect i (sr_pcs s ! i) s)
      else None)"

definition race_Offline :: "sub_race \<Rightarrow> sub_race option" where
  "race_Offline s =
     (case sr_off s of
        OffSelect \<Rightarrow> Some (s\<lparr>sr_off := (if sr_open s then OffClose else OffReturned)\<rparr>)
      | OffClose \<Rightarrow> Some (s\<lparr>sr_open := False, sr_off := OffLock\<rparr>)
      | OffLock \<Rightarrow> if sr_writer s then None else Some (s\<lparr>sr_writer := True, sr_off := OffDrain\<rparr>)
      | OffDrain \<Rightarrow> if sr_readers s = 0 then Some (s\<lparr>sr_off := OffWait\<rparr>) else None
      | OffWait \<Rightarrow> if sr_wgOnline s = 0 then Some (s\<lparr>sr_off := OffUnlock\<rparr>) else None
      | OffUnlock \<Rightarrow> Some (s\<lparr>sr_writer := False, sr_off := OffReturned\<rparr>)
      | OffReturned \<Rightarrow> None)"

text \<open>The goroutine \<open>Some i\<close> is a call of \<open>Publish\<close>, \<open>None\<close> the call of \<open>Offline\<close>; one that cannot go on stays.\<close>

definition race_next :: "nat option \<Rightarrow> sub_race \<Rightarrow> sub_race option" where
  "race_next g s = (case g of Some i \<Rightarrow> race_Publish i s | None \<Rightarrow> race_Offline s)"

fun race_run :: "nat option list \<Rightarrow> sub_race \<Rightarrow> sub_race" where
  "race_run [] s = s"
| "race_run (g # gs) s = race_run gs (case race_next g s of Some s' \<Rightarrow> s' | None \<Rightarrow> s)"

definition race_over :: "sub_race \<Rightarrow> bool" where
  "race_over s = (sr_off s = OffReturned \<and> (\<forall>pc \<in> set (sr_pcs s). \<exists>r. pc = PubReturned r))"

section \<open>The invariant\<close>

definition how_many :: "('a \<Rightarrow> bool) \<Rightarrow> 'a list \<Rightarrow> int" where
  "how_many P xs = int (length (filter P xs))"

definition reading :: "pub_pc \<Rightarrow> bool" where
  "reading pc = (\<exists>on. pc = AtWgAdd on \<or> pc = AtRUnlock on)"

definition counted :: "bool \<Rightarrow> pub_pc \<Rightarrow> bool" where
  "counted on pc = (pc = AtRUnlock on \<or> pc = AtForward on \<or> pc = AtWgDone on)"

definition handed :: "bool \<Rightarrow> pub_pc \<Rightarrow> bool" where
  "handed on pc = (pc = AtWgDone on \<or> pc = PubReturned (Some on))"

definition handed_ok :: "bool \<Rightarrow> nat list \<Rightarrow> pub_pc list \<Rightarrow> bool" where
  "handed_ok on log pcs = (distinct log \<and> (\<forall>i. i \<in> set log \<longleftrightarrow> i < length pcs \<and> handed on (pcs ! i)))"

definition race_inv :: "sub_race \<Rightarrow> bool" where
  "race_inv s =
     (sr_readers s = how_many reading (sr_pcs s) \<and>
      sr_wgOnline s = how_many (counted True) (sr_pcs s) \<and> sr_wgOffline s = how_many (counted False) (sr_pcs s) \<and>
      (sr_writer s \<longleftrightarrow> sr_off s = OffDrain \<or> sr_off s = OffWait \<or> sr_off s = OffUnlock) \<and>
      (sr_open s \<longleftrightarrow> sr_off s = OffSelect \<or> sr_off s = OffClose) \<and>
      handed_ok True (sr_conn s) (sr_pcs s) \<and> handed_ok False (sr_store s) (sr_pcs s))"

lemma how_many_update:
  assumes "i < length xs"
  shows "how_many P (xs[i := y]) = how_many P xs - of_bool (P (xs ! i)) + of_bool (P y)"
proof -
  have "filter P (xs[i := y]) = filter P (take i xs) @ (if P y then [y] else []) @ filter P (drop (Suc i) xs)"
    using assms by (simp add: upd_conv_take_nth_drop)
  moreover have "filter P xs = filter P (take i xs) @ (if P (xs ! i) then [xs ! i] else []) @ filter P (drop (Suc i) xs)"
    using assms by (subst id_take_nth_drop [OF assms]) simp
  ultimately show ?thesis by (simp add: how_many_def)
qed

lemmas race_defs = reading_def counted_def handed_def

lemma pub_effect_shared:
  assumes "pub_effect i pc s = Some (pc', t)"
  shows "sr_pcs t = sr_pcs s" "sr_off t = sr_off s" "sr_open t = sr_open s" "sr_writer t = sr_writer s"
    "sr_readers t = sr_readers s - of_bool (reading pc) + of_bool (reading pc')"
    "sr_wgOnline t = sr_wgOnline s - of_bool (counted True pc) + of_bool (counted True pc')"
    "sr_wgOffline t = sr_wgOffline s - of_bool (counted False pc) + of_bool (counted False pc')"
  using assms by (cases pc; auto simp: race_defs wg_add_def split: if_split_asm)+

lemma pub_effect_handed:
  assumes "pub_effect i pc s = Some (pc', t)"
  shows "handed on pc \<longrightarrow> handed on pc'"
    "sr_conn t = sr_conn s @ (if handed True pc' \<and> \<not> handed True pc then [i] else [])"
    "sr_store t = sr_store s @ (if handed False pc' \<and> \<not> handed False pc then [i] else [])"
  using assms by (cases pc; auto simp: race_defs wg_add_def split: if_split_asm)+

lemma handed_ok_update:
  assumes "i < length pcs" and "handed on (pcs ! i) \<longrightarrow> handed on pc" and "handed_ok on log pcs"
  shows "handed_ok on (log @ (if handed on pc \<and> \<not> handed on (pcs ! i) then [i] else [])) (pcs[i := pc])"
  using assms by (auto simp: handed_ok_def nth_list_update)

lemma race_inv_Publish:
  assumes "race_Publish i s = Some s'" and "race_inv s"
  shows "race_inv s'"
proof -
  obtain pc t where i: "i < length (sr_pcs s)" and e: "pub_effect i (sr_pcs s ! i) s = Some (pc, t)"
    and s': "s' = t\<lparr>sr_pcs := (sr_pcs t)[i := pc]\<rparr>"
    using assms(1) by (auto simp: race_Publish_def split: if_split_asm)
  note f = pub_effect_shared [OF e] and h = pub_effect_handed [OF e]
  note inv = assms(2) [unfolded race_inv_def]
  show ?thesis
    unfolding race_inv_def s'
    using inv f(2-7) handed_ok_update [OF i h(1)] by (simp add: f(1) h(2,3) how_many_update [OF i])
qed

lemma race_inv_Offline:
  assumes "race_Offline s = Some s'" and "race_inv s"
  shows "race_inv s'"
  using assms by (cases "sr_off s") (auto simp: race_Offline_def race_inv_def split: if_split_asm)

lemma race_inv_next: "race_next g s = Some s' \<Longrightarrow> race_inv s \<Longrightarrow> race_inv s'"
  by (auto simp: race_next_def intro: race_inv_Publish race_inv_Offline split: option.splits)

lemma race_inv_run: "race_inv s \<Longrightarrow> race_inv (race_run gs s)"
  by (induction gs arbitrary: s) (auto split: option.split dest: race_inv_next)

lemma race_inv_start: "race_inv (race_start offlineQoS0 ms)"
  by (auto simp: race_inv_def race_start_def how_many_def race_defs handed_ok_def filter_empty_conv)

section \<open>Every schedule can be finished\<close>

text \<open>The actions a goroutine has left.\<close>

fun pub_left :: "pub_pc \<Rightarrow> nat" where
  "pub_left AtSelect = 6"
| "pub_left (AtRLock on) = 5"
| "pub_left (AtWgAdd on) = 4"
| "pub_left (AtRUnlock on) = 3"
| "pub_left (AtForward on) = 2"
| "pub_left (AtWgDone on) = 1"
| "pub_left (PubReturned r) = 0"

fun off_left :: "off_pc \<Rightarrow> nat" where
  "off_left OffSelect = 6"
| "off_left OffClose = 5"
| "off_left OffLock = 4"
| "off_left OffDrain = 3"
| "off_left OffWait = 2"
| "off_left OffUnlock = 1"
| "off_left OffReturned = 0"

definition race_left :: "sub_race \<Rightarrow> nat" where
  "race_left s = sum_list (map pub_left (sr_pcs s)) + off_left (sr_off s)"

lemma race_left_next:
  assumes "race_next g s = Some s'"
  shows "race_left s' < race_left s"
proof (cases g)
  case None
  then show ?thesis
    using assms by (auto simp: race_next_def race_Offline_def race_left_def split: off_pc.splits if_split_asm)
next
  case (Some i)
  then obtain pc t where i: "i < length (sr_pcs s)" and e: "pub_effect i (sr_pcs s ! i) s = Some (pc, t)"
    and s': "s' = t\<lparr>sr_pcs := (sr_pcs t)[i := pc]\<rparr>"
    using assms by (auto simp: race_next_def race_Publish_def split: if_split_asm)
  have "pub_left pc < pub_left (sr_pcs s ! i)" using e by (cases "sr_pcs s ! i") (auto split: if_split_asm)
  moreover have "sum_list (map pub_left (sr_pcs s)) = sum_list (map pub_left (take i (sr_pcs s))) +
      pub_left (sr_pcs s ! i) + sum_list (map pub_left (drop (Suc i) (sr_pcs s)))"
    by (subst id_take_nth_drop [OF i]) simp
  ultimately show ?thesis
    using pub_effect_shared(1,2) [OF e] i by (simp add: race_left_def s' upd_conv_take_nth_drop)
qed

lemma race_enabled:
  assumes "race_inv s" and "\<not> race_over s"
  shows "\<exists>g s'. race_next g s = Some s'"
proof (cases "\<exists>i < length (sr_pcs s). pub_effect i (sr_pcs s ! i) s \<noteq> None")
  case True
  then obtain i pc t where "i < length (sr_pcs s)" "pub_effect i (sr_pcs s ! i) s = Some (pc, t)" by auto
  then have "race_next (Some i) s = Some (t\<lparr>sr_pcs := (sr_pcs t)[i := pc]\<rparr>)"
    by (simp add: race_next_def race_Publish_def)
  then show ?thesis by blast
next
  case False
  have stuck: "(\<exists>r. pc = PubReturned r) \<or> sr_writer s \<and> (\<exists>on. pc = AtRLock on)" if "pc \<in> set (sr_pcs s)" for pc
  proof -
    obtain i where "pub_effect i pc s = None" using \<open>pc \<in> _\<close> False by (metis in_set_conv_nth)
    then show ?thesis by (cases pc) (auto split: if_split_asm)
  qed
  then have "sr_readers s = 0" "sr_wgOnline s = 0"
    using assms(1) by (force simp: race_inv_def how_many_def race_defs filter_empty_conv)+
  moreover have "sr_off s \<noteq> OffReturned"
    using stuck assms by (auto simp: race_inv_def race_over_def)
  ultimately have "race_Offline s \<noteq> None"
    using assms(1) by (cases "sr_off s") (auto simp: race_Offline_def race_inv_def)
  then show ?thesis by (auto simp: race_next_def intro!: exI [of _ None])
qed

lemma race_run_append: "race_run (gs @ hs) s = race_run hs (race_run gs s)"
  by (induction gs arbitrary: s) simp_all

lemma race_finish: "race_inv s \<Longrightarrow> \<exists>gs. race_over (race_run gs s)"
proof (induction s rule: measure_induct_rule [of race_left])
  case (less s)
  show ?case
  proof (cases "race_over s")
    case True
    then show ?thesis by (intro exI [of _ "[]"]) simp
  next
    case False
    then obtain g s' where n: "race_next g s = Some s'" using race_enabled [OF less.prems] by blast
    then obtain gs where "race_over (race_run gs s')"
      using less.IH [OF race_left_next [OF n] race_inv_next [OF n less.prems]] by blast
    then show ?thesis using n by (intro exI [of _ "g # gs"]) simp
  qed
qed

section \<open>What becomes of the messages\<close>

lemma handed_disjoint:
  assumes "handed_ok True xs pcs" and "handed_ok False ys pcs"
  shows "distinct (xs @ ys)"
proof -
  have "handed True pc \<Longrightarrow> \<not> handed False pc" for pc by (auto simp: handed_def)
  moreover have "i \<in> set xs \<Longrightarrow> handed True (pcs ! i)" "i \<in> set ys \<Longrightarrow> handed False (pcs ! i)" for i
    using assms by (simp_all add: handed_ok_def)
  ultimately have "set xs \<inter> set ys = {}" by blast
  then show ?thesis using assms by (simp add: handed_ok_def)
qed

definition dropped_ok :: "bool \<Rightarrow> Publish list \<Rightarrow> sub_race \<Rightarrow> bool" where
  "dropped_ok offlineQoS0 ms s =
     (sr_keeps s = map (\<lambda>m. Publish_QoS m \<noteq> QoS0 \<or> (offlineQoS0 \<and> Publish_QoS m = QoS0)) ms \<and>
      length (sr_pcs s) = length ms \<and>
      (\<forall>i < length ms. sr_pcs s ! i = PubReturned None \<longrightarrow> Publish_QoS (ms ! i) = QoS0 \<and> \<not> offlineQoS0))"

lemma pub_effect_keeps:
  assumes "pub_effect i pc s = Some (pc', t)"
  shows "sr_keeps t = sr_keeps s" and "pc' = PubReturned None \<Longrightarrow> \<not> sr_keeps s ! i"
proof -
  show "sr_keeps t = sr_keeps s"
    using assms by (cases pc) (auto simp: wg_add_def split: if_split_asm)
  show "\<not> sr_keeps s ! i" if "pc' = PubReturned None"
    using assms that by (cases pc) (auto split: if_split_asm)
qed

lemma dropped_next:
  assumes "race_next g s = Some s'" and "dropped_ok offlineQoS0 ms s"
  shows "dropped_ok offlineQoS0 ms s'"
proof (cases g)
  case None
  then show ?thesis
    using assms by (auto simp: race_next_def race_Offline_def dropped_ok_def split: off_pc.splits if_split_asm)
next
  case (Some i)
  then obtain pc t where i: "i < length (sr_pcs s)" and e: "pub_effect i (sr_pcs s ! i) s = Some (pc, t)"
    and s': "s' = t\<lparr>sr_pcs := (sr_pcs t)[i := pc]\<rparr>"
    using assms(1) by (auto simp: race_next_def race_Publish_def split: if_split_asm)
  show ?thesis
    using assms(2) i pub_effect_shared(1) [OF e] pub_effect_keeps [OF e]
    by (auto simp: dropped_ok_def s' nth_list_update)
qed

lemma dropped_run: "dropped_ok offlineQoS0 ms s \<Longrightarrow> dropped_ok offlineQoS0 ms (race_run gs s)"
  by (induction gs arbitrary: s) (auto split: option.split dest: dropped_next)

text \<open>
  C21. However the calls of \<open>Publish\<close> and a call of \<open>Offline\<close> are interleaved, they do not deadlock: every state can be
  continued until all have returned. No message is ever handed on twice, and in the end every message has gone
  to exactly one of the connection and the store, apart from those that are not kept for an absent client.
\<close>

theorem publishes_handed_once:
  fixes offlineQoS0 :: bool and ms :: "Publish list" and gs :: "nat option list"
  defines "s \<equiv> race_run gs (race_start offlineQoS0 ms)"
  shows "distinct (sr_conn s @ sr_store s) \<and>
    (\<exists>hs. race_over (race_run hs s)) \<and>
    (race_over s \<longrightarrow> (\<forall>i < length ms. i \<in> set (sr_conn s @ sr_store s) \<or>
       (Publish_QoS (ms ! i) = QoS0 \<and> \<not> offlineQoS0)))"
proof -
  have inv: "race_inv s" unfolding s_def by (rule race_inv_run [OF race_inv_start])
  have dropped: "dropped_ok offlineQoS0 ms s"
    unfolding s_def by (rule dropped_run) (auto simp: dropped_ok_def race_start_def)
  have h: "handed_ok True (sr_conn s) (sr_pcs s)" "handed_ok False (sr_store s) (sr_pcs s)"
    using inv by (simp_all add: race_inv_def)
  then have "distinct (sr_conn s @ sr_store s)" by (rule handed_disjoint)
  moreover have "i \<in> set (sr_conn s @ sr_store s) \<or> (Publish_QoS (ms ! i) = QoS0 \<and> \<not> offlineQoS0)"
    if over: "race_over s" and "i < length ms" for i
  proof -
    have i: "i < length (sr_pcs s)" using dropped that(2) by (simp add: dropped_ok_def)
    then have "sr_pcs s ! i \<in> set (sr_pcs s)" by simp
    then obtain r where r: "sr_pcs s ! i = PubReturned r" using over by (auto simp: race_over_def)
    show ?thesis
    proof (cases r)
      case None
      then show ?thesis using dropped r that(2) by (simp add: dropped_ok_def)
    next
      case (Some on)
      then have "handed on (sr_pcs s ! i)" by (simp add: r handed_def)
      then show ?thesis using h i by (cases on) (simp_all add: handed_ok_def)
    qed
  qed
  ultimately show ?thesis using race_finish [OF inv] by blast
qed

definition sample_race :: sub_race where
  "sample_race = race_run (replicate 6 (Some 0) @ replicate 6 None @ [Some 1])
     (race_start False [New_Publish ProtocolV311, New_Publish ProtocolV311])"

theorem publishes_handed_once_witness:
  "race_over sample_race \<and> distinct (sr_conn sample_race @ sr_store sample_race) \<and> 0 \<in> set (sr_conn sample_race)"
proof -
  have s: "sr_off sample_race = OffReturned" "sr_pcs sample_race = [PubReturned (Some True), PubReturned None]"
      "sr_conn sample_race = [0]"
    by (simp_all add: sample_race_def race_start_def race_next_def race_Publish_def race_Offline_def wg_add_def
        numeral_eq_Suc Publish_QoS_def)
  moreover have "distinct (sr_conn sample_race @ sr_store sample_race)"
    using publishes_handed_once [of "replicate 6 (Some 0) @ replicate 6 None @ [Some 1]" False
        "[New_Publish ProtocolV311, New_Publish ProtocolV311]"] by (simp only: sample_race_def)
  ultimately show ?thesis by (simp add: race_over_def)
qed

text \<open>
  C31. A message can be lost while the connection closes: a call of \<open>Publish\<close> that has seen the channel open and has not yet
  taken the lock is not waited for. \<open>Offline\<close> returns (after which the connection writes its queues to
  the store), then the message is handed to the connection, and it is never handed to the store. The comment
  in \<open>Offline\<close> says that it waits for all remaining publishes.
\<close>

theorem late_publish_lost:
  assumes "i < length ms" and "Publish_QoS (ms ! i) \<noteq> QoS0"
  shows "\<exists>gs hs s t. race_run gs (race_start offlineQoS0 ms) = s \<and> sr_off s = OffReturned \<and> sr_conn s = [] \<and>
    race_run hs s = t \<and> sr_conn t = [i] \<and> sr_store t = [] \<and> sr_pcs t ! i = PubReturned (Some True)"
proof (intro exI conjI)
  let ?s = "race_run [Some i, None, None, None, None, None, None] (race_start offlineQoS0 ms)"
  let ?t = "race_run [Some i, Some i, Some i, Some i, Some i] ?s"
  show "?s = ?s" "?t = ?t" by simp_all
  show "sr_off ?s = OffReturned" "sr_conn ?s = []" "sr_conn ?t = [i]" "sr_store ?t = []"
      "sr_pcs ?t ! i = PubReturned (Some True)"
    using assms(1)
    by (simp_all add: race_start_def race_next_def race_Publish_def race_Offline_def wg_add_def)
qed

theorem late_publish_lost_witness:
  "\<exists>gs hs s t. race_run gs (race_start False [(New_Publish ProtocolV311)\<lparr>mFlags := 2\<rparr>]) = s \<and> sr_off s = OffReturned \<and>
     race_run hs s = t \<and> sr_conn s = [] \<and> sr_conn t = [0] \<and> sr_store t = []"
  using late_publish_lost [of 0 "[(New_Publish ProtocolV311)\<lparr>mFlags := 2\<rparr>]" False] by (auto simp: Publish_QoS_def)

end
