(* ===== verification/Flow_Control.thy ===== *)
theory Flow_Control
  imports Packet "HOL-Library.AList"
begin

text \<open>
  \<open>src/connection/ack.go\<close> and \<open>src/connection/flowControl.go\<close>: the queues of messages that wait for an
  acknowledgement, and the packet identifiers and the send quota of a connection. A \<open>sync.Map\<close> is
  an association list (the queue) or a list of keys (the identifiers in use); \<open>SendQuota\<close> is an
  \<open>int32\<close> that wraps, and the counter of identifiers is a \<open>uint64\<close> cut to 16 bits.
\<close>

section \<open>The queue of unacknowledged messages\<close>

text \<open>\<open>pkt.ID()\<close> with the error dropped; \<open>None\<close> is the panic on a one-byte identifier.\<close>

fun Packet_packetID :: "packet \<Rightarrow> byte list" where
  "Packet_packetID (PConnect m) = packetID m"
| "Packet_packetID (PConnAck m) = packetID m"
| "Packet_packetID (PPublish m) = packetID m"
| "Packet_packetID (PAck m) = packetID m"
| "Packet_packetID (PSubscribe m) = packetID m"
| "Packet_packetID (PSubAck m) = packetID m"
| "Packet_packetID (PUnSubscribe m) = packetID m"
| "Packet_packetID (PUnSubAck m) = packetID m"
| "Packet_packetID (PPingReq m) = packetID m"
| "Packet_packetID (PPingResp m) = packetID m"
| "Packet_packetID (PDisconnect m) = packetID m"
| "Packet_packetID (PAuth m) = packetID m"

definition packet_id :: "packet \<Rightarrow> IDType option" where
  "packet_id p = (if Packet_packetID p = [] then Some 0 else be_uint16 (Packet_packetID p))"

type_synonym ackQueue = "(IDType \<times> packet) list"

definition ackQueue_store :: "packet \<Rightarrow> ackQueue \<Rightarrow> ackQueue option" where
  "ackQueue_store pkt a = do { i \<leftarrow> packet_id pkt; Some (AList.update i pkt a) }"

text \<open>The second result is the stored message \<open>onRelease\<close> is called with, if there is one.\<close>

definition ackQueue_release :: "packet \<Rightarrow> ackQueue \<Rightarrow> (ackQueue \<times> packet option) option" where
  "ackQueue_release pkt a = do {
     i \<leftarrow> packet_id pkt;
     (case map_of a i of
        Some orig \<Rightarrow> Some (AList.delete i a, Some orig)
      | None \<Rightarrow> Some (a, None)) }"

section \<open>Packet identifiers and quota\<close>

record flow =
  f_inUse :: "IDType list"
  f_counter :: uint64
  f_quota :: int32

datatype flow_error = errExit | errQuotaExceeded

definition flowReAcquire :: "IDType \<Rightarrow> flow \<Rightarrow> flow" where
  "flowReAcquire i s = s\<lparr>f_quota := f_quota s - 1, f_inUse := List.insert i (f_inUse s)\<rparr>"

text \<open>
  The loop \<open>for count := 0; count <= 0xFFFF; count++\<close> with \<open>n\<close> rounds left: it ends at the first
  identifier that is free, or with the last one it tried.
\<close>

fun flow_search :: "nat \<Rightarrow> uint64 \<Rightarrow> IDType list \<Rightarrow> uint64 \<times> IDType \<times> IDType list" where
  "flow_search n c u =
     (if n = 0 then (c, ucast c, u)
      else (let c' = c + 1; i = ucast c' in
            if i \<notin> set u then (c', i, i # u) else flow_search (n - 1) c' u))"

declare flow_search.simps [simp del]

definition flowAcquire :: "bool \<Rightarrow> flow \<Rightarrow> flow \<times> IDType \<times> flow_error option" where
  "flowAcquire quit s =
     (if quit then (s, 0, Some errExit)
      else (let q = f_quota s - 1;
                err = (if q = 0 then Some errQuotaExceeded else None);
                (c, i, u) = flow_search (0xFFFF + 1) (f_counter s) (f_inUse s)
            in (s\<lparr>f_quota := q, f_counter := c, f_inUse := u\<rparr>, i, err)))"

definition flowRelease :: "IDType \<Rightarrow> flow \<Rightarrow> flow \<times> bool" where
  "flowRelease i s =
     (let q = f_quota s + 1 in (s\<lparr>f_inUse := remove1 i (f_inUse s), f_quota := q\<rparr>, q = 1))"

section \<open>The identifier that is acquired\<close>

lemma flow_search_hit:
  assumes "k < n" and "ucast (c + of_nat (Suc k)) \<notin> set u"
    and "\<And>j. j < k \<Longrightarrow> ucast (c + of_nat (Suc j)) \<in> set u"
  shows "flow_search n c u = (c + of_nat (Suc k), ucast (c + of_nat (Suc k)), ucast (c + of_nat (Suc k)) # u)"
  using assms
proof (induction k arbitrary: n c)
  case 0
  then show ?case by (subst flow_search.simps) (simp add: Let_def)
next
  case (Suc k)
  have first: "ucast (c + 1) \<in> set u" using Suc.prems(3) [of 0] by simp
  have shift: "(c + 1) + of_nat (Suc j) = c + of_nat (Suc (Suc j))" for j by (simp add: algebra_simps)
  have "flow_search (n - 1) (c + 1) u =
      ((c + 1) + of_nat (Suc k), ucast ((c + 1) + of_nat (Suc k)), ucast ((c + 1) + of_nat (Suc k)) # u)"
  proof (rule Suc.IH)
    show "k < n - 1" using Suc.prems(1) by simp
    show "ucast ((c + 1) + of_nat (Suc k)) \<notin> set u" unfolding shift by (rule Suc.prems(2))
    show "ucast ((c + 1) + of_nat (Suc j)) \<in> set u" if "j < k" for j
      unfolding shift using that by (intro Suc.prems(3)) simp
  qed
  with first Suc.prems(1) show ?case
    unfolding shift by (subst flow_search.simps) (simp add: Let_def)
qed

lemma flow_search_full:
  assumes "\<And>j. j < n \<Longrightarrow> ucast (c + of_nat (Suc j)) \<in> set u"
  shows "flow_search n c u = (c + of_nat n, ucast (c + of_nat n), u)"
  using assms
proof (induction n arbitrary: c)
  case 0
  then show ?case by (subst flow_search.simps) simp
next
  case (Suc n)
  have first: "ucast (c + 1) \<in> set u" using Suc.prems [of 0] by simp
  have shift: "(c + 1) + of_nat (Suc j) = c + of_nat (Suc (Suc j))" for j by (simp add: algebra_simps)
  have "flow_search n (c + 1) u = ((c + 1) + of_nat n, ucast ((c + 1) + of_nat n), u)"
    by (rule Suc.IH) (unfold shift, intro Suc.prems, simp)
  with first show ?case by (subst flow_search.simps) (simp add: Let_def algebra_simps)
qed

text \<open>The counter runs through all 16-bit values.\<close>

lemma ucast_add_down: "(ucast (a + b :: uint64) :: IDType) = ucast a + ucast b"
proof -
  have "take_bit 16 (k + l) = take_bit 16 (take_bit 64 k + take_bit 64 l)" for k l :: int
    using take_bit_add [of 16 k l] take_bit_add [of 16 "take_bit 64 k" "take_bit 64 l"] by simp
  then show ?thesis by transfer simp
qed

lemma ucast_of_nat_down: "(ucast (of_nat n :: uint64) :: IDType) = of_nat n"
  by (induction n) (simp_all add: ucast_add_down)

lemma counter_reaches:
  fixes c :: uint64 and i :: IDType
  shows "\<exists>k < 0x10000. ucast (c + of_nat (Suc k)) = i"
proof -
  define d where "d = unat (i - ucast c - 1)"
  have "d < 0x10000" using unsigned_less [of "i - ucast c - 1"] by (simp add: d_def)
  moreover have "(of_nat d :: IDType) = i - ucast c - 1" by (simp add: d_def)
  then have "ucast (c + of_nat (Suc d)) = i" by (simp add: ucast_add_down ucast_of_nat_down)
  ultimately show ?thesis by blast
qed

lemma flow_search_fresh:
  assumes "set u \<noteq> UNIV" and "flow_search 0x10000 c u = (c', i, u')"
  shows "i \<notin> set u" and "u' = i # u"
proof -
  define free where "free k \<longleftrightarrow> k < 0x10000 \<and> ucast (c + of_nat (Suc k)) \<notin> set u" for k :: nat
  obtain i0 where "i0 \<notin> set u" using assms(1) by blast
  then have "\<exists>k. free k" using counter_reaches [of c i0] by (auto simp: free_def)
  then obtain k where k: "free k" and least: "\<And>j. j < k \<Longrightarrow> \<not> free j"
    using exists_least_iff [of free] by auto
  have "flow_search 0x10000 c u = (c + of_nat (Suc k), ucast (c + of_nat (Suc k)), ucast (c + of_nat (Suc k)) # u)"
    by (rule flow_search_hit) (use k least in \<open>auto simp: free_def\<close>)
  with k assms(2) show "i \<notin> set u" and "u' = i # u" by (auto simp: free_def)
qed

lemma flowAcquire_fresh_sharp:
  assumes a: "flowAcquire False s = (s', i, err)"
  shows "(if set (f_inUse s) \<noteq> UNIV then i \<notin> set (f_inUse s) \<and> f_inUse s' = i # f_inUse s
      else f_inUse s' = f_inUse s) \<and>
     f_quota s' = f_quota s - 1 \<and> err = (if f_quota s = 1 then Some errQuotaExceeded else None)"
proof -
  obtain c i' u where f: "flow_search 0x10000 (f_counter s) (f_inUse s) = (c, i', u)"
    by (cases "flow_search 0x10000 (f_counter s) (f_inUse s)")
  have s': "s' = s\<lparr>f_quota := f_quota s - 1, f_counter := c, f_inUse := u\<rparr>" "i = i'"
    "err = (if f_quota s - 1 = 0 then Some errQuotaExceeded else None)"
    using a f by (simp_all add: flowAcquire_def Let_def)
  show ?thesis
  proof (cases "set (f_inUse s) = UNIV")
    case True
    then have "u = f_inUse s" using flow_search_full [of "0x10000" "f_counter s" "f_inUse s"] f by simp
    with True s' show ?thesis by simp
  next
    case False
    with flow_search_fresh [OF _ f] s' show ?thesis by simp
  qed
qed

text \<open>
  As long as one of the 65536 identifiers is free, acquiring one ends with an identifier that
  was not in use and marks it; the quota goes down by one and the caller is told exactly when it
  reaches zero. When all are in use the identifier that is returned is in use already.
\<close>

theorem flowAcquire_fresh:
  "flowAcquire False s = (s', i, err) \<Longrightarrow>
     (if set (f_inUse s) \<noteq> UNIV then i \<notin> set (f_inUse s) \<and> f_inUse s' = i # f_inUse s
      else f_inUse s' = f_inUse s) \<and>
     f_quota s' = f_quota s - 1 \<and> err = (if f_quota s = 1 then Some errQuotaExceeded else None)"
  by (rule flowAcquire_fresh_sharp)

theorem flowAcquire_fresh_witness:
  "\<exists>s' i. flowAcquire False \<lparr>f_inUse = [1], f_counter = 0, f_quota = 1\<rparr> = (s', i, Some errQuotaExceeded) \<and>
     i \<noteq> 1 \<and> f_inUse s' = [i, 1]"
proof -
  let ?s = "\<lparr>f_inUse = [1], f_counter = 0, f_quota = 1\<rparr> :: flow"
  obtain s' i err where a: "flowAcquire False ?s = (s', i, err)" by (cases "flowAcquire False ?s")
  have "0 \<notin> set (f_inUse ?s)" by simp
  then have "set (f_inUse ?s) \<noteq> UNIV" by blast
  with flowAcquire_fresh [OF a] a show ?thesis by auto
qed

text \<open>
  The identifier zero, which the protocol reserves, is handed out each time the counter comes
  to a multiple of 65536 while zero is free.
\<close>

theorem flowAcquire_zero:
  assumes "ucast (f_counter s) = (0xFFFF :: IDType)" and "0 \<notin> set (f_inUse s)"
  shows "\<exists>s' err. flowAcquire False s = (s', 0, err)"
proof -
  have z: "(ucast (f_counter s + 1) :: IDType) = 0" using assms(1) by (simp add: ucast_add_down)
  then have "flow_search 0x10000 (f_counter s) (f_inUse s) = (f_counter s + 1, 0, 0 # f_inUse s)"
    using assms(2) by (subst flow_search.simps) (simp add: Let_def)
  then show ?thesis by (simp add: flowAcquire_def Let_def)
qed

theorem flowAcquire_zero_witness:
  "\<exists>s' err. flowAcquire False \<lparr>f_inUse = [7], f_counter = 0xFFFF, f_quota = 5\<rparr> = (s', 0, err)"
  by (rule flowAcquire_zero) simp_all

section \<open>The window\<close>

text \<open>
  The quota and the identifiers in use add up to what the peer granted. Releasing an identifier
  in use keeps the balance; a release of any other breaks it.
\<close>

definition balanced :: "int \<Rightarrow> flow \<Rightarrow> bool" where
  "balanced w s = (distinct (f_inUse s) \<and> sint (f_quota s) + int (length (f_inUse s)) = w \<and>
     0 \<le> sint (f_quota s) \<and> w \<le> 0xFFFF)"

lemma sint_dec: "0 < sint (q :: int32) \<Longrightarrow> sint (q - 1) = sint q - 1"
  using sint_lt [of q] by (simp add: sint_word_ariths signed_take_bit_int_eq_self)

lemma sint_inc: "0 \<le> sint (q :: int32) \<Longrightarrow> sint q < 0x7FFFFFFF \<Longrightarrow> sint (q + 1) = sint q + 1"
  by (simp add: sint_word_ariths signed_take_bit_int_eq_self)

lemma sint_eq_1: "(q :: int32) = 1 \<longleftrightarrow> sint q = 1" and sint_eq_0: "(q :: int32) = 0 \<longleftrightarrow> sint q = 0"
  using signed_word_eqI [of q 1] signed_word_eqI [of q 0] by auto

lemma flowAcquire_balanced:
  assumes "balanced w s" and q: "0 < sint (f_quota s)" and a: "flowAcquire False s = (s', i, err)"
  shows "balanced w s' \<and> i \<notin> set (f_inUse s) \<and> (err = Some errQuotaExceeded \<longleftrightarrow> int (length (f_inUse s')) = w)"
proof -
  note b = assms(1) [unfolded balanced_def]
  have "length (f_inUse s) < 0x10000" using b q by linarith
  then have "card (set (f_inUse s)) < card (UNIV :: IDType set)"
    using card_length [of "f_inUse s"] by (simp add: card_word)
  then have "set (f_inUse s) \<noteq> UNIV" by auto
  with flowAcquire_fresh_sharp [OF a] b q show ?thesis
    by (auto simp: balanced_def sint_dec sint_eq_1)
qed

lemma flowRelease_balanced:
  assumes "balanced w s" and i: "i \<in> set (f_inUse s)" and r: "flowRelease i s = (s', reopened)"
  shows "balanced w s' \<and> i \<notin> set (f_inUse s') \<and> (reopened \<longleftrightarrow> int (length (f_inUse s)) = w)"
proof -
  note b = assms(1) [unfolded balanced_def]
  have len: "length (f_inUse s) > 0" using i by auto
  then have q: "sint (f_quota s) < 0x7FFFFFFF" using b by linarith
  have l: "int (length (f_inUse s) - Suc 0) = int (length (f_inUse s)) - 1" using len by (cases "f_inUse s") auto
  have "sint (f_quota s + 1) = 1 \<longleftrightarrow> int (length (f_inUse s)) = w" using b q by (auto simp: sint_inc)
  then show ?thesis
    using r i b q
    by (auto simp: flowRelease_def Let_def balanced_def sint_inc sint_eq_1 length_remove1 l)
qed

text \<open>
  Acquiring an identifier while the quota is positive, and releasing one that is in use, keep
  the balance: the number of messages in flight never exceeds what the peer granted, and
  the caller is told exactly when the window becomes full and when it opens again.
\<close>

theorem flow_window:
  assumes "balanced w s"
  shows "(0 < sint (f_quota s) \<longrightarrow> flowAcquire False s = (s1, i, err) \<longrightarrow>
      balanced w s1 \<and> i \<notin> set (f_inUse s) \<and>
      (err = Some errQuotaExceeded \<longleftrightarrow> int (length (f_inUse s1)) = w)) \<and>
    (j \<in> set (f_inUse s) \<longrightarrow> flowRelease j s = (s2, reopened) \<longrightarrow>
      balanced w s2 \<and> j \<notin> set (f_inUse s2) \<and> (reopened \<longleftrightarrow> int (length (f_inUse s)) = w))"
  using flowAcquire_balanced [OF assms] flowRelease_balanced [OF assms] by blast

theorem flow_window_witness:
  "flowRelease 7 \<lparr>f_inUse = [9, 7], f_counter = 9, f_quota = 0\<rparr> =
     (\<lparr>f_inUse = [9], f_counter = 9, f_quota = 1\<rparr>, True) \<and>
   balanced 2 \<lparr>f_inUse = [9], f_counter = 9, f_quota = 1\<rparr>"
proof -
  have "balanced 2 \<lparr>f_inUse = [9, 7], f_counter = 9, f_quota = 0\<rparr>" by (simp add: balanced_def)
  from flow_window [OF this, of _ _ _ 7] show ?thesis by (simp add: flowRelease_def)
qed

end
