(* ===== verification/Auth_Manager.thy ===== *)
theory Auth_Manager
  imports Go_Prelude "HOL-Library.AList"
begin

text \<open>
  \<open>src/auth/manager.go\<close> and \<open>src/auth/types.go\<close>: the registry of authentication providers and the
  manager that asks them in turn; and \<open>types.Once\<close> of \<open>src/types/types.go\<close>. A provider is code
  outside the repository: a record of its two methods. The registry, a package variable, is an
  association list.
\<close>

section \<open>Types\<close>

type_synonym AccessType = int
type_synonym Status = int
type_synonym auth_error = int

abbreviation (input) AccessTypeRead :: AccessType where "AccessTypeRead \<equiv> 1"
abbreviation (input) AccessTypeWrite :: AccessType where "AccessTypeWrite \<equiv> 2"

abbreviation (input) StatusAllow :: Status where "StatusAllow \<equiv> 0"
abbreviation (input) StatusDeny :: Status where "StatusDeny \<equiv> 1"

definition AccessType_Type :: "AccessType \<Rightarrow> string" where
  "AccessType_Type t =
     (if t = AccessTypeRead then ''read'' else if t = AccessTypeWrite then ''write'' else [])"

definition errorsDesc :: "(auth_error \<times> string) list" where
  "errorsDesc =
     [(0, ''auth: invalid arguments''), (1, ''auth: unknown provider''), (2, ''auth: already exists''),
      (3, ''auth: not found''), (4, ''auth: not open''), (5, ''auth: internal error'')]"

definition auth_Error :: "auth_error \<Rightarrow> string" where
  "auth_Error e = (case map_of errorsDesc e of Some s \<Rightarrow> s | None \<Rightarrow> ''auth: unknown error'')"

definition statusDesc :: "(Status \<times> string) list" where
  "statusDesc =
     [(StatusAllow, ''auth status: access granted''), (StatusDeny, ''auth status: access denied'')]"

definition Status_Error :: "Status \<Rightarrow> string" where
  "Status_Error e = (case map_of statusDesc e of Some s \<Rightarrow> s | None \<Rightarrow> ''auth status: unknown status'')"

record auth_provider =
  ap_Password :: "gostring \<Rightarrow> gostring \<Rightarrow> Status"
  ap_ACL :: "gostring \<Rightarrow> gostring \<Rightarrow> gostring \<Rightarrow> AccessType \<Rightarrow> Status"

section \<open>The registry\<close>

type_synonym providers = "(gostring \<times> auth_provider option) list"

datatype register_error = RegInvalidArgs | RegAlreadyExists

text \<open>A nil provider is \<open>None\<close>; it is refused only together with an empty name.\<close>

definition auth_Register ::
    "gostring \<Rightarrow> auth_provider option \<Rightarrow> providers \<Rightarrow> providers \<times> register_error option" where
  "auth_Register name p ps =
     (if name = [] \<and> p = None then (ps, Some RegInvalidArgs)
      else if map_of ps name \<noteq> None then (ps, Some RegAlreadyExists)
      else (AList.update name p ps, None))"

definition auth_UnRegister :: "gostring \<Rightarrow> providers \<Rightarrow> providers" where
  "auth_UnRegister name ps = AList.delete name ps"

section \<open>The manager\<close>

type_synonym Manager = "auth_provider option list"

abbreviation (input) byte_semicolon :: byte where "byte_semicolon \<equiv> 0x3B"

text \<open>The loop over the names; the left result is the name that is not registered.\<close>

fun collect_providers :: "providers \<Rightarrow> gostring list \<Rightarrow> gostring + Manager" where
  "collect_providers ps [] = Inr []"
| "collect_providers ps (pa # pas) =
     (case map_of ps pa of
        None \<Rightarrow> Inl pa
      | Some pvd \<Rightarrow> (case collect_providers ps pas of Inl e \<Rightarrow> Inl e | Inr m \<Rightarrow> Inr (pvd # m)))"

definition auth_NewManager :: "providers \<Rightarrow> gostring \<Rightarrow> gostring + Manager" where
  "auth_NewManager ps p = collect_providers ps (go_split byte_semicolon p)"

text \<open>The first provider that allows decides; a call on a nil provider panics.\<close>

fun manager_Password :: "Manager \<Rightarrow> gostring \<Rightarrow> gostring \<Rightarrow> Status option" where
  "manager_Password [] user pw = Some StatusDeny"
| "manager_Password (None # m) user pw = None"
| "manager_Password (Some p # m) user pw =
     (if ap_Password p user pw = StatusAllow then Some StatusAllow else manager_Password m user pw)"

fun manager_ACL :: "Manager \<Rightarrow> gostring \<Rightarrow> gostring \<Rightarrow> gostring \<Rightarrow> AccessType \<Rightarrow> Status option" where
  "manager_ACL [] cid user topic access = Some StatusDeny"
| "manager_ACL (None # m) cid user topic access = None"
| "manager_ACL (Some p # m) cid user topic access =
     (if ap_ACL p cid user topic access = StatusAllow then Some StatusAllow
      else manager_ACL m cid user topic access)"

section \<open>Once\<close>

text \<open>\<open>Do\<close>: the flag after the call, and whether the function was run.\<close>

definition Once_Do :: "bool \<Rightarrow> bool \<times> bool" where
  "Once_Do val = (True, \<not> val)"

section \<open>Properties\<close>

lemma manager_decision:
  assumes "None \<notin> set m"
  shows "manager_ACL m cid user topic access =
      Some (if \<exists>p. Some p \<in> set m \<and> ap_ACL p cid user topic access = StatusAllow then StatusAllow else StatusDeny)"
    and "manager_Password m user pw =
      Some (if \<exists>p. Some p \<in> set m \<and> ap_Password p user pw = StatusAllow then StatusAllow else StatusDeny)"
  using assms
proof (induction m)
  case (Cons a m)
  case 1
  then show ?case using Cons by (cases a) auto
  case 2
  then show ?case using Cons by (cases a) auto
qed simp_all

lemma collect_providers_ok:
  "(\<exists>m. collect_providers ps pas = Inr m) \<longleftrightarrow> (\<forall>pa \<in> set pas. map_of ps pa \<noteq> None)"
  "collect_providers ps pas = Inr m \<Longrightarrow> map (map_of ps) pas = map Some m"
proof -
  show "(\<exists>m. collect_providers ps pas = Inr m) \<longleftrightarrow> (\<forall>pa \<in> set pas. map_of ps pa \<noteq> None)"
    by (induction pas) (auto split: option.splits sum.splits)
  show "map (map_of ps) pas = map Some m" if "collect_providers ps pas = Inr m"
    using that by (induction pas arbitrary: m) (auto split: option.splits sum.splits)
qed

text \<open>
  A manager built from registered, non-nil providers answers a request for access or a
  password with permission exactly if one of the providers named in the list allows it, and it
  never fails; it is built exactly if every name of the list is registered.
\<close>

theorem auth_manager_decides:
  assumes "\<forall>name. map_of ps name \<noteq> Some None"
  shows "((\<exists>m. auth_NewManager ps s = Inr m) \<longleftrightarrow> (\<forall>pa \<in> set (go_split byte_semicolon s). map_of ps pa \<noteq> None)) \<and>
    (auth_NewManager ps s = Inr m \<longrightarrow>
       manager_ACL m cid user topic access =
         Some (if \<exists>pa p. pa \<in> set (go_split byte_semicolon s) \<and> map_of ps pa = Some (Some p) \<and>
                 ap_ACL p cid user topic access = StatusAllow then StatusAllow else StatusDeny) \<and>
       manager_Password m user pw =
         Some (if \<exists>pa p. pa \<in> set (go_split byte_semicolon s) \<and> map_of ps pa = Some (Some p) \<and>
                 ap_Password p user pw = StatusAllow then StatusAllow else StatusDeny))"
proof (intro conjI impI)
  show "(\<exists>m. auth_NewManager ps s = Inr m) \<longleftrightarrow> (\<forall>pa \<in> set (go_split byte_semicolon s). map_of ps pa \<noteq> None)"
    unfolding auth_NewManager_def by (rule collect_providers_ok(1))
  assume "auth_NewManager ps s = Inr m"
  then have m: "map (map_of ps) (go_split byte_semicolon s) = map Some m"
    unfolding auth_NewManager_def by (rule collect_providers_ok(2))
  have set_m: "x \<in> set m \<longleftrightarrow> (\<exists>pa \<in> set (go_split byte_semicolon s). map_of ps pa = Some x)" for x
  proof -
    have "x \<in> set m \<longleftrightarrow> Some x \<in> Some ` set m" by auto
    also have "Some ` set m = map_of ps ` set (go_split byte_semicolon s)" using arg_cong [OF m, of set] by simp
    finally show ?thesis by (simp add: image_iff eq_commute [of "Some x"])
  qed
  then have "None \<notin> set m" using assms by blast
  note d = manager_decision [OF this]
  show "manager_ACL m cid user topic access =
         Some (if \<exists>pa p. pa \<in> set (go_split byte_semicolon s) \<and> map_of ps pa = Some (Some p) \<and>
                 ap_ACL p cid user topic access = StatusAllow then StatusAllow else StatusDeny)"
    unfolding d(1) set_m by (rule arg_cong [where f = Some], rule if_cong) blast+
  show "manager_Password m user pw =
         Some (if \<exists>pa p. pa \<in> set (go_split byte_semicolon s) \<and> map_of ps pa = Some (Some p) \<and>
                 ap_Password p user pw = StatusAllow then StatusAllow else StatusDeny)"
    unfolding d(2) set_m by (rule arg_cong [where f = Some], rule if_cong) blast+
qed

definition sample_auth :: auth_provider where
  "sample_auth = \<lparr>ap_Password = (\<lambda>u p. if u = p then StatusAllow else StatusDeny), ap_ACL = (\<lambda>_ _ _ _. StatusDeny)\<rparr>"

theorem auth_manager_decides_witness:
  "auth_NewManager [([0x61], Some sample_auth)] [0x61] = Inr [Some sample_auth] \<and>
   manager_Password [Some sample_auth] [1] [1] = Some StatusAllow \<and>
   manager_ACL [Some sample_auth] [2] [1] [0x74] AccessTypeWrite = Some StatusDeny"
proof -
  have "\<forall>name. map_of [([0x61 :: byte], Some sample_auth)] name \<noteq> Some None" by simp
  from auth_manager_decides [OF this, of "[0x61]" "[Some sample_auth]"] show ?thesis
    by (simp add: auth_NewManager_def sample_auth_def)
qed

end
