(* ===== verification/Connection.thy ===== *)
theory Connection
  imports Flow_Control Subscriber Auth_Manager
begin

text \<open>
  \<open>src/connection/connection.go\<close>, \<open>netCallbacks.go\<close> and the queues of \<open>transmitter.go\<close>: the state of a
  network connection and its packet handlers.

  The state is the record \<open>connection\<close>; the two message lists are \<open>c_txG\<close> (everything but PUBLISH
  with quality of service 1 or 2) and \<open>c_txQ\<close>. The buffered channel \<open>txAvailable\<close> of capacity one
  is a flag, \<open>quit\<close> a flag that says whether it is closed. What a handler sends to the topics
  manager is the list of \<open>messenger_call\<close>s it returns; their errors are logged only. \<open>None\<close> is
  a panic. \<open>now\<close> is \<open>time.Now()\<close> and \<open>acl\<close> the \<open>SessionPermissions\<close> of the connection.
\<close>

section \<open>State\<close>

text \<open>An element of \<open>txQMessages\<close>: a message to send, or one to send again.\<close>

datatype qitem = QPublish Publish | QUnack packet

datatype messenger_call = MsgRetain RetainObject | MsgPublish Publish

datatype conn_error = ConnErr go_error | ConnDisconnect | ConnRead

record connection =
  c_ID :: gostring
  c_Username :: gostring
  c_Version :: ProtocolVersion
  c_MaxRxPacketSize :: uint32
  c_MaxTxPacketSize :: uint32
  c_MaxTxTopicAlias :: uint16
  c_MaxRxTopicAlias :: uint16
  c_RetainAvailable :: bool
  c_OfflineQoS0 :: bool
  c_KillOnDisconnect :: bool
  c_ExpireIn :: "uint32 option"
  c_pubIn :: ackQueue
  c_pubOut :: ackQueue
  c_quit :: bool
  c_started :: bool
  c_txTopicAlias :: "(gostring \<times> uint16) list"
  c_rxTopicAlias :: "(uint16 \<times> gostring) list"
  c_topicAliasCurrMax :: uint16
  c_txG :: "packet list"
  c_txQ :: "qitem list"
  c_txAvailable :: bool
  c_txRunning :: uint32
  c_txQuotaExceeded :: bool
  c_retained :: "Publish list"
  c_flow :: flow
  c_will :: bool
  c_rxRecv :: "byte list"
  c_rxRemaining :: int
  c_sub :: subscriber

section \<open>The queues of the transmitter\<close>

definition txSignalAvailable :: "connection \<Rightarrow> connection" where
  "txSignalAvailable s = (if c_quit s then s else s\<lparr>c_txAvailable := True\<rparr>)"

text \<open>\<open>txRun\<close> starts the transmitter goroutine if it is not running.\<close>

definition txRun :: "connection \<Rightarrow> connection" where
  "txRun s = (if c_quit s then s else if c_txRunning s = 0 then s\<lparr>c_txRunning := 1\<rparr> else s)"

definition gPush :: "packet \<Rightarrow> connection \<Rightarrow> connection" where
  "gPush pkt s = txRun (txSignalAvailable (s\<lparr>c_txG := c_txG s @ [pkt]\<rparr>))"

definition gLoad :: "packet \<Rightarrow> connection \<Rightarrow> connection" where
  "gLoad pkt s = txSignalAvailable (s\<lparr>c_txG := c_txG s @ [pkt]\<rparr>)"

definition gLoadList :: "packet list \<Rightarrow> connection \<Rightarrow> connection" where
  "gLoadList l s = txSignalAvailable (s\<lparr>c_txG := c_txG s @ l\<rparr>)"

definition qPush :: "qitem \<Rightarrow> connection \<Rightarrow> connection" where
  "qPush pkt s = txRun (txSignalAvailable (s\<lparr>c_txQ := c_txQ s @ [pkt]\<rparr>))"

definition qLoad :: "qitem \<Rightarrow> connection \<Rightarrow> connection" where
  "qLoad pkt s = txSignalAvailable (s\<lparr>c_txQ := c_txQ s @ [pkt]\<rparr>)"

definition qLoadList :: "qitem list \<Rightarrow> connection \<Rightarrow> connection" where
  "qLoadList l s = txSignalAvailable (s\<lparr>c_txQ := c_txQ s @ l\<rparr>)"

definition signalQuota :: "connection \<Rightarrow> connection" where
  "signalQuota s =
     (let s1 = s\<lparr>c_txQuotaExceeded := False\<rparr> in
      if length (c_txQ s1) > 0 then txRun (txSignalAvailable s1) else s1)"

definition gAvailable :: "connection \<Rightarrow> bool" where
  "gAvailable s = (length (c_txG s) > 0)"

definition qAvailable :: "connection \<Rightarrow> bool" where
  "qAvailable s = (\<not> c_txQuotaExceeded s \<and> length (c_txQ s) > 0)"

definition onSubscribedPublish :: "Publish \<Rightarrow> connection \<Rightarrow> connection" where
  "onSubscribedPublish p s =
     (if Publish_QoS p = QoS0 then gPush (PPublish p) s else qPush (QPublish p) s)"

section \<open>PUBLISH from the peer\<close>

definition preProcessPublishV50 :: "Publish \<Rightarrow> connection \<Rightarrow> go_error option" where
  "preProcessPublishV50 p s =
     (if c_Version s \<ge> ProtocolV50 \<and> \<not> c_RetainAvailable s \<and> Publish_Retain p
      then Some (ECode CodeRetainNotSupported)
      else (case header_PropertyGet p PropertyTopicAlias of
              None \<Rightarrow> None
            | Some prop \<Rightarrow>
                (case AsShort prop of (val, err) \<Rightarrow>
                   if err = None \<and> (val = 0 \<or> val > c_MaxRxTopicAlias s)
                   then Some (ECode CodeInvalidTopicAlias) else None)))"

definition preProcessPublish :: "Publish \<Rightarrow> connection \<Rightarrow> go_error option" where
  "preProcessPublish p s = (if c_Version s \<ge> ProtocolV50 then preProcessPublishV50 p s else None)"

text \<open>The topic alias: the packet, the table and the error.\<close>

definition resolve_alias :: "Publish \<Rightarrow> connection \<Rightarrow> Publish \<times> connection \<times> go_error option" where
  "resolve_alias p s =
     (case header_PropertyGet p PropertyTopicAlias of
        None \<Rightarrow> (p, s, None)
      | Some prop \<Rightarrow>
          (case AsShort prop of
             (val, None) \<Rightarrow>
               if length (pub_topic p) \<noteq> 0
               then (p, s\<lparr>c_rxTopicAlias := AList.update val (pub_topic p) (c_rxTopicAlias s)\<rparr>, None)
               else (case map_of (c_rxTopicAlias s) val of
                       Some topic \<Rightarrow> (fst (Publish_SetTopic topic p), s, None)
                     | None \<Rightarrow> (p, s, Some (ECode CodeInvalidTopicAlias)))
           | (val, Some e) \<Rightarrow> (p, s, Some (ECode CodeInvalidTopicAlias))))"

definition set_expiry :: "Time \<Rightarrow> Publish \<Rightarrow> Publish \<times> go_error option" where
  "set_expiry now p =
     (case header_PropertyGet p PropertyPublicationExpiry of
        None \<Rightarrow> (p, None)
      | Some prop \<Rightarrow>
          (case AsInt prop of
             (val, None) \<Rightarrow> (p\<lparr>expireAt := now + int (unat val) * 1000000000\<rparr>, None)
           | (val, Some e) \<Rightarrow> (p, Some e)))"

definition postProcessPublish :: "Time \<Rightarrow> Publish \<Rightarrow> connection \<Rightarrow> Publish \<times> connection \<times> go_error option" where
  "postProcessPublish now p s =
     (if c_Version s \<ge> ProtocolV50 then
        (case resolve_alias p s of
           (p1, s1, Some e) \<Rightarrow> (p1, s1, Some e)
         | (p1, s1, None) \<Rightarrow> (case set_expiry now p1 of (p2, err) \<Rightarrow> (p2, s1, err)))
      else (p, s, None))"

definition publishToTopic ::
    "Time \<Rightarrow> Publish \<Rightarrow> connection \<Rightarrow> connection \<times> messenger_call list \<times> go_error option" where
  "publishToTopic now p0 s0 =
     (case postProcessPublish now p0 s0 of
        (p1, s, Some e) \<Rightarrow> (s, [], Some e)
      | (p1, s, None) \<Rightarrow>
         (let p = p1\<lparr>publishID := sb_hash (c_sub s)\<rparr>;
              m0 = fst (Publish_SetQoS (Publish_QoS p) (New_Publish (c_Version s)));
              m = fst (Publish_SetTopic (pub_topic p) m0);
              s' = (if Publish_Retain p \<and> Publish_QoS p = QoS0 then s\<lparr>c_retained := c_retained s @ [m]\<rparr> else s);
              retain = (if Publish_Retain p then [MsgRetain (RPublish p)] else [])
          in (s', retain @ [MsgPublish p], None)))"

text \<open>The callbacks of the two queues; the error of \<open>publishToTopic\<close> is dropped in the first.\<close>

definition onReleaseIn :: "Time \<Rightarrow> packet \<Rightarrow> connection \<Rightarrow> connection \<times> messenger_call list" where
  "onReleaseIn now orig s =
     (case orig of
        PPublish p \<Rightarrow> (case publishToTopic now p s of (s', calls, err) \<Rightarrow> (s', calls))
      | _ \<Rightarrow> (s, []))"

definition release_flow :: "IDType \<Rightarrow> connection \<Rightarrow> connection" where
  "release_flow i s =
     (case flowRelease i (c_flow s) of (fl, b) \<Rightarrow>
        (let s1 = s\<lparr>c_flow := fl\<rparr> in if b then signalQuota s1 else s1))"

definition onReleaseOut :: "packet \<Rightarrow> connection \<Rightarrow> connection option" where
  "onReleaseOut n s =
     (if Packet_Type n = PUBACK \<or> Packet_Type n = PUBCOMP
      then do { i \<leftarrow> packet_id n; Some (release_flow i s) }
      else Some s)"

definition pubIn_release :: "Time \<Rightarrow> packet \<Rightarrow> connection \<Rightarrow> (connection \<times> messenger_call list) option" where
  "pubIn_release now pkt s = do {
     (q, orig) \<leftarrow> ackQueue_release pkt (c_pubIn s);
     (case orig of
        None \<Rightarrow> Some (s, [])
      | Some o' \<Rightarrow> (case onReleaseIn now o' s of (s', calls) \<Rightarrow> Some (s'\<lparr>c_pubIn := q\<rparr>, calls))) }"

definition pubOut_release :: "packet \<Rightarrow> connection \<Rightarrow> connection option" where
  "pubOut_release pkt s = do {
     (q, orig) \<leftarrow> ackQueue_release pkt (c_pubOut s);
     (case orig of
        None \<Rightarrow> Some s
      | Some o' \<Rightarrow> do { s' \<leftarrow> onReleaseOut pkt s; Some (s'\<lparr>c_pubOut := q\<rparr>) }) }"

text \<open>\<open>packet.New(s.Version, t)\<close> for an acknowledgement, with \<open>SetPacketID\<close>.\<close>

definition new_ack :: "ProtocolVersion \<Rightarrow> Type \<Rightarrow> IDType \<Rightarrow> Ack option" where
  "new_ack v t i = header_setPacketID i (header_init v t newAck)"

definition onPublish ::
    "Time \<Rightarrow> (gostring \<Rightarrow> gostring \<Rightarrow> gostring \<Rightarrow> AccessType \<Rightarrow> Status) \<Rightarrow> Publish \<Rightarrow> connection \<Rightarrow>
     (connection \<times> messenger_call list \<times> packet option \<times> go_error option) option" where
  "onPublish now acl pkt s =
     (case preProcessPublish pkt s of
        Some e \<Rightarrow> Some (s, [], None, Some e)
      | None \<Rightarrow>
         (let reason = (if acl (c_ID s) (c_Username s) (pub_topic pkt) AccessTypeWrite = StatusDeny
                        then CodeAdministrativeAction else CodeSuccess) in
          if Publish_QoS pkt = QoS2 then do {
            i \<leftarrow> packet_id (PPublish pkt);
            r \<leftarrow> new_ack (c_Version s) PUBREC i;
            q \<leftarrow> (if reason < CodeUnspecifiedError then ackQueue_store (PPublish pkt) (c_pubIn s)
                 else Some (c_pubIn s));
            Some (s\<lparr>c_pubIn := q\<rparr>, [], Some (PAck (Ack_SetReason reason r)), None) }
          else if Publish_QoS pkt = QoS1 \<or> Publish_QoS pkt = QoS0 then do {
            resp \<leftarrow> (if Publish_QoS pkt = QoS1 then do {
                       i \<leftarrow> packet_id (PPublish pkt);
                       r \<leftarrow> new_ack (c_Version s) PUBACK i;
                       Some (Some (PAck (Ack_SetReason reason r))) }
                     else Some None);
            (if reason < CodeUnspecifiedError
             then (case publishToTopic now pkt s of (s', calls, err) \<Rightarrow> Some (s', calls, resp, err))
             else Some (s, [], resp, None)) }
          else Some (s, [], None, None)))"

section \<open>Acknowledgements from the peer\<close>

definition onAck ::
    "Time \<Rightarrow> Ack \<Rightarrow> connection \<Rightarrow> (connection \<times> messenger_call list \<times> packet option) option" where
  "onAck now msg s =
     (if mType msg = PUBACK \<or> mType msg = PUBCOMP then do {
        s' \<leftarrow> pubOut_release (PAck msg) s;
        Some (s', [], None) }
      else if mType msg = PUBREC then do {
        s1 \<leftarrow> pubOut_release (PAck msg) s;
        i \<leftarrow> packet_id (PAck msg);
        (if c_Version s1 = ProtocolV50 \<and> ack_reasonCode msg \<ge> CodeUnspecifiedError
         then Some (release_flow i s1, [], None)
         else do {
           r \<leftarrow> new_ack (c_Version s1) PUBREL i;
           q \<leftarrow> ackQueue_store (PAck r) (c_pubOut s1);
           Some (s1\<lparr>c_pubOut := q\<rparr>, [], Some (PAck r)) }) }
      else if mType msg = PUBREL then do {
        i \<leftarrow> packet_id (PAck msg);
        r \<leftarrow> new_ack (c_Version s) PUBCOMP i;
        (s', calls) \<leftarrow> pubIn_release now (PAck msg) s;
        Some (s', calls, Some (PAck r)) }
      else Some (s, [], None))"

section \<open>SUBSCRIBE and UNSUBSCRIBE\<close>

definition subscription_id :: "Subscribe \<Rightarrow> uint32" where
  "subscription_id msg =
     (case header_PropertyGet msg PropertySubscriptionIdentifier of
        None \<Rightarrow> 0
      | Some prop \<Rightarrow> (case AsInt prop of (v, e) \<Rightarrow> if e = None then v else 0))"

text \<open>The callback of \<open>RangeTopics\<close>: the codes and the retained messages so far are threaded.\<close>

fun subscribe_loop ::
    "'st topics_Subscribe \<Rightarrow> ProtocolVersion \<Rightarrow> uint32 \<Rightarrow> (gostring \<times> SubscriptionOptions) list \<Rightarrow>
     subscriber \<Rightarrow> 'st \<Rightarrow> (subscriber \<times> 'st \<times> ReasonCode list \<times> Publish list) option" where
  "subscribe_loop subscribe v subsID [] sub st = Some (sub, st, [], [])"
| "subscribe_loop subscribe v subsID ((t, ops) # ts) sub st = do {
     (sub1, st1, granted, retained, err) \<leftarrow>
        subscriber_Subscribe subscribe t \<lparr>sp_ID = subsID, sp_Ops = ops, sp_Granted = 0\<rparr> sub st;
     (sub2, st2, codes, rs) \<leftarrow> subscribe_loop subscribe v subsID ts sub1 st1;
     Some (sub2, st2,
       (if err \<noteq> None then (if v = ProtocolV50 then CodeUnspecifiedError else QosFailure) else granted) # codes,
       (if err \<noteq> None then [] else retained) @ rs) }"

text \<open>The retained messages are cloned, marked as retained and queued.\<close>

fun queue_retained :: "Publish list \<Rightarrow> connection \<Rightarrow> connection option" where
  "queue_retained [] s = Some s"
| "queue_retained (rp # rps) s = do {
     (pkt, err) \<leftarrow> Publish_Clone (c_Version s) rp;
     queue_retained rps (if err = None then onSubscribedPublish (Publish_SetRetain True pkt) s else s) }"

definition onSubscribe ::
    "'st topics_Subscribe \<Rightarrow> Subscribe \<Rightarrow> connection \<Rightarrow> 'st \<Rightarrow> (connection \<times> 'st \<times> packet option) option" where
  "onSubscribe subscribe msg s st = do {
     i \<leftarrow> packet_id (PSubscribe msg);
     resp \<leftarrow> header_setPacketID i (header_init (c_Version s) SUBACK newSubAck);
     ts \<leftarrow> Subscribe_RangeTopics msg;
     (sub, st', retCodes, retained) \<leftarrow>
        subscribe_loop subscribe (c_Version s) (subscription_id msg) ts (c_sub s) st;
     let s1 = s\<lparr>c_sub := sub\<rparr>;
     (case SubAck_AddReturnCodes retCodes resp of
        (resp', Some e) \<Rightarrow> Some (s1, st', None)
      | (resp', None) \<Rightarrow> do {
          s2 \<leftarrow> queue_retained retained s1;
          Some (s2, st', Some (PSubAck resp')) }) }"

fun unsubscribe_loop ::
    "'st topics_UnSubscribe \<Rightarrow> gostring list \<Rightarrow> subscriber \<Rightarrow> 'st \<Rightarrow>
     (subscriber \<times> 'st \<times> ReasonCode list) option" where
  "unsubscribe_loop unsubscribe [] sub st = Some (sub, st, [])"
| "unsubscribe_loop unsubscribe (t # ts) sub st = do {
     (sub1, st1, err) \<leftarrow> subscriber_UnSubscribe unsubscribe t sub st;
     (sub2, st2, codes) \<leftarrow> unsubscribe_loop unsubscribe ts sub1 st1;
     Some (sub2, st2, (if err \<noteq> None then CodeSuccess else CodeNoSubscriptionExisted) # codes) }"

definition onUnSubscribe ::
    "'st topics_UnSubscribe \<Rightarrow> UnSubscribe \<Rightarrow> connection \<Rightarrow> 'st \<Rightarrow> (connection \<times> 'st \<times> packet option) option" where
  "onUnSubscribe unsubscribe msg s st = do {
     (sub, st', retCodes) \<leftarrow> unsubscribe_loop unsubscribe (unsub_topics msg) (c_sub s) st;
     i \<leftarrow> packet_id (PUnSubscribe msg);
     resp \<leftarrow> header_setPacketID i (header_init (c_Version s) UNSUBACK newUnSubAck);
     Some (s\<lparr>c_sub := sub\<rparr>, st', Some (PUnSubAck (fst (UnSubAck_AddReturnCodes retCodes resp)))) }"

section \<open>Dispatch\<close>

definition onDisconnectPacket :: "Disconnect \<Rightarrow> connection \<Rightarrow> connection \<times> conn_error option" where
  "onDisconnectPacket pkt s =
     (let s1 = s\<lparr>c_will := False\<rparr> in
      if c_Version s1 = ProtocolV50 then
        (let s2 = (if disc_reasonCode pkt = CodeRefusedBadUsernameOrPassword then s1\<lparr>c_will := True\<rparr> else s1) in
         (case header_PropertyGet pkt PropertySessionExpiryInterval of
            None \<Rightarrow> (s2, Some ConnDisconnect)
          | Some prop \<Rightarrow>
             (case AsInt prop of
                (val, None) \<Rightarrow>
                  if c_ExpireIn s2 = Some 0 \<and> val \<noteq> 0 then (s2, Some (ConnErr (ECode CodeProtocolError)))
                  else (s2\<lparr>c_ExpireIn := Some val\<rparr>, Some ConnDisconnect)
              | (val, Some e) \<Rightarrow> (s2, Some ConnDisconnect))))
      else (s1, None))"

definition push_resp :: "packet option \<Rightarrow> connection \<Rightarrow> connection" where
  "push_resp resp s = (case resp of Some pkt \<Rightarrow> gPush pkt s | None \<Rightarrow> s)"

definition processIncoming ::
    "Time \<Rightarrow> (gostring \<Rightarrow> gostring \<Rightarrow> gostring \<Rightarrow> AccessType \<Rightarrow> Status) \<Rightarrow> 'st topics_Subscribe \<Rightarrow>
     'st topics_UnSubscribe \<Rightarrow> packet \<Rightarrow> connection \<Rightarrow> 'st \<Rightarrow>
     (connection \<times> 'st \<times> messenger_call list \<times> conn_error option) option" where
  "processIncoming now acl subscribe unsubscribe p s st =
     (case p of
        PPublish pkt \<Rightarrow> do {
          (s', calls, resp, err) \<leftarrow> onPublish now acl pkt s;
          Some (push_resp resp s', st, calls, map_option ConnErr err) }
      | PAck pkt \<Rightarrow> do {
          (s', calls, resp) \<leftarrow> onAck now pkt s;
          Some (push_resp resp s', st, calls, None) }
      | PSubscribe pkt \<Rightarrow> do {
          (s', st', resp) \<leftarrow> onSubscribe subscribe pkt s st;
          Some (push_resp resp s', st', [], None) }
      | PUnSubscribe pkt \<Rightarrow> do {
          (s', st', resp) \<leftarrow> onUnSubscribe unsubscribe pkt s st;
          Some (push_resp resp s', st', [], None) }
      | PPingReq _ \<Rightarrow>
          Some (push_resp (Some (PPingResp (header_init (c_Version s) PINGRESP newPing))) s, st, [], None)
      | PDisconnect pkt \<Rightarrow> (case onDisconnectPacket pkt s of (s', err) \<Rightarrow> Some (s', st, [], err))
      | _ \<Rightarrow> Some (s, st, [], None))"

end
