(* ===== verification/Transmitter.thy ===== *)
theory Transmitter
  imports Connection
begin

text \<open>
  \<open>src/connection/transmitter.go\<close>: the goroutine that takes messages from the two queues, gives them
  identifiers and topic aliases, encodes them and writes them. One pass through its \<open>select\<close> is a
  function of the branch taken and \<open>tx_round\<close> the choice of a ready branch. \<open>rnd\<close> is the result of \<open>rand.Intn(MaxTxTopicAlias)\<close>, the network is the list of buffers
  written.
\<close>

section \<open>Taking messages from the queues\<close>

definition gPopPacket :: "connection \<Rightarrow> connection \<times> packet option" where
  "gPopPacket s =
     (case c_txG s of [] \<Rightarrow> (s, None) | p # ps \<Rightarrow> (s\<lparr>c_txG := ps\<rparr>, Some p))"

text \<open>The packet with its identifier, the flow state, and whether the connection is closing.\<close>

definition acquire_item ::
    "qitem \<Rightarrow> connection \<Rightarrow> (connection \<times> packet option) option" where
  "acquire_item m s =
     (case m of
        QPublish p \<Rightarrow>
          (case flowAcquire (c_quit s) (c_flow s) of
             (fl, i, Some errExit) \<Rightarrow> Some (s\<lparr>c_flow := fl, c_txRunning := 0\<rparr>, None)
           | (fl, i, err) \<Rightarrow> do {
               p' \<leftarrow> header_setPacketID i p;
               Some (s\<lparr>c_flow := fl, c_txQuotaExceeded := (if err = Some errQuotaExceeded then True else c_txQuotaExceeded s)\<rparr>,
                     Some (PPublish p')) })
      | QUnack pkt \<Rightarrow> Some (s, Some pkt))"

definition qPopPacket :: "connection \<Rightarrow> (connection \<times> packet option) option" where
  "qPopPacket s =
     (if \<not> c_txQuotaExceeded s then
        (case c_txQ s of
           [] \<Rightarrow> Some (s, None)
         | m # ms \<Rightarrow> do {
             (s1, r) \<leftarrow> acquire_item m s;
             (case r of
                None \<Rightarrow> Some (s1, None)
              | Some pkt \<Rightarrow> do {
                  q \<leftarrow> ackQueue_store pkt (c_pubOut s1);
                  Some (s1\<lparr>c_txQ := ms, c_pubOut := q\<rparr>, Some pkt) }) })
      else Some (s, None))"

definition opt_list :: "'a option \<Rightarrow> 'a list" where
  "opt_list x = (case x of Some a \<Rightarrow> [a] | None \<Rightarrow> [])"

definition popPackets :: "connection \<Rightarrow> (connection \<times> packet list) option" where
  "popPackets s =
     (case gPopPacket s of (s1, g) \<Rightarrow> do {
        (s2, q) \<leftarrow> qPopPacket s1;
        Some (s2, opt_list g @ opt_list q) })"

section \<open>Topic aliases and sizes\<close>

definition setTopicAlias :: "uint16 \<Rightarrow> Publish \<Rightarrow> connection \<Rightarrow> (Publish \<times> connection) option" where
  "setTopicAlias rnd pkt s =
     (if c_MaxTxTopicAlias s > 0 then
        (let (a, ok, cur) =
               (case map_of (c_txTopicAlias s) (pub_topic pkt) of
                  None \<Rightarrow>
                    if c_topicAliasCurrMax s < c_MaxTxTopicAlias s
                    then (c_topicAliasCurrMax s + 1, True, c_topicAliasCurrMax s + 1)
                    else (rnd + 1, False, c_topicAliasCurrMax s)
                | Some a \<Rightarrow> (a, False, c_topicAliasCurrMax s));
             s' = s\<lparr>c_topicAliasCurrMax := cur\<rparr>
         in do {
           (pkt1, err) \<leftarrow> header_PropertySet pkt PropertyTopicAlias (VShort a);
           Some (if err = None \<and> \<not> ok then fst (Publish_SetTopic [] pkt1) else pkt1, s') })
      else Some (pkt, s))"

definition packetFitsSize :: "packet \<Rightarrow> connection \<Rightarrow> packet \<times> bool" where
  "packetFitsSize value s =
     (case Packet_Size value of
        (value', sz, Some e) \<Rightarrow> (value', False)
      | (value', sz, None) \<Rightarrow> (value', \<not> sz > unat (c_MaxTxPacketSize s)))"

section \<open>Sending\<close>

text \<open>
  The body of the loop over the packets: the buffer it appends, if any. The packet is changed in
  place, and a message with quality of service 1 or 2 is the object \<open>pubOut\<close> holds, so the
  change is seen there too (\<open>sync_pubOut\<close>).
\<close>

definition sync_pubOut :: "packet \<Rightarrow> packet \<Rightarrow> connection \<Rightarrow> connection" where
  "sync_pubOut old new s = s\<lparr>c_pubOut := map (\<lambda>(i, v). (i, if v = old then new else v)) (c_pubOut s)\<rparr>"

definition prepare_publish ::
    "Time \<Rightarrow> uint16 \<Rightarrow> packet \<Rightarrow> connection \<Rightarrow> (connection \<times> packet option) option" where
  "prepare_publish now rnd pkt s =
     (case pkt of
        PPublish p \<Rightarrow> do {
          (p1, expired) \<leftarrow> Publish_Expired True now p;
          (if expired then Some (s, None)
           else do {
             (p2, s') \<leftarrow> setTopicAlias rnd p1 s;
             Some (sync_pubOut pkt (PPublish p2) s', Some (PPublish p2)) }) }
      | _ \<Rightarrow> Some (s, Some pkt))"

definition tx_packet ::
    "Time \<Rightarrow> uint16 \<Rightarrow> packet \<Rightarrow> connection \<Rightarrow> (connection \<times> byte list list) option" where
  "tx_packet now rnd pkt s = do {
     (s1, pkt1) \<leftarrow> prepare_publish now rnd pkt s;
     (case pkt1 of
        None \<Rightarrow> Some (s1, [])
      | Some p1 \<Rightarrow>
          (case packetFitsSize p1 s1 of
             (p2, False) \<Rightarrow> Some (s1, [])
           | (p2, True) \<Rightarrow> do {
               (p3, buf, e) \<leftarrow> Encode p2;
               Some (s1, if e = None then [buf] else []) })) }"

fun tx_packets ::
    "Time \<Rightarrow> uint16 \<Rightarrow> packet list \<Rightarrow> connection \<Rightarrow> (connection \<times> byte list list) option" where
  "tx_packets now rnd [] s = Some (s, [])"
| "tx_packets now rnd (p # ps) s = do {
     (s1, b1) \<leftarrow> tx_packet now rnd p s;
     (s2, b2) \<leftarrow> tx_packets now rnd ps s1;
     Some (s2, b1 @ b2) }"

text \<open>
  The goroutine: the connection, its \<open>sendBuffers\<close>, whether \<open>txTimer\<close> is armed, whether its channel
  holds a tick that nobody has read, what is written, whether it has returned and whether with an error. The network takes the whole write (\<open>None\<close>) or
  fails after some bytes (\<open>Some n\<close>).
\<close>

record tx_state =
  tx_conn :: connection
  tx_buffers :: "byte list list"
  tx_timer :: bool
  tx_tick :: bool
  tx_written :: "byte list"
  tx_err :: bool
  tx_done :: bool

type_synonym net_write = "byte list \<Rightarrow> nat option"

definition flushBuffers :: "net_write \<Rightarrow> byte list list \<Rightarrow> tx_state \<Rightarrow> tx_state" where
  "flushBuffers net bufs t =
     (case net (concat bufs) of
        None \<Rightarrow> t\<lparr>tx_written := tx_written t @ concat bufs, tx_err := False\<rparr>
      | Some n \<Rightarrow> t\<lparr>tx_written := tx_written t @ take n (concat bufs), tx_err := True\<rparr>)"

definition tx_stop :: "connection \<Rightarrow> connection" where
  "tx_stop s = s\<lparr>c_txRunning := 0\<rparr>"

definition requeue_or_stop :: "connection \<Rightarrow> connection" where
  "requeue_or_stop s = (if qAvailable s \<or> gAvailable s then txSignalAvailable s else tx_stop s)"

definition tx_quit_branch :: "tx_state \<Rightarrow> tx_state" where
  "tx_quit_branch t = t\<lparr>tx_err := True, tx_conn := tx_stop (tx_conn t), tx_done := True\<rparr>"

text \<open>
  Reading the timer's channel: the tick it holds, or the one the armed timer sends now. \<open>Stop\<close> and \<open>Reset\<close> do
  not empty the channel. \<open>late\<close>: the armed timer has fired before; its tick is in the
  channel, or lost if that was full.
\<close>

definition tx_read_tick :: "bool \<Rightarrow> tx_state \<Rightarrow> tx_state" where
  "tx_read_tick late t = t\<lparr>tx_tick := False, tx_timer := (tx_timer t \<and> tx_tick t \<and> \<not> late)\<rparr>"

definition tx_stop_timer :: "bool \<Rightarrow> tx_state \<Rightarrow> tx_state" where
  "tx_stop_timer late t = t\<lparr>tx_tick := (tx_tick t \<or> late \<and> tx_timer t), tx_timer := False\<rparr>"

definition tx_timer_branch :: "bool \<Rightarrow> net_write \<Rightarrow> tx_state \<Rightarrow> tx_state" where
  "tx_timer_branch late net t =
     (let t1 = flushBuffers net (tx_buffers t) (tx_read_tick late t) in
      if tx_err t1 then t1\<lparr>tx_conn := tx_stop (tx_conn t1), tx_done := True\<rparr>
      else t1\<lparr>tx_buffers := [], tx_conn := requeue_or_stop (tx_conn t1)\<rparr>)"

definition tx_available_branch :: "bool \<Rightarrow> net_write \<Rightarrow> Time \<Rightarrow> uint16 \<Rightarrow> tx_state \<Rightarrow> tx_state option" where
  "tx_available_branch late net now rnd t = do {
     let prevLen = length (tx_buffers t);
     (s1, pkts) \<leftarrow> popPackets ((tx_conn t)\<lparr>c_txAvailable := False\<rparr>);
     (s2, bufs) \<leftarrow> tx_packets now rnd pkts s1;
     let buffers = tx_buffers t @ bufs;
     let available = (qAvailable s2 \<or> gAvailable s2);
     let s3 = (if available then txSignalAvailable s2 else s2);
     let t1 = t\<lparr>tx_conn := s3, tx_buffers := buffers\<rparr>;
     Some (if prevLen = 0 then (tx_stop_timer late t1)\<lparr>tx_timer := True\<rparr>
           else if length buffers \<ge> 5 then
             (let t2 = flushBuffers net buffers (tx_stop_timer late t1) in
              t2\<lparr>tx_buffers := [],
                 tx_conn := (if tx_err t2 \<or> \<not> available then tx_stop (tx_conn t2) else tx_conn t2)\<rparr>)
           else t1) }"

text \<open>
  A round of the loop of \<open>txRoutine\<close>: the condition, then one ready branch of the \<open>select\<close>. The
  deferred function closes the connection if \<open>tx_err\<close> is set.
\<close>

inductive tx_round :: "net_write \<Rightarrow> tx_state \<Rightarrow> tx_state \<Rightarrow> bool" for net where
  round_exit: "\<not> tx_done t \<Longrightarrow> c_txRunning (tx_conn t) \<noteq> 1 \<Longrightarrow> tx_round net t (t\<lparr>tx_done := True\<rparr>)"
| round_quit: "\<not> tx_done t \<Longrightarrow> c_txRunning (tx_conn t) = 1 \<Longrightarrow> c_quit (tx_conn t) \<Longrightarrow>
    tx_round net t (tx_quit_branch t)"
| round_timer: "\<not> tx_done t \<Longrightarrow> c_txRunning (tx_conn t) = 1 \<Longrightarrow> tx_timer t \<or> tx_tick t \<Longrightarrow>
    tx_round net t (tx_timer_branch late net t)"
| round_available: "\<not> tx_done t \<Longrightarrow> c_txRunning (tx_conn t) = 1 \<Longrightarrow> c_txAvailable (tx_conn t) \<Longrightarrow>
    tx_available_branch late net now rnd t = Some t' \<Longrightarrow> tx_round net t t'"

inductive_cases tx_round_cases: "tx_round net t t'"

end
