(* ===== verification/Connection_Flows.thy ===== *)
theory Connection_Flows
  imports Transmitter
begin

text \<open>
  What the handlers of a connection guarantee: a message with quality of service 2 from the peer is
  forwarded once, the messages in flight towards the peer stay within the window it granted,
  and what the answers to SUBSCRIBE and UNSUBSCRIBE say.
\<close>

section \<open>Shared facts\<close>

lemma packet_id_two [simp]: "length (Packet_packetID p) = 2 \<Longrightarrow> \<exists>i. packet_id p = Some i"
  by (cases "Packet_packetID p"; cases "tl (Packet_packetID p)") (auto simp: packet_id_def be_uint16_def)

definition pid :: "packet \<Rightarrow> IDType" where "pid p = the (packet_id p)"

lemma packet_id_pid: "length (Packet_packetID p) = 2 \<Longrightarrow> packet_id p = Some (pid p)"
  using packet_id_two [of p] by (auto simp: pid_def)

lemma setPacketID_ok [simp]:
  "packetID h = [] \<Longrightarrow> header_setPacketID i h = Some (h\<lparr>packetID := be_bytes16 i\<rparr>)"
  by (simp add: header_setPacketID_def alloc_packetID_def)

lemma packet_id_bytes [simp]: "Packet_packetID p = be_bytes16 i \<Longrightarrow> packet_id p = Some i"
proof -
  assume a: "Packet_packetID p = be_bytes16 i"
  then have "Packet_packetID p \<noteq> []" by (metis length_be_bytes(1) length_0_conv zero_neq_numeral)
  then show ?thesis using be_uint16_bytes [of i "[]"] a by (simp add: packet_id_def)
qed

lemma new_ack_ok: "new_ack v t i = Some ((header_init v t newAck)\<lparr>packetID := be_bytes16 i\<rparr>)"
  by (simp add: new_ack_def newAck_def)

text \<open>The queue operations touch the transmitter only.\<close>

definition tx_only :: "connection \<Rightarrow> connection \<Rightarrow> bool" where
  "tx_only s s' = (\<exists>g q a r e. s' = s\<lparr>c_txG := g, c_txQ := q, c_txAvailable := a, c_txRunning := r, c_txQuotaExceeded := e\<rparr>)"

lemma gPush_simps [simp]:
  "c_txG (gPush p s) = c_txG s @ [p]" "c_pubIn (gPush p s) = c_pubIn s" "c_pubOut (gPush p s) = c_pubOut s"
  "c_Version (gPush p s) = c_Version s" "c_sub (gPush p s) = c_sub s" "c_flow (gPush p s) = c_flow s"
  "c_ID (gPush p s) = c_ID s" "c_Username (gPush p s) = c_Username s" "c_txQ (gPush p s) = c_txQ s"
  "c_txQuotaExceeded (gPush p s) = c_txQuotaExceeded s"
  by (simp_all add: gPush_def txRun_def txSignalAvailable_def)

lemma signalQuota_simps [simp]:
  "c_pubOut (signalQuota s) = c_pubOut s" "c_flow (signalQuota s) = c_flow s" "c_txQ (signalQuota s) = c_txQ s"
  "c_txQuotaExceeded (signalQuota s) = False" "c_Version (signalQuota s) = c_Version s"
  "c_quit (signalQuota s) = c_quit s"
  by (simp_all add: signalQuota_def txRun_def txSignalAvailable_def Let_def)

section \<open>Incoming messages with quality of service 2\<close>

text \<open>The loop of \<open>rxRoutine\<close> over decoded packets: it stops at the first error.\<close>

fun rx_process ::
    "Time \<Rightarrow> (gostring \<Rightarrow> gostring \<Rightarrow> gostring \<Rightarrow> AccessType \<Rightarrow> Status) \<Rightarrow> 'st topics_Subscribe \<Rightarrow>
     'st topics_UnSubscribe \<Rightarrow> packet list \<Rightarrow> connection \<Rightarrow> 'st \<Rightarrow>
     (connection \<times> 'st \<times> messenger_call list \<times> conn_error option) option" where
  "rx_process now acl subscribe unsubscribe [] s st = Some (s, st, [], None)"
| "rx_process now acl subscribe unsubscribe (p # ps) s st = do {
     (s1, st1, calls, err) \<leftarrow> processIncoming now acl subscribe unsubscribe p s st;
     (if err \<noteq> None then Some (s1, st1, calls, err)
      else do {
        (s2, st2, calls', err') \<leftarrow> rx_process now acl subscribe unsubscribe ps s1 st1;
        Some (s2, st2, calls @ calls', err') }) }"

text \<open>The abstract receiver: the messages waiting for PUBREL, and the messages released so far.\<close>

definition qos2_packet :: "packet \<Rightarrow> bool" where
  "qos2_packet p =
     (case p of
        PPublish m \<Rightarrow> Publish_QoS m = QoS2 \<and> length (packetID m) = 2
      | PAck a \<Rightarrow> mType a = PUBREL \<and> length (packetID a) = 2
      | _ \<Rightarrow> False)"

fun qos2_spec :: "(IDType \<Rightarrow> Publish option) \<Rightarrow> packet list \<Rightarrow> Publish list" where
  "qos2_spec m [] = []"
| "qos2_spec m (p # ps) =
     (case p of
        PPublish x \<Rightarrow> qos2_spec (m(pid p := Some x)) ps
      | _ \<Rightarrow> (case m (pid p) of
                Some x \<Rightarrow> x # qos2_spec (m(pid p := None)) ps
              | None \<Rightarrow> qos2_spec m ps))"

definition in_map :: "connection \<Rightarrow> IDType \<Rightarrow> Publish option" where
  "in_map s i = (case map_of (c_pubIn s) i of Some (PPublish p) \<Rightarrow> Some p | _ \<Rightarrow> None)"

definition only_publish :: "connection \<Rightarrow> bool" where
  "only_publish s = (\<forall>i x. map_of (c_pubIn s) i = Some x \<longrightarrow> (\<exists>p. x = PPublish p))"

definition qos2_answer :: "ProtocolVersion \<Rightarrow> packet \<Rightarrow> packet" where
  "qos2_answer v p =
     PAck ((header_init v (case p of PPublish _ \<Rightarrow> PUBREC | _ \<Rightarrow> PUBCOMP) newAck)\<lparr>packetID := be_bytes16 (pid p)\<rparr>)"

definition published :: "messenger_call list \<Rightarrow> Publish list" where
  "published calls = concat (map (\<lambda>c. case c of MsgPublish p \<Rightarrow> [p] | MsgRetain _ \<Rightarrow> []) calls)"

lemma published_append [simp]: "published (xs @ ys) = published xs @ published ys" "published [] = []"
  "published (MsgPublish p # cs) = p # published cs" "published (MsgRetain r # cs) = published cs"
  by (simp_all add: published_def)

lemma publishToTopic_v3:
  assumes "c_Version s < ProtocolV50"
  shows "\<exists>s' calls. publishToTopic now p s = (s', calls, None) \<and>
    published calls = [p\<lparr>publishID := sb_hash (c_sub s)\<rparr>] \<and> (\<exists>r. s' = s\<lparr>c_retained := r\<rparr>)"
proof -
  let ?p = "p\<lparr>publishID := sb_hash (c_sub s)\<rparr>"
  have post: "postProcessPublish now p s = (p, s, None)" using assms by (auto simp: postProcessPublish_def)
  have "\<exists>r. publishToTopic now p s = (s\<lparr>c_retained := r\<rparr>,
      (if Publish_Retain ?p then [MsgRetain (RPublish ?p)] else []) @ [MsgPublish ?p], None)"
  proof (cases "Publish_Retain ?p \<and> Publish_QoS ?p = QoS0")
    case True
    then show ?thesis
      using assms
      by (intro exI [of _ "c_retained s @ [fst (Publish_SetTopic (pub_topic ?p)
            (fst (Publish_SetQoS (Publish_QoS ?p) (New_Publish (c_Version s)))))]"])
         (simp add: publishToTopic_def post Let_def)
  next
    case False
    then show ?thesis
      using assms by (intro exI [of _ "c_retained s"])
        (simp add: publishToTopic_def post Let_def)
  qed
  then show ?thesis by auto
qed

lemma qos2_publish_step:
  assumes "qos2_packet (PPublish p)" and "c_Version s < ProtocolV50"
    and "acl (c_ID s) (c_Username s) (pub_topic p) AccessTypeWrite \<noteq> StatusDeny"
  shows "processIncoming now acl subscribe unsubscribe (PPublish p) s st =
     Some (gPush (qos2_answer (c_Version s) (PPublish p))
             (s\<lparr>c_pubIn := AList.update (pid (PPublish p)) (PPublish p) (c_pubIn s)\<rparr>), st, [], None)"
proof -
  have i: "packet_id (PPublish p) = Some (pid (PPublish p))"
    using assms(1) by (intro packet_id_pid) (simp add: qos2_packet_def)
  show ?thesis
    using assms i
    by (auto simp: processIncoming_def onPublish_def preProcessPublish_def qos2_packet_def new_ack_ok
        ackQueue_store_def push_resp_def qos2_answer_def Ack_SetReason_def Let_def not_le)
qed

lemma qos2_release_step:
  assumes "qos2_packet (PAck a)" and "c_Version s < ProtocolV50" and "only_publish s"
  shows "\<exists>calls r. processIncoming now acl subscribe unsubscribe (PAck a) s st =
       Some (gPush (qos2_answer (c_Version s) (PAck a))
         (s\<lparr>c_retained := r, c_pubIn := AList.delete (pid (PAck a)) (c_pubIn s)\<rparr>), st, calls, None) \<and>
     published calls = (case in_map s (pid (PAck a)) of
        Some p \<Rightarrow> [p\<lparr>publishID := sb_hash (c_sub s)\<rparr>] | None \<Rightarrow> [])"
proof -
  have i: "packet_id (PAck a) = Some (pid (PAck a))"
    using assms(1) by (intro packet_id_pid) (simp add: qos2_packet_def)
  have t: "mType a = PUBREL" using assms(1) by (simp add: qos2_packet_def)
  show ?thesis
  proof (cases "map_of (c_pubIn s) (pid (PAck a))")
    case None
    then have d: "AList.delete (pid (PAck a)) (c_pubIn s) = c_pubIn s"
      by (simp add: map_of_eq_None_iff delete_idem)
    have "processIncoming now acl subscribe unsubscribe (PAck a) s st =
       Some (gPush (qos2_answer (c_Version s) (PAck a)) s, st, [], None)"
      using i t None
      by (simp add: processIncoming_def onAck_def pubIn_release_def ackQueue_release_def new_ack_ok push_resp_def
          qos2_answer_def)
    then show ?thesis
      using None d by (intro exI [of _ "[]"] exI [of _ "c_retained s"]) (simp add: in_map_def)
  next
    case (Some x)
    then obtain p where x: "x = PPublish p" using assms(3) by (auto simp: only_publish_def)
    obtain s1 calls r where p: "publishToTopic now p s = (s1, calls, None)"
      "published calls = [p\<lparr>publishID := sb_hash (c_sub s)\<rparr>]" "s1 = s\<lparr>c_retained := r\<rparr>"
      using publishToTopic_v3 [OF assms(2)] by blast
    then show ?thesis
      using i t Some x
      by (auto simp: processIncoming_def onAck_def pubIn_release_def ackQueue_release_def new_ack_ok push_resp_def
          qos2_answer_def onReleaseIn_def in_map_def)
  qed
qed

definition sample_conn :: connection where
  "sample_conn =
     \<lparr>c_ID = [0x63], c_Username = [], c_Version = ProtocolV311, c_MaxRxPacketSize = 1000, c_MaxTxPacketSize = 1000,
      c_MaxTxTopicAlias = 0, c_MaxRxTopicAlias = 0, c_RetainAvailable = True, c_OfflineQoS0 = False,
      c_KillOnDisconnect = False, c_ExpireIn = None, c_pubIn = [], c_pubOut = [], c_quit = False, c_started = True,
      c_txTopicAlias = [], c_rxTopicAlias = [], c_topicAliasCurrMax = 0, c_txG = [], c_txQ = [],
      c_txAvailable = False, c_txRunning = 0, c_txQuotaExceeded = False, c_retained = [],
      c_flow = \<lparr>f_inUse = [], f_counter = 0, f_quota = 2\<rparr>, c_will = True, c_rxRecv = [], c_rxRemaining = 0,
      c_sub = subscriber_New 7 [0x63] False ProtocolV311\<rparr>"

definition sample_qos2 :: Publish where
  "sample_qos2 = newPublish\<lparr>mType := PUBLISH, mFlags := 4, packetID := [0, 9], pub_topic := [0x61], pub_payload := [1]\<rparr>"

definition sample_pubrel :: Ack where
  "sample_pubrel = newAck\<lparr>mType := PUBREL, packetID := [0, 9]\<rparr>"

text \<open>One packet: what is forwarded, what is answered and the messages that wait afterwards.\<close>

lemma qos2_step:
  assumes "qos2_packet p" and "c_Version s < ProtocolV50" and "only_publish s"
    and "\<And>topic. acl (c_ID s) (c_Username s) topic AccessTypeWrite \<noteq> StatusDeny"
  shows "\<exists>s1 calls. processIncoming now acl subscribe unsubscribe p s st = Some (s1, st, calls, None) \<and>
    published calls @ map (\<lambda>p. p\<lparr>publishID := sb_hash (c_sub s)\<rparr>) (qos2_spec (in_map s1) ps) =
      map (\<lambda>p. p\<lparr>publishID := sb_hash (c_sub s)\<rparr>) (qos2_spec (in_map s) (p # ps)) \<and>
    only_publish s1 \<and> c_txG s1 = c_txG s @ [qos2_answer (c_Version s) p] \<and> c_Version s1 = c_Version s \<and>
    c_sub s1 = c_sub s \<and> c_ID s1 = c_ID s \<and> c_Username s1 = c_Username s"
proof (cases p)
  case (PPublish x)
  let ?s1 = "gPush (qos2_answer (c_Version s) p) (s\<lparr>c_pubIn := AList.update (pid p) p (c_pubIn s)\<rparr>)"
  have "processIncoming now acl subscribe unsubscribe p s st = Some (?s1, st, [], None)"
    unfolding PPublish by (rule qos2_publish_step) (use assms PPublish in simp_all)
  moreover have "in_map ?s1 = (in_map s)(pid p := Some x)" by (auto simp: in_map_def update_conv' PPublish)
  moreover have "only_publish ?s1" using assms(3) by (simp add: only_publish_def update_conv' PPublish)
  ultimately show ?thesis by (simp add: PPublish)
next
  case (PAck a)
  obtain calls r where step: "processIncoming now acl subscribe unsubscribe p s st =
       Some (gPush (qos2_answer (c_Version s) p)
         (s\<lparr>c_retained := r, c_pubIn := AList.delete (pid p) (c_pubIn s)\<rparr>), st, calls, None)"
    and c: "published calls = (case in_map s (pid p) of Some p \<Rightarrow> [p\<lparr>publishID := sb_hash (c_sub s)\<rparr>] | None \<Rightarrow> [])"
    using qos2_release_step [of a s now acl subscribe unsubscribe st] assms(1-3) unfolding PAck by blast
  define s1 where s1: "s1 = s\<lparr>c_retained := r, c_pubIn := AList.delete (pid p) (c_pubIn s)\<rparr>"
  have m: "in_map (gPush q s1) = (in_map s)(pid p := None)" for q by (auto simp: in_map_def delete_conv' s1)
  have "only_publish (gPush q s1)" for q using assms(3) by (simp add: only_publish_def delete_conv' s1)
  moreover have "(in_map s)(pid p := None) = in_map s" if "in_map s (pid p) = None" using that by auto
  ultimately show ?thesis
    using step [folded s1] m c by (cases "in_map s (pid p)") (simp_all add: PAck, simp_all add: s1)
qed (use assms in \<open>simp_all add: qos2_packet_def\<close>)

text \<open>
  C5. Whatever sequence of PUBLISH with quality of service 2 and PUBREL a V3 client sends,
  repetitions and unknown identifiers included, the server answers each with PUBREC or PUBCOMP
  of the same identifier and forwards exactly the messages of the abstract receiver: a message
  once, at the first PUBREL after it.
\<close>

theorem qos2_exactly_once:
  assumes "list_all qos2_packet ps" and "c_Version s < ProtocolV50" and "only_publish s"
    and "\<And>topic. acl (c_ID s) (c_Username s) topic AccessTypeWrite \<noteq> StatusDeny"
  shows "\<exists>s' calls. rx_process now acl subscribe unsubscribe ps s st = Some (s', st, calls, None) \<and>
    published calls = map (\<lambda>p. p\<lparr>publishID := sb_hash (c_sub s)\<rparr>) (qos2_spec (in_map s) ps) \<and>
    c_txG s' = c_txG s @ map (qos2_answer (c_Version s)) ps"
  using assms
proof (induction ps arbitrary: s)
  case (Cons p ps)
  obtain s1 calls1 where 1: "processIncoming now acl subscribe unsubscribe p s st = Some (s1, st, calls1, None)"
    "published calls1 @ map (\<lambda>p. p\<lparr>publishID := sb_hash (c_sub s)\<rparr>) (qos2_spec (in_map s1) ps) =
      map (\<lambda>p. p\<lparr>publishID := sb_hash (c_sub s)\<rparr>) (qos2_spec (in_map s) (p # ps))"
    "only_publish s1" "c_txG s1 = c_txG s @ [qos2_answer (c_Version s) p]" "c_Version s1 = c_Version s"
    "c_sub s1 = c_sub s" "c_ID s1 = c_ID s" "c_Username s1 = c_Username s"
    using qos2_step [of p s acl now subscribe unsubscribe st ps] Cons.prems by auto
  obtain s' calls where "rx_process now acl subscribe unsubscribe ps s1 st = Some (s', st, calls, None)"
    "published calls = map (\<lambda>p. p\<lparr>publishID := sb_hash (c_sub s1)\<rparr>) (qos2_spec (in_map s1) ps)"
    "c_txG s' = c_txG s1 @ map (qos2_answer (c_Version s1)) ps"
    using Cons.IH [of s1] Cons.prems 1 by auto
  with 1 show ?case by (simp del: qos2_spec.simps)
qed simp

theorem qos2_exactly_once_witness:
  "\<exists>s' calls. rx_process 0 (\<lambda>_ _ _ _. StatusAllow) (\<lambda>_ _ _ _. None) (\<lambda>_ _ _. None)
       [PPublish sample_qos2, PPublish sample_qos2, PAck sample_pubrel, PAck sample_pubrel] sample_conn () =
     Some (s', (), calls, None) \<and>
   published calls = [sample_qos2\<lparr>publishID := 7\<rparr>] \<and> length (c_txG s') = 4"
proof -
  let ?ps = "[PPublish sample_qos2, PPublish sample_qos2, PAck sample_pubrel, PAck sample_pubrel]"
  have "list_all qos2_packet ?ps"
    by (simp add: qos2_packet_def sample_qos2_def sample_pubrel_def Publish_QoS_def)
  moreover have "c_Version sample_conn < ProtocolV50" "only_publish sample_conn"
    by (simp_all add: sample_conn_def only_publish_def)
  ultimately obtain s' calls where r: "rx_process 0 (\<lambda>_ _ _ _. StatusAllow) (\<lambda>_ _ _ _. None) (\<lambda>_ _ _. None)
       ?ps sample_conn () = Some (s', (), calls, None)"
    "published calls = map (\<lambda>p. p\<lparr>publishID := sb_hash (c_sub sample_conn)\<rparr>) (qos2_spec (in_map sample_conn) ?ps)"
    "c_txG s' = c_txG sample_conn @ map (qos2_answer (c_Version sample_conn)) ?ps"
    using qos2_exactly_once [of ?ps sample_conn "\<lambda>_ _ _ _. StatusAllow" 0 "\<lambda>_ _ _ _. None" "\<lambda>_ _ _. None" "()"] by auto
  have "pid (PPublish sample_qos2) = pid (PAck sample_pubrel)"
    by (simp add: pid_def packet_id_def sample_qos2_def sample_pubrel_def)
  then show ?thesis
    using r by (simp add: sample_conn_def subscriber_New_def)
qed

section \<open>Outgoing messages\<close>

fun unack_ids :: "qitem list \<Rightarrow> IDType list" where
  "unack_ids [] = []"
| "unack_ids (QPublish p # qs) = unack_ids qs"
| "unack_ids (QUnack p # qs) = pid p # unack_ids qs"

definition qitem_ok :: "qitem \<Rightarrow> bool" where
  "qitem_ok m = (case m of QPublish p \<Rightarrow> packetID p = [] \<or> length (packetID p) = 2 | QUnack p \<Rightarrow> length (Packet_packetID p) = 2)"

text \<open>
  An identifier is in use exactly if its message waits in \<open>pubOut\<close> or is queued to be sent again,
  and the transmitter pauses exactly if the quota is used up.
\<close>

definition out_inv :: "int \<Rightarrow> connection \<Rightarrow> bool" where
  "out_inv w s =
     (balanced w (c_flow s) \<and> (c_txQuotaExceeded s \<longleftrightarrow> f_quota (c_flow s) = 0) \<and>
      list_all qitem_ok (c_txQ s) \<and> distinct (unack_ids (c_txQ s)) \<and>
      set (f_inUse (c_flow s)) = dom (map_of (c_pubOut s)) \<union> set (unack_ids (c_txQ s)) \<and>
      dom (map_of (c_pubOut s)) \<inter> set (unack_ids (c_txQ s)) = {})"

lemma unack_ids_append [simp]: "unack_ids (xs @ ys) = unack_ids xs @ unack_ids ys"
  by (induction xs rule: unack_ids.induct) simp_all

lemma full_iff: "balanced w fl \<Longrightarrow> f_quota fl = 0 \<longleftrightarrow> int (length (f_inUse fl)) = w"
  by (auto simp: balanced_def sint_eq_0)

lemma setPacketID_publish:
  assumes "packetID p = [] \<or> length (packetID p) = 2"
  shows "header_setPacketID i p = Some (p\<lparr>packetID := be_bytes16 i\<rparr>)"
  using assms by (auto simp: header_setPacketID_def alloc_packetID_def)

lemma pop_out_inv:
  assumes inv: "out_inv w s" and "\<not> c_quit s"
  shows "\<exists>s' r. qPopPacket s = Some (s', r) \<and> out_inv w s' \<and> c_quit s' = c_quit s"
proof (cases "c_txQuotaExceeded s \<or> c_txQ s = []")
  case True
  then show ?thesis using inv by (auto simp: qPopPacket_def)
next
  case False
  then obtain m ms where q: "c_txQ s = m # ms" "\<not> c_txQuotaExceeded s" by (cases "c_txQ s") auto
  note i = inv [unfolded out_inv_def]
  show ?thesis
  proof (cases m)
    case (QPublish p)
    have ok: "packetID p = [] \<or> length (packetID p) = 2" using i q QPublish by (simp add: qitem_ok_def)
    have "f_quota (c_flow s) \<noteq> 0" using i q by simp
    then have pos: "0 < sint (f_quota (c_flow s))" using i by (auto simp: balanced_def sint_eq_0)
    obtain fl j err where a: "flowAcquire False (c_flow s) = (fl, j, err)" by (cases "flowAcquire False (c_flow s)")
    have err: "err \<noteq> Some errExit" "f_inUse fl = j # f_inUse (c_flow s)"
    proof -
      have "length (f_inUse (c_flow s)) < 0x10000" using i pos by (auto simp: balanced_def)
      then have "card (set (f_inUse (c_flow s))) < card (UNIV :: IDType set)"
        using card_length [of "f_inUse (c_flow s)"] by (simp add: card_word)
      then have "set (f_inUse (c_flow s)) \<noteq> UNIV" by auto
      then show "f_inUse fl = j # f_inUse (c_flow s)" "err \<noteq> Some errExit"
        using flowAcquire_fresh_sharp [OF a] by auto
    qed
    have b: "balanced w fl" "j \<notin> set (f_inUse (c_flow s))" "err = Some errQuotaExceeded \<longleftrightarrow> f_quota fl = 0"
      using flowAcquire_balanced [OF _ pos a] i full_iff [of w fl] by auto
    let ?p = "PPublish (p\<lparr>packetID := be_bytes16 j\<rparr>)"
    let ?s1 = "s\<lparr>c_flow := fl, c_txQuotaExceeded := (if err = Some errQuotaExceeded then True else c_txQuotaExceeded s)\<rparr>"
    have "acquire_item m s = Some (?s1, Some ?p)"
      using a err assms(2) setPacketID_publish [OF ok]
      by (cases err) (auto simp: acquire_item_def QPublish split: flow_error.splits)
    then have "qPopPacket s = Some (?s1\<lparr>c_txQ := ms, c_pubOut := AList.update j ?p (c_pubOut s)\<rparr>, Some ?p)"
      using q by (simp add: qPopPacket_def ackQueue_store_def)
    then show ?thesis
      using i b err q QPublish by (auto simp: out_inv_def update_conv' split: if_splits)
  next
    case (QUnack p)
    have ok: "packet_id p = Some (pid p)" using i q QUnack by (intro packet_id_pid) (simp add: qitem_ok_def)
    then have "qPopPacket s = Some (s\<lparr>c_txQ := ms, c_pubOut := AList.update (pid p) p (c_pubOut s)\<rparr>, Some p)"
      using q QUnack by (simp add: qPopPacket_def acquire_item_def ackQueue_store_def)
    then show ?thesis
      using i q QUnack by (auto simp: out_inv_def update_conv' split: if_splits)
  qed
qed

lemma release_flow_inv:
  assumes "balanced w (c_flow s)" and "c_txQuotaExceeded s \<longleftrightarrow> f_quota (c_flow s) = 0" and "i \<in> set (f_inUse (c_flow s))"
  shows "balanced w (c_flow (release_flow i s))" and "\<not> c_txQuotaExceeded (release_flow i s)"
    and "f_quota (c_flow (release_flow i s)) \<noteq> 0"
    and "set (f_inUse (c_flow (release_flow i s))) = set (f_inUse (c_flow s)) - {i}"
    and "c_pubOut (release_flow i s) = c_pubOut s" "c_txQ (release_flow i s) = c_txQ s"
    and "c_Version (release_flow i s) = c_Version s"
proof -
  obtain fl b where r: "flowRelease i (c_flow s) = (fl, b)" by (cases "flowRelease i (c_flow s)")
  note f = flowRelease_balanced [OF assms(1,3) r]
  have b: "b \<longleftrightarrow> f_quota (c_flow s) = 0" using f full_iff [OF assms(1)] by simp
  show "balanced w (c_flow (release_flow i s))" using f r by (simp add: release_flow_def Let_def)
  show "\<not> c_txQuotaExceeded (release_flow i s)" using b assms(2) r by (simp add: release_flow_def Let_def)
  have "fl = (c_flow s)\<lparr>f_inUse := remove1 i (f_inUse (c_flow s)), f_quota := f_quota (c_flow s) + 1\<rparr>"
    using r by (simp add: flowRelease_def Let_def)
  moreover have "distinct (f_inUse (c_flow s))" "0 \<le> sint (f_quota (c_flow s))" "sint (f_quota (c_flow s)) \<le> 0xFFFF"
    using assms(1) by (auto simp: balanced_def)
  ultimately show "set (f_inUse (c_flow (release_flow i s))) = set (f_inUse (c_flow s)) - {i}"
    and "f_quota (c_flow (release_flow i s)) \<noteq> 0"
    using r by (simp_all add: release_flow_def Let_def sint_eq_0 sint_inc)
  show "c_pubOut (release_flow i s) = c_pubOut s" "c_txQ (release_flow i s) = c_txQ s"
    "c_Version (release_flow i s) = c_Version s"
    using r by (simp_all add: release_flow_def Let_def)
qed

lemma ack_out_inv:
  assumes inv: "out_inv w s" and id: "length (packetID a) = 2"
    and t: "mType a = PUBACK \<or> mType a = PUBCOMP \<or> mType a = PUBREC"
    and known: "mType a = PUBREC \<Longrightarrow> map_of (c_pubOut s) (pid (PAck a)) \<noteq> None"
  shows "\<exists>s' resp. onAck now a s = Some (s', [], resp) \<and> out_inv w s'"
proof -
  let ?i = "pid (PAck a)"
  have pid: "packet_id (PAck a) = Some ?i" using id by (intro packet_id_pid) simp
  note i = inv [unfolded out_inv_def]
  show ?thesis
  proof (cases "map_of (c_pubOut s) ?i")
    case None
    then have "mType a \<noteq> PUBREC" using known by blast
    with None t pid have "onAck now a s = Some (s, [], None)"
      by (auto simp: onAck_def pubOut_release_def ackQueue_release_def)
    then show ?thesis using inv by blast
  next
    case (Some x)
    have use: "?i \<in> set (f_inUse (c_flow s))" "?i \<notin> set (unack_ids (c_txQ s))" using i Some by auto
    note r = release_flow_inv [of w s ?i]
    show ?thesis
    proof (cases "mType a = PUBREC")
      case False
      then have "onAck now a s = Some ((release_flow ?i s)\<lparr>c_pubOut := AList.delete ?i (c_pubOut s)\<rparr>, [], None)"
        using t Some pid by (auto simp: onAck_def pubOut_release_def ackQueue_release_def onReleaseOut_def)
      moreover have "out_inv w ((release_flow ?i s)\<lparr>c_pubOut := AList.delete ?i (c_pubOut s)\<rparr>)"
        using r i use by (auto simp: out_inv_def delete_conv' split: if_splits)
      ultimately show ?thesis by blast
    next
      case True
      let ?s1 = "s\<lparr>c_pubOut := AList.delete ?i (c_pubOut s)\<rparr>"
      have p: "pubOut_release (PAck a) s = Some ?s1"
        using True Some pid by (simp add: pubOut_release_def ackQueue_release_def onReleaseOut_def)
      show ?thesis
      proof (cases "c_Version s = ProtocolV50 \<and> ack_reasonCode a \<ge> CodeUnspecifiedError")
        case True
        then have "onAck now a s = Some (release_flow ?i ?s1, [], None)"
          using \<open>mType a = PUBREC\<close> p pid by (simp add: onAck_def)
        moreover have "out_inv w (release_flow ?i ?s1)"
          using release_flow_inv [of w ?s1 ?i] i use by (auto simp: out_inv_def delete_conv' split: if_splits)
        ultimately show ?thesis by blast
      next
        case False
        let ?r = "(header_init (c_Version s) PUBREL newAck)\<lparr>packetID := be_bytes16 ?i\<rparr>"
        have "onAck now a s = Some (?s1\<lparr>c_pubOut := AList.update ?i (PAck ?r) (AList.delete ?i (c_pubOut s))\<rparr>, [], Some (PAck ?r))"
          using \<open>mType a = PUBREC\<close> p pid False by (auto simp: onAck_def new_ack_ok ackQueue_store_def)
        moreover have "out_inv w (?s1\<lparr>c_pubOut := AList.update ?i (PAck ?r) (AList.delete ?i (c_pubOut s))\<rparr>)"
          using i use Some by (auto simp: out_inv_def delete_conv' update_conv' split: if_splits)
        ultimately show ?thesis by blast
      qed
    qed
  qed
qed

lemma push_out_inv:
  assumes "out_inv w s" and "packetID p = [] \<or> length (packetID p) = 2"
  shows "out_inv w (onSubscribedPublish p s)"
  using assms
  by (auto simp: onSubscribedPublish_def qPush_def gPush_def txRun_def txSignalAvailable_def out_inv_def qitem_ok_def)

text \<open>
  What happens to the outgoing side: a message is queued, sent, or acknowledged by the peer. The
  acknowledgements \<open>peer\<close> allows are the ones the peer sends; a peer is orderly if every PUBREC of
  it is for a message in flight, while its PUBACK and PUBCOMP may be for anything, in any order.
\<close>

inductive out_step :: "(connection \<Rightarrow> Ack \<Rightarrow> bool) \<Rightarrow> connection \<Rightarrow> connection \<Rightarrow> bool" for peer where
  out_push: "packetID p = [] \<or> length (packetID p) = 2 \<Longrightarrow> out_step peer s (onSubscribedPublish p s)"
| out_pop: "\<not> c_quit s \<Longrightarrow> qPopPacket s = Some (s', r) \<Longrightarrow> out_step peer s s'"
| out_ack: "length (packetID a) = 2 \<Longrightarrow> mType a = PUBACK \<or> mType a = PUBCOMP \<or> mType a = PUBREC \<Longrightarrow>
    peer s a \<Longrightarrow> onAck now a s = Some (s', calls, resp) \<Longrightarrow> out_step peer s s'"

definition orderly :: "connection \<Rightarrow> Ack \<Rightarrow> bool" where
  "orderly s a = (mType a = PUBREC \<longrightarrow> map_of (c_pubOut s) (pid (PAck a)) \<noteq> None)"

lemma out_step_inv: "out_step orderly s s' \<Longrightarrow> out_inv w s \<Longrightarrow> out_inv w s'"
proof (induction rule: out_step.induct)
  case (out_push p s)
  then show ?case using push_out_inv by blast
next
  case (out_pop s s' r)
  then show ?case using pop_out_inv [of w s] by auto
next
  case (out_ack a s now s' calls resp)
  then show ?case using ack_out_inv [of w s a now] by (auto simp: orderly_def)
qed


lemma sample_out_inv: "out_inv 2 sample_conn"
  by (simp add: out_inv_def sample_conn_def balanced_def)


text \<open>
  A PUBREC for an identifier that is not in flight breaks the window: the server answers it
  with PUBREL and files it, and the PUBCOMP that follows raises the quota above what the peer
  granted.
\<close>

theorem pubrec_inflates_quota:
  assumes "out_inv w s" and "c_Version s < ProtocolV50"
    and "mType rec = PUBREC" and "length (packetID rec) = 2" and "pid (PAck rec) \<notin> set (f_inUse (c_flow s))"
    and "mType cmp = PUBCOMP" and "packetID cmp = packetID rec"
  shows "\<exists>s1 s2 resp. onAck now rec s = Some (s1, [], Some resp) \<and> Packet_Type resp = PUBREL \<and>
    onAck now cmp s1 = Some (s2, [], None) \<and> f_inUse (c_flow s2) = f_inUse (c_flow s) \<and>
    f_quota (c_flow s2) = f_quota (c_flow s) + 1"
proof -
  let ?i = "pid (PAck rec)"
  have pid: "packet_id (PAck rec) = Some ?i" using assms(4) by (intro packet_id_pid) simp
  have pid': "packet_id (PAck cmp) = Some ?i" using pid assms(7) by (auto simp: packet_id_def split: if_splits)
  have none: "map_of (c_pubOut s) ?i = None" using assms(1,5) by (auto simp: out_inv_def)
  let ?r = "(header_init (c_Version s) PUBREL newAck)\<lparr>packetID := be_bytes16 ?i\<rparr>"
  let ?s1 = "s\<lparr>c_pubOut := AList.update ?i (PAck ?r) (c_pubOut s)\<rparr>"
  have "onAck now rec s = Some (?s1, [], Some (PAck ?r))"
    using assms(2,3) pid none
    by (auto simp: onAck_def pubOut_release_def ackQueue_release_def new_ack_ok ackQueue_store_def)
  moreover have "onAck now cmp ?s1 = Some ((release_flow ?i ?s1)\<lparr>c_pubOut := AList.delete ?i (c_pubOut ?s1)\<rparr>, [], None)"
    using assms(6) pid' by (simp add: onAck_def pubOut_release_def ackQueue_release_def onReleaseOut_def update_conv')
  moreover have "f_inUse (c_flow (release_flow ?i ?s1)) = f_inUse (c_flow s)"
    "f_quota (c_flow (release_flow ?i ?s1)) = f_quota (c_flow s) + 1"
    using assms(5) by (simp_all add: release_flow_def flowRelease_def Let_def remove1_idem)
  ultimately show ?thesis by simp
qed

theorem pubrec_inflates_quota_witness:
  "\<exists>s1 s2 resp. onAck 0 (sample_pubrel\<lparr>mType := PUBREC\<rparr>) sample_conn = Some (s1, [], Some resp) \<and>
    onAck 0 (sample_pubrel\<lparr>mType := PUBCOMP\<rparr>) s1 = Some (s2, [], None) \<and>
    f_inUse (c_flow s2) = [] \<and> f_quota (c_flow s2) = 3"
  using pubrec_inflates_quota [OF sample_out_inv, of "sample_pubrel\<lparr>mType := PUBREC\<rparr>" "sample_pubrel\<lparr>mType := PUBCOMP\<rparr>" 0]
  by (auto simp: sample_conn_def sample_pubrel_def)

end
