(* ===== verification/Tx_Interleaving.thy ===== *)
theory Tx_Interleaving
  imports Connection_Flows
begin

text \<open>
  The goroutines around one connection: the callers of \<open>gPush\<close> and \<open>qPush\<close>, which append a message, signal it
  and call \<open>txRun\<close>, and the transmitters that \<open>txRun\<close> starts. \<open>Connection\<close> has each push as one
  step; here a goroutine is the point it has reached, and a step is what it does up to its
  next access to \<open>txRunning\<close>, the queues, \<open>txAvailable\<close>, \<open>txTimer\<close> or \<open>txWg\<close>. Every run of this model is one of the code;
  the theorems say that certain runs exist.
\<close>

section \<open>The goroutines\<close>

datatype tx_pc =
    GPushing packet | QPushing qitem | Signalling | Starting | WgWaiting | WgAdding
  | Looping "byte list list" | Selecting "byte list list" | Stopping | Exiting | Finished

record tx_sys =
  xs_conn :: connection
  xs_timer :: bool
  xs_wg :: nat
  xs_written :: "byte list"
  xs_pcs :: "tx_pc list"

definition idle_sys :: "connection \<Rightarrow> tx_pc list \<Rightarrow> tx_sys" where
  "idle_sys c pcs = \<lparr>xs_conn = c, xs_timer = False, xs_wg = 0, xs_written = [], xs_pcs = pcs\<rparr>"

definition moves :: "nat \<Rightarrow> tx_pc \<Rightarrow> tx_sys \<Rightarrow> tx_sys" where
  "moves i pc x = x\<lparr>xs_pcs := (xs_pcs x)[i := pc]\<rparr>"

text \<open>The branch of the timer; a write takes all bytes or, \<open>Some n\<close>, fails.\<close>

definition select_timer :: "net_write \<Rightarrow> nat \<Rightarrow> byte list list \<Rightarrow> tx_sys \<Rightarrow> tx_sys" where
  "select_timer net i bufs x =
     (let x1 = x\<lparr>xs_timer := False\<rparr>; c = xs_conn x in
      case net (concat bufs) of
        Some n \<Rightarrow> moves i Exiting (x1\<lparr>xs_written := xs_written x @ take n (concat bufs), xs_conn := tx_stop c\<rparr>)
      | None \<Rightarrow>
          (let x2 = x1\<lparr>xs_written := xs_written x @ concat bufs\<rparr> in
           if qAvailable c \<or> gAvailable c then moves i (Looping []) (x2\<lparr>xs_conn := txSignalAvailable c\<rparr>)
           else moves i Stopping x2))"

text \<open>The branch of \<open>txAvailable\<close>.\<close>

definition select_available ::
    "net_write \<Rightarrow> Time \<Rightarrow> uint16 \<Rightarrow> nat \<Rightarrow> byte list list \<Rightarrow> tx_sys \<Rightarrow> tx_sys option" where
  "select_available net now rnd i bufs x = do {
     (c1, pkts) \<leftarrow> popPackets ((xs_conn x)\<lparr>c_txAvailable := False\<rparr>);
     (c2, new) \<leftarrow> tx_packets now rnd pkts c1;
     let buffers = bufs @ new;
     let available = (qAvailable c2 \<or> gAvailable c2);
     let x1 = x\<lparr>xs_conn := (if available then txSignalAvailable c2 else c2)\<rparr>;
     Some (if length bufs = 0 then moves i (Looping buffers) (x1\<lparr>xs_timer := True\<rparr>)
           else if length buffers \<ge> 5 then
             (let x2 = x1\<lparr>xs_timer := False\<rparr> in
              case net (concat buffers) of
                Some n \<Rightarrow> moves i Stopping (x2\<lparr>xs_written := xs_written x @ take n (concat buffers)\<rparr>)
              | None \<Rightarrow> moves i (if available then Looping [] else Stopping) (x2\<lparr>xs_written := xs_written x @ concat buffers\<rparr>))
           else moves i (Looping buffers) x1) }"

text \<open>The next step of goroutine \<open>i\<close>; \<open>timer\<close> chooses the branch of the \<open>select\<close>. \<open>None\<close>: it cannot go on.\<close>

definition tx_act :: "net_write \<Rightarrow> Time \<Rightarrow> uint16 \<Rightarrow> nat \<times> bool \<Rightarrow> tx_sys \<Rightarrow> tx_sys option" where
  "tx_act net now rnd e x =
     (let i = fst e; c = xs_conn x in
      if i < length (xs_pcs x) then
        (case xs_pcs x ! i of
           GPushing p \<Rightarrow> Some (moves i Signalling (x\<lparr>xs_conn := c\<lparr>c_txG := c_txG c @ [p]\<rparr>\<rparr>))
         | QPushing p \<Rightarrow> Some (moves i Signalling (x\<lparr>xs_conn := c\<lparr>c_txQ := c_txQ c @ [p]\<rparr>\<rparr>))
         | Signalling \<Rightarrow> Some (moves i Starting (x\<lparr>xs_conn := txSignalAvailable c\<rparr>))
         | Starting \<Rightarrow>
             Some (if c_quit c then moves i Finished x
                   else if c_txRunning c = 0 then moves i WgWaiting (x\<lparr>xs_conn := c\<lparr>c_txRunning := 1\<rparr>\<rparr>)
                   else moves i Finished x)
         | WgWaiting \<Rightarrow> if xs_wg x = 0 then Some (moves i WgAdding x) else None
         | WgAdding \<Rightarrow> Some (x\<lparr>xs_wg := xs_wg x + 1, xs_pcs := (xs_pcs x)[i := Finished] @ [Looping []]\<rparr>)
         | Looping bufs \<Rightarrow> Some (moves i (if c_txRunning c = 1 then Selecting bufs else Exiting) x)
         | Selecting bufs \<Rightarrow>
             if c_quit c then Some (moves i Exiting (x\<lparr>xs_conn := tx_stop c\<rparr>))
             else if snd e \<and> xs_timer x then Some (select_timer net i bufs x)
             else if \<not> snd e \<and> c_txAvailable c then select_available net now rnd i bufs x
             else None
         | Stopping \<Rightarrow> Some (moves i (Looping []) (x\<lparr>xs_conn := tx_stop c\<rparr>))
         | Exiting \<Rightarrow> Some (moves i Finished (x\<lparr>xs_wg := xs_wg x - 1\<rparr>))
         | Finished \<Rightarrow> None)
      else None)"

fun tx_run :: "net_write \<Rightarrow> Time \<Rightarrow> uint16 \<Rightarrow> (nat \<times> bool) list \<Rightarrow> tx_sys \<Rightarrow> tx_sys option" where
  "tx_run net now rnd [] x = Some x"
| "tx_run net now rnd (e # es) x = do { x' \<leftarrow> tx_act net now rnd e x; tx_run net now rnd es x' }"

lemma tx_run_append: "tx_run net now rnd (es @ fs) x = Option.bind (tx_run net now rnd es x) (tx_run net now rnd fs)"
proof (induction es arbitrary: x)
  case (Cons e es)
  then show ?case by (cases "tx_act net now rnd e x") simp_all
qed simp

section \<open>A message nobody sends\<close>

text \<open>A packet that the transmitter encodes as \<open>w p\<close> and that leaves the connection as it is.\<close>

definition plain :: "Time \<Rightarrow> uint16 \<Rightarrow> connection \<Rightarrow> (packet \<Rightarrow> byte list) \<Rightarrow> packet \<Rightarrow> bool" where
  "plain now rnd c w p = (\<forall>c'. c_MaxTxPacketSize c' = c_MaxTxPacketSize c \<longrightarrow> tx_packet now rnd p c' = Some (c', [w p]))"

lemmas tx_act_simps = tx_act_def moves_def idle_sys_def select_timer_def select_available_def popPackets_def gPopPacket_def
  qPopPacket_def qAvailable_def gAvailable_def txSignalAvailable_def tx_stop_def opt_list_def

lemma all_finished_stuck: "list_all (\<lambda>pc. pc = Finished) (xs_pcs x) \<Longrightarrow> tx_act net now rnd e x = None"
  by (auto simp: tx_act_def Let_def list_all_length)

text \<open>Acknowledgements are such packets.\<close>

definition sample_ack :: "byte \<Rightarrow> packet" where
  "sample_ack i = PAck ((header_init ProtocolV311 PUBACK newAck)\<lparr>packetID := [0, i]\<rparr>)"

definition ack_bytes :: "packet \<Rightarrow> byte list" where
  "ack_bytes p = [0x40, 2] @ Packet_packetID p"

definition encodes_as :: "byte list \<Rightarrow> packet \<Rightarrow> bool" where
  "encodes_as b p =
     (case Packet_Size p of
        (p2, n, e) \<Rightarrow> e = None \<and> n \<le> 1000 \<and> (case Encode p2 of Some (p3, b', None) \<Rightarrow> b' = b | _ \<Rightarrow> False))"

lemma plainI:
  assumes "encodes_as (w p) p" and "\<nexists>m. p = PPublish m" and "c_MaxTxPacketSize c = 1000"
  shows "plain now rnd c w p"
proof -
  obtain p2 n p3 where "Packet_Size p = (p2, n, None)" "n \<le> 1000" "Encode p2 = Some (p3, w p, None)"
    using assms(1) by (auto simp: encodes_as_def split: prod.split_asm option.split_asm)
  then show ?thesis using assms(2,3)
    by (auto simp: plain_def tx_packet_def prepare_publish_def packetFitsSize_def split: packet.split)
qed

lemma sample_acks_plain: "\<forall>i \<in> {1, 2, 3, 4, 5}. plain now rnd sample_conn ack_bytes (sample_ack i)"
proof -
  have "list_all (\<lambda>i. encodes_as (ack_bytes (sample_ack i)) (sample_ack i)) [1, 2, 3, 4, 5]" by code_simp
  moreover have "\<nexists>m. sample_ack i = PPublish m" for i by (simp add: sample_ack_def)
  moreover have "c_MaxTxPacketSize sample_conn = 1000" by (simp add: sample_conn_def)
  ultimately show ?thesis by (simp add: plainI)
qed

text \<open>
  C32. A wake-up can be lost: if a message is pushed after a transmitter has seen that the queues are empty and
  before it clears \<open>txRunning\<close>, \<open>txRun\<close> finds the flag set and starts nothing. The transmitter ends, no
  goroutine is left that could act, and the message stays in the queue of an open connection.
\<close>

theorem wakeup_lost:
  assumes "c_txG c = []" and "c_txQ c = []" and "\<not> c_quit c" and "c_txRunning c = 0" and "plain now rnd c w p1"
    and "net (w p1) = None"
  shows "\<exists>es x. tx_run net now rnd es (idle_sys c [GPushing p1, GPushing p2]) = Some x \<and>
    (\<forall>e. tx_act net now rnd e x = None) \<and> xs_written x = w p1 \<and> c_txG (xs_conn x) = [p2] \<and> \<not> c_quit (xs_conn x)"
proof -
  let ?es = "map (\<lambda>i. (i, False)) [0, 0, 0, 0, 0, 2, 2, 2] @ [(2, True)] @ map (\<lambda>i. (i, False)) [1, 1, 1, 2, 2, 2]"
  let ?x = "\<lparr>xs_conn = c\<lparr>c_txG := [p2], c_txAvailable := True, c_txRunning := 0\<rparr>, xs_timer = False, xs_wg = 0, xs_written = w p1,
    xs_pcs = [Finished, Finished, Finished]\<rparr>"
  have "tx_run net now rnd ?es (idle_sys c [GPushing p1, GPushing p2]) = Some ?x"
    using assms by (simp add: tx_act_simps plain_def)
  moreover have "tx_act net now rnd e ?x = None" for e
    by (rule all_finished_stuck) simp
  ultimately show ?thesis using assms(3) by (intro exI [of _ ?es] exI [of _ ?x]) simp
qed



theorem wakeup_lost_witness:
  "\<exists>es x. tx_run (\<lambda>_. None) 0 0 es (idle_sys sample_conn [GPushing (sample_ack 1), GPushing (sample_ack 2)]) = Some x \<and>
    xs_written x = [0x40, 2, 0, 1] \<and> c_txG (xs_conn x) = [sample_ack 2]"
proof -
  have "plain 0 0 sample_conn ack_bytes (sample_ack 1)" using sample_acks_plain by blast
  moreover have "ack_bytes (sample_ack 1) = [0x40, 2, 0, 1]" by code_simp
  ultimately show ?thesis
    using wakeup_lost [of sample_conn 0 0 ack_bytes "sample_ack 1" "\<lambda>_. None" "sample_ack 2"] by (auto simp: sample_conn_def)
qed

section \<open>Two transmitters\<close>

text \<open>
  C30. \<open>txRun\<close> does not keep to one transmitter. A caller that sets \<open>txRunning\<close> just after a transmitter has
  cleared it keeps this transmitter alive and waits for its end; when two have done so, both start a
  transmitter, which share the queue and the flag. Then a message that one has taken from the queue is
  dropped when the other, having sent the message behind it, clears the flag: all goroutines end, the
  queues of the open connection are empty, and the fourth of five messages was never written.
\<close>

theorem transmitters_lose_message:
  assumes "c_txG c = []" and "c_txQ c = []" and "\<not> c_quit c" and "c_txRunning c = 0"
    and "\<forall>p \<in> {p1, p2, p3, p4, p5}. plain now rnd c w p"
  shows "\<exists>es x. tx_run (\<lambda>_. None) now rnd es (idle_sys c (map GPushing [p1, p2, p3, p4, p5])) = Some x \<and>
    (\<forall>e. tx_act (\<lambda>_. None) now rnd e x = None) \<and> c_txG (xs_conn x) = [] \<and> c_txQ (xs_conn x) = [] \<and> \<not> c_quit (xs_conn x) \<and>
    xs_written x = w p1 @ w p2 @ w p3 @ w p5"
proof -
  let ?r = "[(5, False), (5, False), (5, False), (5, True), (5, False)]"
  let ?es1 = "map (\<lambda>i. (i, False)) [0, 0, 0, 0, 0] @ ?r @ map (\<lambda>i. (i, False)) [1, 1, 1] @ ?r @
      map (\<lambda>i. (i, False)) [2, 2, 2] @ ?r @ map (\<lambda>i. (i, False)) [5, 5, 1, 2, 1, 2]"
  let ?es2 = "map (\<lambda>i. (i, False)) [3, 3, 3, 6, 7, 4, 4, 4, 6, 7, 7] @ [(7, True)] @
      map (\<lambda>i. (i, False)) [7, 6, 6, 7, 7, 3, 3, 8, 8]"
  let ?mid = "\<lparr>xs_conn = c\<lparr>c_txG := [], c_txAvailable := False, c_txRunning := 0\<rparr>, xs_timer = False, xs_wg = 2,
    xs_written = w p1 @ w p2 @ w p3,
    xs_pcs = [Finished, Finished, Finished, GPushing p4, GPushing p5, Finished, Looping [], Looping []]\<rparr>"
  let ?x = "\<lparr>xs_conn = c\<lparr>c_txG := [], c_txAvailable := False, c_txRunning := 0\<rparr>, xs_timer = False, xs_wg = 0,
    xs_written = w p1 @ w p2 @ w p3 @ w p5, xs_pcs = replicate 9 Finished\<rparr>"
  have "tx_run (\<lambda>_. None) now rnd ?es1 (idle_sys c (map GPushing [p1, p2, p3, p4, p5])) = Some ?mid"
    using assms by (simp add: tx_act_simps plain_def)
  moreover have "tx_run (\<lambda>_. None) now rnd ?es2 ?mid = Some ?x"
    using assms by (simp add: tx_act_simps plain_def numeral_eq_Suc)
  ultimately have "tx_run (\<lambda>_. None) now rnd (?es1 @ ?es2) (idle_sys c (map GPushing [p1, p2, p3, p4, p5])) = Some ?x"
    by (simp only: tx_run_append Option.bind.simps)
  moreover have "tx_act (\<lambda>_. None) now rnd e ?x = None" for e
    by (rule all_finished_stuck) (simp add: list_all_iff)
  ultimately show ?thesis using assms(2,3) by (intro exI [of _ "?es1 @ ?es2"] exI [of _ ?x]) simp
qed


theorem transmitters_lose_message_witness:
  "\<exists>es x. tx_run (\<lambda>_. None) 0 0 es (idle_sys sample_conn (map (\<lambda>i. GPushing (sample_ack i)) [1, 2, 3, 4, 5])) = Some x \<and>
    c_txG (xs_conn x) = [] \<and> xs_written x = concat (map (\<lambda>i. [0x40, 2, 0, i]) [1, 2, 3, 5])"
proof -
  have "\<forall>p \<in> {sample_ack 1, sample_ack 2, sample_ack 3, sample_ack 4, sample_ack 5}. plain 0 0 sample_conn ack_bytes p"
    using sample_acks_plain by simp
  moreover have "ack_bytes (sample_ack i) = [0x40, 2, 0, i]" for i by (simp add: ack_bytes_def sample_ack_def)
  ultimately show ?thesis
    using transmitters_lose_message [of sample_conn "sample_ack 1" "sample_ack 2" "sample_ack 3" "sample_ack 4" "sample_ack 5" 0 0 ack_bytes]
    by (auto simp: sample_conn_def)
qed

end
