(* ===== verification/Tx_Drain.thy ===== *)
theory Tx_Drain
  imports Connection_Flows Transmitter
begin

text \<open>
  What the transmitter goroutine (\<open>txRoutine\<close> of \<open>src/connection/transmitter.go\<close>) writes when nothing
  is pushed while it runs. The reference is \<open>tx_stream\<close>: the packets of the two queues, one of each in
  turn, the messages with the identifiers the flow control gives them, up to the one that uses up
  the quota. The \<open>select\<close> of the goroutine chooses between its timer and the queues in any way;
  the invariant \<open>tx_inv\<close> relates what is written, buffered and queued in every state of a run, and
  \<open>tx_work\<close> bounds the rounds that are left.
\<close>

section \<open>What is to be sent\<close>

fun q_stream :: "bool \<Rightarrow> flow \<Rightarrow> qitem list \<Rightarrow> packet list" where
  "q_stream exceeded fl [] = []"
| "q_stream exceeded fl (m # ms) =
     (if exceeded then []
      else case m of
        QPublish p \<Rightarrow>
          (case flowAcquire False fl of (fl', i, err) \<Rightarrow>
             PPublish (p\<lparr>packetID := be_bytes16 i\<rparr>) # q_stream (err = Some errQuotaExceeded) fl' ms)
      | QUnack p \<Rightarrow> p # q_stream False fl ms)"

fun riffle :: "'a list \<Rightarrow> 'a list \<Rightarrow> 'a list" where
  "riffle [] qs = qs"
| "riffle gs [] = gs"
| "riffle (g # gs) (q # qs) = g # q # riffle gs qs"

lemma riffle_Nil2 [simp]: "riffle gs [] = gs"
  by (cases gs) simp_all

lemma riffle_empty [simp]: "riffle gs qs = [] \<longleftrightarrow> gs = [] \<and> qs = []"
  by (cases gs; cases qs) simp_all

lemma riffle_pop: "riffle gs qs = take 1 gs @ take 1 qs @ riffle (drop 1 gs) (drop 1 qs)"
  by (cases gs; cases qs) simp_all

definition conn_q_stream :: "connection \<Rightarrow> packet list" where
  "conn_q_stream c = q_stream (c_txQuotaExceeded c) (c_flow c) (c_txQ c)"

definition tx_stream :: "connection \<Rightarrow> packet list" where
  "tx_stream c = riffle (c_txG c) (conn_q_stream c)"

lemma conn_q_stream_empty: "conn_q_stream c = [] \<longleftrightarrow> \<not> qAvailable c"
  by (cases "c_txQ c") (auto simp: conn_q_stream_def qAvailable_def split: qitem.split prod.split)

lemma tx_stream_empty: "tx_stream c = [] \<longleftrightarrow> \<not> (qAvailable c \<or> gAvailable c)"
  by (auto simp: tx_stream_def conn_q_stream_empty gAvailable_def)

lemma tx_stream_simps [simp]:
  "tx_stream (c\<lparr>c_txAvailable := b\<rparr>) = tx_stream c" "tx_stream (c\<lparr>c_txRunning := r\<rparr>) = tx_stream c"
  "tx_stream (c\<lparr>c_pubOut := q\<rparr>) = tx_stream c"
  by (simp_all add: tx_stream_def conn_q_stream_def)

section \<open>Taking the next packets\<close>

definition sendable :: "uint32 \<Rightarrow> packet \<Rightarrow> bool" where
  "sendable limit p = ((\<exists>v. packet_wf v p) \<and> length (packet_bytes p) \<le> unat limit)"

definition tx_kept :: "connection \<Rightarrow> connection \<Rightarrow> bool" where
  "tx_kept c c' = (c_quit c' = c_quit c \<and> c_MaxTxTopicAlias c' = c_MaxTxTopicAlias c \<and>
     c_MaxTxPacketSize c' = c_MaxTxPacketSize c \<and> c_txAvailable c' = c_txAvailable c \<and>
     c_txRunning c' = c_txRunning c)"

lemma flowAcquire_no_exit: "flowAcquire False fl = (fl', i, err) \<Longrightarrow> err = None \<or> err = Some errQuotaExceeded"
  by (auto simp: flowAcquire_def Let_def split: prod.splits if_splits)

lemma be_bytes16_two [simp]: "length (be_bytes16 i) = 2"
  by (simp add: be_bytes16_def)

lemma qPop_stream:
  assumes "\<not> c_quit c" and "list_all qitem_ok (c_txQ c)"
  shows "\<exists>c' r. qPopPacket c = Some (c', r) \<and> opt_list r = take 1 (conn_q_stream c) \<and>
    conn_q_stream c' = drop 1 (conn_q_stream c) \<and> c_txG c' = c_txG c \<and> tx_kept c c' \<and>
    list_all qitem_ok (c_txQ c')"
proof (cases "c_txQ c")
  case Nil
  then show ?thesis
    using assms by (auto simp: qPopPacket_def opt_list_def conn_q_stream_def tx_kept_def)
next
  case (Cons m ms)
  show ?thesis
  proof (cases "c_txQuotaExceeded c")
    case True
    then show ?thesis
      using assms Cons by (auto simp: qPopPacket_def opt_list_def conn_q_stream_def tx_kept_def)
  next
    case False
    show ?thesis
    proof (cases m)
      case (QPublish p)
      obtain fl i err where a: "flowAcquire False (c_flow c) = (fl, i, err)" by (cases "flowAcquire False (c_flow c)")
      have ok: "packetID p = [] \<or> length (packetID p) = 2"
        using assms(2) Cons QPublish by (simp add: qitem_ok_def)
      show ?thesis
        using flowAcquire_no_exit [OF a]
      proof
        assume "err = None"
        then show ?thesis
          using assms Cons QPublish False a setPacketID_publish [OF ok]
          by (simp add: qPopPacket_def acquire_item_def ackQueue_store_def opt_list_def conn_q_stream_def tx_kept_def)
      next
        assume "err = Some errQuotaExceeded"
        then show ?thesis
          using assms Cons QPublish False a setPacketID_publish [OF ok]
          by (simp add: qPopPacket_def acquire_item_def ackQueue_store_def opt_list_def conn_q_stream_def tx_kept_def)
      qed
    next
      case (QUnack p)
      have "packet_id p = Some (pid p)"
        using assms(2) Cons QUnack by (intro packet_id_pid) (simp add: qitem_ok_def)
      then show ?thesis
        using assms Cons QUnack False
        by (simp add: qPopPacket_def acquire_item_def ackQueue_store_def opt_list_def conn_q_stream_def tx_kept_def)
    qed
  qed
qed

lemma pop_stream:
  assumes "\<not> c_quit c" and "list_all qitem_ok (c_txQ c)"
  shows "\<exists>c' pkts. popPackets c = Some (c', pkts) \<and> tx_stream c = pkts @ tx_stream c' \<and>
    (tx_stream c \<noteq> [] \<longrightarrow> pkts \<noteq> []) \<and> tx_kept c c' \<and> list_all qitem_ok (c_txQ c')"
proof -
  define c1 where "c1 = fst (gPopPacket c)"
  have g: "gPopPacket c = (c1, (case c_txG c of [] \<Rightarrow> None | p # ps \<Rightarrow> Some p))" "c_txG c1 = drop 1 (c_txG c)"
    "conn_q_stream c1 = conn_q_stream c" "tx_kept c c1" "c_txQ c1 = c_txQ c" "c_quit c1 = c_quit c"
    by (simp_all add: c1_def gPopPacket_def conn_q_stream_def tx_kept_def split: list.split)
  have o: "opt_list (case c_txG c of [] \<Rightarrow> None | p # ps \<Rightarrow> Some p) = take 1 (c_txG c)"
    by (simp add: opt_list_def split: list.split)
  obtain c' r where q: "qPopPacket c1 = Some (c', r)" "opt_list r = take 1 (conn_q_stream c)"
    "conn_q_stream c' = drop 1 (conn_q_stream c)" "c_txG c' = drop 1 (c_txG c)" "tx_kept c1 c'"
    "list_all qitem_ok (c_txQ c')"
    using qPop_stream [of c1] assms g by auto
  have "popPackets c = Some (c', take 1 (c_txG c) @ take 1 (conn_q_stream c))"
    by (simp add: popPackets_def g(1) q(1) q(2) o)
  moreover have "tx_stream c = (take 1 (c_txG c) @ take 1 (conn_q_stream c)) @ tx_stream c'"
    using riffle_pop [of "c_txG c" "conn_q_stream c"] q by (simp add: tx_stream_def)
  moreover have "tx_stream c \<noteq> [] \<longrightarrow> take 1 (c_txG c) @ take 1 (conn_q_stream c) \<noteq> []"
    by (simp add: tx_stream_def)
  moreover have "tx_kept c c'" using g(4) q(5) by (simp add: tx_kept_def)
  ultimately show ?thesis using q(6) by blast
qed

section \<open>Encoding them\<close>

lemma Encode_norm:
  assumes "packet_wf v p"
  shows "Encode (packet_norm p) = Some (packet_norm p, packet_bytes p, None)"
proof -
  have "Packet_Size (packet_norm p) = (packet_norm p, length (packet_bytes p), None)"
    using packet_Size_bytes [OF assms] by (simp add: packet_norm_def)
  moreover have "Packet_Encode (packet_norm p) (replicate (length (packet_bytes p)) 0) =
      Some (packet_norm p, packet_bytes p, length (packet_bytes p), None)"
    using packet_Encode_bytes [OF assms, of _ 0] by (simp add: packet_norm_def)
  ultimately show ?thesis by (simp add: Encode_def)
qed

lemma sync_pubOut_same [simp]: "sync_pubOut p p c = c"
proof -
  have "(\<lambda>(i, v). (i, if v = p then p else v)) = (\<lambda>x :: IDType \<times> packet. x)" by auto
  then show ?thesis by (simp add: sync_pubOut_def)
qed

lemma tx_packet_sendable:
  assumes "sendable (c_MaxTxPacketSize c) p" and "c_MaxTxTopicAlias c = 0"
  shows "tx_packet now rnd p c = Some (c, [packet_bytes p])"
proof -
  obtain v where wf: "packet_wf v p" and len: "length (packet_bytes p) \<le> unat (c_MaxTxPacketSize c)"
    using assms(1) by (auto simp: sendable_def)
  have "prepare_publish now rnd p c = Some (c, Some p)"
    using wf assms(2)
    by (cases p) (simp_all add: prepare_publish_def Publish_Expired_def setTopicAlias_def Publish_wf_def)
  moreover have "packetFitsSize p c = (packet_norm p, True)"
  proof -
    obtain r where "packet_set_remLen r p = p" using packet_set_remLen_id by blast
    then have "Packet_Size p = (packet_norm p, length (packet_bytes p), None)"
      using packet_Size_bytes [OF wf, of r] by simp
    then show ?thesis using len by (simp add: packetFitsSize_def)
  qed
  ultimately show ?thesis by (simp add: tx_packet_def Encode_norm [OF wf])
qed

lemma tx_packets_sendable:
  assumes "\<forall>p \<in> set ps. sendable (c_MaxTxPacketSize c) p" and "c_MaxTxTopicAlias c = 0"
  shows "tx_packets now rnd ps c = Some (c, map packet_bytes ps)"
  using assms by (induction ps) (simp_all add: tx_packet_sendable)

section \<open>The runs of the goroutine\<close>

text \<open>The goroutine \<open>txRun\<close> starts; the timer may be armed from an earlier one. The network takes every write.\<close>

definition tx_start :: "bool \<Rightarrow> bool \<Rightarrow> connection \<Rightarrow> tx_state" where
  "tx_start timer tick c =
     \<lparr>tx_conn = c, tx_buffers = [], tx_timer = timer, tx_tick = tick, tx_written = [], tx_err = False, tx_done = False\<rparr>"

abbreviation (input) net_ok :: net_write where
  "net_ok \<equiv> (\<lambda>_. None)"

definition conn_inv :: "connection \<Rightarrow> bool" where
  "conn_inv c =
     (\<not> c_quit c \<and> c_MaxTxTopicAlias c = 0 \<and> (\<forall>p \<in> set (tx_stream c). sendable (c_MaxTxPacketSize c) p) \<and>
      list_all qitem_ok (c_txQ c) \<and> (tx_stream c \<noteq> [] \<longrightarrow> c_txAvailable c))"

definition tx_inv :: "byte list \<Rightarrow> tx_state \<Rightarrow> bool" where
  "tx_inv bs t =
     (let c = tx_conn t in
      conn_inv c \<and> \<not> tx_err t \<and>
      tx_written t @ concat (tx_buffers t) @ concat (map packet_bytes (tx_stream c)) = bs \<and>
      (tx_buffers t \<noteq> [] \<longrightarrow> tx_timer t \<or> tx_tick t) \<and>
      (if c_txRunning c = 1 then \<not> tx_done t \<and> (c_txAvailable c \<or> tx_timer t \<or> tx_tick t)
       else tx_stream c = [] \<and> tx_buffers t = []))"

definition tx_work :: "tx_state \<Rightarrow> nat" where
  "tx_work t =
     2 * length (tx_stream (tx_conn t)) + (if c_txAvailable (tx_conn t) then 2 else 0) +
     (if tx_timer t then 1 else 0) + (if tx_tick t then 1 else 0) + (if tx_done t then 0 else 1)"

lemma conn_inv_simps [simp]:
  "conn_inv (c\<lparr>c_txRunning := r\<rparr>) = conn_inv c"
  by (simp add: conn_inv_def)

lemma timer_round:
  assumes "tx_inv bs t" and "c_txRunning (tx_conn t) = 1" and "tx_timer t \<or> tx_tick t"
  shows "tx_inv bs (tx_timer_branch late net_ok t) \<and> tx_work (tx_timer_branch late net_ok t) < tx_work t"
proof (cases "tx_stream (tx_conn t) = []")
  case True
  then have "requeue_or_stop (tx_conn t) = tx_stop (tx_conn t)"
    using tx_stream_empty [of "tx_conn t"] by (simp add: requeue_or_stop_def)
  then show ?thesis
    using assms True by (auto simp: tx_timer_branch_def tx_read_tick_def flushBuffers_def tx_inv_def tx_work_def tx_stop_def Let_def)
next
  case False
  then have av: "c_txAvailable (tx_conn t)" "\<not> c_quit (tx_conn t)"
    using assms(1) by (auto simp: tx_inv_def conn_inv_def Let_def)
  then have "requeue_or_stop (tx_conn t) = tx_conn t"
    using False tx_stream_empty [of "tx_conn t"] by (auto simp: requeue_or_stop_def txSignalAvailable_def)
  then show ?thesis
    using assms False av by (auto simp: tx_timer_branch_def tx_read_tick_def flushBuffers_def tx_inv_def tx_work_def Let_def)
qed

text \<open>The connection after the pops, the packets popped and the signal for the next round.\<close>

lemma available_conn:
  assumes "conn_inv c"
  shows "\<exists>c' pkts. popPackets (c\<lparr>c_txAvailable := False\<rparr>) = Some (c', pkts) \<and>
    (\<forall>now rnd. tx_packets now rnd pkts c' = Some (c', map packet_bytes pkts)) \<and>
    tx_stream c = pkts @ tx_stream c' \<and> (tx_stream c \<noteq> [] \<longrightarrow> pkts \<noteq> []) \<and> c_txRunning c' = c_txRunning c \<and>
    \<not> c_quit c' \<and> \<not> c_txAvailable c' \<and>
    conn_inv (if tx_stream c' \<noteq> [] then c'\<lparr>c_txAvailable := True\<rparr> else c')"
proof -
  let ?c = "c\<lparr>c_txAvailable := False\<rparr>"
  note inv = assms [unfolded conn_inv_def]
  obtain c' pkts where p: "popPackets ?c = Some (c', pkts)" "tx_stream c = pkts @ tx_stream c'"
    "tx_stream c \<noteq> [] \<longrightarrow> pkts \<noteq> []" "tx_kept ?c c'" "list_all qitem_ok (c_txQ c')"
    using pop_stream [of ?c] inv by auto
  then have "\<forall>q \<in> set (pkts @ tx_stream c'). sendable (c_MaxTxPacketSize c') q"
    using inv by (simp add: tx_kept_def)
  then have "\<forall>now rnd. tx_packets now rnd pkts c' = Some (c', map packet_bytes pkts)"
    "\<forall>q \<in> set (tx_stream c'). sendable (c_MaxTxPacketSize c') q"
    using tx_packets_sendable [of pkts c'] inv p(4) by (auto simp: tx_kept_def)
  then show ?thesis
    using p inv by (auto simp: tx_kept_def conn_inv_def)
qed

lemma available_round:
  assumes "tx_inv bs t" and "c_txRunning (tx_conn t) = 1" and "c_txAvailable (tx_conn t)"
  shows "\<exists>t'. tx_available_branch late net_ok now rnd t = Some t' \<and> tx_inv bs t' \<and> tx_work t' < tx_work t"
proof -
  have "conn_inv (tx_conn t)" using assms(1) by (simp add: tx_inv_def Let_def)
  then obtain c' pkts where p: "popPackets ((tx_conn t)\<lparr>c_txAvailable := False\<rparr>) = Some (c', pkts)"
    "tx_packets now rnd pkts c' = Some (c', map packet_bytes pkts)"
    "tx_stream (tx_conn t) = pkts @ tx_stream c'" "tx_stream (tx_conn t) \<noteq> [] \<longrightarrow> pkts \<noteq> []"
    "c_txRunning c' = c_txRunning (tx_conn t)" "\<not> c_quit c'" "\<not> c_txAvailable c'"
    "conn_inv (if tx_stream c' \<noteq> [] then c'\<lparr>c_txAvailable := True\<rparr> else c')"
    using available_conn [of "tx_conn t"] by blast
  define c2 where "c2 = (if tx_stream c' \<noteq> [] then c'\<lparr>c_txAvailable := True\<rparr> else c')"
  have sig: "(if qAvailable c' \<or> gAvailable c' then txSignalAvailable c' else c') = c2"
    using tx_stream_empty [of c'] p(6) by (auto simp: c2_def txSignalAvailable_def)
  have c2: "conn_inv c2" "tx_stream c2 = tx_stream c'" "c_txRunning c2 = 1"
    "c_txAvailable c2 \<longleftrightarrow> tx_stream c' \<noteq> []"
    using p assms(2) by (simp_all add: c2_def)
  define bufs where "bufs = tx_buffers t @ map packet_bytes pkts"
  have work: "2 * length (tx_stream c') + (if tx_stream c' \<noteq> [] then 2 else 0) + 1 <
      2 * length (tx_stream (tx_conn t)) + 2"
    using p(3,4) by (cases pkts) (auto split: if_splits)
  have br: "tx_available_branch late net_ok now rnd t =
     Some (if tx_buffers t = [] then t\<lparr>tx_conn := c2, tx_buffers := bufs, tx_timer := True, tx_tick := tx_tick t \<or> late \<and> tx_timer t\<rparr>
           else if length bufs \<ge> 5
           then t\<lparr>tx_conn := (if tx_stream c' = [] then tx_stop c2 else c2), tx_buffers := [], tx_timer := False, tx_tick := tx_tick t \<or> late \<and> tx_timer t,
                  tx_written := tx_written t @ concat bufs, tx_err := False\<rparr>
           else t\<lparr>tx_conn := c2, tx_buffers := bufs\<rparr>)"
    using p(1,2) tx_stream_empty [of c']
    by (simp add: tx_available_branch_def Let_def sig bufs_def flushBuffers_def tx_stop_timer_def)
  note i = assms(1) [unfolded tx_inv_def Let_def]
  have eq: "tx_written t @ concat bufs @ concat (map packet_bytes (tx_stream c')) = bs"
    using i p(3) by (simp add: bufs_def)
  show ?thesis
    unfolding br using i eq c2 work assms(2,3)
    by (auto simp: tx_inv_def tx_work_def Let_def tx_stop_def)
qed

lemma tx_round_inv:
  assumes "tx_round net_ok t t'" and "tx_inv bs t"
  shows "tx_inv bs t' \<and> tx_work t' < tx_work t"
  using assms
proof (cases rule: tx_round.cases)
  case round_exit
  then show ?thesis using assms(2) by (auto simp: tx_inv_def tx_work_def Let_def)
next
  case round_quit
  then show ?thesis using assms(2) by (simp add: tx_inv_def conn_inv_def Let_def)
next
  case round_timer
  then show ?thesis using timer_round [OF assms(2)] by simp
next
  case (round_available late now rnd)
  then show ?thesis using available_round [OF assms(2), of late now rnd] by auto
qed

lemma tx_round_next:
  assumes "tx_inv bs t" and "\<not> tx_done t"
  shows "\<exists>t'. tx_round net_ok t t'"
proof (cases "c_txRunning (tx_conn t) = 1")
  case True
  then consider "tx_timer t \<or> tx_tick t" | "c_txAvailable (tx_conn t)" using assms(1) by (auto simp: tx_inv_def Let_def)
  then show ?thesis
    using available_round [OF assms(1) True] round_timer [OF assms(2) True] round_available [OF assms(2) True]
    by cases blast+
next
  case False
  then show ?thesis using round_exit [OF assms(2)] by blast
qed

lemma tx_run_inv:
  assumes "(tx_round net_ok ^^ n) t t'" and "tx_inv bs t"
  shows "tx_inv bs t' \<and> n + tx_work t' \<le> tx_work t"
  using assms
proof (induction n arbitrary: t')
  case (Suc n)
  then obtain u where "(tx_round net_ok ^^ n) t u" "tx_round net_ok u t'" by auto
  then show ?case using Suc tx_round_inv [of u t' bs] by fastforce
qed simp

lemma tx_run_ends:
  assumes "tx_inv bs t"
  shows "\<exists>n t'. (tx_round net_ok ^^ n) t t' \<and> tx_done t'"
  using assms
proof (induction "tx_work t" arbitrary: t rule: less_induct)
  case less
  show ?case
  proof (cases "tx_done t")
    case True
    then show ?thesis by (intro exI [of _ 0]) auto
  next
    case False
    then obtain u where u: "tx_round net_ok t u" using tx_round_next [OF less.prems] by blast
    then obtain n t' where "(tx_round net_ok ^^ n) u t'" "tx_done t'"
      using less.hyps tx_round_inv [OF u less.prems] by blast
    then have "(tx_round net_ok ^^ Suc n) t t'" using u relpowp_Suc_I2 by metis
    with \<open>tx_done t'\<close> show ?thesis by blast
  qed
qed

definition tx_ready :: "connection \<Rightarrow> bool" where
  "tx_ready c = (conn_inv c \<and> c_txRunning c = 1 \<and> c_txAvailable c)"

lemma tx_start_inv: "tx_ready c \<Longrightarrow> tx_inv (concat (map packet_bytes (tx_stream c))) (tx_start timer tick c)"
  by (simp add: tx_ready_def tx_inv_def tx_start_def Let_def)

lemma tx_final:
  assumes "tx_ready c" and "(tx_round net_ok ^^ n) (tx_start timer tick c) t" and "tx_done t"
  shows "tx_written t = concat (map packet_bytes (tx_stream c))" and "tx_stream (tx_conn t) = []"
  using tx_run_inv [OF assms(2) tx_start_inv [OF assms(1)]] assms(3)
  by (auto simp: tx_inv_def Let_def split: if_splits)

text \<open>
  C7. Let packets be queued that fit the size limit of the client and have not expired, on a
  connection without topic aliases, and let the writes succeed and nothing be queued meanwhile.
  However the \<open>select\<close> of the transmitter chooses between its timer and the queues, a run ends
  within \<open>2 n + 5\<close> rounds, \<open>n\<close> the number of packets to send, and is never stuck before; when
  the goroutine returns it has written the wire format of every queued packet, once and in
  order, with a fresh identifier for each message of quality of service 1 or 2 and as far as
  the quota reaches, and has no error.
\<close>

theorem transmitter_drains:
  assumes "tx_ready c" and "(tx_round (\<lambda>_. None) ^^ n) (tx_start timer tick c) t"
  shows "n \<le> 2 * length (tx_stream c) + 5 \<and>
    (if tx_done t
     then tx_written t = concat (map packet_bytes (tx_stream c)) \<and> \<not> tx_err t \<and>
       c_txG (tx_conn t) = [] \<and> (c_txQ (tx_conn t) = [] \<or> c_txQuotaExceeded (tx_conn t))
     else \<exists>t'. tx_round (\<lambda>_. None) t t')"
proof -
  have r: "tx_inv (concat (map packet_bytes (tx_stream c))) t" "n + tx_work t \<le> tx_work (tx_start timer tick c)"
    using tx_run_inv [OF assms(2) tx_start_inv [OF assms(1)]] by blast+
  have "tx_work (tx_start timer tick c) \<le> 2 * length (tx_stream c) + 5" by (simp add: tx_work_def tx_start_def)
  then have "n \<le> 2 * length (tx_stream c) + 5" using r(2) by simp
  then show ?thesis
    using r(1) tx_round_next [OF r(1)] tx_final [OF assms] tx_stream_empty [of "tx_conn t"]
    by (auto simp: tx_inv_def Let_def gAvailable_def qAvailable_def)
qed

text \<open>A connection with a message of quality of service 0 and one of quality of service 2 in its queues.\<close>

definition sample_tx :: connection where
  "sample_tx =
     onSubscribedPublish ((New_Publish ProtocolV311)\<lparr>mFlags := 4, pub_topic := [0x61], pub_payload := [1]\<rparr>)
       (onSubscribedPublish ((New_Publish ProtocolV311)\<lparr>pub_topic := [0x61], pub_payload := [2]\<rparr>) sample_conn)"

lemma flow_search_first:
  "0 < n \<Longrightarrow> ucast (c + 1) \<notin> set u \<Longrightarrow> flow_search n c u = (c + 1, ucast (c + 1), ucast (c + 1) # u)"
  using flow_search_hit [of 0 n c u] by simp

lemma sample_tx_stream:
  "tx_stream sample_tx =
     [PPublish ((New_Publish ProtocolV311)\<lparr>pub_topic := [0x61], pub_payload := [2]\<rparr>),
      PPublish ((New_Publish ProtocolV311)\<lparr>mFlags := 4, pub_topic := [0x61], pub_payload := [1], packetID := [0, 1]\<rparr>)]"
  by (simp add: sample_tx_def onSubscribedPublish_def Publish_QoS_def gPush_def qPush_def txRun_def txSignalAvailable_def
      sample_conn_def tx_stream_def conn_q_stream_def flowAcquire_def flow_search_first be_bytes16_def Let_def)

lemma sample_publish_wf:
  "Publish_wf ProtocolV311 ((New_Publish ProtocolV311)\<lparr>pub_topic := [0x61], pub_payload := [b]\<rparr>)"
  "Publish_wf ProtocolV311 ((New_Publish ProtocolV311)\<lparr>mFlags := 4, pub_topic := [0x61], pub_payload := [b], packetID := [0, j]\<rparr>)"
  by (simp_all add: New_Publish_def newPublish_def header_init_def header_setType_def wf_eval Publish_wf_def
      Publish_QoS_def Publish_Dup_def Publish_size_def)

lemma sample_tx_bytes:
  "concat (map packet_bytes (tx_stream sample_tx)) = [0x30, 4, 0, 1, 0x61, 2, 0x34, 6, 0, 1, 0x61, 0, 1, 1]"
  unfolding sample_tx_stream by code_simp

lemma sample_tx_ready: "tx_ready sample_tx"
proof -
  have len: "sum_list (map (length \<circ> packet_bytes) (tx_stream sample_tx)) = 14"
    using arg_cong [OF sample_tx_bytes, of length] by (simp add: length_concat comp_def)
  have "length (packet_bytes p) \<le> 14" if "p \<in> set (tx_stream sample_tx)" for p
    using member_le_sum_list [of "length (packet_bytes p)" "map (length \<circ> packet_bytes) (tx_stream sample_tx)"] that
    by (simp add: len)
  then have "sendable 1000 p" if "p \<in> set (tx_stream sample_tx)" for p
    using that sample_publish_wf unfolding sendable_def
    by (force simp: sample_tx_stream)
  then show ?thesis
    by (simp add: tx_ready_def conn_inv_def, simp add: sample_tx_def onSubscribedPublish_def Publish_QoS_def gPush_def
        qPush_def txRun_def txSignalAvailable_def sample_conn_def qitem_ok_def)
qed

theorem transmitter_drains_witness:
  "tx_ready sample_tx \<and>
   (\<exists>n t. (tx_round (\<lambda>_. None) ^^ n) (tx_start False False sample_tx) t \<and> n \<le> 9 \<and>
      tx_written t = [0x30, 4, 0, 1, 0x61, 2, 0x34, 6, 0, 1, 0x61, 0, 1, 1])"
proof -
  obtain n t where "(tx_round (\<lambda>_. None) ^^ n) (tx_start False False sample_tx) t" "tx_done t"
    using tx_run_ends [OF tx_start_inv [OF sample_tx_ready]] by blast
  with transmitter_drains [OF sample_tx_ready this(1)] show ?thesis
    using sample_tx_ready sample_tx_bytes
    by (intro conjI exI [of _ n] exI [of _ t]) (simp_all add: sample_tx_stream)
qed

end
