(* ===== verification/Delivery.thy ===== *)
theory Delivery
  imports Tx_Drain
begin

text \<open>
  A message on its whole way through the server: \<open>processIncoming\<close> of the connection of the
  publisher, the publisher goroutine of \<open>src/topics/mem/topics.go\<close>, \<open>Publish\<close> of
  \<open>src/subscriber/subscriber.go\<close>, the queues and the transmitter of the connection of the
  subscriber. \<open>deliver\<close> is the call the goroutine makes on a subscriber whose callback
  \<open>publishOnline\<close> is \<open>onSubscribedPublish\<close> of its connection.
\<close>

section \<open>From the topics provider to the connection\<close>

definition forward_to :: "forwarded \<Rightarrow> connection \<Rightarrow> connection" where
  "forward_to f c = (case f of ToOnline p \<Rightarrow> onSubscribedPublish p c | ToOffline cid p \<Rightarrow> c)"

definition deliver :: "delivery \<Rightarrow> connection \<Rightarrow> connection option" where
  "deliver d c =
     (if d_sub d = sb_hash (c_sub c) then do {
        (fs, err) \<leftarrow> subscriber_Publish (c_sub c) (d_msg d) (d_qos d) (d_ops d) (d_ids d);
        Some (fold forward_to fs c) }
      else Some c)"

fun deliver_all :: "delivery list \<Rightarrow> connection \<Rightarrow> connection option" where
  "deliver_all [] c = Some c"
| "deliver_all (d # ds) c = do { c' \<leftarrow> deliver d c; deliver_all ds c' }"

definition deliveries_for :: "connection \<Rightarrow> delivery list \<Rightarrow> delivery list" where
  "deliveries_for c ds = filter (\<lambda>d. d_sub d = sb_hash (c_sub c)) ds"

section \<open>The copy of a message a subscriber gets\<close>

text \<open>
  The clone of a message, with the properties \<open>pr\<close>, and what the subscriber makes of it for a
  subscription. The version of both is the one of the message.
\<close>

definition clone_of :: "property \<Rightarrow> Publish \<Rightarrow> Publish" where
  "clone_of pr p =
     (New_Publish (h_version p))\<lparr>pub_topic := pub_topic p, pub_payload := pub_payload p,
       mFlags := push_bit 1 (Publish_QoS p) OR (if Publish_Retain p then 1 else 0), expireAt := expireAt p,
       properties := pr\<rparr>"

definition copy_of :: "property \<Rightarrow> QosType \<Rightarrow> SubscriptionOptions \<Rightarrow> Publish \<Rightarrow> Publish" where
  "copy_of pr granted ops p =
     (New_Publish (h_version p))\<lparr>pub_topic := pub_topic p, pub_payload := pub_payload p,
       mFlags := push_bit 1 (delivered_QoS granted (Publish_QoS p)) OR (if Ops_RAP ops \<and> Publish_Retain p then 1 else 0),
       packetID := (if Publish_QoS p = QoS0 then [] else [0, 0]), expireAt := expireAt p, properties := pr\<rparr>"

lemma New_Publish_properties [simp]: "properties (New_Publish v) = props_new v"
  by (simp add: New_Publish_def header_init_def header_setType_def newPublish_def Let_def props_new_def)

lemma Publish_Set_clone:
  assumes "ValidTopic (pub_topic p)" and "Qos_IsValid (Publish_QoS p)"
  shows "(fst (Publish_Set (pub_topic p) (pub_payload p) (Publish_QoS p) (Publish_Retain p) False
      (New_Publish (h_version p))))\<lparr>expireAt := expireAt p\<rparr> = clone_of (props_new (h_version p)) p"
  using assms
  by (elim Qos_cases; cases "Publish_Retain p"; intro Publish.equality)
     (simp_all add: Publish_Set_def Publish_SetRetain_def Publish_SetDup_def Qos_IsValid_def clone_of_def Let_def)

text \<open>The properties of a message are not copied if one of the two sides does not speak version 5.0.\<close>

lemma Clone_plain:
  assumes "ValidTopic (pub_topic p)" and "Qos_IsValid (Publish_QoS p)"
    and "h_version p \<noteq> ProtocolV50 \<or> v \<noteq> ProtocolV50"
  shows "Publish_Clone v p = Some (clone_of (props_new (h_version p)) p, None)"
  using assms(3) unfolding Publish_Clone_def Let_def Publish_Set_clone [OF assms(1,2)] by auto

lemma subscriber_copy:
  assumes "Qos_IsValid (Publish_QoS p)" and "Publish_Clone (sb_version s) p = Some (clone_of pr p, None)"
  shows "subscriber_Publish s p granted ops [] = Some (subscriber_forward s (copy_of pr granted ops p), None)"
proof -
  have "subscriber_adapt granted ops (clone_of pr p) = Some (copy_of pr granted ops p)"
    using assms(1)
    by (elim Qos_cases; cases "Publish_Retain p"; cases "Ops_RAP ops"; cases "granted = QoS1")
       (simp_all add: subscriber_adapt_def Let_def Publish_SetRetain_def Publish_QoS_def Publish_SetQoS_def
         Qos_IsValid_def header_setPacketID_def alloc_packetID_def be_bytes16_def delivered_QoS_def clone_of_def copy_of_def)
  then show ?thesis by (simp add: subscriber_Publish_def assms(2))
qed

lemma copy_of_simps [simp]:
  "pub_topic (copy_of pr granted ops p) = pub_topic p" "pub_payload (copy_of pr granted ops p) = pub_payload p"
  "h_version (copy_of pr granted ops p) = h_version p" "expireAt (copy_of pr granted ops p) = expireAt p"
  "mType (copy_of pr granted ops p) = PUBLISH" "publishID (copy_of pr granted ops p) = 0"
  "packetID (copy_of pr granted ops p) = (if Publish_QoS p = QoS0 then [] else [0, 0])"
  "properties (copy_of pr granted ops p) = pr"
  by (simp_all add: copy_of_def New_Publish_def header_init_def header_setType_def newPublish_def Let_def props_new_def)

lemma copy_of_publishID [simp]: "copy_of pr granted ops (p\<lparr>publishID := i\<rparr>) = copy_of pr granted ops p"
  by (simp add: copy_of_def Publish_QoS_def Publish_Retain_def)

lemma copy_of_flags:
  assumes "Qos_IsValid (Publish_QoS p)"
  shows "Publish_QoS (copy_of pr granted ops p) = delivered_QoS granted (Publish_QoS p)"
    and "Publish_Retain (copy_of pr granted ops p) = (Ops_RAP ops \<and> Publish_Retain p)"
    and "\<not> Publish_Dup (copy_of pr granted ops p)"
    and "flags_ok PUBLISH (mFlags (copy_of pr granted ops p))"
  using assms
  by (elim Qos_cases; cases "Ops_RAP ops \<and> Publish_Retain p"; cases "granted = QoS1";
      simp add: copy_of_def Publish_QoS_def Publish_Retain_def Publish_Dup_def delivered_QoS_def flags_ok_def
        Qos_IsValid_def)+

lemma delivered_QoS0 [simp]: "delivered_QoS granted q = QoS0 \<longleftrightarrow> q = QoS0"
  by (auto simp: delivered_QoS_def)

section \<open>The queues after the deliveries\<close>

lemma onSubscribedPublish_sub [simp]: "c_sub (onSubscribedPublish m c) = c_sub c" "c_quit (onSubscribedPublish m c) = c_quit c"
  by (simp_all add: onSubscribedPublish_def gPush_def qPush_def txRun_def txSignalAvailable_def)

definition copies :: "property \<Rightarrow> Publish \<Rightarrow> delivery list \<Rightarrow> Publish list" where
  "copies pr p ds = map (\<lambda>d. copy_of pr (d_qos d) (d_ops d) p) ds"

lemma deliver_all_copies:
  assumes "sb_online (c_sub c)" and "Qos_IsValid (Publish_QoS p)"
    and "Publish_Clone (sb_version (c_sub c)) p = Some (clone_of pr p, None)"
    and "\<forall>d \<in> set (deliveries_for c ds). d_msg d = p \<and> d_ids d = []"
  shows "deliver_all ds c = Some (fold onSubscribedPublish (copies pr p (deliveries_for c ds)) c)"
  using assms
proof (induction ds arbitrary: c)
  case (Cons d ds)
  show ?case
  proof (cases "d_sub d = sb_hash (c_sub c)")
    case True
    then have d: "d_msg d = p" "d_ids d = []" using Cons.prems(4) by (simp_all add: deliveries_for_def)
    let ?c = "onSubscribedPublish (copy_of pr (d_qos d) (d_ops d) p) c"
    have "deliver d c = Some ?c"
      using True Cons.prems(1) subscriber_copy [OF Cons.prems(2,3)]
      by (simp add: deliver_def d subscriber_forward_def forward_to_def)
    moreover have "deliver_all ds ?c = Some (fold onSubscribedPublish (copies pr p (deliveries_for ?c ds)) ?c)"
      using Cons.prems by (intro Cons.IH) (simp_all add: deliveries_for_def)
    ultimately show ?thesis using True by (simp add: deliveries_for_def copies_def)
  next
    case False
    then show ?thesis using Cons by (simp add: deliver_def deliveries_for_def copies_def)
  qed
qed (simp add: deliveries_for_def copies_def)

lemma push_copies:
  assumes "\<not> c_quit c" and "c_txRunning c = 0 \<or> c_txRunning c = 1" and "ms \<noteq> []"
  shows "fold onSubscribedPublish ms c =
    c\<lparr>c_txG := c_txG c @ map PPublish (filter (\<lambda>m. Publish_QoS m = QoS0) ms),
      c_txQ := c_txQ c @ map QPublish (filter (\<lambda>m. Publish_QoS m \<noteq> QoS0) ms),
      c_txAvailable := True, c_txRunning := 1\<rparr>"
  using assms
proof (induction ms arbitrary: c)
  case (Cons m ms)
  have one: "onSubscribedPublish m c =
    c\<lparr>c_txG := c_txG c @ (if Publish_QoS m = QoS0 then [PPublish m] else []),
      c_txQ := c_txQ c @ (if Publish_QoS m \<noteq> QoS0 then [QPublish m] else []),
      c_txAvailable := True, c_txRunning := 1\<rparr>"
    using Cons.prems(1,2)
    by (intro connection.equality; elim disjE)
       (simp_all add: onSubscribedPublish_def gPush_def qPush_def txRun_def txSignalAvailable_def)
  show ?case
  proof (cases "ms = []")
    case True
    then show ?thesis by (simp add: one)
  next
    case False
    then show ?thesis using Cons.IH [of "onSubscribedPublish m c"] Cons.prems by (simp add: one)
  qed
qed simp

text \<open>The messages in \<open>q_stream\<close> are the queued ones with an identifier, all of them if the quota is enough.\<close>

definition numbered :: "nat \<Rightarrow> Publish \<Rightarrow> packet \<Rightarrow> bool" where
  "numbered k m x = (\<exists>bs. length bs = k \<and> x = PPublish (m\<lparr>packetID := bs\<rparr>))"

lemma flowAcquire_quota:
  assumes "flowAcquire False fl = (fl', i, err)" and "0 < sint (f_quota fl)"
  shows "sint (f_quota fl') = sint (f_quota fl) - 1" and "err = Some errQuotaExceeded \<longleftrightarrow> sint (f_quota fl) = 1"
proof -
  have q: "f_quota fl' = f_quota fl - 1" "err = Some errQuotaExceeded \<longleftrightarrow> f_quota fl - 1 = 0"
    using assms(1) by (auto simp: flowAcquire_def Let_def split: prod.splits if_splits)
  show "sint (f_quota fl') = sint (f_quota fl) - 1" unfolding q by (rule sint_dec [OF assms(2)])
  show "err = Some errQuotaExceeded \<longleftrightarrow> sint (f_quota fl) = 1"
    unfolding q using sint_dec [OF assms(2)] sint_eq_0 [of "f_quota fl - 1"] by auto
qed

lemma q_stream_numbered:
  assumes "int (length ms) \<le> sint (f_quota fl)"
  shows "list_all2 (numbered 2) ms (q_stream False fl (map QPublish ms))"
  using assms
proof (induction ms arbitrary: fl)
  case (Cons m ms)
  obtain fl' i err where a: "flowAcquire False fl = (fl', i, err)" by (cases "flowAcquire False fl")
  have pos: "0 < sint (f_quota fl)" using Cons.prems by simp
  note q = flowAcquire_quota [OF a pos]
  have "list_all2 (numbered 2) ms (q_stream (err = Some errQuotaExceeded) fl' (map QPublish ms))"
  proof (cases "ms = []")
    case False
    then have "err \<noteq> Some errQuotaExceeded" using q(2) Cons.prems by (cases ms) auto
    then show ?thesis using Cons.IH [of fl'] Cons.prems q(1) by simp
  qed simp
  moreover have "numbered 2 m (PPublish (m\<lparr>packetID := be_bytes16 i\<rparr>))" 
    unfolding numbered_def by (intro exI [of _ "be_bytes16 i"]) simp
  ultimately show ?case by (simp add: a)
qed simp

text \<open>
  A connection that waits: not closed, nothing queued, no transmitter running, the send quota not
  used up, the subscriber online.
\<close>

definition conn_idle :: "connection \<Rightarrow> bool" where
  "conn_idle c =
     (\<not> c_quit c \<and> c_txG c = [] \<and> c_txQ c = [] \<and> c_txRunning c = 0 \<and> \<not> c_txQuotaExceeded c \<and>
      sb_online (c_sub c))"

definition id_len :: "Publish \<Rightarrow> nat" where
  "id_len p = (if Publish_QoS p = QoS0 then 0 else 2)"

lemma idle_push:
  fixes pr :: property
  assumes "conn_idle c" and "c_MaxTxTopicAlias c = 0" and "Qos_IsValid (Publish_QoS p)" and "ds \<noteq> []"
    and "Publish_QoS p \<noteq> QoS0 \<longrightarrow> int (length ds) \<le> sint (f_quota (c_flow c))"
  defines "c' \<equiv> fold onSubscribedPublish (copies pr p ds) c"
  shows "list_all2 (numbered (id_len p)) (copies pr p ds) (tx_stream c') \<and> \<not> c_quit c' \<and> c_MaxTxTopicAlias c' = 0 \<and>
    c_MaxTxPacketSize c' = c_MaxTxPacketSize c \<and> c_txAvailable c' \<and> c_txRunning c' = 1 \<and> list_all qitem_ok (c_txQ c')"
proof -
  note i = assms(1) [unfolded conn_idle_def]
  have q: "Publish_QoS m = QoS0 \<longleftrightarrow> Publish_QoS p = QoS0" if "m \<in> set (copies pr p ds)" for m
    using that copy_of_flags(1) [OF assms(3)] by (auto simp: copies_def)
  have c': "c' = c\<lparr>c_txG := map PPublish (if Publish_QoS p = QoS0 then copies pr p ds else []),
      c_txQ := map QPublish (if Publish_QoS p = QoS0 then [] else copies pr p ds), c_txAvailable := True, c_txRunning := 1\<rparr>"
    unfolding c'_def using push_copies [of c "copies pr p ds"] i q assms(4)
    by (simp add: copies_def [of _ _ ds] cong: filter_cong)
  have ok: "list_all qitem_ok (map QPublish (copies pr p ds))"
    by (auto simp: list_all_iff qitem_ok_def copies_def)
  show ?thesis
  proof (cases "Publish_QoS p = QoS0")
    case True
    then have "list_all2 (numbered 0) (copies pr p ds) (map PPublish (copies pr p ds))"
      by (auto simp: list_all2_map2 numbered_def copies_def list_all2_map1 intro!: list_all2_all_nthI exI [of _ "[]"])
    then show ?thesis using True i assms(2) by (simp add: c' id_len_def tx_stream_def conn_q_stream_def)
  next
    case False
    have "list_all2 (numbered 2) (copies pr p ds) (q_stream False (c_flow c) (map QPublish (copies pr p ds)))"
      using assms(5) False by (intro q_stream_numbered) (simp add: copies_def)
    then show ?thesis using False i ok assms(2) by (simp add: c' id_len_def tx_stream_def conn_q_stream_def)
  qed
qed

section \<open>The copy on the wire\<close>

lemma packet_bytes_publish:
  "mType m = PUBLISH \<Longrightarrow> packet_bytes (PPublish m) = frame PUBLISH (mFlags m) (Publish_body m)"
  by (simp add: packet_bytes_def)

lemma body_length_frame:
  "length (Publish_body m) = length (Publish_body m') \<Longrightarrow> mType m = PUBLISH \<Longrightarrow> mType m' = PUBLISH \<Longrightarrow>
   length (packet_bytes (PPublish m)) = length (packet_bytes (PPublish m'))"
  by (simp add: packet_bytes_publish frame_def)

text \<open>Between versions below 5.0 the copy is well-formed for the subscriber and has the size of the message.\<close>

lemma copy_wire:
  fixes granted :: QosType and ops :: SubscriptionOptions
  assumes "Publish_wf v p" and "v \<noteq> ProtocolV50" and "ProtocolVersion_IsValid w" and "w \<noteq> ProtocolV50"
    and "length bs = id_len p"
  defines "m \<equiv> (copy_of (props_new v) granted ops p)\<lparr>packetID := bs\<rparr>"
  shows "Publish_wf v m" and "Publish_wf w (m\<lparr>h_version := w\<rparr>)"
    and "packet_bytes (PPublish (m\<lparr>h_version := w\<rparr>)) = packet_bytes (PPublish m)"
    and "length (packet_bytes (PPublish m)) = length (packet_bytes (PPublish p))"
proof -
  note wf = assms(1) [unfolded Publish_wf_def]
  have ver: "h_version p = v" "v < ProtocolV50" "w < ProtocolV50"
    using wf assms(2-4) ProtocolVersion_IsValid_less [of v] ProtocolVersion_IsValid_less [of w] by auto
  have q: "Qos_IsValid (Publish_QoS p)" using wf by (simp add: flags_ok_def Publish_QoS_def split: if_splits)
  have flags: "Publish_QoS m = delivered_QoS granted (Publish_QoS p)" "\<not> Publish_Dup m" "flags_ok PUBLISH (mFlags m)"
    using copy_of_flags [OF q, of _ granted ops] by (simp_all add: m_def Publish_QoS_def Publish_Dup_def)
  have flags_w: "Publish_QoS (m\<lparr>h_version := w\<rparr>) = Publish_QoS m" "Publish_Dup (m\<lparr>h_version := w\<rparr>) = Publish_Dup m"
    by (simp_all add: Publish_QoS_def Publish_Dup_def)
  have size: "Publish_size m = Publish_size p" "Publish_size (m\<lparr>h_version := w\<rparr>) = Publish_size m"
    using ver assms(2,4) flags delivered_QoS0 [of granted "Publish_QoS p"] flags_w
    by (simp_all add: Publish_size_def m_def)
  have pr: "properties m = \<lparr>props = None, plen = 0\<rparr>" using ver by (simp add: m_def props_new_def not_le)
  have id: "length bs = (if Publish_QoS p = QoS0 then 0 else 2)" using assms(5) by (simp add: id_len_def)
  show wfm: "Publish_wf v m" and wfw: "Publish_wf w (m\<lparr>h_version := w\<rparr>)"
    using wf flags flags_w size pr ver assms(2-4) id
    by (auto simp: Publish_wf_def m_def props_wf_def split: if_splits)
  show "packet_bytes (PPublish (m\<lparr>h_version := w\<rparr>)) = packet_bytes (PPublish m)"
    using ver assms(2,4) by (simp add: packet_bytes_publish Publish_body_def props_wire_def m_def)
  show "length (packet_bytes (PPublish m)) = length (packet_bytes (PPublish p))"
    using Publish_size_body [OF wfm] Publish_size_body [OF assms(1)] size wf
    by (intro body_length_frame) (simp_all add: m_def)
qed

section \<open>From the publisher to the subscriber\<close>

lemma publish_one_entry:
  assumes "prov_inv mT" and "\<not> pv_allowOverlapping mT" and "publish_one m mT = Some ds" and "d \<in> set ds"
  shows "d_msg d = m" and "\<exists>f s. prov_lookup mT f (d_sub d) = Some s \<and> d_ids d = pe_ids (acquire s)"
proof -
  obtain root where r: "pv_root mT = Some root" "wf_node root"
    using assms(1) by (auto simp: prov_inv_def split: option.splits)
  obtain res where s: "subscriptionSearch False root (pub_topic m) (publishID m) [] = Some res"
    and e: "\<And>i. entries res i = map acquire (filter (deliverable (publishID m) i) (topic_subs root (pub_topic m) i))"
    using subscriptionSearch_nonoverlap by blast
  have "ds = concat (map (\<lambda>(i, pub). map (\<lambda>e. \<lparr>d_sub = pe_s e, d_msg = m, d_qos = pe_qos e,
      d_ops = pe_ops e, d_ids = pe_ids e\<rparr>) pub) res)"
    using assms(2,3) by (simp add: publish_one_def r s)
  then obtain i pub x where d: "(i, pub) \<in> set res" "x \<in> set pub"
    "d = \<lparr>d_sub = pe_s x, d_msg = m, d_qos = pe_qos x, d_ops = pe_ops x, d_ids = pe_ids x\<rparr>"
    using assms(4) by auto
  show "d_msg d = m" by (simp add: d(3))
  have f: "filed res" using subscriptionSearch_filed [OF r(2) s] .
  then have i: "map_of res i = Some pub" "pe_s x = i" using d(1,2) by (auto simp: filed_def)
  then have "x \<in> set (entries res i)" using d(2) by (simp add: entries_def)
  then obtain y where y: "y \<in> set (topic_subs root (pub_topic m) i)" "x = acquire y" by (auto simp: e)
  then obtain f where "sub_entry root f i = Some y" by (auto simp: set_topic_subs [OF r(2)] matching_def)
  then have "prov_lookup mT f (d_sub d) = Some y \<and> d_ids d = pe_ids (acquire y)"
    using d(3) i(2) y(2) r by (simp add: prov_lookup_def)
  then show "\<exists>f s. prov_lookup mT f (d_sub d) = Some s \<and> d_ids d = pe_ids (acquire s)" by blast
qed

text \<open>
  The filters of the subscriber \<open>i\<close> a message goes to, and the call the publisher goroutine makes
  for the subscription \<open>s\<close>. The calls for \<open>i\<close> are one for each of these filters.
\<close>

definition hits :: "sub_map \<Rightarrow> gostring \<Rightarrow> uintptr \<Rightarrow> uintptr \<Rightarrow> gostring list set" where
  "hits m topic pubID i =
     {f. topic_matches f (go_split byte_slash topic) \<and> (case m f i of None \<Rightarrow> False | Some s \<Rightarrow> deliverable pubID i s)}"

definition sub_call :: "Publish \<Rightarrow> subscribedEntry \<Rightarrow> delivery" where
  "sub_call m s =
     \<lparr>d_sub = se_s s, d_msg = m, d_qos = sp_Granted (se_p s), d_ops = sp_Ops (se_p s),
      d_ids = (if sp_ID (se_p s) > 0 then [sp_ID (se_p s)] else [])\<rparr>"

lemma hit_hits: "hit m topic pubID i \<longleftrightarrow> hits m topic pubID i \<noteq> {}"
  by (fastforce simp: hit_def hits_def split: option.splits)

lemma publish_one_calls:
  assumes "prov_inv mT" and "\<not> pv_allowOverlapping mT" and "ValidTopic (pub_topic m)" and "publish_one m mT = Some ds"
  shows "finite (hits (prov_lookup mT) (pub_topic m) (publishID m) i)"
    and "mset (filter (\<lambda>d. d_sub d = i) ds) =
      image_mset (\<lambda>f. sub_call m (the (prov_lookup mT f i)))
        (mset_set (hits (prov_lookup mT) (pub_topic m) (publishID m) i))"
proof -
  obtain root where r: "pv_root mT = Some root" "wf_node root"
    using assms(1) by (auto simp: prov_inv_def split: option.splits)
  obtain res where s: "subscriptionSearch False root (pub_topic m) (publishID m) [] = Some res"
    and e: "\<And>i. entries res i = map acquire (filter (deliverable (publishID m) i) (topic_subs root (pub_topic m) i))"
    using subscriptionSearch_nonoverlap by blast
  let ?call = "\<lambda>e. \<lparr>d_sub = pe_s e, d_msg = m, d_qos = pe_qos e, d_ops = pe_ops e, d_ids = pe_ids e\<rparr>"
  have "ds = map ?call (concat (map snd res))"
    using assms(2,4) by (simp add: publish_one_def r s map_concat case_prod_unfold comp_def)
  then have "filter (\<lambda>d. d_sub d = i) ds = map ?call (entries res i)"
    by (simp add: filter_map comp_def filed_entries [OF subscriptionSearch_filed [OF r(2) s], symmetric])
  also have "\<dots> = map (sub_call m) (filter (deliverable (publishID m) i) (topic_subs root (pub_topic m) i))"
    by (simp add: e sub_call_def acquire_def)
  finally have d: "filter (\<lambda>d. d_sub d = i) ds =
    map (sub_call m) (filter (deliverable (publishID m) i) (topic_subs root (pub_topic m) i))" .
  have h: "hits (prov_lookup mT) (pub_topic m) (publishID m) i =
      {f \<in> matching root (pub_topic m) i. deliverable (publishID m) i (the (sub_entry root f i))}"
    by (auto simp: hits_def matching_def prov_lookup_def r(1) split: option.splits)
  show "finite (hits (prov_lookup mT) (pub_topic m) (publishID m) i)"
    unfolding h by (intro finite_subset [OF _ finite_matching [of root "pub_topic m" i]]) auto
  show "mset (filter (\<lambda>d. d_sub d = i) ds) =
      image_mset (\<lambda>f. sub_call m (the (prov_lookup mT f i)))
        (mset_set (hits (prov_lookup mT) (pub_topic m) (publishID m) i))"
    by (simp add: d h prov_lookup_def r(1) mset_topic_subs [OF r(2) assms(3)] filter_mset_image_mset finite_matching
        multiset.map_comp comp_def)
qed

text \<open>No filter of the subscriber has a subscription identifier, as is the case below version 5.0.\<close>

definition no_identifiers :: "mem_provider \<Rightarrow> uintptr \<Rightarrow> bool" where
  "no_identifiers mT i = (\<forall>f s. prov_lookup mT f i = Some s \<longrightarrow> sp_ID (se_p s) = 0)"

lemma publish_one_deliveries:
  assumes "prov_inv mT" and "\<not> pv_allowOverlapping mT" and "no_identifiers mT (sb_hash (c_sub c))"
    and "publish_one m mT = Some ds"
  shows "\<forall>d \<in> set (deliveries_for c ds). d_msg d = m \<and> d_ids d = []"
  using publish_one_entry [OF assms(1,2,4)] assms(3)
  by (fastforce simp: deliveries_for_def no_identifiers_def acquire_def)

text \<open>The message that reaches the client as the bytes \<open>b\<close>, read in version \<open>w\<close>.\<close>

definition arrives :: "ProtocolVersion \<Rightarrow> Publish \<Rightarrow> delivery \<Rightarrow> byte list \<Rightarrow> bool" where
  "arrives w p d b =
     (case Decode w b of
        (Some (PPublish m), n, None) \<Rightarrow>
          n = length b \<and> pub_topic m = pub_topic p \<and> pub_payload m = pub_payload p \<and>
          Publish_QoS m = delivered_QoS (d_qos d) (Publish_QoS p) \<and>
          Publish_Retain m = (Ops_RAP (d_ops d) \<and> Publish_Retain p) \<and> \<not> Publish_Dup m
      | _ \<Rightarrow> False)"

lemma copy_arrives:
  assumes "Publish_wf v p" and "v \<noteq> ProtocolV50" and "ProtocolVersion_IsValid w" and "w \<noteq> ProtocolV50"
    and "numbered (id_len p) (copy_of (props_new v) (d_qos d) (d_ops d) p) x"
    and "length (packet_bytes (PPublish p)) \<le> unat limit"
  shows "sendable limit x" and "arrives w p d (packet_bytes x)"
proof -
  obtain bs where bs: "length bs = id_len p" "x = PPublish ((copy_of (props_new v) (d_qos d) (d_ops d) p)\<lparr>packetID := bs\<rparr>)"
    using assms(5) by (auto simp: numbered_def)
  note w = copy_wire [OF assms(1-4) bs(1), of "d_qos d" "d_ops d"]
  show "sendable limit x"
    using w(1,4) assms(6) bs(2) unfolding sendable_def by (intro conjI exI [of _ v]) simp_all
  have q: "Qos_IsValid (Publish_QoS p)"
    using assms(1) by (simp add: Publish_wf_def flags_ok_def Publish_QoS_def split: if_splits)
  have "packet_wf w (PPublish ((copy_of (props_new v) (d_qos d) (d_ops d) p)\<lparr>packetID := bs, h_version := w\<rparr>))" using w(2) by simp
  from Decode_bytes [OF this] show "arrives w p d (packet_bytes x)"
    using w(3) copy_of_flags [OF q, of _ "d_qos d" "d_ops d"] bs(2)
    by (simp add: arrives_def packet_norm_def Publish_QoS_def Publish_Retain_def Publish_Dup_def)
qed

text \<open>A PUBLISH with quality of service 0 or 1 that is not changed on the way goes to the topics manager once.\<close>

lemma publish_step:
  assumes "Publish_wf v p" and "Publish_QoS p \<noteq> QoS2" and "preProcessPublish p a = None"
    and "postProcessPublish now p a = (p, a1, None)" and "c_sub a1 = c_sub a"
    and "acl (c_ID a) (c_Username a) (pub_topic p) AccessTypeWrite \<noteq> StatusDeny"
  shows "\<exists>a' calls. processIncoming now acl subscribe unsubscribe (PPublish p) a st = Some (a', st, calls, None) \<and>
    published calls = [p\<lparr>publishID := sb_hash (c_sub a)\<rparr>]"
proof -
  note wf = assms(1) [unfolded Publish_wf_def]
  obtain a' calls where t: "publishToTopic now p a = (a', calls, None)"
    "published calls = [p\<lparr>publishID := sb_hash (c_sub a)\<rparr>]"
    by (simp add: publishToTopic_def assms(4,5) Let_def)
  have q: "Publish_QoS p = QoS0 \<or> Publish_QoS p = QoS1 \<and> packet_id (PPublish p) = Some (pid (PPublish p))"
    using wf assms(2) by (auto simp: flags_ok_def Publish_QoS_def Qos_IsValid_def intro!: packet_id_pid split: if_splits)
  then show ?thesis
    using t assms(3,6) by (auto simp: processIncoming_def onPublish_def new_ack_ok Let_def)
qed

lemma publish_unchanged_v3:
  assumes "c_Version a < ProtocolV50"
  shows "preProcessPublish p a = None" and "postProcessPublish now p a = (p, a, None)"
  using assms by (auto simp: preProcessPublish_def postProcessPublish_def)

text \<open>
  What the transmitter makes of the copies, whatever the bytes are read as and however its timer
  stands: its runs can end, and one that has ended has written byte strings as \<open>P\<close> says.
\<close>

definition writes :: "connection \<Rightarrow> (byte list list \<Rightarrow> bool) \<Rightarrow> bool" where
  "writes c P =
     (\<forall>timer tick.
        (\<exists>n t. (tx_round (\<lambda>_. None) ^^ n) (tx_start timer tick c) t \<and> tx_done t) \<and>
        (\<forall>n t. (tx_round (\<lambda>_. None) ^^ n) (tx_start timer tick c) t \<longrightarrow> tx_done t \<longrightarrow>
           (\<exists>bufs. tx_written t = concat bufs \<and> P bufs)))"

lemma writes_stream:
  assumes "tx_ready c" and "P (map packet_bytes (tx_stream c))"
  shows "writes c P"
  unfolding writes_def
proof (intro conjI allI impI)
  fix timer tick
  show "\<exists>n t. (tx_round net_ok ^^ n) (tx_start timer tick c) t \<and> tx_done t"
    by (rule tx_run_ends [OF tx_start_inv [OF assms(1)]])
next
  fix timer tick n t assume "(tx_round net_ok ^^ n) (tx_start timer tick c) t" "tx_done t"
  then show "\<exists>bufs. tx_written t = concat bufs \<and> P bufs" using tx_final(1) [OF assms(1)] assms(2) by blast
qed

lemma writes_copies:
  assumes "conn_idle c" and "c_MaxTxTopicAlias c = 0" and "Qos_IsValid (Publish_QoS p)" and "ds \<noteq> []"
    and "Publish_QoS p \<noteq> QoS0 \<longrightarrow> int (length ds) \<le> sint (f_quota (c_flow c))"
    and "\<And>d x. numbered (id_len p) (copy_of pr (d_qos d) (d_ops d) p) x \<Longrightarrow>
      sendable (c_MaxTxPacketSize c) x \<and> R d (packet_bytes x)"
  shows "writes (fold onSubscribedPublish (copies pr p ds) c) (list_all2 R ds)"
proof (rule writes_stream)
  let ?c = "fold onSubscribedPublish (copies pr p ds) c"
  have l: "list_all2 (\<lambda>d x. numbered (id_len p) (copy_of pr (d_qos d) (d_ops d) p) x) ds (tx_stream ?c)"
    using idle_push [OF assms(1-5)] by (simp add: copies_def list_all2_map1)
  have s: "list_all2 (\<lambda>d x. sendable (c_MaxTxPacketSize c) x \<and> R d (packet_bytes x)) ds (tx_stream ?c)"
    by (rule list_all2_mono [OF l]) (rule assms(6))
  then have "\<forall>x \<in> set (tx_stream ?c). sendable (c_MaxTxPacketSize c) x"
    by (auto simp: list_all2_conv_all_nth in_set_conv_nth)
  then show "tx_ready ?c"
    using idle_push [OF assms(1-5)] by (simp add: tx_ready_def conn_inv_def)
  show "list_all2 R ds (map packet_bytes (tx_stream ?c))"
    unfolding list_all2_map2 by (rule list_all2_mono [OF s]) simp
qed

text \<open>The calls of the publisher goroutine, and what one connection makes of those for it.\<close>

lemma publish_hits:
  fixes p :: Publish and i :: uintptr
  assumes "prov_inv mT" and "\<not> pv_allowOverlapping mT" and "ValidTopic (pub_topic p)"
  defines "m \<equiv> p\<lparr>publishID := i\<rparr>"
  shows "\<exists>ds. publish_one m mT = Some ds \<and>
    (deliveries_for c ds \<noteq> [] \<longleftrightarrow> hit (prov_lookup mT) (pub_topic p) i (sb_hash (c_sub c))) \<and>
    finite (hits (prov_lookup mT) (pub_topic p) i (sb_hash (c_sub c))) \<and>
    mset (deliveries_for c ds) =
      image_mset (\<lambda>f. sub_call m (the (prov_lookup mT f (sb_hash (c_sub c)))))
        (mset_set (hits (prov_lookup mT) (pub_topic p) i (sb_hash (c_sub c))))"
proof -
  have m: "pub_topic m = pub_topic p" "publishID m = i" by (simp_all add: m_def)
  obtain ds where ds: "publish_one m mT = Some ds"
    "\<And>j. j \<in> d_sub ` set ds \<longleftrightarrow> hit (prov_lookup mT) (pub_topic p) i j"
    using publish_one_search [OF assms(1), of m] assms(3) m by auto
  have "deliveries_for c ds \<noteq> [] \<longleftrightarrow> hit (prov_lookup mT) (pub_topic p) i (sb_hash (c_sub c))"
    unfolding ds(2) [symmetric] by (force simp: deliveries_for_def filter_empty_conv)
  with ds(1) show ?thesis
    using publish_one_calls [OF assms(1,2) _ ds(1)] assms(3) m by (auto simp: deliveries_for_def)
qed

lemma Clone_publishID:
  "Publish_Clone v (p\<lparr>publishID := i\<rparr>) = Publish_Clone v p" "clone_of pr (p\<lparr>publishID := i\<rparr>) = clone_of pr p"
proof -
  have f: "forward_prop (p\<lparr>publishID := i\<rparr>) = forward_prop p" 
    by (intro ext) (simp add: forward_prop_def split: prod.split option.split)
  show "Publish_Clone v (p\<lparr>publishID := i\<rparr>) = Publish_Clone v p"
    unfolding Publish_Clone_def f by (simp add: Publish_QoS_def Publish_Retain_def)
  show "clone_of pr (p\<lparr>publishID := i\<rparr>) = clone_of pr p"
    by (simp add: Publish_QoS_def Publish_Retain_def clone_of_def)
qed

lemma delivered_writes:
  assumes "prov_inv mT" and "\<not> pv_allowOverlapping mT" and "no_identifiers mT (sb_hash (c_sub c))"
    and "publish_one (p\<lparr>publishID := i\<rparr>) mT = Some ds" and "conn_idle c" and "Qos_IsValid (Publish_QoS p)"
    and "c_MaxTxTopicAlias c = 0" and "Publish_Clone (sb_version (c_sub c)) p = Some (clone_of pr p, None)"
    and "\<And>d x. numbered (id_len p) (copy_of pr (d_qos d) (d_ops d) p) x \<Longrightarrow>
      sendable (c_MaxTxPacketSize c) x \<and> R d (packet_bytes x)"
    and "deliveries_for c ds \<noteq> []"
    and "Publish_QoS p \<noteq> QoS0 \<longrightarrow> int (length (deliveries_for c ds)) \<le> sint (f_quota (c_flow c))"
  shows "\<exists>c'. deliver_all ds c = Some c' \<and> writes c' (list_all2 R (deliveries_for c ds))"
proof -
  have "deliver_all ds c = Some (fold onSubscribedPublish (copies pr (p\<lparr>publishID := i\<rparr>) (deliveries_for c ds)) c)"
    using publish_one_deliveries [OF assms(1-4)] assms(5,6,8)
    by (intro deliver_all_copies) (simp_all add: conn_idle_def Publish_QoS_def Clone_publishID)
  moreover have "copies pr (p\<lparr>publishID := i\<rparr>) (deliveries_for c ds) = copies pr p (deliveries_for c ds)"
    by (simp add: copies_def)
  ultimately show ?thesis using writes_copies [OF assms(5,7,6,10,11,9)] by auto
qed

text \<open>
  C3. A PUBLISH with quality of service 0 or 1 of a client below version 5.0 reaches the clients
  below version 5.0 it should reach: it goes to the topics manager once, and the publisher
  goroutine makes for a subscriber exactly one call for each of its filters that matches the
  topic (and that No Local does not exclude), with the quality of service and the options of
  that subscription. If the connection of the subscriber waits, the message fits and the send
  quota is enough for the calls, then in every run of its transmitter the client receives one
  PUBLISH per call, which it decodes to the same topic and payload, with the quality of service
  and the RETAIN flag of the subscription. The subscriptions have no identifier and the
  connection has no topic aliases, as below version 5.0; quality of service 2 is not covered.
\<close>

theorem publish_delivered:
  assumes "prov_inv mT" and "\<not> pv_allowOverlapping mT"
    and "Publish_wf v p" and "v \<noteq> ProtocolV50" and "c_Version a = v" and "Publish_QoS p \<noteq> QoS2"
    and "acl (c_ID a) (c_Username a) (pub_topic p) AccessTypeWrite \<noteq> StatusDeny"
    and "conn_idle c" and "no_identifiers mT (sb_hash (c_sub c))" and "c_MaxTxTopicAlias c = 0"
    and "length (packet_bytes (PPublish p)) \<le> unat (c_MaxTxPacketSize c)"
    and "ProtocolVersion_IsValid w" and "w \<noteq> ProtocolV50"
  shows "\<exists>a' calls m ds.
    processIncoming now acl subscribe unsubscribe (PPublish p) a mT = Some (a', mT, calls, None) \<and>
    published calls = [m] \<and> publish_one m mT = Some ds \<and>
    (deliveries_for c ds \<noteq> [] \<longleftrightarrow> hit (prov_lookup mT) (pub_topic p) (sb_hash (c_sub a)) (sb_hash (c_sub c))) \<and>
    finite (hits (prov_lookup mT) (pub_topic p) (sb_hash (c_sub a)) (sb_hash (c_sub c))) \<and>
    mset (deliveries_for c ds) =
      image_mset (\<lambda>f. sub_call m (the (prov_lookup mT f (sb_hash (c_sub c)))))
        (mset_set (hits (prov_lookup mT) (pub_topic p) (sb_hash (c_sub a)) (sb_hash (c_sub c)))) \<and>
    (deliveries_for c ds \<noteq> [] \<longrightarrow>
     (Publish_QoS p \<noteq> QoS0 \<longrightarrow> int (length (deliveries_for c ds)) \<le> sint (f_quota (c_flow c))) \<longrightarrow>
     (\<exists>c'. deliver_all ds c = Some c' \<and> writes c' (list_all2 (arrives w p) (deliveries_for c ds))))"
proof -
  note wf = assms(3) [unfolded Publish_wf_def]
  have q: "Qos_IsValid (Publish_QoS p)" using wf by (simp add: flags_ok_def Publish_QoS_def split: if_splits)
  have ver: "c_Version a < ProtocolV50" using wf assms(4,5) ProtocolVersion_IsValid_less [of v] by auto
  obtain a' calls where a: "processIncoming now acl subscribe unsubscribe (PPublish p) a mT = Some (a', mT, calls, None)"
    "published calls = [p\<lparr>publishID := sb_hash (c_sub a)\<rparr>]"
    using publish_step [OF assms(3,6) publish_unchanged_v3 [OF ver] refl, where acl = acl and now = now
        and subscribe = subscribe and unsubscribe = unsubscribe and st = mT, OF assms(7)] by blast
  obtain ds where ds: "publish_one (p\<lparr>publishID := sb_hash (c_sub a)\<rparr>) mT = Some ds"
    "deliveries_for c ds \<noteq> [] \<longleftrightarrow> hit (prov_lookup mT) (pub_topic p) (sb_hash (c_sub a)) (sb_hash (c_sub c))"
    "finite (hits (prov_lookup mT) (pub_topic p) (sb_hash (c_sub a)) (sb_hash (c_sub c)))"
    "mset (deliveries_for c ds) =
      image_mset (\<lambda>f. sub_call (p\<lparr>publishID := sb_hash (c_sub a)\<rparr>) (the (prov_lookup mT f (sb_hash (c_sub c)))))
        (mset_set (hits (prov_lookup mT) (pub_topic p) (sb_hash (c_sub a)) (sb_hash (c_sub c))))"
    using publish_hits [OF assms(1,2), of p "sb_hash (c_sub a)" c] wf by blast
  have clone: "Publish_Clone (sb_version (c_sub c)) p = Some (clone_of (props_new v) p, None)"
    using Clone_plain [of p] wf q assms(4) by auto
  note copy = copy_arrives [OF assms(3,4,12,13) _ assms(11)]
  show ?thesis
    using a ds delivered_writes [OF assms(1,2,9) ds(1) assms(8) q assms(10) clone, of "arrives w p"] copy by blast
qed

definition sample_msg :: "ProtocolVersion \<Rightarrow> Publish" where
  "sample_msg v = (New_Publish v)\<lparr>pub_topic := [0x61, byte_slash, 0x62], pub_payload := [5]\<rparr>"

definition sample_sub :: connection where
  "sample_sub = sample_conn\<lparr>c_sub := (subscriber_New 8 [0x64] False ProtocolV311)\<lparr>sb_online := True\<rparr>\<rparr>"

lemma sample_msg_wf: "Publish_wf ProtocolV311 (sample_msg ProtocolV311)" "Publish_wf ProtocolV50 (sample_msg ProtocolV50)"
  by (simp_all add: sample_msg_def New_Publish_def newPublish_def header_init_def header_setType_def wf_eval Publish_wf_def
      Publish_QoS_def Publish_Dup_def Publish_size_def)

lemma sample_sub_idle: "conn_idle sample_sub"
  by (simp add: conn_idle_def sample_sub_def sample_conn_def subscriber_New_def)

lemma sample_provider_lookup:
  "prov_inv sample_provider" "no_identifiers sample_provider 8"
  "hit (prov_lookup sample_provider) [0x61, byte_slash, 0x62] 7 8"
proof -
  show "prov_inv sample_provider" by (simp add: prov_inv_def sample_provider_def sample_tree_wf)
  have e: "prov_lookup sample_provider f 8 =
      (if f = [[0x61], [0x62]] then Some \<lparr>se_s = 8, se_p = sample_params 0 2\<rparr> else None)" for f
    by (simp add: prov_lookup_def sample_provider_def sample_tree_def subscriptionInsert_entry subscriptionInsert_wf)
  show "no_identifiers sample_provider 8"
    by (simp add: no_identifiers_def e sample_params_def)
  show "hit (prov_lookup sample_provider) [0x61, byte_slash, 0x62] 7 8"
    unfolding hit_def
    by (intro exI [of _ "[[0x61], [0x62]]"] exI [of _ "\<lparr>se_s = 8, se_p = sample_params 0 2\<rparr>"])
       (simp add: e topic_matches_def deliverable_def sample_params_def go_defs)
qed

theorem publish_delivered_witness:
  "\<exists>m ds c'. publish_one m sample_provider = Some ds \<and> deliveries_for sample_sub ds \<noteq> [] \<and>
     deliver_all ds sample_sub = Some c' \<and>
     writes c' (list_all2 (arrives ProtocolV31 (sample_msg ProtocolV311)) (deliveries_for sample_sub ds))"
proof -
  have len: "length (packet_bytes (PPublish (sample_msg ProtocolV311))) \<le> unat (c_MaxTxPacketSize sample_sub)"
    by (simp add: sample_sub_def sample_conn_def sample_msg_def packet_bytes_publish frame_def Publish_body_def props_wire_def)
       code_simp
  have "hit (prov_lookup sample_provider) (pub_topic (sample_msg ProtocolV311)) (sb_hash (c_sub sample_conn))
      (sb_hash (c_sub sample_sub))"
    using sample_provider_lookup(3) by (simp add: sample_msg_def sample_conn_def sample_sub_def subscriber_New_def)
  moreover have "no_identifiers sample_provider (sb_hash (c_sub sample_sub))"
    using sample_provider_lookup(2) by (simp add: sample_sub_def subscriber_New_def)
  moreover have "Publish_QoS (sample_msg ProtocolV311) = QoS0" by (simp add: sample_msg_def Publish_QoS_def)
  ultimately show ?thesis
    using publish_delivered [where p = "sample_msg ProtocolV311" and mT = sample_provider and a = sample_conn
        and c = sample_sub and v = ProtocolV311 and w = ProtocolV31 and acl = "\<lambda>_ _ _ _. StatusAllow"
        and now = 0 and subscribe = "\<lambda>_ _ _ _. None" and unsubscribe = "\<lambda>_ _ _. None"]
      sample_provider_lookup(1) sample_msg_wf(1) sample_sub_idle len
    by (auto simp: sample_provider_def sample_conn_def sample_sub_def ProtocolVersion_IsValid_def SupportedVersions_def)
qed

section \<open>Between versions\<close>

text \<open>
  The copy of a V5.0 message is encoded as a V5.0 message for every subscriber. For a client of
  an older version the length of its properties is the first byte of the payload.
\<close>

lemma copy_wire_v5:
  fixes granted :: QosType and ops :: SubscriptionOptions
  assumes "Publish_wf ProtocolV50 p" and "properties p = props_new ProtocolV50" and "pub_topic p \<noteq> []"
    and "ProtocolVersion_IsValid w" and "w \<noteq> ProtocolV50" and "length bs = id_len p"
  defines "m \<equiv> (copy_of (props_new ProtocolV50) granted ops p)\<lparr>packetID := bs\<rparr>"
  defines "r \<equiv> m\<lparr>h_version := w, properties := \<lparr>props = None, plen = 0\<rparr>, pub_payload := 0 # pub_payload p\<rparr>"
  shows "Publish_wf ProtocolV50 m" and "Publish_wf w r" and "packet_bytes (PPublish r) = packet_bytes (PPublish m)"
    and "length (packet_bytes (PPublish m)) = length (packet_bytes (PPublish p))"
proof -
  note wf = assms(1) [unfolded Publish_wf_def]
  have q: "Qos_IsValid (Publish_QoS p)" using wf by (simp add: flags_ok_def Publish_QoS_def split: if_splits)
  have flags: "Publish_QoS m = delivered_QoS granted (Publish_QoS p)" "\<not> Publish_Dup m" "flags_ok PUBLISH (mFlags m)"
    using copy_of_flags [OF q, of _ granted ops] by (simp_all add: m_def Publish_QoS_def Publish_Dup_def)
  have flags_r: "Publish_QoS r = Publish_QoS m" "Publish_Dup r = Publish_Dup m" "mFlags r = mFlags m"
    by (simp_all add: r_def Publish_QoS_def Publish_Dup_def)
  have full: "unat (property_FullLen (props_new ProtocolV50)) = 1"
    by (simp add: props_new_def property_FullLen_def uvarintCalc_short)
  have size: "Publish_size m = Publish_size p" "Publish_size r = Publish_size m"
    using wf assms(2,5) flags flags_r delivered_QoS0 [of granted "Publish_QoS p"] full
    by (simp_all add: Publish_size_def m_def r_def)
  have id: "length bs = (if Publish_QoS p = QoS0 then 0 else 2)" using assms(6) by (simp add: id_len_def)
  show wfm: "Publish_wf ProtocolV50 m"
    using wf flags size(1) id assms(2,3)
    by (auto simp: Publish_wf_def m_def props_wf_def split: if_splits)
  show "Publish_wf w r"
    using wf flags flags_r size id assms(3-5)
    by (auto simp: Publish_wf_def r_def m_def props_wf_def split: if_splits)
  have "property_bytes (props_new ProtocolV50) = [0]"
    by code_simp
  then have "Publish_body r = Publish_body m"
    using wf assms(5) by (simp add: Publish_body_def props_wire_def r_def m_def)
  then show "packet_bytes (PPublish r) = packet_bytes (PPublish m)"
    by (simp add: packet_bytes_publish r_def m_def)
  show "length (packet_bytes (PPublish m)) = length (packet_bytes (PPublish p))"
    using Publish_size_body [OF wfm] Publish_size_body [OF assms(1)] size wf
    by (intro body_length_frame) (simp_all add: m_def)
qed

text \<open>The client takes the bytes \<open>b\<close> for a message with one byte more than was published.\<close>

definition arrives_shifted :: "ProtocolVersion \<Rightarrow> Publish \<Rightarrow> byte list \<Rightarrow> bool" where
  "arrives_shifted w p b =
     (case Decode w b of
        (Some (PPublish m), n, None) \<Rightarrow>
          n = length b \<and> pub_topic m = pub_topic p \<and> pub_payload m = 0 # pub_payload p
      | _ \<Rightarrow> False)"

lemma copy_arrives_shifted:
  assumes "Publish_wf ProtocolV50 p" and "properties p = props_new ProtocolV50" and "pub_topic p \<noteq> []"
    and "ProtocolVersion_IsValid w" and "w \<noteq> ProtocolV50"
    and "numbered (id_len p) (copy_of (props_new ProtocolV50) (d_qos d) (d_ops d) p) x"
    and "length (packet_bytes (PPublish p)) \<le> unat limit"
  shows "sendable limit x \<and> arrives_shifted w p (packet_bytes x)"
proof -
  obtain bs where bs: "length bs = id_len p" "x = PPublish ((copy_of (props_new ProtocolV50) (d_qos d) (d_ops d) p)\<lparr>packetID := bs\<rparr>)"
    using assms(6) by (auto simp: numbered_def)
  note w = copy_wire_v5 [OF assms(1-5) bs(1), of "d_qos d" "d_ops d"]
  have "sendable limit x"
    using w(1,4) assms(7) bs(2) unfolding sendable_def by (intro conjI exI [of _ ProtocolV50]) simp_all
  moreover have "arrives_shifted w p (packet_bytes x)"
    using Decode_bytes [of w "PPublish _", simplified, OF w(2)] w(3) bs(2)
    by (simp add: arrives_shifted_def packet_norm_def)
  ultimately show ?thesis by blast
qed

text \<open>
  C29. A message of a version 5.0 client reaches a subscriber of an older version damaged: \<open>Clone\<close>
  keeps the version of the message instead of taking the one of the session, so that the
  client decodes the same topic and a payload with an additional first byte 0.
\<close>

theorem v5_payload_shifted:
  assumes "prov_inv mT" and "\<not> pv_allowOverlapping mT"
    and "Publish_wf ProtocolV50 p" and "properties p = props_new ProtocolV50" and "pub_topic p \<noteq> []"
    and "hit (prov_lookup mT) (pub_topic p) i (sb_hash (c_sub c))"
    and "conn_idle c" and "sb_version (c_sub c) \<noteq> ProtocolV50" and "no_identifiers mT (sb_hash (c_sub c))"
    and "c_MaxTxTopicAlias c = 0"
    and "length (packet_bytes (PPublish p)) \<le> unat (c_MaxTxPacketSize c)"
    and "ProtocolVersion_IsValid w" and "w \<noteq> ProtocolV50"
  shows "\<exists>ds. publish_one (p\<lparr>publishID := i\<rparr>) mT = Some ds \<and> deliveries_for c ds \<noteq> [] \<and>
    ((Publish_QoS p \<noteq> QoS0 \<longrightarrow> int (length (deliveries_for c ds)) \<le> sint (f_quota (c_flow c))) \<longrightarrow>
     (\<exists>c'. deliver_all ds c = Some c' \<and>
        writes c' (list_all2 (\<lambda>d. arrives_shifted w p) (deliveries_for c ds))))"
proof -
  note wf = assms(3) [unfolded Publish_wf_def]
  have q: "Qos_IsValid (Publish_QoS p)" using wf by (simp add: flags_ok_def Publish_QoS_def split: if_splits)
  obtain ds where ds: "publish_one (p\<lparr>publishID := i\<rparr>) mT = Some ds" "deliveries_for c ds \<noteq> []"
    using publish_hits [OF assms(1,2), of p i c] wf assms(6) by blast
  have clone: "Publish_Clone (sb_version (c_sub c)) p = Some (clone_of (props_new ProtocolV50) p, None)"
    using Clone_plain [of p] wf q assms(8) by auto
  note copy = copy_arrives_shifted [OF assms(3-5,12,13) _ assms(11)]
  show ?thesis
    using ds delivered_writes [OF assms(1,2,9) ds(1) assms(7) q assms(10) clone, of "\<lambda>d. arrives_shifted w p"] copy by blast
qed

theorem v5_payload_shifted_witness:
  "\<exists>ds c'. publish_one ((sample_msg ProtocolV50)\<lparr>publishID := 7\<rparr>) sample_provider = Some ds \<and>
     deliveries_for sample_sub ds \<noteq> [] \<and> deliver_all ds sample_sub = Some c' \<and>
     writes c' (list_all2 (\<lambda>d. arrives_shifted ProtocolV311 (sample_msg ProtocolV50)) (deliveries_for sample_sub ds))"
proof -
  have len: "length (packet_bytes (PPublish (sample_msg ProtocolV50))) \<le> unat (c_MaxTxPacketSize sample_sub)"
    by (simp add: sample_sub_def sample_conn_def sample_msg_def packet_bytes_publish frame_def Publish_body_def props_wire_def)
       code_simp
  have s: "hit (prov_lookup sample_provider) (pub_topic (sample_msg ProtocolV50)) 7 (sb_hash (c_sub sample_sub))"
    "no_identifiers sample_provider (sb_hash (c_sub sample_sub))" "sb_version (c_sub sample_sub) \<noteq> ProtocolV50"
    "\<not> pv_allowOverlapping sample_provider" "Publish_QoS (sample_msg ProtocolV50) = QoS0"
    "properties (sample_msg ProtocolV50) = props_new ProtocolV50" "pub_topic (sample_msg ProtocolV50) \<noteq> []"
    "ProtocolVersion_IsValid ProtocolV311" "c_MaxTxTopicAlias sample_sub = 0"
    using sample_provider_lookup(2,3)
    by (simp_all add: sample_msg_def sample_sub_def sample_conn_def subscriber_New_def sample_provider_def Publish_QoS_def
        New_Publish_def header_init_def header_setType_def newPublish_def props_new_def Let_def
        DefaultFlags_def typeDefaultFlags_def ProtocolVersion_IsValid_def SupportedVersions_def)
  from v5_payload_shifted [OF sample_provider_lookup(1) s(4) sample_msg_wf(2) s(6,7,1) sample_sub_idle s(3,2,9) len s(8)] s(5)
  show ?thesis by auto
qed

end
