(* ===== verification/Delivery_V5.thy ===== *)
theory Delivery_V5
  imports Delivery
begin

text \<open>
  The way of a message between two clients of version 5.0: \<open>Clone\<close> of \<open>src/packet/publish.go\<close>
  forwards five of the properties of a PUBLISH, and the copy with them is what the subscriber
  decodes. The rest of the way is the one of \<open>Delivery\<close>.
\<close>

section \<open>The forwarded properties\<close>

definition forwarded_ids :: "PropertyID list" where
  "forwarded_ids =
     [PropertyPayloadFormat, PropertyResponseTopic, PropertyCorrelationData, PropertyUserProperty, PropertyContentType]"

fun forward_all :: "Publish \<Rightarrow> PropertyID list \<Rightarrow> Publish \<times> go_error option \<Rightarrow> (Publish \<times> go_error option) option" where
  "forward_all msg [] r = Some r"
| "forward_all msg (i # ids) r = do { r' \<leftarrow> forward_prop msg i r; forward_all msg ids r' }"

lemma forward_all_fun:
  "forward_all msg [] = Some"
  "forward_all msg (i # ids) = (\<lambda>r. Option.bind (forward_prop msg i r) (forward_all msg ids))"
  by (intro ext, simp)+

fun kept :: "(PropertyID \<times> prop_val) list \<Rightarrow> PropertyID list \<Rightarrow> (PropertyID \<times> prop_val) list" where
  "kept m [] = []"
| "kept m (i # ids) = (case map_of m i of Some v \<Rightarrow> (i, v) # kept m ids | None \<Rightarrow> kept m ids)"

definition kept_props :: "Publish \<Rightarrow> property" where
  "kept_props p =
     (let m = kept (props_list (properties p)) forwarded_ids in \<lparr>props = Some m, plen = of_nat (props_len m)\<rparr>)"

lemma map_of_kept: "map_of (kept m ids) i = (if i \<in> set ids then map_of m i else None)"
  by (induction ids) (auto split: option.split)

lemma kept_keys: "fst ` set (kept m ids) \<subseteq> set ids" "set (kept m ids) \<subseteq> set m"
  by (induction ids) (auto split: option.split dest: map_of_SomeD)

lemma distinct_kept: "distinct ids \<Longrightarrow> distinct (map fst (kept m ids))"
  using kept_keys(1) by (induction ids) (fastforce split: option.split)+

lemma props_len_kept:
  assumes "distinct ids"
  shows "props_len (kept m ids) \<le> props_len m"
proof -
  have d: "distinct (kept m ids)" using distinct_kept [OF assms] by (simp add: distinct_map)
  have "props_len (kept m ids) = sum prop_len (set (kept m ids))"
    unfolding props_len_def by (rule sum_list_distinct_conv_sum_set [OF d])
  also have "\<dots> \<le> sum prop_len (set m)" by (intro sum_mono2 kept_keys) simp_all
  also have "\<dots> \<le> props_len m"
    unfolding props_len_def by (induction m) (auto simp: sum.insert_if)
  finally show ?thesis .
qed

lemma forward_all_kept:
  assumes "wf_property PUBLISH (properties p)" and "mType p = PUBLISH" and "wf_property PUBLISH (properties pkt)"
    and "distinct ids" and "\<And>i. i \<in> set ids \<Longrightarrow> map_of (props_list (properties pkt)) i = None"
    and "props_len (props_list (properties pkt)) + props_len (kept (props_list (properties p)) ids) < 2 ^ 29"
  shows "\<exists>pr. forward_all p ids (pkt, None) = Some (pkt\<lparr>properties := pr\<rparr>, None) \<and> wf_property PUBLISH pr \<and>
    props_list pr = props_list (properties pkt) @ kept (props_list (properties p)) ids"
  using assms(3-6)
proof (induction ids arbitrary: pkt)
  case (Cons i ids)
  show ?case
  proof (cases "map_of (props_list (properties p)) i")
    case None
    then show ?thesis using Cons by (simp add: forward_prop_def)
  next
    case (Some v)
    obtain m where m: "props_list (properties p) = m" "list_all (wf_prop PUBLISH) m"
      using assms(1) by (rule wf_property_facts)
    have w: "IsValidPacketType i PUBLISH" "wf_val (propertyTypeOf i) v"
      using m map_of_SomeD [of m i v] Some by (auto simp: list_all_iff wf_prop_def)
    have room: "props_len (props_list (properties pkt)) + prop_len (i, v) + props_len (kept m ids) < 2 ^ 29"
      using Cons.prems(4) Some m(1) by (simp add: props_len_def)
    obtain pr where pr: "property_Set (properties pkt) PUBLISH i v = Some (pr, None)" "wf_property PUBLISH pr"
        "props_list pr = props_list (properties pkt) @ [(i, v)]"
      using property_Set_wf [OF Cons.prems(1) w] Cons.prems(3) room by force
    have "map_of (props_list pr) j = None" if "j \<in> set ids" for j
      using that Cons.prems(2,3) by (auto simp: pr(3) map_add_def)
    then have "\<exists>pr'. forward_all p ids (pkt\<lparr>properties := pr\<rparr>, None) =
        Some (pkt\<lparr>properties := pr'\<rparr>, None) \<and> wf_property PUBLISH pr' \<and>
        props_list pr' = props_list pr @ kept m ids"
      using Cons.IH [of "pkt\<lparr>properties := pr\<rparr>"] Cons.prems(2) pr(2) room m(1) by (simp add: pr(3) props_len_def)
    then show ?thesis using Some m(1) pr assms(2) by (auto simp: forward_prop_def)
  qed
next
  case Nil
  then show ?case by (intro exI [of _ "properties pkt"]) simp
qed

lemma kept_props_wf:
  assumes "wf_property PUBLISH (properties p)"
  shows "wf_property PUBLISH (kept_props p)" and "unat (plen (kept_props p)) \<le> unat (plen (properties p))"
proof -
  obtain m where m: "props_list (properties p) = m" "list_all (wf_prop PUBLISH) m" "props_len m < 2 ^ 29"
      "unat (plen (properties p)) = props_len m"
    using assms by (rule wf_property_facts)
  have len: "props_len (kept m forwarded_ids) \<le> props_len m"
    by (rule props_len_kept) (simp add: forwarded_ids_def)
  then show "wf_property PUBLISH (kept_props p)"
    using m(1-3) kept_keys(2) [of m forwarded_ids] distinct_kept [of forwarded_ids m]
    by (auto simp: wf_property_def kept_props_def Let_def list_all_iff forwarded_ids_def [THEN arg_cong [where f = distinct]])
  show "unat (plen (kept_props p)) \<le> unat (plen (properties p))"
    using len m by (simp add: kept_props_def Let_def unat_of_nat)
qed

lemma property_list_eq:
  "wf_property t p \<Longrightarrow> wf_property t q \<Longrightarrow> props_list p = props_list q \<Longrightarrow> p = q"
  by (auto elim!: wf_property_facts intro: property_eqI)

lemma Clone_v5:
  assumes "Publish_wf ProtocolV50 p"
  shows "Publish_Clone ProtocolV50 p = Some (clone_of (kept_props p) p, None)"
proof -
  note wf = assms [unfolded Publish_wf_def]
  have p: "wf_property PUBLISH (properties p)" "mType p = PUBLISH" "h_version p = ProtocolV50"
    "Qos_IsValid (Publish_QoS p)" "ValidTopic (pub_topic p)"
    using wf by (auto simp: props_wf_def flags_ok_def Publish_QoS_def split: if_splits)
  let ?pkt = "clone_of (props_new (h_version p)) p"
  have n: "properties ?pkt = \<lparr>props = Some [], plen = 0\<rparr>" by (simp add: clone_of_def props_new_def p(3))
  have "props_len (kept (props_list (properties p)) forwarded_ids) < 2 ^ 29"
    using kept_props_wf(1) [OF p(1)] by (simp add: wf_property_def kept_props_def Let_def)
  then obtain pr where pr: "forward_all p forwarded_ids (?pkt, None) = Some (?pkt\<lparr>properties := pr\<rparr>, None)"
      "wf_property PUBLISH pr" "props_list pr = kept (props_list (properties p)) forwarded_ids"
    using forward_all_kept [OF p(1,2), of ?pkt forwarded_ids]
    by (auto simp: n wf_property_def props_list_def props_len_def forwarded_ids_def)
  have "pr = kept_props p"
    using pr kept_props_wf(1) [OF p(1)]
    by (intro property_list_eq [of PUBLISH]) (simp_all add: kept_props_def Let_def props_list_def)
  moreover have "Publish_Clone ProtocolV50 p = forward_all p forwarded_ids (?pkt, None)"
    unfolding Publish_Clone_def Let_def Publish_Set_clone [OF p(5,4)]
    by (simp add: p(3) forwarded_ids_def forward_all_fun)
  ultimately show ?thesis using pr(1) by (simp add: clone_of_def)
qed

section \<open>The copy on the wire\<close>

lemma length_uvarint_bytes_mono: "x \<le> y \<Longrightarrow> length (uvarint_bytes x) \<le> length (uvarint_bytes y)"
proof (induction x arbitrary: y rule: uvarint_bytes.induct)
  case (1 x)
  show ?case
  proof (cases "0x80 \<le> x")
    case True
    have "drop_bit 7 x \<le> drop_bit 7 y"
      using 1(2) by (simp add: word_le_nat_alt drop_bit_eq_div unat_div_distrib div_le_mono)
    then show ?thesis
      using 1 True order_trans [OF True 1(2)] by (simp add: uvarint_bytes.simps [of x] uvarint_bytes.simps [of y])
  qed (simp add: uvarint_bytes.simps [of x] uvarint_bytes.simps [of y])
qed

lemma property_FullLen_mono:
  assumes "unat (plen q) \<le> unat (plen p)" and "unat (plen p) < 2 ^ 29"
  shows "unat (property_FullLen q) \<le> unat (property_FullLen p)"
proof -
  have "length (uvarint_bytes (ucast (plen q))) \<le> length (uvarint_bytes (ucast (plen p)))"
    using assms by (intro length_uvarint_bytes_mono) (simp add: word_le_nat_alt unat_ucast_mod)
  then show ?thesis using assms by (simp add: unat_property_FullLen)
qed

lemma frame_length_mono:
  assumes "length b \<le> length b'" and "length b' < 2 ^ 64"
  shows "length (frame t f b) \<le> length (frame t f' b')"
proof -
  have "length (uvarint_bytes (of_nat (length b))) \<le> length (uvarint_bytes (of_nat (length b')))"
    using assms by (intro length_uvarint_bytes_mono) (simp add: word_le_nat_alt unat_of_nat)
  then show ?thesis using assms(1) by (simp add: frame_def)
qed

lemma copy_wire_kept:
  fixes granted :: QosType and ops :: SubscriptionOptions
  assumes "Publish_wf ProtocolV50 p" and "pub_topic p \<noteq> []" and "length bs = id_len p"
  defines "m \<equiv> (copy_of (kept_props p) granted ops p)\<lparr>packetID := bs\<rparr>"
  shows "Publish_wf ProtocolV50 m" and "length (packet_bytes (PPublish m)) \<le> length (packet_bytes (PPublish p))"
proof -
  note wf = assms(1) [unfolded Publish_wf_def]
  have q: "Qos_IsValid (Publish_QoS p)" using wf by (simp add: flags_ok_def Publish_QoS_def split: if_splits)
  have flags: "Publish_QoS m = delivered_QoS granted (Publish_QoS p)" "\<not> Publish_Dup m" "flags_ok PUBLISH (mFlags m)"
    using copy_of_flags [OF q, of _ granted ops] by (simp_all add: m_def Publish_QoS_def Publish_Dup_def)
  have pr: "wf_property PUBLISH (properties p)" using wf by (auto simp: props_wf_def)
  have "unat (property_FullLen (kept_props p)) \<le> unat (property_FullLen (properties p))"
    using kept_props_wf(2) [OF pr] pr by (intro property_FullLen_mono) (auto elim: wf_property_facts)
  then have size: "Publish_size m \<le> Publish_size p"
    using wf flags delivered_QoS0 [of granted "Publish_QoS p"] by (simp add: Publish_size_def m_def)
  have id: "length bs = (if Publish_QoS p = QoS0 then 0 else 2)" using assms(3) by (simp add: id_len_def)
  show wfm: "Publish_wf ProtocolV50 m"
    using wf flags size id assms(2) kept_props_wf(1) [OF pr]
    by (auto simp: Publish_wf_def m_def props_wf_def split: if_splits)
  have "length (Publish_body p) < 2 ^ 64"
    using Publish_size_body [OF assms(1)] wf by (simp add: maxRemainingLength_def)
  then show "length (packet_bytes (PPublish m)) \<le> length (packet_bytes (PPublish p))"
    using Publish_size_body [OF wfm] Publish_size_body [OF assms(1)] size wf
    by (simp add: packet_bytes_publish frame_length_mono m_def)
qed

text \<open>The message that reaches the client as the bytes \<open>b\<close>, its properties included.\<close>

definition arrives_v5 :: "Publish \<Rightarrow> delivery \<Rightarrow> byte list \<Rightarrow> bool" where
  "arrives_v5 p d b =
     (arrives ProtocolV50 p d b \<and>
      (case Decode ProtocolV50 b of
         (Some (PPublish m), n, None) \<Rightarrow>
           (\<forall>i. property_Get (properties m) i =
              (if i \<in> set forwarded_ids then property_Get (properties p) i else None))
       | _ \<Rightarrow> False))"

lemma kept_props_Get:
  "property_Get (kept_props p) i = (if i \<in> set forwarded_ids then property_Get (properties p) i else None)"
  by (simp add: property_Get_def kept_props_def props_list_def [of "\<lparr>props = Some _, plen = _\<rparr>"] map_of_kept Let_def)

lemma copy_arrives_kept:
  assumes "Publish_wf ProtocolV50 p" and "pub_topic p \<noteq> []"
    and "numbered (id_len p) (copy_of (kept_props p) (d_qos d) (d_ops d) p) x"
    and "length (packet_bytes (PPublish p)) \<le> unat limit"
  shows "sendable limit x \<and> arrives_v5 p d (packet_bytes x)"
proof -
  obtain bs where bs: "length bs = id_len p" "x = PPublish ((copy_of (kept_props p) (d_qos d) (d_ops d) p)\<lparr>packetID := bs\<rparr>)"
    using assms(3) by (auto simp: numbered_def)
  note w = copy_wire_kept [OF assms(1,2) bs(1), of "d_qos d" "d_ops d"]
  have "sendable limit x"
    using w assms(4) bs(2) unfolding sendable_def by (intro conjI exI [of _ ProtocolV50]) simp_all
  moreover have q: "Qos_IsValid (Publish_QoS p)"
    using assms(1) by (simp add: Publish_wf_def flags_ok_def Publish_QoS_def split: if_splits)
  have "arrives_v5 p d (packet_bytes x)"
    using Decode_bytes [of ProtocolV50 x] w(1) bs(2) copy_of_flags [OF q, of _ "d_qos d" "d_ops d"]
    by (simp add: arrives_v5_def arrives_def packet_norm_def Publish_QoS_def Publish_Retain_def Publish_Dup_def kept_props_Get)
  ultimately show ?thesis by blast
qed

section \<open>The publisher\<close>

lemma wf_property_Short:
  assumes "wf_property t p" and "property_Get p PropertyTopicAlias = Some x"
  shows "snd (AsShort x) = None"
proof -
  obtain m where m: "props_list p = m" "list_all (wf_prop t) m" using assms(1) by (rule wf_property_facts)
  obtain v where v: "map_of m PropertyTopicAlias = Some v" "x = \<lparr>pt_t = propertyTypeOf PropertyTopicAlias, pt_v = v\<rparr>"
    using assms(2) m(1) by (auto simp: property_Get_def split: option.splits)
  then have "wf_val (propertyTypeOf PropertyTopicAlias) v"
    using m(2) map_of_SomeD [OF v(1)] by (auto simp: list_all_iff wf_prop_def)
  then show ?thesis using v(2)
    by (auto simp: AsShort_def wf_val_def propertyTypeOf_def propertyTypeMap_def split: prop_val.splits)
qed

text \<open>
  A PUBLISH of a V5.0 client with a topic name, with or without a topic alias, that has no expiry
  interval goes to the topics manager as it is.
\<close>

lemma publish_step_v5:
  assumes "Publish_wf ProtocolV50 p" and "c_Version a = ProtocolV50" and "Publish_QoS p \<noteq> QoS2" and "pub_topic p \<noteq> []"
    and "preProcessPublish p a = None" and "property_Get (properties p) PropertyPublicationExpiry = None"
    and "acl (c_ID a) (c_Username a) (pub_topic p) AccessTypeWrite \<noteq> StatusDeny"
  shows "\<exists>a' calls. processIncoming now acl subscribe unsubscribe (PPublish p) a st = Some (a', st, calls, None) \<and>
    published calls = [p\<lparr>publishID := sb_hash (c_sub a)\<rparr>]"
proof -
  note wf = assms(1) [unfolded Publish_wf_def]
  have "\<exists>t. resolve_alias p a = (p, a\<lparr>c_rxTopicAlias := t\<rparr>, None)"
  proof (cases "property_Get (properties p) PropertyTopicAlias")
    case None
    then show ?thesis by (intro exI [of _ "c_rxTopicAlias a"]) (simp add: resolve_alias_def header_PropertyGet_def)
  next
    case (Some x)
    then have "snd (AsShort x) = None" using wf by (intro wf_property_Short [of PUBLISH]) (auto simp: props_wf_def)
    then show ?thesis
      using Some wf assms(4) by (cases "AsShort x") (auto simp: resolve_alias_def header_PropertyGet_def)
  qed
  then obtain a1 where post: "postProcessPublish now p a = (p, a1, None)" and a1: "c_sub a1 = c_sub a"
    using assms(2,6) by (force simp: postProcessPublish_def set_expiry_def header_PropertyGet_def split: if_splits)
  show ?thesis by (rule publish_step [OF assms(1,3,5) post a1, where acl = acl, OF assms(7)])
qed

section \<open>From the publisher to the subscriber\<close>


definition sample_msg_v5 :: Publish where
  "sample_msg_v5 =
     (sample_msg ProtocolV50)\<lparr>properties := \<lparr>props = Some [(PropertyTopicAlias, VShort 2), (PropertyContentType, VString [0x74])],
       plen = 7\<rparr>\<rparr>"

definition sample_pub_v5 :: connection where
  "sample_pub_v5 = sample_conn\<lparr>c_Version := ProtocolV50, c_MaxRxTopicAlias := 5\<rparr>"

definition sample_sub_v5 :: connection where
  "sample_sub_v5 = sample_conn\<lparr>c_sub := (subscriber_New 8 [0x64] False ProtocolV50)\<lparr>sb_online := True\<rparr>\<rparr>"

lemma sample_msg_v5_wf: "Publish_wf ProtocolV50 sample_msg_v5"
  by (simp add: sample_msg_v5_def sample_msg_def New_Publish_def newPublish_def header_init_def header_setType_def wf_eval
      Publish_wf_def Publish_QoS_def Publish_Dup_def Publish_size_def calcLenShort_def calcLenString_def Let_def)

lemma sample_pub_v5_pre: "preProcessPublish sample_msg_v5 sample_pub_v5 = None"
  by (simp add: preProcessPublish_def preProcessPublishV50_def header_PropertyGet_def property_Get_def props_list_def
      sample_msg_v5_def sample_pub_v5_def sample_conn_def AsShort_def)


end
