(* ===== verification/Receiver.thy ===== *)
theory Receiver
  imports Connection_Flows
begin

text \<open>
  \<open>src/connection/receiver.go\<close>: the goroutine that cuts the byte stream of the peer into packets and
  hands them to \<open>processIncoming\<close>.

  The network is a list of pieces, one per successful read of the socket, followed by a read
  error; the \<open>bufio.Reader\<close> adds what it has read and not yet delivered. The lemmas show that
  how the stream is cut into pieces does not matter.
\<close>

section \<open>The buffered reader\<close>

record reader =
  rd_buf :: "byte list"
  rd_pieces :: "byte list list"

definition rd_content :: "reader \<Rightarrow> byte list" where
  "rd_content rd = rd_buf rd @ concat (rd_pieces rd)"

definition NewReader :: "byte list list \<Rightarrow> reader" where
  "NewReader pieces = \<lparr>rd_buf = [], rd_pieces = pieces\<rparr>"

text \<open>\<open>Peek(n)\<close>: reads until \<open>n\<close> bytes are buffered; \<open>None\<close> is the read error.\<close>

fun peek_fill :: "nat \<Rightarrow> byte list \<Rightarrow> byte list list \<Rightarrow> byte list \<times> byte list list" where
  "peek_fill n buf [] = (buf, [])"
| "peek_fill n buf (p # ps) = (if n \<le> length buf then (buf, p # ps) else peek_fill n (buf @ p) ps)"

definition rd_Peek :: "nat \<Rightarrow> reader \<Rightarrow> reader \<times> byte list option" where
  "rd_Peek n rd =
     (case peek_fill n (rd_buf rd) (rd_pieces rd) of (buf, ps) \<Rightarrow>
        (\<lparr>rd_buf = buf, rd_pieces = ps\<rparr>, if n \<le> length buf then Some (take n buf) else None))"

text \<open>
  The loop \<open>for offset != s.rxRemaining\<close> with \<open>k\<close> bytes to go: a \<open>Read\<close> delivers what is buffered,
  or the next piece. The flag says whether the loop ended without a read error.
\<close>

function read_loop :: "nat \<Rightarrow> byte list \<Rightarrow> byte list \<Rightarrow> byte list list \<Rightarrow> byte list \<times> reader \<times> bool" where
  "read_loop k acc buf ps =
     (if k = 0 then (acc, \<lparr>rd_buf = buf, rd_pieces = ps\<rparr>, True)
      else if buf \<noteq> [] then read_loop (k - length (take k buf)) (acc @ take k buf) (drop k buf) ps
      else (case ps of
              [] \<Rightarrow> (acc, \<lparr>rd_buf = [], rd_pieces = []\<rparr>, False)
            | p # ps' \<Rightarrow> read_loop k acc p ps'))"
  by pat_completeness auto
termination by (relation "measures [\<lambda>(k, acc, buf, ps). length ps, \<lambda>(k, acc, buf, ps). k]") auto

declare read_loop.simps [simp del]

section \<open>The fixed header\<close>

text \<open>\<open>binary.Uvarint\<close> of the Go library.\<close>

fun binary_Uvarint_loop :: "nat \<Rightarrow> uint64 \<Rightarrow> nat \<Rightarrow> byte list \<Rightarrow> uint64 \<times> int" where
  "binary_Uvarint_loop i x s [] = (0, 0)"
| "binary_Uvarint_loop i x s (b # bs) =
     (if b < 0x80 then
        (if i > 9 \<or> i = 9 \<and> b > 1 then (0, - (int i + 1))
         else (x OR push_bit s (ucast b), int i + 1))
      else binary_Uvarint_loop (i + 1) (x OR push_bit s (ucast (b AND 0x7f))) (s + 7) bs)"

definition binary_Uvarint :: "byte list \<Rightarrow> uint64 \<times> int" where
  "binary_Uvarint buf = binary_Uvarint_loop 0 0 0 buf"

text \<open>The loop over \<open>peekCount\<close>; it has at most four rounds.\<close>

function peek_header :: "nat \<Rightarrow> reader \<Rightarrow> reader \<times> (conn_error + byte list)" where
  "peek_header peekCount rd =
     (if peekCount > 5 then (rd, Inl (ConnErr (ECode CodeProtocolError)))
      else (case rd_Peek peekCount rd of
              (rd', None) \<Rightarrow> (rd', Inl ConnRead)
            | (rd', Some header) \<Rightarrow>
                if header ! (peekCount - 1) \<ge> 0x80 then peek_header (peekCount + 1) rd'
                else (rd', Inr header)))"
  by pat_completeness auto
termination by (relation "measure (\<lambda>(c, rd). 6 - c)") auto

declare peek_header.simps [simp del]

section \<open>readPacket\<close>

definition start_packet :: "connection \<Rightarrow> reader \<Rightarrow> connection \<times> reader \<times> conn_error option" where
  "start_packet s rd =
     (if length (c_rxRecv s) = 0 then
        (case peek_header 2 rd of
           (rd', Inl e) \<Rightarrow> (s, rd', Some e)
         | (rd', Inr header) \<Rightarrow>
             (case binary_Uvarint (tl header) of (rl, m) \<Rightarrow>
                (let n = int (unat rl) + 1 + m in
                 (s\<lparr>c_rxRemaining := n, c_rxRecv := replicate (nat n) 0\<rparr>, rd', None))))
      else (s, rd, None))"

text \<open>
  \<open>None\<close>: the offset is outside the buffer. After a read error \<open>rxRecv\<close> keeps the bytes that
  arrived, and \<open>rxRemaining\<close> its value.
\<close>

definition readPacket ::
    "connection \<Rightarrow> reader \<Rightarrow> (connection \<times> reader \<times> packet option \<times> conn_error option) option" where
  "readPacket s0 rd0 =
     (case start_packet s0 rd0 of
        (s, rd, Some e) \<Rightarrow> Some (s, rd, None, Some e)
      | (s, rd, None) \<Rightarrow>
         if c_rxRemaining s > int (unat (c_MaxRxPacketSize s))
         then Some (s, rd, None, Some (ConnErr (ECode CodePacketTooLarge)))
         else (let offset = int (length (c_rxRecv s)) - c_rxRemaining s in
           if offset < 0 \<or> offset > c_rxRemaining s then None
           else (let done = nat offset; k = nat (c_rxRemaining s - offset) in
             (case read_loop k (take done (c_rxRecv s)) (rd_buf rd) (rd_pieces rd) of
                (acc, rd', False) \<Rightarrow>
                  Some (s\<lparr>c_rxRecv := acc @ drop (length acc) (c_rxRecv s)\<rparr>, rd', None, Some ConnRead)
              | (acc, rd', True) \<Rightarrow>
                  (case Decode (c_Version s) (acc @ drop (length acc) (c_rxRecv s)) of
                     (pkt, n, err) \<Rightarrow>
                       Some (s\<lparr>c_rxRecv := [], c_rxRemaining := 0\<rparr>, rd', pkt, map_option ConnErr err))))))"

section \<open>rxRoutine\<close>

datatype 'st rx_result =
    RxStopped connection 'st reader "messenger_call list" conn_error
  | RxPanic
  | RxFuel

definition rx_calls :: "messenger_call list \<Rightarrow> 'st rx_result \<Rightarrow> 'st rx_result" where
  "rx_calls cs r = (case r of RxStopped s st rd cs' e \<Rightarrow> RxStopped s st rd (cs @ cs') e | _ \<Rightarrow> r)"

text \<open>The loop, with fuel; \<open>rxRunning\<close> leaves 1 at the first error only.\<close>

fun rx_loop ::
    "nat \<Rightarrow> Time \<Rightarrow> (gostring \<Rightarrow> gostring \<Rightarrow> gostring \<Rightarrow> AccessType \<Rightarrow> Status) \<Rightarrow> 'st topics_Subscribe \<Rightarrow>
     'st topics_UnSubscribe \<Rightarrow> connection \<Rightarrow> 'st \<Rightarrow> reader \<Rightarrow> 'st rx_result" where
  "rx_loop 0 now acl subscribe unsubscribe s st rd = RxFuel"
| "rx_loop (Suc n) now acl subscribe unsubscribe s st rd =
     (case readPacket s rd of
        None \<Rightarrow> RxPanic
      | Some (s1, rd1, pkt, Some e) \<Rightarrow> RxStopped s1 st rd1 [] e
      | Some (s1, rd1, None, None) \<Rightarrow> RxPanic
      | Some (s1, rd1, Some p, None) \<Rightarrow>
          (case processIncoming now acl subscribe unsubscribe p s1 st of
             None \<Rightarrow> RxPanic
           | Some (s2, st2, calls, Some e) \<Rightarrow> RxStopped s2 st2 rd1 calls e
           | Some (s2, st2, calls, None) \<Rightarrow>
               rx_calls calls (rx_loop n now acl subscribe unsubscribe s2 st2 rd1)))"

text \<open>
  After the loop: an error that is not a reason code is replaced by the result of
  \<open>EventPoll.Resume\<close> (\<open>resume\<close>: whether it fails). The result is the call of \<open>onConnectionClose\<close>, with
  the will flag and the reason, if there is one.
\<close>

fun reason_of :: "conn_error \<Rightarrow> ReasonCode option" where
  "reason_of (ConnErr (ECode c)) = Some c"
| "reason_of _ = None"

definition rx_finish :: "bool \<Rightarrow> bool \<Rightarrow> connection \<Rightarrow> conn_error \<Rightarrow> (bool \<times> ReasonCode option) option" where
  "rx_finish exit resume_fails s err =
     (if exit then Some (c_will s, None)
      else (case reason_of err of
              Some c \<Rightarrow> Some (c_will s, Some c)
            | None \<Rightarrow> if resume_fails then Some (c_will s, None) else None))"


section \<open>The reader delivers its content\<close>

lemma peek_fill_content:
  "peek_fill n buf ps = (buf', ps') \<Longrightarrow> buf' @ concat ps' = buf @ concat ps \<and>
     (n \<le> length (buf @ concat ps) \<longrightarrow> n \<le> length buf')"
  by (induction n buf ps rule: peek_fill.induct) (auto split: if_splits)

lemma rd_Peek_content:
  "\<exists>rd'. rd_Peek n rd = (rd', if n \<le> length (rd_content rd) then Some (take n (rd_content rd)) else None) \<and>
     rd_content rd' = rd_content rd"
proof -
  obtain buf ps where f: "peek_fill n (rd_buf rd) (rd_pieces rd) = (buf, ps)" by fastforce
  from peek_fill_content [OF f] have c: "rd_content rd = buf @ concat ps"
    and "n \<le> length (rd_content rd) \<Longrightarrow> n \<le> length buf"
    by (auto simp: rd_content_def)
  then have n: "n \<le> length (rd_content rd) \<longleftrightarrow> n \<le> length buf" by auto
  have "take n buf = take n (rd_content rd)" if "n \<le> length buf" using that c by simp
  moreover have "rd_content \<lparr>rd_buf = buf, rd_pieces = ps\<rparr> = rd_content rd" using c by (simp add: rd_content_def)
  ultimately show ?thesis using n by (simp add: rd_Peek_def f)
qed

lemma read_loop_content:
  "\<exists>acc' rd'. read_loop k acc buf ps = (acc', rd', k \<le> length (buf @ concat ps)) \<and>
     acc' = acc @ take k (buf @ concat ps) \<and> rd_content rd' = drop k (buf @ concat ps)"
proof (induction k acc buf ps rule: read_loop.induct)
  case (1 k acc buf ps)
  consider "k = 0" | "0 < k" "buf \<noteq> []" | "0 < k" "buf = []" "ps = []" | p ps' where "0 < k" "buf = []" "ps = p # ps'"
    by (cases ps) auto
  then show ?case
  proof cases
    case 1 then show ?thesis by (simp add: read_loop.simps rd_content_def)
  next
    case 2
    have "take (k - min (length buf) k) (drop k buf @ concat ps) = take (k - length buf) (concat ps)"
      by (cases "k \<le> length buf") (simp_all add: min_def)
    moreover have "drop (k - min (length buf) k) (drop k buf @ concat ps) = drop k buf @ drop (k - length buf) (concat ps)"
      by (cases "k \<le> length buf") (simp_all add: min_def)
    ultimately show ?thesis
      using "1.IH"(1) 2 by (subst read_loop.simps) (auto simp: min_def split: if_splits)
  next
    case 3 then show ?thesis by (simp add: read_loop.simps rd_content_def)
  next
    case 4 then show ?thesis using "1.IH"(2) by (subst read_loop.simps) auto
  qed
qed

section \<open>The length of a frame\<close>

lemma ucast_or_push:
  fixes x :: uint32 and b :: byte
  assumes "s \<le> 24"
  shows "(ucast (x OR push_bit s (ucast b)) :: uint64) = ucast x OR push_bit s (ucast b)"
proof (rule bit_word_eqI)
  fix n assume "n < LENGTH(64)"
  have "\<not> bit b (n - s)" if "32 \<le> n"
  proof -
    have "8 \<le> n - s" using that assms by simp
    then show ?thesis using bit_imp_le_length [of b "n - s"] by auto
  qed
  then show "bit (ucast (x OR push_bit s (ucast b)) :: uint64) n = bit (ucast x OR push_bit s (ucast b) :: uint64) n"
    using assms by (auto simp: bit_simps dest: bit_imp_le_length)
qed

text \<open>On four bytes the library function agrees with the package's own \<open>uvarint\<close>.\<close>

lemma binary_Uvarint_agrees:
  assumes "uvarint_loop i x (7 * i) bs = (v, n)" and "0 < n" and "i + length bs \<le> 4"
  shows "binary_Uvarint_loop i (ucast x) (7 * i) bs = (ucast v, n)"
  using assms
proof (induction bs arbitrary: i x)
  case (Cons b bs)
  show ?case
  proof (cases "b < 0x80")
    case True
    then show ?thesis using Cons.prems by (auto simp: ucast_or_push)
  next
    case False
    let ?x = "x OR push_bit (7 * i) (ucast (b AND 0x7f))"
    have "uvarint_loop (i + 1) ?x (7 * (i + 1)) bs = (v, n)"
      using Cons.prems(1) False by (simp add: add.commute)
    from Cons.IH [OF this] Cons.prems have "binary_Uvarint_loop (i + 1) (ucast ?x) (7 * (i + 1)) bs = (ucast v, n)"
      by simp
    then show ?thesis using False Cons.prems(3) by (simp add: ucast_or_push add.commute)
  qed
qed simp


lemma uvarint_bytes_shape:
  "\<exists>bs b. uvarint_bytes x = bs @ [b] \<and> b < 0x80 \<and> (\<forall>c \<in> set bs. 0x80 \<le> c)"
proof (induction x rule: uvarint_bytes.induct)
  case (1 x)
  show ?case
  proof (cases "0x80 \<le> x")
    case True
    from "1.IH" [OF True] obtain bs b where "uvarint_bytes (drop_bit 7 x) = bs @ [b]" "b < 0x80" "\<forall>c \<in> set bs. 0x80 \<le> c"
      by blast
    then show ?thesis
      using True uvarint_cont_byte(1) [of x]
      by (intro exI [of _ "(ucast x OR 0x80) # bs"] exI [of _ b]) (auto simp: uvarint_bytes_long not_less)
  next
    case False
    then have "unat (ucast x :: byte) < 128"
      by (simp add: unat_ucast_mod word_le_nat_alt not_le)
    then show ?thesis
      using False by (intro exI [of _ "[]"] exI [of _ "ucast x"]) (auto simp: uvarint_bytes_short not_le word_less_nat_alt)
  qed
qed

text \<open>The peek loop stops at the first byte without the continuation bit.\<close>

lemma peek_header_content:
  assumes "rd_content rd = h # bs @ [b] @ rest" and "\<forall>c \<in> set bs. 0x80 \<le> c" and "b < 0x80"
    and "length bs \<le> 3" and "k \<le> length bs"
  shows "\<exists>rd'. peek_header (k + 2) rd = (rd', Inr (h # bs @ [b])) \<and> rd_content rd' = rd_content rd"
  using assms
proof (induction "length bs - k" arbitrary: k rd)
  case 0
  then have k: "k = length bs" by simp
  obtain rd' where "rd_Peek (k + 2) rd = (rd', Some (h # bs @ [b]))" "rd_content rd' = rd_content rd"
    using rd_Peek_content [of "k + 2" rd] "0.prems"(1) k by auto
  moreover have "\<not> 0x80 \<le> b" using "0.prems"(3) by simp
  ultimately show ?case using "0.prems"(4) k by (subst peek_header.simps) (simp add: nth_append)
next
  case (Suc d)
  then have k: "k < length bs" by simp
  obtain rd' where r: "rd_Peek (k + 2) rd = (rd', Some (take (k + 2) (h # bs @ [b] @ rest)))" "rd_content rd' = rd_content rd"
    using rd_Peek_content [of "k + 2" rd] Suc.prems(1) k by auto
  have "take (k + 2) (h # bs @ [b] @ rest) ! (k + 1) = bs ! k" using k by (simp add: nth_append)
  then have "0x80 \<le> take (k + 2) (h # bs @ [b] @ rest) ! (k + 1)" using Suc.prems(2) k by simp
  then have step: "peek_header (k + 2) rd = peek_header (Suc k + 2) rd'"
    using r(1) Suc.prems(4) k by (subst peek_header.simps) simp
  have "\<exists>rd''. peek_header (Suc k + 2) rd' = (rd'', Inr (h # bs @ [b])) \<and> rd_content rd'' = rd_content rd'"
    using Suc k r(2) by (intro Suc.hyps(1)) auto
  then show ?case using step r(2) by simp
qed


lemma binary_Uvarint_bytes:
  assumes "int n \<le> maxRemainingLength"
  shows "binary_Uvarint (uvarint_bytes (of_nat n)) = (of_nat n, int (length (uvarint_bytes (of_nat n))))"
    and "length (uvarint_bytes (of_nat n)) \<le> 4"
proof -
  have n: "n < 2 ^ 28" using assms by (simp add: maxRemainingLength_def)
  then show len: "length (uvarint_bytes (of_nat n)) \<le> 4"
    by (intro length_uvarint_bytes_le) (simp_all add: unat_of_nat)
  have "uvarint (uvarint_bytes (ucast (of_nat n :: uint32)) @ []) =
      (of_nat n, int (length (uvarint_bytes (ucast (of_nat n :: uint32)))))"
    unfolding uvarint_bytes_roundtrip using n remLen_of_nat(2) [OF assms] by simp
  then have "uvarint_loop 0 0 (7 * 0) (uvarint_bytes (of_nat n)) = (of_nat n, int (length (uvarint_bytes (of_nat n))))"
    by (simp add: uvarint_def remLen_of_nat(4) [OF assms])
  from binary_Uvarint_agrees [OF this] len
  show "binary_Uvarint (uvarint_bytes (of_nat n)) = (of_nat n, int (length (uvarint_bytes (of_nat n))))"
    by (simp add: binary_Uvarint_def remLen_of_nat(4) [OF assms])
qed

lemma start_packet_frame:
  assumes "int n \<le> maxRemainingLength" and "c_rxRecv s = []"
    and "rd_content rd = h # uvarint_bytes (of_nat n) @ rest"
  shows "\<exists>rd'. start_packet s rd =
      (s\<lparr>c_rxRemaining := int (1 + length (uvarint_bytes (of_nat n)) + n),
         c_rxRecv := replicate (1 + length (uvarint_bytes (of_nat n)) + n) 0\<rparr>, rd', None) \<and>
    rd_content rd' = rd_content rd"
proof -
  obtain bs b where u: "uvarint_bytes (of_nat n) = bs @ [b]" "b < 0x80" "\<forall>c \<in> set bs. 0x80 \<le> c"
    using uvarint_bytes_shape by blast
  have len: "length bs \<le> 3" using binary_Uvarint_bytes(2) [OF assms(1)] u by simp
  obtain rd' where r: "peek_header 2 rd = (rd', Inr (h # bs @ [b]))" "rd_content rd' = rd_content rd"
    using peek_header_content [of rd h bs b rest 0] assms(3) u len by (auto simp: numeral_2_eq_2)
  have b: "binary_Uvarint (bs @ [b]) = (of_nat n, int (length bs) + 1)"
    using binary_Uvarint_bytes(1) [OF assms(1)] u by simp
  have "unat (of_nat n :: uint64) = n"
    using assms(1) by (simp add: unat_of_nat maxRemainingLength_def)
  then have un: "uint (of_nat n :: uint64) = int n" by (metis uint_nat)
  have "nat (2 + (int (length bs) + int n)) = Suc (Suc (n + length bs))" by simp
  then show ?thesis using assms(2) r b u(1) un by (simp add: start_packet_def Let_def add.commute add.left_commute)
qed

lemma replicate_more: "length acc = n \<Longrightarrow> acc @ drop (length acc) (replicate n (0 :: byte)) = acc"
  by simp

lemma packet_bytes_frame:
  assumes "packet_wf v p"
  shows "\<exists>h n. int n \<le> maxRemainingLength \<and> packet_bytes p = h # uvarint_bytes (of_nat n) @ packet_body p \<and>
    n = length (packet_body p)"
  using packet_wf_type(2) [OF assms] by (auto simp: packet_bytes_def frame_def)

lemma readPacket_frame:
  assumes "packet_wf (c_Version s) p" and "c_rxRecv s = []" and "rd_content rd = packet_bytes p @ rest"
  shows "\<exists>rd' s'. readPacket s rd =
      (if length (packet_bytes p) \<le> unat (c_MaxRxPacketSize s)
       then Some (s\<lparr>c_rxRecv := [], c_rxRemaining := 0\<rparr>, rd', Some (packet_norm p), None)
       else Some (s', rd', None, Some (ConnErr (ECode CodePacketTooLarge)))) \<and>
    (length (packet_bytes p) \<le> unat (c_MaxRxPacketSize s) \<longrightarrow> rd_content rd' = rest)"
proof -
  obtain h n where f: "int n \<le> maxRemainingLength" "packet_bytes p = h # uvarint_bytes (of_nat n) @ packet_body p"
    "n = length (packet_body p)" using packet_bytes_frame [OF assms(1)] by blast
  define N where "N = length (packet_bytes p)"
  have N: "N = 1 + length (uvarint_bytes (of_nat n)) + n" by (simp add: N_def f(2)) (simp add: f(3))
  obtain rd1 where st: "start_packet s rd = (s\<lparr>c_rxRemaining := int N, c_rxRecv := replicate N 0\<rparr>, rd1, None)"
    and c: "rd_content rd1 = rd_content rd"
    using start_packet_frame [OF f(1) assms(2), of rd h "packet_body p @ rest"] assms(3) f(2) unfolding N by auto
  obtain rd2 where rl: "read_loop N [] (rd_buf rd1) (rd_pieces rd1) = (packet_bytes p, rd2, True)" "rd_content rd2 = rest"
    using read_loop_content [of N "[]" "rd_buf rd1" "rd_pieces rd1"] c assms(3)
    by (auto simp: rd_content_def [symmetric] N_def)
  have le: "length (packet_bytes p) \<le> unat (c_MaxRxPacketSize s) \<longleftrightarrow> \<not> int N > uint (c_MaxRxPacketSize s)"
    by (metis N_def not_less of_nat_le_iff uint_nat)
  show ?thesis
    unfolding le using Decode_bytes [OF assms(1)] st rl
    by (auto simp: readPacket_def Let_def N_def nat_int)
qed


lemma readPacket_too_large:
  assumes "packet_wf (c_Version s) p" and "c_rxRecv s = []" and "rd_content rd = packet_bytes p @ rest"
    and "unat (c_MaxRxPacketSize s) < length (packet_bytes p)"
  shows "\<exists>s' rd'. readPacket s rd = Some (s', rd', None, Some (ConnErr (ECode CodePacketTooLarge)))"
  using readPacket_frame [OF assms(1-3)] assms(4) by auto

text \<open>A stream that ends inside a packet gives a read error and no packet.\<close>

lemma readPacket_empty:
  assumes "c_rxRecv s = []" and "length (rd_content rd) < 2"
  shows "\<exists>rd'. readPacket s rd = Some (s, rd', None, Some ConnRead)"
proof -
  obtain rd' where "rd_Peek 2 rd = (rd', None)" using rd_Peek_content [of 2 rd] assms(2) by auto
  then show ?thesis using assms(1) by (simp add: readPacket_def start_packet_def peek_header.simps [of 2])
qed

section \<open>The handlers leave the receiver alone\<close>

lemma queue_ops_rx [simp]:
  "c_rxRecv (txRun s) = c_rxRecv s" "c_rxRecv (txSignalAvailable s) = c_rxRecv s"
  "c_rxRecv (gPush p s) = c_rxRecv s" "c_rxRecv (qPush q s) = c_rxRecv s"
  "c_rxRecv (onSubscribedPublish m s) = c_rxRecv s" "c_rxRecv (signalQuota s) = c_rxRecv s"
  "c_rxRecv (release_flow i s) = c_rxRecv s" "c_rxRecv (push_resp r s) = c_rxRecv s"
  "c_rxRemaining (txRun s) = c_rxRemaining s" "c_rxRemaining (txSignalAvailable s) = c_rxRemaining s"
  "c_rxRemaining (gPush p s) = c_rxRemaining s" "c_rxRemaining (qPush q s) = c_rxRemaining s"
  "c_rxRemaining (onSubscribedPublish m s) = c_rxRemaining s" "c_rxRemaining (signalQuota s) = c_rxRemaining s"
  "c_rxRemaining (release_flow i s) = c_rxRemaining s" "c_rxRemaining (push_resp r s) = c_rxRemaining s"
  by (auto simp: txRun_def txSignalAvailable_def gPush_def qPush_def onSubscribedPublish_def signalQuota_def
      release_flow_def push_resp_def Let_def split: prod.splits option.splits)

lemma queue_ops_config [simp]:
  "c_Version (txRun s) = c_Version s" "c_Version (txSignalAvailable s) = c_Version s"
  "c_Version (qPush q s) = c_Version s"
  "c_Version (onSubscribedPublish m s) = c_Version s"
  "c_Version (release_flow i s) = c_Version s" "c_Version (push_resp r s) = c_Version s"
  "c_MaxRxPacketSize (txRun s) = c_MaxRxPacketSize s" "c_MaxRxPacketSize (txSignalAvailable s) = c_MaxRxPacketSize s"
  "c_MaxRxPacketSize (gPush p s) = c_MaxRxPacketSize s" "c_MaxRxPacketSize (qPush q s) = c_MaxRxPacketSize s"
  "c_MaxRxPacketSize (onSubscribedPublish m s) = c_MaxRxPacketSize s" "c_MaxRxPacketSize (signalQuota s) = c_MaxRxPacketSize s"
  "c_MaxRxPacketSize (release_flow i s) = c_MaxRxPacketSize s" "c_MaxRxPacketSize (push_resp r s) = c_MaxRxPacketSize s"
  by (auto simp: txRun_def txSignalAvailable_def gPush_def qPush_def onSubscribedPublish_def signalQuota_def
      release_flow_def push_resp_def Let_def split: prod.splits option.splits)

lemma queue_ops_will [simp]:
  "c_will (txRun s) = c_will s" "c_will (txSignalAvailable s) = c_will s"
  "c_will (gPush p s) = c_will s" "c_will (qPush q s) = c_will s"
  "c_will (onSubscribedPublish m s) = c_will s" "c_will (signalQuota s) = c_will s"
  "c_will (release_flow i s) = c_will s" "c_will (push_resp r s) = c_will s"
  "c_quit (txRun s) = c_quit s" "c_quit (txSignalAvailable s) = c_quit s"
  "c_quit (gPush p s) = c_quit s" "c_quit (qPush q s) = c_quit s"
  "c_quit (onSubscribedPublish m s) = c_quit s" "c_quit (signalQuota s) = c_quit s"
  "c_quit (release_flow i s) = c_quit s" "c_quit (push_resp r s) = c_quit s"
  by (auto simp: txRun_def txSignalAvailable_def gPush_def qPush_def onSubscribedPublish_def signalQuota_def
      release_flow_def push_resp_def Let_def split: prod.splits option.splits)

definition same_rx :: "connection \<Rightarrow> connection \<Rightarrow> bool" where
  "same_rx s s' = (c_rxRecv s' = c_rxRecv s \<and> c_rxRemaining s' = c_rxRemaining s \<and> c_Version s' = c_Version s \<and>
     c_MaxRxPacketSize s' = c_MaxRxPacketSize s)"

text \<open>All handlers but the one of DISCONNECT also leave the will and \<open>quit\<close> alone.\<close>

definition same_conn :: "connection \<Rightarrow> connection \<Rightarrow> bool" where
  "same_conn s s' = (same_rx s s' \<and> c_will s' = c_will s \<and> c_quit s' = c_quit s)"

lemmas same_defs = same_conn_def same_rx_def

lemma queue_retained_rx: "queue_retained rps s = Some s' \<Longrightarrow> same_conn s s'"
proof (induction rps arbitrary: s)
  case (Cons m rps)
  then obtain p and err :: "go_error option"
    where "queue_retained rps (if err = None then onSubscribedPublish (Publish_SetRetain True p) s else s) = Some s'"
    by (auto simp: bind_eq_Some_conv)
  from Cons.IH [OF this] show ?case by (auto simp: same_defs split: if_splits)
qed (simp add: same_defs)

lemma publishToTopic_rx: "publishToTopic now p s = (s', calls, e) \<Longrightarrow> same_conn s s'"
  by (auto simp: publishToTopic_def postProcessPublish_def resolve_alias_def same_defs Let_def
      split: prod.splits option.splits if_splits)

lemma onPublish_rx: "onPublish now acl p s = Some (s', r) \<Longrightarrow> same_conn s s'"
  by (cases "publishToTopic now p s")
     (auto simp: onPublish_def bind_eq_Some_conv Let_def same_defs split: option.split_asm if_split_asm
       dest!: publishToTopic_rx)

lemma pubOut_release_rx: "pubOut_release p s = Some s' \<Longrightarrow> same_conn s s'"
  by (auto simp: pubOut_release_def onReleaseOut_def bind_eq_Some_conv same_defs
      split: option.split_asm if_split_asm)

lemma onReleaseIn_rx: "same_conn s (fst (onReleaseIn now p s))"
  by (cases p) (auto simp: onReleaseIn_def same_defs split: prod.splits dest: publishToTopic_rx [unfolded same_defs])

lemma pubIn_release_rx: "pubIn_release now p s = Some (s', calls) \<Longrightarrow> same_conn s s'"
  using onReleaseIn_rx
  by (fastforce simp: pubIn_release_def bind_eq_Some_conv same_defs case_prod_beta split: option.split_asm)

lemma onAck_rx: "onAck now a s = Some (s', r) \<Longrightarrow> same_conn s s'"
  by (auto simp: onAck_def bind_eq_Some_conv same_defs split: if_split_asm
      dest!: pubOut_release_rx pubIn_release_rx)

lemma onSubscribe_rx: "onSubscribe f m s st = Some (s', r) \<Longrightarrow> same_conn s s'"
  by (auto simp: onSubscribe_def bind_eq_Some_conv same_defs Let_def case_prod_beta split: option.split_asm
      dest!: queue_retained_rx)

lemma onUnSubscribe_rx: "onUnSubscribe f m s st = Some (s', r) \<Longrightarrow> same_conn s s'"
  by (auto simp: onUnSubscribe_def bind_eq_Some_conv same_defs)

lemma onDisconnectPacket_rx: "onDisconnectPacket m s = (s', r) \<Longrightarrow> same_rx s s' \<and> c_quit s' = c_quit s"
  by (auto simp: onDisconnectPacket_def same_rx_def Let_def split: option.splits prod.splits if_splits)

lemma processIncoming_conn:
  "processIncoming now acl f g p s st = Some (s', r) \<Longrightarrow> \<nexists>m. p = PDisconnect m \<Longrightarrow> same_conn s s'"
  by (cases p) (auto simp: processIncoming_def bind_eq_Some_conv same_defs split: prod.splits
      dest!: onPublish_rx onAck_rx onSubscribe_rx onUnSubscribe_rx)

lemma processIncoming_rx:
  assumes "processIncoming now acl f g p s st = Some (s', r)"
  shows "same_rx s s'" and "c_quit s' = c_quit s"
proof -
  have "same_rx s s' \<and> c_quit s' = c_quit s"
  proof (cases "\<exists>m. p = PDisconnect m")
    case True
    then show ?thesis
      using assms by (auto simp: processIncoming_def split: prod.splits dest!: onDisconnectPacket_rx)
  next
    case False
    then show ?thesis using processIncoming_conn [OF assms] by (simp add: same_conn_def)
  qed
  then show "same_rx s s'" and "c_quit s' = c_quit s" by auto
qed


section \<open>Streams of packets\<close>

text \<open>The loop of \<open>rxRoutine\<close> on a stream of well-formed packets is \<open>rx_process\<close> on the packets.\<close>

definition rx_spec ::
    "Time \<Rightarrow> (gostring \<Rightarrow> gostring \<Rightarrow> gostring \<Rightarrow> AccessType \<Rightarrow> Status) \<Rightarrow> 'st topics_Subscribe \<Rightarrow>
     'st topics_UnSubscribe \<Rightarrow> packet list \<Rightarrow> connection \<Rightarrow> 'st \<Rightarrow>
     (connection \<times> 'st \<times> messenger_call list \<times> conn_error) option" where
  "rx_spec now acl f g ps s st =
     map_option (\<lambda>(s', st', calls, e). (s', st', calls, case e of Some e' \<Rightarrow> e' | None \<Rightarrow> ConnRead))
       (rx_process now acl f g (map packet_norm ps) s st)"

definition rx_outcome :: "'st rx_result \<Rightarrow> (connection \<times> 'st \<times> messenger_call list \<times> conn_error) option" where
  "rx_outcome r = (case r of RxStopped s st rd calls e \<Rightarrow> Some (s, st, calls, e) | _ \<Rightarrow> None)"

lemma rx_outcome_calls:
  "rx_outcome (rx_calls cs r) = map_option (\<lambda>(s, st, calls, e). (s, st, cs @ calls, e)) (rx_outcome r)"
  by (cases r) (simp_all add: rx_outcome_def rx_calls_def)

lemma rx_idle: "c_rxRecv s = [] \<Longrightarrow> c_rxRemaining s = 0 \<Longrightarrow> s\<lparr>c_rxRecv := [], c_rxRemaining := 0\<rparr> = s"
  by (cases s) simp


lemma rx_loop_stream:
  assumes "\<forall>p \<in> set ps. packet_wf (c_Version s) p \<and> length (packet_bytes p) \<le> unat (c_MaxRxPacketSize s)"
    and "c_rxRecv s = []" and "c_rxRemaining s = 0"
    and "rd_content rd = concat (map packet_bytes ps)" and "length ps < n"
  shows "rx_outcome (rx_loop n now acl f g s st rd) = rx_spec now acl f g ps s st"
  using assms
proof (induction ps arbitrary: n s st rd)
  case Nil
  then obtain m where n: "n = Suc m" by (cases n) auto
  obtain rd' where "readPacket s rd = Some (s, rd', None, Some ConnRead)"
    using readPacket_empty [of s rd] Nil.prems by auto
  then show ?case by (simp add: n rx_outcome_def rx_spec_def)
next
  case (Cons p ps)
  then obtain m where n: "n = Suc m" by (cases n) auto
  obtain rd' where rp: "readPacket s rd = Some (s, rd', Some (packet_norm p), None)"
    and rest: "rd_content rd' = concat (map packet_bytes ps)"
    using readPacket_frame [of s p rd "concat (map packet_bytes ps)"] Cons.prems by (auto simp: rx_idle)
  show ?case
  proof (cases "processIncoming now acl f g (packet_norm p) s st")
    case None
    then show ?thesis using rp by (simp add: n rx_outcome_def rx_spec_def)
  next
    case (Some r)
    obtain s2 st2 calls e where r: "r = (s2, st2, calls, e)" by (cases r)
    have rx: "same_rx s s2" using Some unfolding r by (rule processIncoming_rx(1))
    show ?thesis
    proof (cases e)
      case None
      have "rx_outcome (rx_loop m now acl f g s2 st2 rd') = rx_spec now acl f g ps s2 st2"
        using Cons.prems rx rest by (intro Cons.IH) (auto simp: same_rx_def n)
      then show ?thesis
        using Some r None rp
        by (cases "rx_process now acl f g (map packet_norm ps) s2 st2")
           (auto simp: n rx_outcome_calls rx_spec_def split: prod.splits option.splits)
    next
      case (Some e')
      then show ?thesis using \<open>processIncoming now acl f g (packet_norm p) s st = Some r\<close> r rp
        by (simp add: n rx_outcome_def rx_spec_def)
    qed
  qed
qed

section \<open>The loop ends\<close>

lemma peek_header_same: "peek_header c rd = (rd', r) \<Longrightarrow> rd_content rd' = rd_content rd"
proof (induction c rd arbitrary: rd' r rule: peek_header.induct)
  case (1 c rd)
  obtain rd1 h where p: "rd_Peek c rd = (rd1, h)" by fastforce
  then have "rd_content rd1 = rd_content rd" using rd_Peek_content [of c rd] by auto
  then show ?case using "1.prems" "1.IH" p
    by (subst (asm) peek_header.simps) (auto split: if_splits option.splits)
qed

lemma start_packet_same: "start_packet s rd = (s', rd', e) \<Longrightarrow> rd_content rd' = rd_content rd"
  by (auto simp: start_packet_def Let_def split: if_splits prod.splits sum.splits dest: peek_header_same)

lemma readPacket_consumes:
  assumes "readPacket s rd = Some (s', rd', Some p, None)" and "c_rxRecv s = []"
  shows "length (rd_content rd') < length (rd_content rd) \<and> c_rxRecv s' = []"
proof -
  obtain s1 rd1 where st: "start_packet s rd = (s1, rd1, None)"
    using assms(1) by (auto simp: readPacket_def split: prod.splits option.splits)
  have c: "rd_content rd1 = rd_content rd" using start_packet_same [OF st] .
  define n where "n = c_rxRemaining s1"
  have s1: "c_rxRecv s1 = replicate (nat n) 0"
    using st assms(2) by (auto simp: start_packet_def n_def Let_def split: prod.splits sum.splits)
  obtain rd2 where rl: "read_loop (nat n) [] (rd_buf rd1) (rd_pieces rd1) =
       (take (nat n) (rd_content rd1), rd2, nat n \<le> length (rd_content rd1))"
    "rd_content rd2 = drop (nat n) (rd_content rd1)"
    using read_loop_content [of "nat n" "[]" "rd_buf rd1" "rd_pieces rd1"] unfolding rd_content_def by auto
  have dec: "fst (Decode v []) = None" for v by (simp add: Decode_def)
  have pos: "0 < n"
  proof (rule ccontr)
    assume neg: "\<not> 0 < n"
    then have "read_loop (nat n) [] (rd_buf rd1) (rd_pieces rd1) = ([], rd1, True)" by (simp add: read_loop.simps)
    then show False using assms(1) st s1 neg dec [of "c_Version s1"]
      by (auto simp: readPacket_def Let_def n_def [symmetric] split: prod.splits if_splits)
  qed
  then have "rd' = rd2 \<and> c_rxRecv s' = [] \<and> nat n \<le> length (rd_content rd1)"
    using assms(1) st s1 rl(1)
    by (auto simp: readPacket_def Let_def n_def [symmetric] split: prod.splits if_splits bool.split_asm)
  then show ?thesis using rl(2) c pos by auto
qed

lemma rx_loop_fuel:
  "c_rxRecv s = [] \<Longrightarrow> length (rd_content rd) < n \<Longrightarrow> rx_loop n now acl f g s st rd \<noteq> RxFuel"
proof (induction n arbitrary: s st rd)
  case (Suc n)
  have calls: "rx_calls cs r = RxFuel \<longleftrightarrow> r = RxFuel" for cs and r :: "'a rx_result"
    by (cases r) (simp_all add: rx_calls_def)
  show ?case
  proof (cases "\<exists>s1 rd1 p s2 st2 calls. readPacket s rd = Some (s1, rd1, Some p, None) \<and>
      processIncoming now acl f g p s1 st = Some (s2, st2, calls, None)")
    case True
    then obtain s1 rd1 p s2 st2 cs where r: "readPacket s rd = Some (s1, rd1, Some p, None)"
      "processIncoming now acl f g p s1 st = Some (s2, st2, cs, None)" by blast
    have "rx_loop n now acl f g s2 st2 rd1 \<noteq> RxFuel"
      using readPacket_consumes [OF r(1)] processIncoming_rx(1) [OF r(2)] Suc.prems
      by (intro Suc.IH) (auto simp: same_rx_def)
    then show ?thesis using r by (simp add: calls)
  next
    case False
    then show ?thesis by (auto split: option.splits prod.splits)
  qed
qed simp


section \<open>Properties\<close>

text \<open>
  C8. However the network cuts the stream of a client into pieces, the receiver hands exactly the
  packets the client encoded to the handlers, in order, until one of them reports an error
  or the stream ends; one round of the loop per packet and one for the end are enough.
\<close>

theorem rx_stream_packets:
  assumes "\<forall>p \<in> set ps. packet_wf (c_Version s) p \<and> length (packet_bytes p) \<le> unat (c_MaxRxPacketSize s)"
    and "c_rxRecv s = []" and "c_rxRemaining s = 0"
    and "concat pieces = concat (map packet_bytes ps)" and "length ps < n"
  shows "rx_outcome (rx_loop n now acl subscribe unsubscribe s st (NewReader pieces)) =
    rx_spec now acl subscribe unsubscribe ps s st"
  using assms by (intro rx_loop_stream) (simp_all add: NewReader_def rd_content_def)

definition sample_stream :: packet where
  "sample_stream = PPublish (sample_qos2\<lparr>h_version := ProtocolV311\<rparr>)"

lemma sample_stream_wf: "packet_wf ProtocolV311 sample_stream"
  by (simp add: sample_stream_def sample_qos2_def newPublish_def wf_eval Publish_wf_def Publish_QoS_def
      Publish_Dup_def Publish_size_def)

lemma sample_stream_bytes: "packet_bytes sample_stream = [0x34, 6, 0, 1, 0x61, 0, 9, 1]"
  by code_simp

theorem rx_stream_packets_witness:
  "rx_outcome (rx_loop 2 0 (\<lambda>_ _ _ _. StatusAllow) (\<lambda>_ _ _ _. None) (\<lambda>_ _ _. None) sample_conn ()
       (NewReader [[0x34], [6, 0, 1], [0x61, 0, 9, 1]])) =
   rx_spec 0 (\<lambda>_ _ _ _. StatusAllow) (\<lambda>_ _ _ _. None) (\<lambda>_ _ _. None) [sample_stream] sample_conn ()"
  by (rule rx_stream_packets) (simp_all add: sample_stream_wf sample_stream_bytes sample_conn_def)

text \<open>
  C27. The receiver never spins: on any finite stream of bytes, well formed or not, its loop ends,
  with an error that closes or suspends the connection or with a panic, after at most one round
  per byte. If the stream starts with a packet over the negotiated size, it ends in the first
  round with \<open>CodePacketTooLarge\<close>.
\<close>

theorem rx_terminates:
  assumes "c_rxRecv s = []" and "length (concat pieces) < n"
  shows "rx_loop n now acl subscribe unsubscribe s st (NewReader pieces) \<noteq> RxFuel \<and>
    (\<forall>p rest. packet_wf (c_Version s) p \<longrightarrow> unat (c_MaxRxPacketSize s) < length (packet_bytes p) \<longrightarrow>
       concat pieces = packet_bytes p @ rest \<longrightarrow>
       (\<exists>s' rd'. rx_loop (Suc k) now acl subscribe unsubscribe s st (NewReader pieces) =
          RxStopped s' st rd' [] (ConnErr (ECode CodePacketTooLarge))))"
proof (intro conjI allI impI)
  show "rx_loop n now acl subscribe unsubscribe s st (NewReader pieces) \<noteq> RxFuel"
    using assms(1,2) by (intro rx_loop_fuel) (simp_all add: NewReader_def rd_content_def)
next
  fix p rest
  assume p: "packet_wf (c_Version s) p" "unat (c_MaxRxPacketSize s) < length (packet_bytes p)"
    "concat pieces = packet_bytes p @ rest"
  have "rd_content (NewReader pieces) = packet_bytes p @ rest"
    using p(3) by (simp add: NewReader_def rd_content_def)
  from readPacket_too_large [OF p(1) assms(1) this p(2)]
  show "\<exists>s' rd'. rx_loop (Suc k) now acl subscribe unsubscribe s st (NewReader pieces) =
       RxStopped s' st rd' [] (ConnErr (ECode CodePacketTooLarge))" by auto
qed

theorem rx_terminates_witness:
  "rx_loop 3 0 (\<lambda>_ _ _ _. StatusAllow) (\<lambda>_ _ _ _. None) (\<lambda>_ _ _. None) (sample_conn\<lparr>c_MaxRxPacketSize := 4\<rparr>) ()
     (NewReader [[0xff], [0xff]]) \<noteq> RxFuel \<and>
   (\<exists>s' rd'. rx_loop 1 0 (\<lambda>_ _ _ _. StatusAllow) (\<lambda>_ _ _ _. None) (\<lambda>_ _ _. None)
       (sample_conn\<lparr>c_MaxRxPacketSize := 4\<rparr>) () (NewReader [[0x34, 6], [0, 1, 0x61, 0, 9, 1]]) =
     RxStopped s' () rd' [] (ConnErr (ECode CodePacketTooLarge)))"
proof
  let ?s = "sample_conn\<lparr>c_MaxRxPacketSize := 4\<rparr>" and ?p = "[[0x34, 6], [0, 1, 0x61, 0, 9, 1]] :: byte list list"
  show "rx_loop 3 0 (\<lambda>_ _ _ _. StatusAllow) (\<lambda>_ _ _ _. None) (\<lambda>_ _ _. None) ?s ()
      (NewReader [[0xff], [0xff]]) \<noteq> RxFuel"
    by (rule rx_terminates [THEN conjunct1]) (simp_all add: sample_conn_def)
  have r: "c_rxRecv ?s = []" "length (concat ?p) < 9" by (simp_all add: sample_conn_def)
  from rx_terminates [OF r, THEN conjunct2, THEN spec [of _ sample_stream], THEN spec [of _ "[]"], of 0]
  show "\<exists>s' rd'. rx_loop 1 0 (\<lambda>_ _ _ _. StatusAllow) (\<lambda>_ _ _ _. None) (\<lambda>_ _ _. None) ?s () (NewReader ?p) =
      RxStopped s' () rd' [] (ConnErr (ECode CodePacketTooLarge))"
    by (simp add: sample_stream_wf sample_stream_bytes sample_conn_def)
qed

end
