(* ===== verification/Conn_Lifecycle.thy ===== *)
theory Conn_Lifecycle
  imports Receiver
begin

text \<open>
  The life of a connection: \<open>New\<close>, \<open>loadPersistence\<close>, \<open>persist\<close> of \<open>src/connection/connection.go\<close>, and
  \<open>onConnectionClose\<close> of \<open>netCallbacks.go\<close>.

  The storage of \<open>github.com/VolantMQ/persistence\<close> is reached through \<open>PacketsForEach\<close>, which
  calls its argument on the stored packets in order and stops at its first error, and
  \<open>PacketsStore\<close>: the packets stored are an argument of \<open>loadPersistence\<close> (\<open>None\<close> when \<open>State\<close> is
  nil) and a result of \<open>persist\<close>. \<open>fmt_time\<close> and \<open>parse_time\<close> are \<open>Format\<close> and \<open>Parse\<close> with
  \<open>time.RFC3339\<close>.
\<close>

section \<open>Configuration\<close>

record conn_PreConfig =
  pc_Username :: gostring
  pc_AuthMethod :: gostring
  pc_AuthData :: "byte list"
  pc_MaxRxPacketSize :: uint32
  pc_MaxTxPacketSize :: uint32
  pc_SendQuota :: int32
  pc_MaxTxTopicAlias :: uint16
  pc_MaxRxTopicAlias :: uint16
  pc_KeepAlive :: uint16
  pc_Version :: ProtocolVersion
  pc_RetainAvailable :: bool
  pc_OfflineQoS0 :: bool

record conn_Config = conn_PreConfig +
  cc_ID :: gostring
  cc_Subscriber :: subscriber
  cc_ExpireIn :: "uint32 option"
  cc_KillOnDisconnect :: bool

record persisted = PersistedPacket +
  pp_UnAck :: bool

datatype conn_start_error = ErrPersistence

section \<open>Restoring\<close>

definition load_expiry :: "(gostring \<Rightarrow> Time option) \<Rightarrow> gostring \<Rightarrow> Publish \<Rightarrow> Publish" where
  "load_expiry parse_time at p =
     (if length at > 0 then (case parse_time at of Some tm \<Rightarrow> p\<lparr>expireAt := tm\<rparr> | None \<Rightarrow> p) else p)"

text \<open>The callback of \<open>PacketsForEach\<close>.\<close>

definition load_packet ::
    "(gostring \<Rightarrow> Time option) \<Rightarrow> persisted \<Rightarrow> connection \<Rightarrow> (connection \<times> conn_start_error option) option" where
  "load_packet parse_time e s =
     (case Decode (c_Version s) (pp_Data e) of
        (Some pkt, _, None) \<Rightarrow>
          if pp_UnAck e then do {
            s1 \<leftarrow> (case pkt of
                     PPublish p \<Rightarrow> do { i \<leftarrow> packet_id pkt; Some (s\<lparr>c_flow := flowReAcquire i (c_flow s)\<rparr>) }
                   | PAck a \<Rightarrow> do { i \<leftarrow> packet_id pkt; Some (s\<lparr>c_flow := flowReAcquire i (c_flow s)\<rparr>) }
                   | _ \<Rightarrow> Some s);
            Some (qLoad (QUnack pkt) s1, None) }
          else Some (case pkt of
                       PPublish p \<Rightarrow>
                         (let p' = load_expiry parse_time (pp_ExpireAt e) p in
                          if Publish_QoS p' = QoS0 then gLoad (PPublish p') s else qLoad (QPublish p') s)
                     | _ \<Rightarrow> s, None)
      | _ \<Rightarrow> Some (s, Some ErrPersistence))"

fun load_packets ::
    "(gostring \<Rightarrow> Time option) \<Rightarrow> persisted list \<Rightarrow> connection \<Rightarrow> (connection \<times> conn_start_error option) option" where
  "load_packets parse_time [] s = Some (s, None)"
| "load_packets parse_time (e # es) s = do {
     (s1, err) \<leftarrow> load_packet parse_time e s;
     (if err \<noteq> None then Some (s1, err) else load_packets parse_time es s1) }"

definition loadPersistence ::
    "(gostring \<Rightarrow> Time option) \<Rightarrow> persisted list option \<Rightarrow> connection \<Rightarrow>
     (connection \<times> conn_start_error option) option" where
  "loadPersistence parse_time state s =
     (case state of None \<Rightarrow> Some (s, None) | Some es \<Rightarrow> load_packets parse_time es s)"

section \<open>New\<close>

definition conn_init :: "conn_Config \<Rightarrow> connection" where
  "conn_init c =
     \<lparr>c_ID = cc_ID c, c_Username = pc_Username c, c_Version = pc_Version c,
      c_MaxRxPacketSize = pc_MaxRxPacketSize c, c_MaxTxPacketSize = pc_MaxTxPacketSize c,
      c_MaxTxTopicAlias = pc_MaxTxTopicAlias c, c_MaxRxTopicAlias = pc_MaxRxTopicAlias c,
      c_RetainAvailable = pc_RetainAvailable c, c_OfflineQoS0 = pc_OfflineQoS0 c,
      c_KillOnDisconnect = cc_KillOnDisconnect c, c_ExpireIn = cc_ExpireIn c, c_pubIn = [], c_pubOut = [],
      c_quit = False, c_started = False, c_txTopicAlias = [], c_rxTopicAlias = [], c_topicAliasCurrMax = 0, c_txG = [], c_txQ = [],
      c_txAvailable = False, c_txRunning = 0, c_txQuotaExceeded = False, c_retained = [],
      c_flow = \<lparr>f_inUse = [], f_counter = 0, f_quota = pc_SendQuota c\<rparr>, c_will = True, c_rxRecv = [],
      c_rxRemaining = 0, c_sub = cc_Subscriber c\<rparr>"

text \<open>One and a half times the keep-alive interval, in nanoseconds; 0 is no timer.\<close>

definition conn_keepAlive :: "uint16 \<Rightarrow> int" where
  "conn_keepAlive k =
     (if k > 0 then (let d = 1000000000 * int (unat k) in d + d div 2) else 0)"

text \<open>\<open>during\<close>: what the subscriber forwards between \<open>Online\<close> and \<open>OnlineRedirect\<close>.\<close>

definition conn_New ::
    "(gostring \<Rightarrow> Time option) \<Rightarrow> persisted list option \<Rightarrow> Publish list \<Rightarrow> conn_Config \<Rightarrow>
     (connection \<times> conn_start_error option) option" where
  "conn_New parse_time state during c = do {
     let s0 = conn_init c;
     (s1, err) \<leftarrow> loadPersistence parse_time state (s0\<lparr>c_sub := subscriber_Online (c_sub s0)\<rparr>);
     (if err \<noteq> None then Some (s1, err)
      else Some (qLoadList (map QPublish (filter (\<lambda>p. Publish_QoS p \<noteq> QoS0) during))
                   (gLoadList (map PPublish (filter (\<lambda>p. Publish_QoS p = QoS0) during)) s1), None)) }"

text \<open>\<open>Start\<close>: the transmitter; the receiver waits for the poll. \<open>c_started\<close>: the wait group \<open>started\<close> is done.\<close>

definition conn_Start :: "connection \<Rightarrow> connection" where
  "conn_Start s = (txRun s)\<lparr>c_started := True\<rparr>"

section \<open>persist\<close>

text \<open>
  \<open>persistAppend\<close>. The packet stays nil for a message that is not to be kept, and \<open>packet.Encode\<close>
  of a nil packet panics.
\<close>

definition persist_packet ::
    "(Time \<Rightarrow> gostring) \<Rightarrow> Time \<Rightarrow> bool \<Rightarrow> qitem \<Rightarrow> (packet \<times> gostring \<times> bool) option" where
  "persist_packet fmt_time now offlineQoS0 item =
     (case item of
        QPublish tp \<Rightarrow>
          if (offlineQoS0 \<or> Publish_QoS tp \<noteq> QoS0) \<and> \<not> pub_expired now tp then do {
            tp' \<leftarrow> (if Publish_QoS tp \<noteq> QoS0 then header_setPacketID 0 tp else Some tp);
            Some (PPublish tp', if expireAt tp \<noteq> 0 then fmt_time (expireAt tp) else [], False) }
          else None
      | QUnack pkt \<Rightarrow>
          Some (case pkt of
                  PPublish pb \<Rightarrow> if Publish_QoS pb = QoS1 then PPublish (Publish_SetDup True pb) else pkt
                | _ \<Rightarrow> pkt, [], True))"

definition persistAppend ::
    "(Time \<Rightarrow> gostring) \<Rightarrow> Time \<Rightarrow> bool \<Rightarrow> qitem \<Rightarrow> persisted list option" where
  "persistAppend fmt_time now offlineQoS0 item = do {
     (pkt, at, unack) \<leftarrow> persist_packet fmt_time now offlineQoS0 item;
     (pkt', buf, err) \<leftarrow> Encode pkt;
     Some (if err \<noteq> None then [] else [\<lparr>pp_Data = buf, pp_ExpireAt = at, pp_UnAck = unack\<rparr>]) }"

fun persist_all :: "(Time \<Rightarrow> gostring) \<Rightarrow> Time \<Rightarrow> bool \<Rightarrow> qitem list \<Rightarrow> persisted list option" where
  "persist_all fmt_time now o0 [] = Some []"
| "persist_all fmt_time now o0 (x # xs) = do {
     e \<leftarrow> persistAppend fmt_time now o0 x;
     es \<leftarrow> persist_all fmt_time now o0 xs;
     Some (e @ es) }"

definition g_publishes :: "packet list \<Rightarrow> qitem list" where
  "g_publishes ps = concat (map (\<lambda>p. case p of PPublish tp \<Rightarrow> [QPublish tp] | _ \<Rightarrow> []) ps)"

text \<open>The argument of \<open>PacketsStore\<close>; both queues are emptied.\<close>

definition persist :: "(Time \<Rightarrow> gostring) \<Rightarrow> Time \<Rightarrow> connection \<Rightarrow> (connection \<times> persisted list) option" where
  "persist fmt_time now s = do {
     es \<leftarrow> persist_all fmt_time now (c_OfflineQoS0 s)
            (c_txQ s @ g_publishes (c_txG s) @ map (\<lambda>(i, p). QUnack p) (c_pubOut s));
     Some (s\<lparr>c_txQ := [], c_txG := []\<rparr>, es) }"

section \<open>Closing\<close>

record DisconnectParams =
  dp_ExpireAt :: "uint32 option"
  dp_Reason :: ReasonCode
  dp_Will :: bool

record close_result =
  cr_params :: DisconnectParams
  cr_written :: "byte list"
  cr_stored :: "persisted list option"

definition txShutdown :: "connection \<Rightarrow> connection" where
  "txShutdown s = s\<lparr>c_txRunning := 2, c_txAvailable := False\<rparr>"

definition disconnect_bytes :: "ReasonCode option \<Rightarrow> connection \<Rightarrow> byte list option" where
  "disconnect_bytes err s =
     (case err of
        Some reason \<Rightarrow>
          if c_Version s \<ge> ProtocolV50 then do {
            (pkt, buf, e) \<leftarrow> Encode (PDisconnect (Disconnect_SetReasonCode reason
                                (header_init (c_Version s) DISCONNECT newDisconnect)));
            Some (if e \<noteq> None then [] else buf) }
          else Some []
      | None \<Rightarrow> Some [])"

text \<open>
  The body of \<open>onConnectionClose\<close>, which runs once. It first waits for the connection to be started:
  \<open>Block\<close> if it never is. \<open>close_err\<close> is the error of \<open>s.Conn.Close()\<close>, which overwrites \<open>err\<close> before
  the reason is read from it. The goroutines have ended when \<open>txShutdown\<close> and \<open>rxShutdown\<close> return.
\<close>

definition close_started ::
    "'st topics_UnSubscribe \<Rightarrow> (Time \<Rightarrow> gostring) \<Rightarrow> Time \<Rightarrow> go_error option \<Rightarrow> bool \<Rightarrow> ReasonCode option \<Rightarrow>
     connection \<Rightarrow> 'st \<Rightarrow> (connection \<times> 'st \<times> close_result) option" where
  "close_started unsubscribe fmt_time now close_err wl err s st = do {
     let s1 = txShutdown (s\<lparr>c_quit := True\<rparr>);
     (sub, st') \<leftarrow> subscriber_Offline unsubscribe (c_KillOnDisconnect s1) (c_sub s1) st;
     buf \<leftarrow> disconnect_bytes err s1;
     let s2 = s1\<lparr>c_sub := sub, c_retained := []\<rparr>;
     let params = \<lparr>dp_ExpireAt = c_ExpireIn s2,
                   dp_Reason = (case close_err of Some (ECode rc) \<Rightarrow> rc | _ \<Rightarrow> CodeSuccess), dp_Will = wl\<rparr>;
     (if \<not> c_KillOnDisconnect s2 then do {
        (s3, es) \<leftarrow> persist fmt_time now s2;
        Some (s3, st', \<lparr>cr_params = params, cr_written = buf, cr_stored = Some es\<rparr>) }
      else Some (s2, st', \<lparr>cr_params = params, cr_written = buf, cr_stored = None\<rparr>)) }"

definition onConnectionClose ::
    "'st topics_UnSubscribe \<Rightarrow> (Time \<Rightarrow> gostring) \<Rightarrow> Time \<Rightarrow> go_error option \<Rightarrow> bool \<Rightarrow> ReasonCode option \<Rightarrow>
     connection \<Rightarrow> 'st \<Rightarrow> (connection \<times> 'st \<times> close_result) go_run" where
  "onConnectionClose unsubscribe fmt_time now close_err wl err s st =
     (if \<not> c_started s then Block
      else go_opt (close_started unsubscribe fmt_time now close_err wl err s st))"

text \<open>The methods that call it: \<open>Stop\<close> and the keep-alive timer.\<close>

definition conn_Stop where
  "conn_Stop unsubscribe fmt_time now close_err reason s st =
     onConnectionClose unsubscribe fmt_time now close_err True (Some reason) s st"

definition keepAliveExpired where
  "keepAliveExpired unsubscribe fmt_time now close_err s st =
     onConnectionClose unsubscribe fmt_time now close_err True None s st"


section \<open>What is stored and loaded\<close>

text \<open>The expiry of a message is not part of its wire format.\<close>

lemma expireAt_flags [simp]:
  "Publish_QoS (m\<lparr>expireAt := t\<rparr>) = Publish_QoS m" "Publish_Dup (m\<lparr>expireAt := t\<rparr>) = Publish_Dup m"
  by (simp_all add: Publish_QoS_def Publish_Dup_def)

lemma Encode_expireAt:
  assumes "Encode (PPublish m) = Some (PPublish m', buf, e)"
  shows "Encode (PPublish (m\<lparr>expireAt := t\<rparr>)) = Some (PPublish (m'\<lparr>expireAt := t\<rparr>), buf, e)"
proof -
  have f: "Publish_size (m\<lparr>expireAt := t\<rparr>) = Publish_size m"
    "Publish_encodeMessage (m\<lparr>expireAt := t\<rparr>) = Publish_encodeMessage m" for m :: Publish
    by (simp_all add: Publish_size_def Publish_encodeMessage_def header_encodePacketID_def)
  have c: "m\<lparr>expireAt := t, remLen := r\<rparr> = m\<lparr>remLen := r, expireAt := t\<rparr>" for m :: Publish and r
    by simp
  show ?thesis
    using assms
    by (auto simp: Encode_def header_Size_def header_Encode_def header_setRemainingLength_def header_store_def
        header_size_def f c Let_def bind_eq_Some_conv split: if_splits prod.splits option.splits)
qed


text \<open>
  \<open>storable v\<close>: the stored form of a message is a packet of the version \<open>v\<close> the codec supports,
  unexpired, and one the configuration keeps. With \<open>v\<close> the version of the client this leaves out the
  messages of a publisher of another version, since \<open>Clone\<close> keeps the version of the message.
  \<open>restored\<close>: the message that comes back, with identifier 0 until it is sent,
  or as a message to repeat.
\<close>

definition stored_form :: "Time \<Rightarrow> bool \<Rightarrow> qitem \<Rightarrow> packet" where
  "stored_form now o0 item =
     (case item of
        QPublish tp \<Rightarrow> PPublish (tp\<lparr>packetID := (if Publish_QoS tp \<noteq> QoS0 then [0, 0] else packetID tp), expireAt := 0\<rparr>)
      | QUnack pkt \<Rightarrow>
          (case pkt of
             PPublish pb \<Rightarrow> if Publish_QoS pb = QoS1 then PPublish (Publish_SetDup True pb) else pkt
           | _ \<Rightarrow> pkt))"

definition storable :: "ProtocolVersion \<Rightarrow> Time \<Rightarrow> bool \<Rightarrow> qitem \<Rightarrow> bool" where
  "storable v now o0 item =
     (packet_wf v (stored_form now o0 item) \<and>
      (case item of
         QPublish tp \<Rightarrow> (o0 \<or> Publish_QoS tp \<noteq> QoS0) \<and> \<not> pub_expired now tp \<and> length (packetID tp) \<in> {0, 2}
       | QUnack pkt \<Rightarrow> (case pkt of PPublish p \<Rightarrow> Publish_QoS p \<noteq> QoS0 | PAck a \<Rightarrow> True | _ \<Rightarrow> False)))"

definition restored ::
    "(Time \<Rightarrow> gostring) \<Rightarrow> (gostring \<Rightarrow> Time option) \<Rightarrow> Time \<Rightarrow> bool \<Rightarrow> qitem \<Rightarrow> qitem" where
  "restored fmt_time parse_time now o0 item =
     (case packet_norm (stored_form now o0 item) of
        PPublish m \<Rightarrow>
          (case item of
             QPublish tp \<Rightarrow>
               QPublish (load_expiry parse_time (if expireAt tp \<noteq> 0 then fmt_time (expireAt tp) else []) m)
           | QUnack _ \<Rightarrow> QUnack (PPublish m))
      | pkt \<Rightarrow> QUnack pkt)"

definition load_item :: "qitem \<Rightarrow> connection \<Rightarrow> connection" where
  "load_item item s =
     (case item of
        QPublish p \<Rightarrow> if Publish_QoS p = QoS0 then gLoad (PPublish p) s else qLoad (QPublish p) s
      | QUnack pkt \<Rightarrow> qLoad (QUnack pkt) (s\<lparr>c_flow := flowReAcquire (pid pkt) (c_flow s)\<rparr>))"

lemma setPacketID_zero:
  "length (packetID h) \<in> {0, 2} \<Longrightarrow> header_setPacketID 0 h = Some (h\<lparr>packetID := [0, 0]\<rparr>)"
  by (auto simp: header_setPacketID_def alloc_packetID_def be_bytes16_def)

lemma Publish_SetDup_simps [simp]:
  "Publish_QoS (Publish_SetDup True m) = Publish_QoS m" "packetID (Publish_SetDup True m) = packetID m"
proof -
  have "(f OR 8) AND 6 = f AND 6" for f :: byte
    by (simp add: bit.conj_disj_distrib2)
  then show "Publish_QoS (Publish_SetDup True m) = Publish_QoS m"
    by (simp add: Publish_QoS_def Publish_SetDup_def)
qed (simp add: Publish_SetDup_def)

lemma persistAppend_load:
  assumes "storable v now o0 item" and "c_Version s = v"
  shows "\<exists>e. persistAppend fmt_time now o0 item = Some [e] \<and>
    load_packet parse_time e s = Some (load_item (restored fmt_time parse_time now o0 item) s, None)"
proof (cases item)
  case (QPublish tp)
  define m where "m = tp\<lparr>packetID := (if Publish_QoS tp \<noteq> QoS0 then [0, 0] else packetID tp), expireAt := 0\<rparr>"
  have wf: "packet_wf v (PPublish m)" using assms(1) by (simp add: storable_def QPublish stored_form_def m_def)
  obtain m' where n: "packet_norm (PPublish m) = PPublish m'" by (simp add: packet_norm_def)
  have pp: "persist_packet fmt_time now o0 item =
      Some (PPublish (m\<lparr>expireAt := expireAt tp\<rparr>), if expireAt tp \<noteq> 0 then fmt_time (expireAt tp) else [], False)"
    using assms(1) by (auto simp: persist_packet_def QPublish storable_def setPacketID_zero m_def)
  have "Encode (PPublish (m\<lparr>expireAt := expireAt tp\<rparr>)) =
      Some (PPublish (m'\<lparr>expireAt := expireAt tp\<rparr>), packet_bytes (PPublish m), None)"
    using Encode_bytes [OF wf] n by (intro Encode_expireAt) simp
  then show ?thesis
    using pp Decode_bytes [OF wf] n assms(2)
    by (simp add: persistAppend_def load_packet_def restored_def QPublish stored_form_def m_def [symmetric] load_item_def Let_def)
next
  case (QUnack pkt)
  let ?p = "stored_form now o0 item"
  have wf: "packet_wf v ?p" using assms(1) by (simp add: storable_def)
  have ap: "persistAppend fmt_time now o0 item =
      Some [\<lparr>pp_Data = packet_bytes ?p, pp_ExpireAt = [], pp_UnAck = True\<rparr>]"
    using Encode_bytes [OF wf] by (simp add: persistAppend_def persist_packet_def QUnack stored_form_def)
  have "length (Packet_packetID (packet_norm ?p)) = 2"
    using assms(1) wf
    by (auto simp: storable_def QUnack stored_form_def packet_norm_def Publish_wf_def Ack_wf_def
        split: packet.splits if_splits)
  then have i: "packet_id (packet_norm ?p) = Some (pid (packet_norm ?p))" by (rule packet_id_pid)
  have "(\<exists>m. packet_norm ?p = PPublish m) \<or> (\<exists>a. packet_norm ?p = PAck a)"
    using assms(1) by (auto simp: storable_def QUnack stored_form_def packet_norm_def split: packet.splits)
  then show ?thesis
    using ap Decode_bytes [OF wf] assms(2) i
    by (auto simp: load_packet_def load_item_def restored_def QUnack)
qed


lemma load_item_simps [simp]:
  "c_Version (load_item x s) = c_Version s" "c_quit (load_item x s) = c_quit s"
  "c_txQuotaExceeded (load_item x s) = c_txQuotaExceeded s" "c_sub (load_item x s) = c_sub s"
  by (auto simp: load_item_def gLoad_def qLoad_def txSignalAvailable_def split: qitem.splits)

lemma persist_load:
  assumes "\<forall>x \<in> set items. storable v now o0 x" and "c_Version s = v"
  shows "\<exists>es. persist_all fmt_time now o0 items = Some es \<and>
    load_packets parse_time es s = Some (fold load_item (map (restored fmt_time parse_time now o0) items) s, None)"
  using assms
proof (induction items arbitrary: s)
  case (Cons x xs)
  obtain e where e: "persistAppend fmt_time now o0 x = Some [e]"
    "load_packet parse_time e s = Some (load_item (restored fmt_time parse_time now o0 x) s, None)"
    using persistAppend_load [of v now o0 x s fmt_time parse_time] Cons.prems by auto
  obtain es where "persist_all fmt_time now o0 xs = Some es"
    "load_packets parse_time es (load_item (restored fmt_time parse_time now o0 x) s) =
       Some (fold load_item (map (restored fmt_time parse_time now o0) xs)
         (load_item (restored fmt_time parse_time now o0 x) s), None)"
    using Cons.IH [of "load_item (restored fmt_time parse_time now o0 x) s"] Cons.prems by auto
  then show ?case using e by simp
qed simp

text \<open>What loading does to the queues and to the flow control.\<close>

definition is_q :: "qitem \<Rightarrow> bool" where
  "is_q x = (case x of QPublish p \<Rightarrow> Publish_QoS p \<noteq> QoS0 | QUnack _ \<Rightarrow> True)"

definition unacks :: "qitem list \<Rightarrow> packet list" where
  "unacks xs = concat (map (\<lambda>x. case x of QUnack p \<Rightarrow> [p] | QPublish _ \<Rightarrow> []) xs)"

definition g_packets :: "qitem list \<Rightarrow> packet list" where
  "g_packets xs = concat (map (\<lambda>x. case x of QPublish p \<Rightarrow> if Publish_QoS p = QoS0 then [PPublish p] else [] | _ \<Rightarrow> []) xs)"

lemma load_items_effect:
  "c_txQ (fold load_item xs s) = c_txQ s @ filter is_q xs"
  "c_txG (fold load_item xs s) = c_txG s @ g_packets xs"
  "c_flow (fold load_item xs s) = fold (\<lambda>p. flowReAcquire (pid p)) (unacks xs) (c_flow s)"
  "c_txQuotaExceeded (fold load_item xs s) = c_txQuotaExceeded s" "c_quit (fold load_item xs s) = c_quit s"
  by (induction xs arbitrary: s)
     (auto simp: load_item_def gLoad_def qLoad_def txSignalAvailable_def is_q_def unacks_def g_packets_def
       split: qitem.splits)

lemma flowReAcquire_fold:
  "f_quota (fold (\<lambda>p. flowReAcquire (pid p)) ps fl) = f_quota fl - of_nat (length ps)"
  "set (f_inUse (fold (\<lambda>p. flowReAcquire (pid p)) ps fl)) = pid ` set ps \<union> set (f_inUse fl)"
  "f_counter (fold (\<lambda>p. flowReAcquire (pid p)) ps fl) = f_counter fl"
  by (induction ps arbitrary: fl) (auto simp: flowReAcquire_def algebra_simps)

definition pending_items :: "connection \<Rightarrow> qitem list" where
  "pending_items s = c_txQ s @ g_publishes (c_txG s) @ map (\<lambda>(i, p). QUnack p) (c_pubOut s)"

lemma conn_New_restores:
  assumes "\<forall>x \<in> set (pending_items s). storable (c_Version s) now (c_OfflineQoS0 s) x" and "pc_Version c = c_Version s"
    and items_def: "items = map (restored fmt_time parse_time now (c_OfflineQoS0 s)) (pending_items s)"
  shows "\<exists>es s2. persist fmt_time now s = Some (s\<lparr>c_txQ := [], c_txG := []\<rparr>, es) \<and>
    conn_New parse_time (Some es) [] c = Some (s2, None) \<and>
    c_txQ s2 = filter is_q items \<and> c_txG s2 = g_packets items \<and>
    c_flow s2 = fold (\<lambda>p. flowReAcquire (pid p)) (unacks items) (c_flow (conn_init c)) \<and>
    \<not> c_txQuotaExceeded s2 \<and> \<not> c_quit s2"
proof -
  let ?s0 = "(conn_init c)\<lparr>c_sub := subscriber_Online (c_sub (conn_init c))\<rparr>"
  have "c_Version ?s0 = c_Version s" using assms(2) by (simp add: conn_init_def)
  then obtain es where es: "persist_all fmt_time now (c_OfflineQoS0 s) (pending_items s) = Some es"
    "load_packets parse_time es ?s0 = Some (fold load_item items ?s0, None)"
    using persist_load [OF assms(1), of ?s0 fmt_time parse_time] unfolding items_def by blast
  then have "persist fmt_time now s = Some (s\<lparr>c_txQ := [], c_txG := []\<rparr>, es)"
    by (simp add: persist_def pending_items_def)
  moreover have "conn_New parse_time (Some es) [] c = Some (qLoadList [] (gLoadList [] (fold load_item items ?s0)), None)"
    using es(2) by (simp add: conn_New_def loadPersistence_def Let_def)
  ultimately show ?thesis
    by (auto simp: qLoadList_def gLoadList_def txSignalAvailable_def load_items_effect conn_init_def)
qed


section \<open>Properties\<close>

text \<open>
  C12. The messages of a persistent session survive a disconnect. If all that is queued or
  unacknowledged can be stored and is in the protocol version of the client, \<open>persist\<close> stores all of it and a new connection that loads it
  has the same messages in its queues: the queued ones first, then the unacknowledged ones, to be
  repeated under their identifiers, which are reserved and counted against the new window.
\<close>

theorem persist_restores:
  assumes "\<forall>x \<in> set (pending_items s). storable (c_Version s) now (c_OfflineQoS0 s) x" and "pc_Version c = c_Version s"
    and "items = map (restored fmt_time parse_time now (c_OfflineQoS0 s)) (pending_items s)"
  shows "\<exists>s1 es s2. persist fmt_time now s = Some (s1, es) \<and> conn_New parse_time (Some es) [] c = Some (s2, None) \<and>
    c_txQ s2 = filter is_q items \<and> c_txG s2 = g_packets items \<and>
    set (f_inUse (c_flow s2)) = pid ` set (unacks items) \<and>
    f_quota (c_flow s2) = pc_SendQuota c - of_nat (length (unacks items))"
proof -
  obtain es s2 where "persist fmt_time now s = Some (s\<lparr>c_txQ := [], c_txG := []\<rparr>, es)"
    "conn_New parse_time (Some es) [] c = Some (s2, None)"
    "c_txQ s2 = filter is_q items" "c_txG s2 = g_packets items"
    "c_flow s2 = fold (\<lambda>p. flowReAcquire (pid p)) (unacks items) (c_flow (conn_init c))"
    using conn_New_restores [OF assms] by blast
  then show ?thesis by (auto simp: flowReAcquire_fold conn_init_def)
qed

definition sample_config :: conn_Config where
  "sample_config =
     \<lparr>pc_Username = [], pc_AuthMethod = [], pc_AuthData = [], pc_MaxRxPacketSize = 1000, pc_MaxTxPacketSize = 1000,
      pc_SendQuota = 1, pc_MaxTxTopicAlias = 0, pc_MaxRxTopicAlias = 0, pc_KeepAlive = 60, pc_Version = ProtocolV311,
      pc_RetainAvailable = True, pc_OfflineQoS0 = False, cc_ID = [0x63],
      cc_Subscriber = subscriber_New 7 [0x63] False ProtocolV311, cc_ExpireIn = None, cc_KillOnDisconnect = False\<rparr>"

text \<open>A connection with one message waiting and one in flight.\<close>

definition sample_busy :: connection where
  "sample_busy = sample_conn\<lparr>
     c_txQ := [QPublish (sample_qos2\<lparr>h_version := ProtocolV311, packetID := [0, 0]\<rparr>)],
     c_pubOut := [(9, sample_stream)]\<rparr>"

lemma sample_busy_storable:
  "\<forall>x \<in> set (pending_items sample_busy). storable (c_Version sample_busy) 5 (c_OfflineQoS0 sample_busy) x"
  using sample_stream_wf
  by (simp add: pending_items_def sample_busy_def sample_conn_def g_publishes_def storable_def stored_form_def
      sample_stream_def sample_qos2_def newPublish_def pub_expired_def Publish_Expired_def
      wf_eval Publish_wf_def Publish_QoS_def Publish_Dup_def Publish_size_def)

theorem persist_restores_witness:
  "\<exists>s1 es s2. persist (\<lambda>_. []) 5 sample_busy = Some (s1, es) \<and>
     conn_New (\<lambda>_. None) (Some es) [] sample_config = Some (s2, None) \<and> length (c_txQ s2) = 2 \<and>
     f_inUse (c_flow s2) \<noteq> []"
proof -
  let ?items = "map (restored (\<lambda>_. []) (\<lambda>_. None) 5 (c_OfflineQoS0 sample_busy)) (pending_items sample_busy)"
  have i: "filter is_q ?items = ?items" "unacks ?items \<noteq> []"
    by (simp_all add: pending_items_def sample_busy_def sample_conn_def g_publishes_def restored_def stored_form_def
      packet_norm_def sample_stream_def sample_qos2_def newPublish_def Publish_QoS_def is_q_def unacks_def load_expiry_def)
  have "pc_Version sample_config = c_Version sample_busy"
    by (simp add: sample_config_def sample_busy_def sample_conn_def)
  from persist_restores [OF sample_busy_storable this refl, of "\<lambda>_. []" "\<lambda>_. None"] i
  obtain s1 es s2 where "persist (\<lambda>_. []) 5 sample_busy = Some (s1, es)"
     "conn_New (\<lambda>_. None) (Some es) [] sample_config = Some (s2, None)" "c_txQ s2 = ?items"
     "set (f_inUse (c_flow s2)) = pid ` set (unacks ?items)"
    by auto
  moreover from this(4) i(2) have "f_inUse (c_flow s2) \<noteq> []" by auto
  ultimately show ?thesis by (auto simp: pending_items_def sample_busy_def sample_conn_def g_publishes_def)
qed


lemma persist_all_panic:
  "x \<in> set items \<Longrightarrow> persistAppend fmt_time now o0 x = None \<Longrightarrow> persist_all fmt_time now o0 items = None"
  by (induction items) (auto split: Option.bind_splits)

text \<open>
  \<open>persist\<close> panics, and with it the server, when a message that is not to be kept is
  still queued: an expired one, or one with quality of service 0 unless such messages are kept.
  Its packet stays nil and is encoded all the same.
\<close>

theorem persist_panics:
  assumes "QPublish p \<in> set (c_txQ s) \<or> PPublish p \<in> set (c_txG s)"
    and "pub_expired now p \<or> Publish_QoS p = QoS0 \<and> \<not> c_OfflineQoS0 s" and "\<not> c_KillOnDisconnect s" and "c_started s"
  shows "persist fmt_time now s = None \<and>
    onConnectionClose unsubscribe fmt_time now close_err wl err s st = Panic"
proof
  have "QPublish p \<in> set (pending_items s)" using assms(1) by (force simp: pending_items_def g_publishes_def)
  moreover have none: "persistAppend fmt_time now (c_OfflineQoS0 s) (QPublish p) = None"
    using assms(2) by (auto simp: persistAppend_def persist_packet_def)
  ultimately show p: "persist fmt_time now s = None"
    by (simp add: persist_def persist_all_panic pending_items_def [symmetric])
  have "persist fmt_time now (s\<lparr>c_quit := q, c_txRunning := r, c_txAvailable := a, c_sub := b, c_retained := l\<rparr>) = None"
    for q r a b l using p by (auto simp: persist_def split: Option.bind_splits)
  then have "close_started unsubscribe fmt_time now close_err wl err s st = None"
    using assms(3) by (auto simp: close_started_def txShutdown_def Let_def split: Option.bind_splits)
  then show "onConnectionClose unsubscribe fmt_time now close_err wl err s st = Panic"
    using assms(4) by (simp add: onConnectionClose_def)
qed

theorem persist_panics_witness:
  "persist (\<lambda>_. []) 5 (sample_conn\<lparr>c_txG := [PPublish newPublish]\<rparr>) = None"
  using persist_panics [of newPublish "sample_conn\<lparr>c_txG := [PPublish newPublish]\<rparr>" 5 "\<lambda>_. []"
      "\<lambda>_ _ _. None" None False None "()"]
  by (simp add: sample_conn_def newPublish_def Publish_QoS_def)


text \<open>
  A restored connection ignores the window of the peer: \<open>loadPersistence\<close> lowers the quota
  without checking it, so after as many unacknowledged messages as the peer allows the next
  queued message is sent too, the quota is negative and \<open>txQuotaExceeded\<close> stays off.
\<close>

theorem restored_window_overrun:
  assumes "\<forall>x \<in> set (pending_items s). storable (c_Version s) now (c_OfflineQoS0 s) x" and "pc_Version c = c_Version s"
    and "c_txQ s = [QPublish p]" and "c_txG s = []" and "Publish_QoS p \<noteq> QoS0"
    and "pc_SendQuota c = of_nat (length (c_pubOut s))"
  shows "\<exists>s1 es s2 s3 pkt. persist fmt_time now s = Some (s1, es) \<and>
    conn_New parse_time (Some es) [] c = Some (s2, None) \<and> qPopPacket s2 = Some (s3, Some (PPublish pkt)) \<and>
    pub_payload pkt = pub_payload p \<and> f_quota (c_flow s3) = - 1 \<and> \<not> c_txQuotaExceeded s3"
proof -
  define R where "R = restored fmt_time parse_time now (c_OfflineQoS0 s)"
  let ?items = "map R (pending_items s)"
  obtain es s2 where r: "persist fmt_time now s = Some (s\<lparr>c_txQ := [], c_txG := []\<rparr>, es)"
    "conn_New parse_time (Some es) [] c = Some (s2, None)"
    "c_txQ s2 = filter is_q ?items" "\<not> c_txQuotaExceeded s2" "\<not> c_quit s2"
    "c_flow s2 = fold (\<lambda>p. flowReAcquire (pid p)) (unacks ?items) (c_flow (conn_init c))"
    using conn_New_restores [OF assms(1,2) refl, of fmt_time parse_time] unfolding R_def by blast
  obtain m where m: "R (QPublish p) = QPublish m" "Publish_QoS m = Publish_QoS p" "packetID m = [0, 0]"
    "pub_payload m = pub_payload p"
    using assms(5) by (auto simp: R_def restored_def stored_form_def packet_norm_def load_expiry_def Publish_QoS_def
        split: option.splits)
  have u: "unacks (map R (map (\<lambda>(i, p). QUnack p) q)) = map (\<lambda>(i, p). case R (QUnack p) of QUnack x \<Rightarrow> x) q" for q
    by (induction q) (auto simp: unacks_def R_def restored_def split: packet.splits)
  have items: "?items = QPublish m # map R (map (\<lambda>(i, p). QUnack p) (c_pubOut s))"
    using assms(3,4) m(1) by (simp add: pending_items_def g_publishes_def)
  then have q: "c_txQ s2 = QPublish m # filter is_q (map R (map (\<lambda>(i, p). QUnack p) (c_pubOut s)))"
    using r(3) m(2) assms(5) by (simp add: is_q_def)
  have "length (unacks ?items) = length (c_pubOut s)"
    unfolding items using u [of "c_pubOut s"] by (simp add: unacks_def)
  then have quota: "f_quota (c_flow s2) = 0" using r(6) assms(6) by (simp add: flowReAcquire_fold conn_init_def)
  obtain fl i where a: "flowAcquire False (c_flow s2) = (fl, i, None)" "f_quota fl = - 1"
    using quota
    by (cases "flow_search 65536 (f_counter (c_flow s2)) (f_inUse (c_flow s2))") (auto simp: flowAcquire_def Let_def)
  have pi: "header_setPacketID i m = Some (m\<lparr>packetID := be_bytes16 i\<rparr>)"
    using m(3) by (simp add: header_setPacketID_def alloc_packetID_def)
  then have "\<exists>s3. qPopPacket s2 = Some (s3, Some (PPublish (m\<lparr>packetID := be_bytes16 i\<rparr>))) \<and>
      f_quota (c_flow s3) = - 1 \<and> \<not> c_txQuotaExceeded s3"
    using q a r(4,5) by (simp add: qPopPacket_def acquire_item_def ackQueue_store_def)
  moreover have "pub_payload (m\<lparr>packetID := be_bytes16 i\<rparr>) = pub_payload p" using m(4) by simp
  ultimately show ?thesis using r(1,2) by blast
qed

theorem restored_window_overrun_witness:
  "\<exists>s1 es s2 s3 pkt. persist (\<lambda>_. []) 5 sample_busy = Some (s1, es) \<and>
    conn_New (\<lambda>_. None) (Some es) [] sample_config = Some (s2, None) \<and>
    qPopPacket s2 = Some (s3, Some (PPublish pkt)) \<and> pub_payload pkt = [1] \<and> f_quota (c_flow s3) = - 1"
  using restored_window_overrun [OF sample_busy_storable, of sample_config
      "sample_qos2\<lparr>h_version := ProtocolV311, packetID := [0, 0]\<rparr>" "\<lambda>_. []" "\<lambda>_. None"]
  by (auto simp: sample_config_def sample_busy_def sample_conn_def sample_qos2_def newPublish_def Publish_QoS_def)


text \<open>The DISCONNECT the server sends: the fixed header and the reason, without properties.\<close>

lemma disconnect_bytes_wire:
  assumes "c_Version s \<in> {ProtocolV31, ProtocolV311, ProtocolV50}"
  shows "disconnect_bytes err s = Some (case err of
     Some reason \<Rightarrow> if c_Version s < ProtocolV50 then []
                    else if reason = CodeSuccess then [0xE0, 0] else [0xE0, 1, reason]
   | None \<Rightarrow> [])"
proof (cases err)
  case (Some reason)
  have d: "header_init ProtocolV50 DISCONNECT newDisconnect =
     \<lparr>properties = \<lparr>props = Some [], plen = 0\<rparr>, packetID = [], remLen = 0, mFlags = 0, mType = DISCONNECT,
      h_version = ProtocolV50, disc_reasonCode = 0\<rparr>"
    by (simp add: header_init_def header_setType_def newDisconnect_def DefaultFlags_def typeDefaultFlags_def
        props_new_def Let_def)
  have u: "uvarint_bytes 0 = [0]" "uvarint_bytes 1 = [1]" "uvarintCalc 0 = 1" "uvarintCalc 1 = 1"
    by (simp_all add: uvarint_bytes_short uvarintCalc_short)
  show ?thesis
    using assms Some
    by (auto simp: disconnect_bytes_def Encode_def d header_Size_def header_Encode_def header_store_def
        header_setRemainingLength_def header_size_def Disconnect_size_def Disconnect_encodeMessage_def
        Disconnect_SetReasonCode_def property_FullLen_def property_Len_def maxRemainingLength_def u
        w_then_def w_put_def w_skip_def go_slice_from_def Let_def)
qed (simp add: disconnect_bytes_def)


text \<open>
  Closing the connection of a session that ends with it leaves nothing behind: the topics
  provider has no subscription of the client left, those of others are untouched and nothing is
  stored. A V5.0 client is told the reason in a DISCONNECT. The session manager is told
  \<open>CodeSuccess\<close> whatever the reason is, because the result of \<open>Conn.Close()\<close> has replaced it.
\<close>

theorem close_clean_session:
  assumes "prov_inv mT" and "tracked prov_params (c_sub s) mT" and "c_KillOnDisconnect s" and "c_started s"
    and "\<forall>rc. close_err \<noteq> Some (ECode rc)" and "c_Version s \<in> {ProtocolV31, ProtocolV311, ProtocolV50}"
  shows "\<exists>s' mT' r. onConnectionClose provider_UnSubscribe fmt_time now close_err wl err s mT = Ret (s', mT', r) \<and>
    prov_inv mT' \<and> (\<forall>g j. prov_params mT' g j = (if j = sb_hash (c_sub s) then None else prov_params mT g j)) \<and>
    c_quit s' \<and> cr_stored r = None \<and>
    cr_written r = (case err of
        Some reason \<Rightarrow> if c_Version s < ProtocolV50 then []
                       else if reason = CodeSuccess then [0xE0, 0] else [0xE0, 1, reason]
      | None \<Rightarrow> []) \<and>
    cr_params r = \<lparr>dp_ExpireAt = c_ExpireIn s, dp_Reason = CodeSuccess, dp_Will = wl\<rparr>"
proof -
  obtain sub mT' where o: "subscriber_Offline provider_UnSubscribe True (c_sub s) mT = Some (sub, mT')"
    "prov_inv mT'" "\<forall>g j. prov_params mT' g j = (if j = sb_hash (c_sub s) then None else prov_params mT g j)"
    using service.Offline_shutdown [OF assms(1,2)] by blast
  have "(case close_err of Some (ECode rc) \<Rightarrow> rc | _ \<Rightarrow> CodeSuccess) = CodeSuccess"
    using assms(5) by (auto split: option.splits go_error.splits)
  then show ?thesis
    using o assms(3,4,6) disconnect_bytes_wire [of "txShutdown (s\<lparr>c_quit := True\<rparr>)" err]
    by (cases err) (simp_all add: onConnectionClose_def close_started_def txShutdown_def Let_def)
qed

theorem close_clean_session_witness:
  "\<exists>s' mT' r. onConnectionClose provider_UnSubscribe (\<lambda>_. []) 5 None True (Some CodeServerShuttingDown)
       (sample_conn\<lparr>c_KillOnDisconnect := True, c_Version := ProtocolV50,
         c_sub := subscriber_New 3 [0x63] False ProtocolV50\<rparr>) sample_provider = Ret (s', mT', r) \<and>
     cr_written r = [0xE0, 1, CodeServerShuttingDown] \<and> dp_Reason (cr_params r) = CodeSuccess"
proof -
  let ?s = "sample_conn\<lparr>c_KillOnDisconnect := True, c_Version := ProtocolV50,
         c_sub := subscriber_New 3 [0x63] False ProtocolV50\<rparr>"
  have p: "prov_inv sample_provider" by (simp add: prov_inv_def sample_provider_def sample_tree_wf)
  have t: "tracked prov_params (c_sub ?s) sample_provider"
    by (simp add: tracked_def subscriber_New_def prov_params_def prov_lookup_def sample_provider_def
        sample_tree_def subscriptionInsert_entry subscriptionInsert_wf sample_conn_def)
  from close_clean_session [OF p t, of None "\<lambda>_. []" 5 True "Some CodeServerShuttingDown"]
  show ?thesis by (auto simp: sample_conn_def)
qed

end
