(* ===== verification/Session.thy ===== *)
theory Session
  imports Conn_Lifecycle
begin

text \<open>
  \<open>src/clients/session.go\<close>: a session, from the network connection that opens it until it expires. It
  goes offline when the connection ends (\<open>onDisconnect\<close>), publishes the will at once or when the
  will delay is over, expires, or is taken back online (\<open>setOnline\<close>).

  What the session calls (the session manager's callbacks and the topics manager) is the list of
  \<open>session_call\<close>s an operation returns, in order. The timer is \<open>se_timer\<close>: the seconds it was armed
  with, if it is running. \<open>sessionReConfig\<close> is a pointer, nil until \<open>reconfigure\<close>; \<open>None\<close> as a
  result is the panic on it. A subscriber is known by its address. \<open>se_started\<close> says whether the
  connection was started, \<open>se_locked\<close> whether \<open>idLock\<close>, the mutex of the session's entry in the table, is
  held: it is from the moment a CONNECT has found the session until \<open>start\<close>.
\<close>

section \<open>State\<close>

datatype exitReason = exitReasonClean | exitReasonShutdown | exitReasonExpired

datatype switchStatus = swStatusSwitched | swStatusIsOnline | swStatusFinalized

record sessionReConfig =
  rc_subscriber :: "uintptr option"
  rc_will :: "Publish option"
  rc_expireIn :: "uint32 option"
  rc_willDelay :: uint32
  rc_killOnDisconnect :: bool

record session =
  se_id :: gostring
  se_createdAt :: Time
  se_expiringSince :: Time
  se_cfg :: "sessionReConfig option"
  se_conn :: bool
  se_started :: bool
  se_connStop :: bool
  se_locked :: bool
  se_online :: bool
  se_timer :: "uint32 option"
  se_finalized :: bool

datatype session_call =
    SignalClose gostring exitReason
  | SignalDisconnected gostring ReasonCode bool
  | ShutdownSubscriber uintptr
  | PublishWill Publish

definition newSession :: "gostring \<Rightarrow> Time \<Rightarrow> session" where
  "newSession cid createdAt =
     \<lparr>se_id = cid, se_createdAt = createdAt, se_expiringSince = 0, se_cfg = None, se_conn = False, se_started = False, se_connStop = False,
      se_locked = False, se_online = False, se_timer = None, se_finalized = False\<rparr>"

section \<open>Operations\<close>

text \<open>\<open>will\<close> says whether the will may still be published.\<close>

definition expiry_period :: "bool \<Rightarrow> sessionReConfig \<Rightarrow> sessionReConfig \<times> uint32" where
  "expiry_period wl c =
     (let (c1, period) = (if wl \<and> rc_will c \<noteq> None \<and> rc_willDelay c > 0 then (c, rc_willDelay c)
                          else (c\<lparr>rc_will := None\<rparr>, 0)) in
      case rc_expireIn c1 of
        Some e \<Rightarrow>
          if period > 0 \<and> period < e then (c1\<lparr>rc_expireIn := Some (e - period)\<rparr>, period)
          else (c1\<lparr>rc_expireIn := Some 0\<rparr>, e)
      | None \<Rightarrow> (c1, period))"

definition runExpiry :: "Time \<Rightarrow> bool \<Rightarrow> session \<Rightarrow> session option" where
  "runExpiry now wl s = do {
     c \<leftarrow> se_cfg s;
     let (c', period) = expiry_period wl c;
     Some (s\<lparr>se_cfg := Some c', se_expiringSince := now, se_timer := Some period\<rparr>) }"

definition reconfigure :: "Time \<Rightarrow> sessionReConfig \<Rightarrow> bool \<Rightarrow> session \<Rightarrow> session option" where
  "reconfigure now c run s =
     (let s1 = s\<lparr>se_cfg := Some c, se_finalized := False\<rparr> in
      if run then runExpiry now True s1 else Some s1)"

text \<open>\<open>allocConnection\<close>: the configuration of the connection; \<open>connection.New\<close> returns an object even when it fails.\<close>

definition conn_config :: "conn_PreConfig \<Rightarrow> subscriber \<Rightarrow> sessionReConfig \<Rightarrow> session \<Rightarrow> conn_Config" where
  "conn_config pc sub c s = conn_PreConfig.extend pc (conn_Config.fields (se_id s) sub (rc_expireIn c) (rc_killOnDisconnect c))"

definition allocConnection ::
    "(gostring \<Rightarrow> Time option) \<Rightarrow> persisted list option \<Rightarrow> Publish list \<Rightarrow> conn_PreConfig \<Rightarrow> subscriber \<Rightarrow> session \<Rightarrow>
     (session \<times> connection \<times> conn_start_error option) option" where
  "allocConnection parse_time state during pc sub s = do {
     c \<leftarrow> se_cfg s;
     (conn, err) \<leftarrow> conn_New parse_time state during (conn_config pc sub c s);
     Some (s\<lparr>se_conn := True, se_started := False, se_connStop := True\<rparr>, conn, err) }"

text \<open>\<open>start\<close>: the session is online, its connection started and \<open>idLock\<close> released.\<close>

definition session_start :: "session \<Rightarrow> session" where
  "session_start s = s\<lparr>se_online := True, se_started := True, se_locked := False\<rparr>"

definition finalize :: "exitReason \<Rightarrow> session \<Rightarrow> session \<times> session_call list" where
  "finalize reason s = (s\<lparr>se_finalized := True\<rparr>, [SignalClose (se_id s) reason])"

text \<open>
  The parts of \<open>onDisconnect\<close>: what the packet says about the expiry; the will of a session that
  ends, or that has no delay; the subscriber; and the end of the session or its timer.
\<close>

definition disconnect_expiry :: "DisconnectParams \<Rightarrow> sessionReConfig \<Rightarrow> sessionReConfig" where
  "disconnect_expiry p c =
     (let c1 = (if dp_ExpireAt p \<noteq> None then c\<lparr>rc_expireIn := dp_ExpireAt p\<rparr> else c) in
      if rc_expireIn c1 = Some 0 then c1\<lparr>rc_killOnDisconnect := True\<rparr> else c1)"

definition disconnect_will :: "DisconnectParams \<Rightarrow> sessionReConfig \<Rightarrow> sessionReConfig \<times> session_call list" where
  "disconnect_will p c =
     (case rc_will c of
        Some w \<Rightarrow> if dp_Will p \<and> (rc_killOnDisconnect c \<or> rc_willDelay c = 0)
                  then (c\<lparr>rc_will := None\<rparr>, [PublishWill w]) else (c, [])
      | None \<Rightarrow> (c, []))"

definition disconnect_subscriber :: "bool \<Rightarrow> sessionReConfig \<Rightarrow> (sessionReConfig \<times> session_call list) option" where
  "disconnect_subscriber hasSubs c =
     (case rc_subscriber c of
        Some a \<Rightarrow> Some (if rc_killOnDisconnect c \<or> \<not> hasSubs
                       then (c\<lparr>rc_subscriber := None\<rparr>, [ShutdownSubscriber a]) else (c, []))
      | None \<Rightarrow> None)"

definition session_onDisconnect ::
    "Time \<Rightarrow> bool \<Rightarrow> DisconnectParams \<Rightarrow> session \<Rightarrow> (session \<times> session_call list) option" where
  "session_onDisconnect now hasSubs p s = do {
     c0 \<leftarrow> se_cfg s;
     let c1 = disconnect_expiry p c0;
     let (c2, wills) = disconnect_will p c1;
     (c3, subs) \<leftarrow> disconnect_subscriber hasSubs c2;
     let s1 = s\<lparr>se_online := False, se_conn := False, se_cfg := Some c3\<rparr>;
     let calls = wills @ [SignalDisconnected (se_id s) (dp_Reason p) (\<not> rc_killOnDisconnect c3)] @ subs;
     (if rc_killOnDisconnect c3 then
        (case finalize exitReasonClean s1 of (s2, fin) \<Rightarrow> Some (s2, calls @ fin))
      else if rc_expireIn c3 = None \<and> rc_willDelay c3 = 0 then
        (case finalize exitReasonShutdown s1 of (s2, fin) \<Rightarrow> Some (s2, calls @ fin))
      else do {
        s2 \<leftarrow> runExpiry now (dp_Will p) s1;
        Some (s2, calls) }) }"

definition timerCallback :: "session \<Rightarrow> (session \<times> session_call list) option" where
  "timerCallback s = do {
     c \<leftarrow> se_cfg s;
     let (c1, wills) = (case rc_will c of
                          Some w \<Rightarrow> (c\<lparr>rc_will := None, rc_willDelay := 0\<rparr>, [PublishWill w])
                        | None \<Rightarrow> (c, []));
     let s1 = s\<lparr>se_cfg := Some c1, se_timer := None\<rparr>;
     Some (case rc_expireIn c1 of
             None \<Rightarrow> (case finalize exitReasonShutdown s1 of (s2, fin) \<Rightarrow> (s2, wills @ fin))
           | Some e \<Rightarrow>
               if e = 0 then
                 (case finalize exitReasonExpired s1 of (s2, fin) \<Rightarrow>
                    (s2, wills @ (case rc_subscriber c1 of Some a \<Rightarrow> [ShutdownSubscriber a] | None \<Rightarrow> []) @ fin))
               else (s1\<lparr>se_cfg := Some (c1\<lparr>rc_expireIn := Some 0\<rparr>), se_timer := Some e\<rparr>, wills)) }"

text \<open>
  \<open>persistence.SessionState\<close>: what is stored about a session. \<open>stop\<close> leaves \<open>Version\<close> at its zero value.
\<close>

record SessionDelays =
  sd_Since :: gostring
  sd_WillIn :: gostring
  sd_ExpireIn :: gostring
  sd_WillData :: "byte list"

record SessionState =
  ss_Version :: ProtocolVersion
  ss_Timestamp :: gostring
  ss_Expire :: "SessionDelays option"

definition setOnline :: "session \<Rightarrow> session \<times> switchStatus" where
  "setOnline s =
     (if se_online s then (s, swStatusIsOnline)
      else (s\<lparr>se_timer := None\<rparr>, if se_finalized s then swStatusFinalized else swStatusSwitched))"

text \<open>
  \<open>stop\<close>: ends the connection, which reports through \<open>onDisconnect\<close> before it returns, ends the
  session if it has not ended, and computes the state to store. \<open>itoa\<close> is \<open>strconv.Itoa\<close>. The
  \<open>Once\<close> behind \<open>connStop\<close> is nil until the first connection: \<open>Panic\<close>. A connection that was
  never started is waited for (\<open>onConnectionClose\<close>): \<open>Block\<close>.
\<close>

definition stop_end :: "session \<times> session_call list \<Rightarrow> session \<times> session_call list" where
  "stop_end x =
     (case x of (s1, calls) \<Rightarrow>
        let s2 = s1\<lparr>se_timer := None\<rparr> in
        if \<not> se_finalized s2 then (case finalize exitReasonShutdown s2 of (s3, fin) \<Rightarrow> (s3, calls @ fin))
        else (s2, calls))"

definition stop_session ::
    "Time \<Rightarrow> (ReasonCode \<Rightarrow> DisconnectParams \<times> bool) \<Rightarrow> ReasonCode \<Rightarrow> session \<Rightarrow> (session \<times> session_call list) go_run" where
  "stop_session now stop_conn reason s =
     go_bind
       (if \<not> se_connStop s then Panic
        else if se_conn s then
          (if \<not> se_started s then Block
           else (case stop_conn reason of (p, hasSubs) \<Rightarrow> go_opt (session_onDisconnect now hasSubs p s)))
        else Ret (s, [])) (\<lambda>x. Ret (stop_end x))"

definition stored_will ::
    "(int \<Rightarrow> gostring) \<Rightarrow> uint32 \<Rightarrow> sessionReConfig \<Rightarrow> SessionDelays \<Rightarrow> (sessionReConfig \<times> SessionDelays) option" where
  "stored_will itoa elapsed c d =
     (case rc_will c of
        Some w \<Rightarrow>
          if rc_willDelay c > 0 \<and> rc_willDelay c - elapsed > 0 then do {
            let c1 = c\<lparr>rc_willDelay := rc_willDelay c - elapsed\<rparr>;
            w' \<leftarrow> header_setPacketID 0 w;
            (w'', buf, err) \<leftarrow> Encode (PPublish w');
            Some (c1, if err \<noteq> None then d
                      else d\<lparr>sd_WillIn := itoa (int (unat (rc_willDelay c1))), sd_WillData := buf\<rparr>) }
          else Some (c, d)
      | None \<Rightarrow> Some (c, d))"

definition session_state ::
    "(Time \<Rightarrow> gostring) \<Rightarrow> (int \<Rightarrow> gostring) \<Rightarrow> Time \<Rightarrow> session \<Rightarrow> (session \<times> SessionState) option" where
  "session_state fmt_time itoa now s = do {
     c \<leftarrow> se_cfg s;
     (if rc_expireIn c \<noteq> None \<or> (rc_willDelay c > 0 \<and> rc_will c \<noteq> None) then do {
        let elapsed = (of_int (time_Sub now (se_expiringSince s) sdiv 1000000000) :: uint32);
        (c1, d) \<leftarrow> stored_will itoa elapsed c
                     \<lparr>sd_Since = fmt_time (se_expiringSince s), sd_WillIn = [], sd_ExpireIn = [], sd_WillData = []\<rparr>;
        let c2 = (case rc_expireIn c1 of
                    Some e \<Rightarrow> if e > 0 \<and> e - elapsed > 0 then c1\<lparr>rc_expireIn := Some (e - elapsed)\<rparr> else c1
                  | None \<Rightarrow> c1);
        Some (s\<lparr>se_cfg := Some c2\<rparr>, \<lparr>ss_Version = 0, ss_Timestamp = fmt_time (se_createdAt s), ss_Expire = Some d\<rparr>) }
      else Some (s, \<lparr>ss_Version = 0, ss_Timestamp = fmt_time (se_createdAt s), ss_Expire = None\<rparr>)) }"


section \<open>The timeline of a session\<close>

text \<open>
  The calls of the timer, with the second they are made at; \<open>n\<close> bounds the number of times it
  fires.
\<close>

fun timeline :: "nat \<Rightarrow> nat \<Rightarrow> session \<Rightarrow> (nat \<times> session_call) list" where
  "timeline 0 t s = []"
| "timeline (Suc n) t s =
     (case se_timer s of
        None \<Rightarrow> []
      | Some d \<Rightarrow>
          (case timerCallback s of
             None \<Rightarrow> []
           | Some (s', calls) \<Rightarrow> map (\<lambda>c. (t + unat d, c)) calls @ timeline n (t + unat d) s'))"

lemma timeline_idle [simp]: "se_timer s = None \<Longrightarrow> timeline n t s = []"
  by (cases n) simp_all

definition wills_of :: "(nat \<times> session_call) list \<Rightarrow> (nat \<times> Publish) list" where
  "wills_of ev = concat (map (\<lambda>(t, c). case c of PublishWill w \<Rightarrow> [(t, w)] | _ \<Rightarrow> []) ev)"

definition closes_of :: "(nat \<times> session_call) list \<Rightarrow> (nat \<times> exitReason) list" where
  "closes_of ev = concat (map (\<lambda>(t, c). case c of SignalClose i r \<Rightarrow> [(t, r)] | _ \<Rightarrow> []) ev)"

lemma of_append [simp]:
  "wills_of (xs @ ys) = wills_of xs @ wills_of ys" "closes_of (xs @ ys) = closes_of xs @ closes_of ys"
  "wills_of [] = []" "closes_of [] = []"
  by (simp_all add: wills_of_def closes_of_def)

lemma of_Cons [simp]:
  "wills_of ((t, c) # ev) = (case c of PublishWill w \<Rightarrow> [(t, w)] | _ \<Rightarrow> []) @ wills_of ev"
  "closes_of ((t, c) # ev) = (case c of SignalClose i r \<Rightarrow> [(t, r)] | _ \<Rightarrow> []) @ closes_of ev"
  by (simp_all add: wills_of_def closes_of_def)

text \<open>
  The specification: the will, if there is one and the client did not withdraw it, is published
  once, when the session ends or after the will delay, whichever comes first; the session ends once.
\<close>

definition will_due :: "bool \<Rightarrow> sessionReConfig \<Rightarrow> (nat \<times> Publish) list" where
  "will_due wl c =
     (case rc_will c of
        Some w \<Rightarrow>
          if \<not> wl then []
          else if rc_killOnDisconnect c then [(0, w)]
          else (case rc_expireIn c of
                  None \<Rightarrow> [(unat (rc_willDelay c), w)]
                | Some e \<Rightarrow> [(min (unat (rc_willDelay c)) (unat e), w)])
      | None \<Rightarrow> [])"

definition close_due :: "bool \<Rightarrow> sessionReConfig \<Rightarrow> (nat \<times> exitReason) list" where
  "close_due wl c =
     (if rc_killOnDisconnect c then [(0, exitReasonClean)]
      else (case rc_expireIn c of
              Some e \<Rightarrow> [(unat e, exitReasonExpired)]
            | None \<Rightarrow> [(if wl \<and> rc_will c \<noteq> None then unat (rc_willDelay c) else 0, exitReasonShutdown)]))"

lemmas session_defs = session_onDisconnect_def disconnect_will_def disconnect_subscriber_def finalize_def
  runExpiry_def expiry_period_def timerCallback_def

text \<open>The end of \<open>onDisconnect\<close> for a session that goes on, and what its timer does then.\<close>

lemma offline_timeline:
  assumes "expiry_period wl c = (c', d)" and "\<not> rc_killOnDisconnect c" and "rc_expireIn c \<noteq> Some 0"
    and "wl \<longrightarrow> rc_will c \<noteq> None \<longrightarrow> rc_willDelay c > 0"
    and "se_cfg s = Some c'" and "se_timer s = Some d"
  shows "wills_of (timeline (Suc (Suc n)) 0 s) = will_due wl c \<and>
    closes_of (timeline (Suc (Suc n)) 0 s) = close_due wl c"
proof -
  have le: "unat x + unat (y - x) = unat y" if "x < y" for x y :: uint32
    using that by (simp add: unat_sub less_imp_le word_less_nat_alt)
  consider "wl \<and> rc_will c \<noteq> None" | "\<not> (wl \<and> rc_will c \<noteq> None)" by blast
  then show ?thesis
  proof cases
    case 1
    then obtain w where w: "rc_will c = Some w" by auto
    show ?thesis
    proof (cases "rc_expireIn c")
      case None
      then show ?thesis
        using 1 w assms by (auto simp: expiry_period_def timerCallback_def finalize_def will_due_def close_due_def)
    next
      case (Some e)
      show ?thesis
      proof (cases "rc_willDelay c < e")
        case True
        then have "e - rc_willDelay c \<noteq> 0" by auto
        with True show ?thesis
          using 1 w Some assms le [OF True]
          by (auto simp: expiry_period_def timerCallback_def finalize_def will_due_def close_due_def
              word_less_nat_alt Let_def split: option.splits)
      next
        case False
        then show ?thesis
          using 1 w Some assms
          by (auto simp: expiry_period_def timerCallback_def finalize_def will_due_def close_due_def
              word_less_nat_alt Let_def split: option.splits)
      qed
    qed
  next
    case 2
    then show ?thesis
      using assms
      by (auto simp: expiry_period_def timerCallback_def finalize_def will_due_def close_due_def Let_def
          split: option.splits)
  qed
qed


text \<open>What the will and the subscriber parts of \<open>onDisconnect\<close> change and call.\<close>

lemma disconnect_parts:
  assumes "disconnect_will p c = (c2, ws)" and "disconnect_subscriber hasSubs c2 = Some (c3, su)"
  shows "wills_of (map (Pair 0) su) = []" and "closes_of (map (Pair 0) su) = []" and "closes_of (map (Pair 0) ws) = []"
    and "rc_killOnDisconnect c3 = rc_killOnDisconnect c" and "rc_expireIn c3 = rc_expireIn c"
    and "rc_willDelay c3 = rc_willDelay c"
    and "rc_will c3 = (if dp_Will p \<and> (rc_killOnDisconnect c \<or> rc_willDelay c = 0) then None else rc_will c)"
    and "wills_of (map (Pair 0) ws) = (case rc_will c of
      Some x \<Rightarrow> if dp_Will p \<and> (rc_killOnDisconnect c \<or> rc_willDelay c = 0) then [(0, x)] else [] | None \<Rightarrow> [])"
  using assms by (auto simp: disconnect_will_def disconnect_subscriber_def split: option.splits if_splits)

text \<open>The session and the calls at the end of \<open>onDisconnect\<close>.\<close>

definition disconnect_end ::
    "Time \<Rightarrow> DisconnectParams \<Rightarrow> sessionReConfig \<Rightarrow> session_call list \<Rightarrow> session \<Rightarrow> session \<times> session_call list" where
  "disconnect_end now p c calls s =
     (let s1 = s\<lparr>se_online := False, se_conn := False, se_cfg := Some c\<rparr> in
      if rc_killOnDisconnect c then (s1\<lparr>se_finalized := True\<rparr>, calls @ [SignalClose (se_id s) exitReasonClean])
      else if rc_expireIn c = None \<and> rc_willDelay c = 0
      then (s1\<lparr>se_finalized := True\<rparr>, calls @ [SignalClose (se_id s) exitReasonShutdown])
      else (s1\<lparr>se_cfg := Some (fst (expiry_period (dp_Will p) c)), se_expiringSince := now,
                se_timer := Some (snd (expiry_period (dp_Will p) c))\<rparr>, calls))"

lemma onDisconnect_run:
  assumes "se_cfg s = Some c" and "disconnect_will p (disconnect_expiry p c) = (c2, ws)"
    and "disconnect_subscriber hasSubs c2 = Some (c3, su)"
  shows "session_onDisconnect now hasSubs p s = Some (disconnect_end now p c3
     (ws @ [SignalDisconnected (se_id s) (dp_Reason p) (\<not> rc_killOnDisconnect c3)] @ su) s)"
  using assms
  by (simp add: session_onDisconnect_def disconnect_end_def runExpiry_def finalize_def case_prod_beta Let_def)

lemma disconnect_end_timeline:
  assumes "disconnect_will p c = (c2, ws)" and "disconnect_subscriber hasSubs c2 = Some (c3, su)"
    and "rc_expireIn c = Some 0 \<longrightarrow> rc_killOnDisconnect c" and "se_timer s = None"
    and "disconnect_end now p c3 (ws @ [SignalDisconnected i r b] @ su) s = (s', calls)"
  shows "wills_of (map (Pair 0) calls @ timeline (Suc (Suc n)) 0 s') = will_due (dp_Will p) c"
    and "closes_of (map (Pair 0) calls @ timeline (Suc (Suc n)) 0 s') = close_due (dp_Will p) c"
proof -
  note parts = disconnect_parts [OF assms(1,2)]
  have "wills_of (map (Pair 0) calls @ timeline (Suc (Suc n)) 0 s') = will_due (dp_Will p) c \<and>
    closes_of (map (Pair 0) calls @ timeline (Suc (Suc n)) 0 s') = close_due (dp_Will p) c"
  proof (cases "rc_killOnDisconnect c \<or> rc_expireIn c = None \<and> rc_willDelay c = 0")
    case True
    then show ?thesis
      using assms(4,5) parts
      by (cases "rc_will c"; cases "rc_expireIn c") (auto simp: disconnect_end_def will_due_def close_due_def Let_def)
  next
    case False
    obtain c4 d where x: "expiry_period (dp_Will p) c3 = (c4, d)" by fastforce
    have s': "se_cfg s' = Some c4" "se_timer s' = Some d" "calls = ws @ [SignalDisconnected i r b] @ su"
      using assms(5) False parts x by (auto simp: disconnect_end_def Let_def)
    have "wills_of (timeline (Suc (Suc n)) 0 s') = will_due (dp_Will p) c3 \<and>
        closes_of (timeline (Suc (Suc n)) 0 s') = close_due (dp_Will p) c3"
      using False parts assms(3) s' by (intro offline_timeline [OF x]) (auto simp: word_gt_0)
    moreover have "wills_of (map (Pair 0) ws) @ will_due (dp_Will p) c3 = will_due (dp_Will p) c"
      "close_due (dp_Will p) c3 = close_due (dp_Will p) c"
      using False parts by (auto simp: will_due_def close_due_def split: option.splits)
    ultimately show ?thesis using parts s'(3) by (simp del: timeline.simps)
  qed
  then show "wills_of (map (Pair 0) calls @ timeline (Suc (Suc n)) 0 s') = will_due (dp_Will p) c"
    and "closes_of (map (Pair 0) calls @ timeline (Suc (Suc n)) 0 s') = close_due (dp_Will p) c" by auto
qed

lemma disconnect_timeline:
  assumes "se_cfg s = Some c" and "rc_subscriber c = Some a" and "se_timer s = None"
  shows "\<exists>s' calls. session_onDisconnect now hasSubs p s = Some (s', calls) \<and>
    wills_of (map (Pair 0) calls @ timeline (Suc (Suc n)) 0 s') = will_due (dp_Will p) (disconnect_expiry p c) \<and>
    closes_of (map (Pair 0) calls @ timeline (Suc (Suc n)) 0 s') = close_due (dp_Will p) (disconnect_expiry p c)"
proof -
  define c1 where "c1 = disconnect_expiry p c"
  have sub: "rc_subscriber c1 = Some a" using assms(2) by (auto simp: c1_def disconnect_expiry_def Let_def)
  have e0: "rc_expireIn c1 = Some 0 \<longrightarrow> rc_killOnDisconnect c1"
    by (auto simp: c1_def disconnect_expiry_def Let_def split: if_splits)
  obtain c2 ws where w: "disconnect_will p c1 = (c2, ws)" by fastforce
  have "rc_subscriber c2 = Some a" using sub w by (auto simp: disconnect_will_def split: option.splits if_splits)
  then have "disconnect_subscriber hasSubs c2 \<noteq> None" by (simp add: disconnect_subscriber_def)
  then obtain c3 su where u: "disconnect_subscriber hasSubs c2 = Some (c3, su)" by auto
  obtain s' calls where e: "disconnect_end now p c3
      (ws @ [SignalDisconnected (se_id s) (dp_Reason p) (\<not> rc_killOnDisconnect c3)] @ su) s = (s', calls)" by fastforce
  have "session_onDisconnect now hasSubs p s = Some (s', calls)"
    using onDisconnect_run [OF assms(1) w [unfolded c1_def] u, of now] unfolding e .
  with disconnect_end_timeline [OF w u e0 assms(3) e, of n] show ?thesis unfolding c1_def by blast
qed

text \<open>
  C10. When the connection of a session ends, the will is published exactly once, at the time the
  protocol asks for (at once if the session ends or there is no delay; after the delay or when
  the session expires, whichever is first), and not at all after a DISCONNECT; and the session
  is closed exactly once, at its expiry. The timer fires at most twice.
\<close>

theorem session_timeline:
  assumes "se_cfg s = Some c" and "rc_subscriber c = Some a" and "se_timer s = None"
  shows "\<exists>s' calls. session_onDisconnect now hasSubs p s = Some (s', calls) \<and>
    wills_of (map (Pair 0) calls @ timeline (Suc (Suc n)) 0 s') = will_due (dp_Will p) (disconnect_expiry p c) \<and>
    closes_of (map (Pair 0) calls @ timeline (Suc (Suc n)) 0 s') = close_due (dp_Will p) (disconnect_expiry p c)"
  by (rule disconnect_timeline [OF assms])

definition sample_session :: session where
  "sample_session = (newSession [0x63] 0)\<lparr>se_conn := True, se_online := True, se_cfg := Some
     \<lparr>rc_subscriber = Some 7, rc_will = Some newPublish, rc_expireIn = Some 30, rc_willDelay = 10,
      rc_killOnDisconnect = False\<rparr>\<rparr>"

theorem session_timeline_witness:
  "\<exists>s' calls. session_onDisconnect 0 True \<lparr>dp_ExpireAt = Some 30, dp_Reason = CodeSuccess, dp_Will = True\<rparr> sample_session =
      Some (s', calls) \<and>
    wills_of (map (Pair 0) calls @ timeline (Suc (Suc 0)) 0 s') = [(10, newPublish)] \<and>
    closes_of (map (Pair 0) calls @ timeline (Suc (Suc 0)) 0 s') = [(30, exitReasonExpired)]"
  using session_timeline [of sample_session _ 7 0 True "\<lparr>dp_ExpireAt = Some 30, dp_Reason = CodeSuccess, dp_Will = True\<rparr>" 0]
  by (simp add: sample_session_def newSession_def will_due_def close_due_def disconnect_expiry_def Let_def
      del: timeline.simps)

end
