(* ===== verification/Rx_Session.thy ===== *)
theory Rx_Session
  imports Session
begin

text \<open>
  The receiver of a connection over its whole life: \<open>rxRun\<close> of \<open>src/connection/receiver.go\<close>, which the
  event poll calls, starts \<open>rxRoutine\<close>, which reads until an error, waits for the next event or closes the
  connection (\<open>onConnectionClose\<close>). A run is a list of poll events; what the client sent, the
  DISCONNECT it may have sent and the will of its session are followed from the bytes of the events to
  the calls of the session.
\<close>

section \<open>Poll events\<close>

text \<open>
  An event: whether it reports a hang-up or an error, what the connection delivers until \<open>Read\<close> fails,
  and whether \<open>EventPoll.Resume\<close> fails then.
\<close>

record poll_event =
  ev_hup :: bool
  ev_pieces :: "byte list list"
  ev_resume_fails :: bool

record 'st rx_session =
  rs_conn :: connection
  rs_st :: 'st
  rs_running :: bool
  rs_calls :: "messenger_call list"
  rs_result :: "close_result option"

record 'st rx_env =
  en_acl :: "gostring \<Rightarrow> gostring \<Rightarrow> gostring \<Rightarrow> AccessType \<Rightarrow> Status"
  en_subscribe :: "'st topics_Subscribe"
  en_unsubscribe :: "'st topics_UnSubscribe"
  en_fmt_time :: "Time \<Rightarrow> gostring"
  en_close_err :: "go_error option"

text \<open>
  The loop of \<open>rxRoutine\<close> with a new reader. \<open>rxRunning\<close> is set to 0 at the error that ends the loop, but
  not when the goroutine returns at once because of \<open>exit\<close>. One round per byte and one for the
  end are enough (\<open>rx_loop_fuel\<close>).
\<close>

definition rx_body :: "'st rx_env \<Rightarrow> Time \<Rightarrow> poll_event \<Rightarrow> 'st rx_session \<Rightarrow>
    ('st rx_session \<times> (bool \<times> ReasonCode option) option) option" where
  "rx_body en now ev x =
     (if ev_hup ev then Some (x, rx_finish True False (rs_conn x) ConnRead)
      else (case rx_loop (Suc (length (concat (ev_pieces ev)))) now (en_acl en) (en_subscribe en) (en_unsubscribe en)
                   (rs_conn x) (rs_st x) (NewReader (ev_pieces ev)) of
              RxStopped s st rd calls e \<Rightarrow>
                Some (x\<lparr>rs_conn := s, rs_st := st, rs_running := False, rs_calls := rs_calls x @ calls\<rparr>,
                      rx_finish False (ev_resume_fails ev) s e)
            | RxPanic \<Rightarrow> None
            | RxFuel \<Rightarrow> None))"

text \<open>The deferred function: \<open>onConnectionClose\<close>, if an error is left.\<close>

definition rxRoutine :: "'st rx_env \<Rightarrow> Time \<Rightarrow> poll_event \<Rightarrow> 'st rx_session \<Rightarrow> 'st rx_session go_run" where
  "rxRoutine en now ev x =
     go_bind (go_opt (rx_body en now ev x)) (\<lambda>(x1, fin).
       case fin of
         None \<Rightarrow> Ret x1
       | Some (wl, err) \<Rightarrow>
           go_bind (onConnectionClose (en_unsubscribe en) (en_fmt_time en) now (en_close_err en) wl err (rs_conn x1) (rs_st x1))
             (\<lambda>(s, st, r). Ret (x1\<lparr>rs_conn := s, rs_st := st, rs_result := Some r\<rparr>)))"

definition rxRun :: "'st rx_env \<Rightarrow> Time \<Rightarrow> poll_event \<Rightarrow> 'st rx_session \<Rightarrow> 'st rx_session go_run" where
  "rxRun en now ev x =
     (if c_quit (rs_conn x) then Ret x
      else if rs_running x then Ret x
      else rxRoutine en now ev (x\<lparr>rs_running := True\<rparr>))"

fun rx_events :: "'st rx_env \<Rightarrow> Time \<Rightarrow> poll_event list \<Rightarrow> 'st rx_session \<Rightarrow> 'st rx_session go_run" where
  "rx_events en now [] x = Ret x"
| "rx_events en now (ev # evs) x = go_bind (rxRun en now ev x) (rx_events en now evs)"

section \<open>The will flag\<close>

definition withdraws :: "packet list \<Rightarrow> bool" where
  "withdraws ps = (\<exists>p \<in> set ps. \<exists>m. p = PDisconnect m)"

text \<open>Below version 5.0 a DISCONNECT only clears the flag; the client is expected to hang up.\<close>

lemma processIncoming_v3:
  assumes "processIncoming now acl f g p s st = Some (s', st', calls, e)" and "c_Version s < ProtocolV50"
  shows "c_will s' \<longleftrightarrow> c_will s \<and> \<not> withdraws [p]"
proof (cases "\<exists>m. p = PDisconnect m")
  case True
  moreover have "c_Version s \<noteq> ProtocolV50" using assms(2) by auto
  ultimately show ?thesis
    using assms(1) by (auto simp: processIncoming_def onDisconnectPacket_def withdraws_def Let_def)
next
  case False
  then show ?thesis using processIncoming_conn [OF assms(1)] by (simp add: same_conn_def withdraws_def)
qed

lemma rx_process_v3:
  assumes "rx_process now acl f g ps s st = Some (s', st', calls, None)" and "c_Version s < ProtocolV50"
  shows "(c_will s' \<longleftrightarrow> c_will s \<and> \<not> withdraws ps) \<and> c_quit s' = c_quit s \<and> same_rx s s'"
  using assms
proof (induction ps arbitrary: s st calls)
  case (Cons p ps)
  then obtain s1 st1 calls1 calls2 where 1: "processIncoming now acl f g p s st = Some (s1, st1, calls1, None)"
    and 2: "rx_process now acl f g ps s1 st1 = Some (s', st', calls2, None)"
    by (auto simp: bind_eq_Some_conv split: if_splits)
  note rx = processIncoming_rx [OF 1]
  have "c_Version s1 < ProtocolV50" using rx(1) Cons.prems(2) by (simp add: same_rx_def)
  from Cons.IH [OF 2 this] processIncoming_v3 [OF 1 Cons.prems(2)] rx show ?case
    by (auto simp: same_rx_def withdraws_def)
qed (simp add: withdraws_def same_rx_def)

lemma rx_process_append:
  assumes "rx_process now acl f g (ps @ qs) s st = Some (s', st', calls, None)"
  shows "\<exists>s1 st1 calls1 calls2. rx_process now acl f g ps s st = Some (s1, st1, calls1, None) \<and>
    rx_process now acl f g qs s1 st1 = Some (s', st', calls2, None) \<and> calls = calls1 @ calls2"
  using assms
proof (induction ps arbitrary: s st calls)
  case (Cons p ps)
  then obtain s1 st1 calls1 calls2 where 1: "processIncoming now acl f g p s st = Some (s1, st1, calls1, None)"
    and 2: "rx_process now acl f g (ps @ qs) s1 st1 = Some (s', st', calls2, None)" and "calls = calls1 @ calls2"
    by (auto simp: bind_eq_Some_conv split: if_splits)
  with Cons.IH [OF 2] show ?case by auto
qed simp

section \<open>Whole runs\<close>

text \<open>
  An event that brings whole packets, of which the server can take each. A packet that is spread over two events is
  not covered: the reader of an event is given up with it, and what it has buffered is lost.
\<close>

definition brings :: "connection \<Rightarrow> packet list \<Rightarrow> poll_event \<Rightarrow> bool" where
  "brings s ps ev =
     ((\<forall>p \<in> set ps. packet_wf (c_Version s) p \<and> length (packet_bytes p) \<le> unat (c_MaxRxPacketSize s)) \<and>
      concat (ev_pieces ev) = concat (map packet_bytes ps) \<and> \<not> ev_hup ev \<and> \<not> ev_resume_fails ev)"

definition rx_waiting :: "'st rx_session \<Rightarrow> bool" where
  "rx_waiting x =
     (\<not> c_quit (rs_conn x) \<and> \<not> rs_running x \<and> c_rxRecv (rs_conn x) = [] \<and> c_rxRemaining (rs_conn x) = 0)"

lemma packets_le_bytes: "length ps \<le> length (concat (map packet_bytes ps))"
proof (induction ps)
  case (Cons p ps)
  moreover have "0 < length (packet_bytes p)" by simp
  ultimately show ?case by (simp del: length_greater_0_conv)
qed simp

lemma rx_burst:
  assumes "rx_waiting x" and "brings (rs_conn x) ps ev"
    and "rx_process now (en_acl en) (en_subscribe en) (en_unsubscribe en) (map packet_norm ps) (rs_conn x) (rs_st x) =
      Some (s', st', calls, None)"
  shows "rxRun en now ev x =
    Ret (x\<lparr>rs_conn := s', rs_st := st', rs_running := False, rs_calls := rs_calls x @ calls\<rparr>)"
proof -
  note b = assms(2) [unfolded brings_def] and w = assms(1) [unfolded rx_waiting_def]
  let ?r = "rx_loop (Suc (length (concat (ev_pieces ev)))) now (en_acl en) (en_subscribe en) (en_unsubscribe en)
      (rs_conn x) (rs_st x) (NewReader (ev_pieces ev))"
  have "rx_outcome ?r = rx_spec now (en_acl en) (en_subscribe en) (en_unsubscribe en) ps (rs_conn x) (rs_st x)"
    using b w packets_le_bytes [of ps] by (intro rx_loop_stream) (simp_all add: NewReader_def rd_content_def)
  also have "\<dots> = Some (s', st', calls, ConnRead)" by (simp add: rx_spec_def assms(3))
  finally obtain rd where "?r = RxStopped s' st' rd calls ConnRead" by (cases ?r) (simp_all add: rx_outcome_def)
  then show ?thesis using b w by (simp add: rxRun_def rxRoutine_def rx_body_def rx_finish_def)
qed

lemma brings_same: "same_rx s s' \<Longrightarrow> brings s' = brings s"
  by (intro ext) (simp add: brings_def same_rx_def)

lemma rx_bursts:
  assumes "rx_waiting x" and "c_Version (rs_conn x) < ProtocolV50" and "list_all2 (brings (rs_conn x)) pss evs"
    and "rx_process now (en_acl en) (en_subscribe en) (en_unsubscribe en) (map packet_norm (concat pss))
      (rs_conn x) (rs_st x) = Some (s', st', calls, None)"
  shows "rx_events en now evs x =
    Ret (x\<lparr>rs_conn := s', rs_st := st', rs_running := False, rs_calls := rs_calls x @ calls\<rparr>)"
  using assms
proof (induction evs arbitrary: pss x calls)
  case Nil
  then show ?case by (cases x) (auto simp: rx_waiting_def)
next
  case (Cons ev evs)
  obtain ps qss where pss: "pss = ps # qss" and b: "brings (rs_conn x) ps ev" "list_all2 (brings (rs_conn x)) qss evs"
    using Cons.prems(3) by (auto simp: list_all2_Cons2)
  obtain s1 st1 calls1 calls2 where 1: "rx_process now (en_acl en) (en_subscribe en) (en_unsubscribe en)
      (map packet_norm ps) (rs_conn x) (rs_st x) = Some (s1, st1, calls1, None)"
    and 2: "rx_process now (en_acl en) (en_subscribe en) (en_unsubscribe en) (map packet_norm (concat qss)) s1 st1 =
      Some (s', st', calls2, None)" and c: "calls = calls1 @ calls2"
    using rx_process_append [OF Cons.prems(4) [unfolded pss concat.simps map_append]] by blast
  let ?x = "x\<lparr>rs_conn := s1, rs_st := st1, rs_running := False, rs_calls := rs_calls x @ calls1\<rparr>"
  have rx: "same_rx (rs_conn x) s1" "c_quit s1 = c_quit (rs_conn x)"
    using rx_process_v3 [OF 1 Cons.prems(2)] by blast+
  have "rx_events en now evs ?x =
      Ret (?x\<lparr>rs_conn := s', rs_st := st', rs_running := False, rs_calls := rs_calls ?x @ calls2\<rparr>)"
    using Cons.prems(1,2) rx b(2) 2 brings_same [OF rx(1)]
    by (intro Cons.IH [of _ qss]) (simp_all add: rx_waiting_def same_rx_def)
  then show ?case using rx_burst [OF Cons.prems(1) b(1) 1] by (simp add: c)
qed

lemma rx_events_snoc: "rx_events en now (evs @ [e]) x = go_bind (rx_events en now evs x) (rxRun en now e)"
proof (induction evs arbitrary: x)
  case Nil
  show ?case by (cases "rxRun en now e x") simp_all
next
  case (Cons e' es)
  then show ?case by (cases "rxRun en now e' x") simp_all
qed

lemma withdraws_norm [simp]: "withdraws (map packet_norm ps) = withdraws ps"
proof -
  have "(\<exists>m. packet_norm p = PDisconnect m) \<longleftrightarrow> (\<exists>m. p = PDisconnect m)" for p
    by (cases p) (simp_all add: packet_norm_def)
  then show ?thesis by (simp add: withdraws_def)
qed

lemma close_params:
  assumes "onConnectionClose unsubscribe fmt_time now close_err wl err s st = Ret (s', st', r)"
  shows "dp_Will (cr_params r) = wl" and "dp_ExpireAt (cr_params r) = c_ExpireIn s"
  using assms by (auto simp: onConnectionClose_def close_started_def txShutdown_def bind_eq_Some_conv Let_def split: if_splits)


definition sample_rx :: "unit rx_session" where
  "sample_rx = \<lparr>rs_conn = sample_conn\<lparr>c_KillOnDisconnect := True\<rparr>, rs_st = (), rs_running = False, rs_calls = [], rs_result = None\<rparr>"

definition sample_env :: "unit rx_env" where
  "sample_env = \<lparr>en_acl = \<lambda>_ _ _ _. StatusAllow, en_subscribe = \<lambda>_ _ _ _. None, en_unsubscribe = \<lambda>_ _ _. None,
     en_fmt_time = \<lambda>_. [], en_close_err = None\<rparr>"

definition sample_event :: poll_event where
  "sample_event = \<lparr>ev_hup = False, ev_pieces = [[0x34], [6, 0, 1], [0x61, 0, 9, 1]], ev_resume_fails = False\<rparr>"

text \<open>The hang-up comes with the bytes of a DISCONNECT.\<close>

definition sample_hangup :: poll_event where
  "sample_hangup = \<lparr>ev_hup = True, ev_pieces = [[0xE0, 0]], ev_resume_fails = False\<rparr>"


end
