(* ===== verification/Sessions_Manager.thy ===== *)
theory Sessions_Manager
  imports Session
begin

text \<open>
  \<open>src/clients/sessions.go\<close>: the sessions of the server. It finds or makes the session and the
  subscriber of a client that connects, negotiates the V5.0 properties, ends sessions, and
  stores and restores them when the server stops and starts.

  Sessions and subscribers are objects that several parts share: \<open>mg_heap\<close> maps the address of a
  subscriber to its state, \<open>mg_subscribers\<close> a client to the address. What the manager calls (storage,
  topics manager, systree) is the list of \<open>mgr_call\<close>s; the answers it needs from the storage
  (\<open>Exists\<close>, the stored packets) are arguments, as are the address of a new object, the
  generated client id and the clock. \<open>sessionsCount\<close> is a \<open>WaitGroup\<close>, so an integer.

  An entry of the table (\<open>sessionWrap\<close>) is a session and a mutex, \<open>se_locked\<close>. \<open>NewSession\<close> holds the mutex of
  its client id from \<open>loadSession\<close> until the session is started; a call that finds it held blocks. A
  call is one step where it is not cut: the take-over of a session is two (\<open>takeover_stop\<close> takes the old
  session from the table, \<open>store_session\<close> puts the new one there), since nothing keeps another
  CONNECT with the id out in between.
\<close>

section \<open>State\<close>

record clients_Config =
  cf_KeepAlive :: int
  cf_MaxPacketSize :: uint32
  cf_ReceiveMax :: uint16
  cf_TopicAliasMaximum :: uint16
  cf_MaximumQoS :: QosType
  cf_AvailableRetain :: bool
  cf_AvailableWildcardSubscription :: bool
  cf_AvailableSubscriptionID :: bool
  cf_AvailableSharedSubscription :: bool
  cf_OfflineQoS0 :: bool
  cf_AllowReplace :: bool

record manager =
  mg_cfg :: clients_Config
  mg_quit :: bool
  mg_sessions :: "(gostring \<times> session) list"
  mg_count :: int
  mg_subscribers :: "(gostring \<times> uintptr) list"
  mg_heap :: "(uintptr \<times> subscriber) list"

datatype mgr_call =
    CallPublish Publish
  | StoreDelete gostring
  | StorePacket gostring persisted
  | StoreSubscriptions gostring "byte list"
  | StoreState gostring SessionState
  | SubscriptionsDelete gostring
  | PublishDelayed "Publish option"
  | SysConnected gostring
  | SysDisconnected gostring ReasonCode bool
  | SysCreated gostring
  | SysRemoved gostring exitReason
  | ReplaceAttempt gostring bool

section \<open>Callbacks of the sessions\<close>

definition onSessionClose :: "gostring \<Rightarrow> exitReason \<Rightarrow> manager \<Rightarrow> manager \<times> mgr_call list" where
  "onSessionClose cid reason m =
     (m\<lparr>mg_sessions := AList.delete cid (mg_sessions m), mg_count := mg_count m - 1\<rparr>,
      if reason = exitReasonClean \<or> reason = exitReasonExpired then [StoreDelete cid, SysRemoved cid reason] else [])"

definition onSubscriberShutdown ::
    "'st topics_UnSubscribe \<Rightarrow> uintptr \<Rightarrow> manager \<Rightarrow> 'st \<Rightarrow> (manager \<times> 'st) option" where
  "onSubscriberShutdown unsubscribe a m st = do {
     sub \<leftarrow> map_of (mg_heap m) a;
     (sub', st') \<leftarrow> subscriber_Offline unsubscribe True sub st;
     Some (m\<lparr>mg_heap := AList.update a sub' (mg_heap m),
             mg_subscribers := AList.delete (sb_id sub) (mg_subscribers m)\<rparr>, st') }"

fun run_calls ::
    "'st topics_UnSubscribe \<Rightarrow> session_call list \<Rightarrow> manager \<Rightarrow> 'st \<Rightarrow> (manager \<times> 'st \<times> mgr_call list) option" where
  "run_calls unsubscribe [] m st = Some (m, st, [])"
| "run_calls unsubscribe (c # cs) m st = do {
     (m1, st1, out) \<leftarrow>
       (case c of
          SignalClose i r \<Rightarrow> (case onSessionClose i r m of (m', o') \<Rightarrow> Some (m', st, o'))
        | SignalDisconnected i r retain \<Rightarrow> Some (m, st, [SysDisconnected i r retain])
        | ShutdownSubscriber a \<Rightarrow>
            (case onSubscriberShutdown unsubscribe a m st of Some (m', st') \<Rightarrow> Some (m', st', []) | None \<Rightarrow> None)
        | PublishWill w \<Rightarrow> Some (m, st, [CallPublish w]));
     (m2, st2, out') \<leftarrow> run_calls unsubscribe cs m1 st1;
     Some (m2, st2, out @ out') }"

text \<open>A session object has changed: its entry in the map is the same object.\<close>

definition set_session :: "session \<Rightarrow> manager \<Rightarrow> manager" where
  "set_session s m =
     (if map_of (mg_sessions m) (se_id s) = None then m
      else m\<lparr>mg_sessions := AList.update (se_id s) s (mg_sessions m)\<rparr>)"

text \<open>The connection of a client has ended, with its subscriber in state \<open>sub\<close>; its timer has fired.\<close>

definition conn_ended ::
    "'st topics_UnSubscribe \<Rightarrow> Time \<Rightarrow> gostring \<Rightarrow> DisconnectParams \<Rightarrow> subscriber \<Rightarrow> manager \<Rightarrow> 'st \<Rightarrow>
     (manager \<times> 'st \<times> mgr_call list) option" where
  "conn_ended unsubscribe now cid p sub m st = do {
     s \<leftarrow> map_of (mg_sessions m) cid;
     (s', calls) \<leftarrow> session_onDisconnect now (HasSubscriptions sub) p s;
     run_calls unsubscribe calls
       (set_session s' (m\<lparr>mg_heap := AList.update (sb_hash sub) sub (mg_heap m)\<rparr>)) st }"

definition timer_fired ::
    "'st topics_UnSubscribe \<Rightarrow> gostring \<Rightarrow> manager \<Rightarrow> 'st \<Rightarrow> (manager \<times> 'st \<times> mgr_call list) option" where
  "timer_fired unsubscribe cid m st = do {
     s \<leftarrow> map_of (mg_sessions m) cid;
     (s', calls) \<leftarrow> timerCallback s;
     run_calls unsubscribe calls (set_session s' m) st }"

section \<open>Finding the session\<close>

definition checkServerStatus :: "ProtocolVersion \<Rightarrow> ConnAck \<Rightarrow> manager \<Rightarrow> ConnAck" where
  "checkServerStatus v resp m =
     (if mg_quit m
      then fst (ConnAck_SetReturnCode
             (if v = ProtocolV50 then CodeServerShuttingDown else CodeRefusedServerUnavailable) resp)
      else resp)"

definition store_session :: "gostring \<Rightarrow> session \<Rightarrow> manager \<Rightarrow> manager" where
  "store_session cid s m =
     m\<lparr>mg_sessions := AList.update cid s (mg_sessions m), mg_count := mg_count m + 1\<rparr>"

definition allocSession :: "gostring \<Rightarrow> Time \<Rightarrow> session" where
  "allocSession cid createdAt = (newSession cid createdAt)\<lparr>se_locked := True\<rparr>"

text \<open>
  The first half of a take-over: the old session is stopped, which takes it from the table.
  \<open>stop_conn\<close> is what its connection reports when it is stopped.
\<close>

definition takeover_stop ::
    "'st topics_UnSubscribe \<Rightarrow> Time \<Rightarrow> (ReasonCode \<Rightarrow> DisconnectParams \<times> bool) \<Rightarrow> session \<Rightarrow> manager \<Rightarrow> 'st \<Rightarrow>
     (manager \<times> 'st \<times> mgr_call list) go_run" where
  "takeover_stop unsubscribe now stop_conn old m st =
     go_bind (stop_session now stop_conn CodeSessionTakenOver old) (\<lambda>(s1, calls).
       go_opt (run_calls unsubscribe calls (set_session s1 m) st))"

text \<open>
  \<open>loadSession\<close>: the result is the session that is now in the map under \<open>cid\<close>, with its mutex held, or the
  code of the refusal. It blocks while the mutex of the id is held.
\<close>

definition loadSession ::
    "'st topics_UnSubscribe \<Rightarrow> Time \<Rightarrow> (ReasonCode \<Rightarrow> DisconnectParams \<times> bool) \<Rightarrow> gostring \<Rightarrow> ProtocolVersion \<Rightarrow>
     manager \<Rightarrow> 'st \<Rightarrow> (manager \<times> 'st \<times> mgr_call list \<times> (ReasonCode + session)) go_run" where
  "loadSession unsubscribe now stop_conn cid v m st =
     (let new = allocSession cid now in
      case map_of (mg_sessions m) cid of
        None \<Rightarrow> Ret (store_session cid new m, st, [], Inr new)
      | Some old0 \<Rightarrow>
          if se_locked old0 then Block
          else (case setOnline old0 of
             (old, swStatusIsOnline) \<Rightarrow>
               if \<not> cf_AllowReplace (mg_cfg m)
               then Ret (m, st, [ReplaceAttempt cid False],
                      Inl (if v \<ge> ProtocolV50 then CodeInvalidClientID else CodeRefusedIdentifierRejected))
               else go_bind (takeover_stop unsubscribe now stop_conn old m st) (\<lambda>(m1, st1, out).
                      Ret (store_session cid new m1, st1, ReplaceAttempt cid True # out, Inr new))
           | (old, swStatusSwitched) \<Rightarrow>
               Ret (set_session (old\<lparr>se_locked := True\<rparr>) m, st, [], Inr (old\<lparr>se_locked := True\<rparr>))
           | (old, swStatusFinalized) \<Rightarrow> Ret (store_session cid new m, st, [], Inr new)))"

definition getSubscriber ::
    "'st topics_UnSubscribe \<Rightarrow> bool \<Rightarrow> uintptr \<Rightarrow> gostring \<Rightarrow> bool \<Rightarrow> ProtocolVersion \<Rightarrow> manager \<Rightarrow> 'st \<Rightarrow>
     (manager \<times> 'st \<times> mgr_call list \<times> uintptr \<times> bool) option" where
  "getSubscriber unsubscribe ex fresh cid clean v m st = do {
     (m1, st1, out) \<leftarrow>
       (if clean then
          (case map_of (mg_subscribers m) cid of
             Some a \<Rightarrow> do {
               sub \<leftarrow> map_of (mg_heap m) a;
               (sub', st') \<leftarrow> subscriber_Offline unsubscribe True sub st;
               Some (m\<lparr>mg_heap := AList.update a sub' (mg_heap m),
                       mg_subscribers := AList.delete cid (mg_subscribers m)\<rparr>, st', [StoreDelete cid]) }
           | None \<Rightarrow> Some (m, st, [StoreDelete cid]))
        else Some (m, st, []));
     Some (case map_of (mg_subscribers m1) cid of
             None \<Rightarrow>
               (m1\<lparr>mg_heap := AList.update fresh (subscriber_New fresh cid (cf_OfflineQoS0 (mg_cfg m)) v) (mg_heap m1),
                   mg_subscribers := AList.update cid fresh (mg_subscribers m1)\<rparr>, st1, out, fresh, ex)
           | Some a \<Rightarrow> (m1, st1, out, a, True)) }"

section \<open>Configuration of a session\<close>

definition getWill :: "Connect \<Rightarrow> Publish option" where
  "getWill pkt =
     (case Connect_Will pkt of (t, payload, qos, retain, wl) \<Rightarrow>
        if wl then Some (fst (Publish_Set t payload qos retain False (New_Publish (h_version pkt)))) else None)"

abbreviation (input) DefaultMaxPacketSize :: uint32 where "DefaultMaxPacketSize \<equiv> 268435455"
abbreviation (input) DefaultReceiveMax :: uint16 where "DefaultReceiveMax \<equiv> 65535"

definition newConnectionPreConfig :: "Connect \<Rightarrow> manager \<Rightarrow> conn_PreConfig" where
  "newConnectionPreConfig req m =
     \<lparr>pc_Username = username req, pc_AuthMethod = [], pc_AuthData = [], pc_MaxRxPacketSize = cf_MaxPacketSize (mg_cfg m),
      pc_MaxTxPacketSize = DefaultMaxPacketSize, pc_SendQuota = 65535, pc_MaxTxTopicAlias = 0,
      pc_MaxRxTopicAlias = cf_TopicAliasMaximum (mg_cfg m), pc_KeepAlive = keepAlive req,
      pc_Version = h_version req, pc_RetainAvailable = cf_AvailableRetain (mg_cfg m),
      pc_OfflineQoS0 = cf_OfflineQoS0 (mg_cfg m)\<rparr>"

text \<open>A property that is present and has the expected type.\<close>

definition int_property :: "Connect \<Rightarrow> PropertyID \<Rightarrow> uint32 option" where
  "int_property req i =
     (case header_PropertyGet req i of
        Some prop \<Rightarrow> (case AsInt prop of (v, None) \<Rightarrow> Some v | _ \<Rightarrow> None) | None \<Rightarrow> None)"

definition short_property :: "Connect \<Rightarrow> PropertyID \<Rightarrow> uint16 option" where
  "short_property req i =
     (case header_PropertyGet req i of
        Some prop \<Rightarrow> (case AsShort prop of (v, None) \<Rightarrow> Some v | _ \<Rightarrow> None) | None \<Rightarrow> None)"

definition upd_opt :: "('v \<Rightarrow> 'c \<Rightarrow> 'c) \<Rightarrow> 'v option \<Rightarrow> 'c \<Rightarrow> 'c" where
  "upd_opt f v c = (case v of Some x \<Rightarrow> f x c | None \<Rightarrow> c)"

definition readSessionProperties ::
    "Connect \<Rightarrow> sessionReConfig \<Rightarrow> conn_PreConfig \<Rightarrow> sessionReConfig \<times> conn_PreConfig \<times> ReasonCode option" where
  "readSessionProperties req sc cc =
     (let sc1 = upd_opt (\<lambda>v c. c\<lparr>rc_expireIn := Some v\<rparr>) (int_property req PropertySessionExpiryInterval) sc;
          sc2 = upd_opt (\<lambda>v c. c\<lparr>rc_willDelay := v\<rparr>) (int_property req PropertyWillDelayInterval) sc1;
          cc1 = upd_opt (\<lambda>v c. c\<lparr>pc_SendQuota := ucast v\<rparr>) (short_property req PropertyReceiveMaximum) cc;
          cc2 = upd_opt (\<lambda>v c. c\<lparr>pc_MaxTxPacketSize := v\<rparr>) (int_property req PropertyMaximumPacketSize) cc1;
          cc3 = upd_opt (\<lambda>v c. c\<lparr>pc_MaxTxTopicAlias := v\<rparr>) (short_property req PropertyTopicAliasMaximum) cc2;
          cc4 = (case header_PropertyGet req PropertyAuthMethod of
                   Some prop \<Rightarrow> (case AsString prop of (v, None) \<Rightarrow> cc3\<lparr>pc_AuthMethod := v\<rparr> | _ \<Rightarrow> cc3)
                 | None \<Rightarrow> cc3)
      in (case header_PropertyGet req PropertyAuthData of
            Some prop \<Rightarrow>
              if length (pc_AuthMethod cc4) = 0 then (sc2, cc4, Some CodeProtocolError)
              else (sc2, (case AsBinary prop of (v, None) \<Rightarrow> cc4\<lparr>pc_AuthData := v\<rparr> | _ \<Rightarrow> cc4), None)
          | None \<Rightarrow> (sc2, cc4, None)))"

definition boolToByte :: "bool \<Rightarrow> byte" where
  "boolToByte v = (if v then 1 else 0)"

text \<open>\<open>PropertySet\<close> with its error dropped.\<close>

definition set_prop :: "PropertyID \<Rightarrow> prop_val \<Rightarrow> ConnAck \<Rightarrow> ConnAck option" where
  "set_prop i v resp = map_option fst (header_PropertySet resp i v)"

definition writeSessionProperties :: "clients_Config \<Rightarrow> ConnAck \<Rightarrow> gostring \<Rightarrow> ConnAck option" where
  "writeSessionProperties cf resp ids = do {
     r1 \<leftarrow> (if cf_ReceiveMax cf < DefaultReceiveMax
            then set_prop PropertyReceiveMaximum (VShort (cf_ReceiveMax cf)) resp else Some resp);
     r2 \<leftarrow> (if cf_MaximumQoS cf < QoS2 then set_prop PropertyMaximumQoS (VByte (cf_MaximumQoS cf)) r1 else Some r1);
     r3 \<leftarrow> set_prop PropertyRetainAvailable (VByte (boolToByte (cf_AvailableRetain cf))) r2;
     r4 \<leftarrow> (if cf_MaxPacketSize cf < DefaultMaxPacketSize
            then set_prop PropertyMaximumPacketSize (VInt (cf_MaxPacketSize cf)) r3 else Some r3);
     r5 \<leftarrow> (if length ids > 0 then set_prop PropertyAssignedClientIdentifier (VString ids) r4 else Some r4);
     r6 \<leftarrow> (if cf_TopicAliasMaximum cf > 0
            then set_prop PropertyTopicAliasMaximum (VShort (cf_TopicAliasMaximum cf)) r5 else Some r5);
     r7 \<leftarrow> set_prop PropertyWildcardSubscriptionAvailable
            (VByte (boolToByte (cf_AvailableWildcardSubscription cf))) r6;
     r8 \<leftarrow> set_prop PropertySubscriptionIdentifierAvailable (VByte (boolToByte (cf_AvailableSubscriptionID cf))) r7;
     set_prop PropertySharedSubscriptionAvailable (VByte (boolToByte (cf_AvailableSharedSubscription cf))) r8 }"


definition kill_rule :: "Connect \<Rightarrow> sessionReConfig \<Rightarrow> sessionReConfig" where
  "kill_rule req sc =
     (if (h_version req \<le> ProtocolV311 \<and> Connect_IsClean req) \<or> rc_expireIn sc = Some 0
      then sc\<lparr>rc_killOnDisconnect := True\<rparr> else sc)"

text \<open>
  The negotiation of \<open>configureSession\<close>: the two configurations and the CONNACK, or the error that
  refuses the client. The server keep alive is a Go \<open>int\<close>.
\<close>

definition negotiate ::
    "Connect \<Rightarrow> ConnAck \<Rightarrow> gostring \<Rightarrow> uintptr \<Rightarrow> manager \<Rightarrow>
     (ConnAck \<times> (go_error + sessionReConfig \<times> conn_PreConfig)) option" where
  "negotiate req resp ids a m =
     (let sc = \<lparr>rc_subscriber = Some a, rc_will = getWill req, rc_expireIn = None, rc_willDelay = 0,
                rc_killOnDisconnect = False\<rparr>;
          cc = newConnectionPreConfig req m in
      if h_version req \<ge> ProtocolV50 then
        (case readSessionProperties req sc cc of
           (sc1, cc1, Some e) \<Rightarrow> Some (resp, Inl (ECode e))
         | (sc1, cc1, None) \<Rightarrow> do {
             r1 \<leftarrow> writeSessionProperties (mg_cfg m) resp ids;
             (r2, err) \<leftarrow> header_PropertySet r1 PropertyServerKeepAlive (VGoInt (cf_KeepAlive (mg_cfg m)));
             Some (r2, case err of Some e \<Rightarrow> Inl e | None \<Rightarrow> Inr (kill_rule req sc1, cc1)) })
      else Some (resp, Inr (kill_rule req sc, cc)))"

text \<open>
  \<open>configureSession\<close>. The error of \<open>allocConnection\<close> is not returned. \<open>stored\<close> are the packets stored
  for the client and \<open>during\<close> what is published to it meanwhile.
\<close>

definition configureSession ::
    "'st topics_UnSubscribe \<Rightarrow> (gostring \<Rightarrow> Time option) \<Rightarrow> Time \<Rightarrow> bool \<Rightarrow> persisted list option \<Rightarrow> Publish list \<Rightarrow> uintptr \<Rightarrow>
     Connect \<Rightarrow> ConnAck \<Rightarrow> session \<Rightarrow> gostring \<Rightarrow> bool \<Rightarrow> manager \<Rightarrow> 'st \<Rightarrow>
     (manager \<times> 'st \<times> mgr_call list \<times> ConnAck \<times> (go_error + session \<times> connection)) option" where
  "configureSession unsubscribe parse_time now ex stored during fresh req resp ses cid idGenerated m st = do {
     (m1, st1, out, a, present) \<leftarrow> getSubscriber unsubscribe ex fresh cid (Connect_IsClean req) (h_version req) m st;
     (resp1, r) \<leftarrow> negotiate req resp (if idGenerated then cid else []) a m1;
     (case r of
        Inl e \<Rightarrow> Some (m1, st1, out, resp1, Inl e)
      | Inr (sc, cc) \<Rightarrow> do {
          ses1 \<leftarrow> reconfigure now sc False ses;
          sub \<leftarrow> map_of (mg_heap m1) a;
          (ses2, conn, err) \<leftarrow> allocConnection parse_time stored during cc sub ses1;
          let m2 = set_session ses2 (m1\<lparr>mg_heap := AList.update a (c_sub conn) (mg_heap m1)\<rparr>);
          Some (m2, st1, out @ (if err = None \<and> \<not> Connect_IsClean req then [StoreDelete cid] else []),
                ConnAck_SetSessionPresent present resp1, Inr (ses2, conn)) }) }"

text \<open>
  The deferred function of \<open>NewSession\<close>: the CONNACK is written (\<open>wr\<close>: whether that succeeds), and
  a session that was found is started, which releases its mutex. After a failed write it is not:
  the session stays in the table, its connection not started and its mutex held. \<open>start\<close> calls a
  method of its connection, which is nil when \<open>configureSession\<close> failed.
\<close>

datatype connect_result = Started session connection | Refused | Unwritten

definition finish_connect ::
    "bool \<Rightarrow> ProtocolVersion \<Rightarrow> ConnAck \<Rightarrow> bool \<Rightarrow> (session \<times> connection option) option \<Rightarrow>
     (ConnAck \<times> connect_result) option" where
  "finish_connect wr v resp failed ses =
     (let resp1 = (if failed then fst (ConnAck_SetReturnCode
                     (if v = ProtocolV50 then CodeUnspecifiedError else CodeRefusedServerUnavailable) resp) else resp)
      in if \<not> wr then Some (resp1, Unwritten)
         else (case ses of
                 None \<Rightarrow> Some (resp1, Refused)
               | Some (s, Some conn) \<Rightarrow> Some (resp1, Started (session_start s) (conn_Start conn))
               | Some (s, None) \<Rightarrow> None))"

text \<open>What follows \<open>loadSession\<close>, whose result is \<open>l\<close>.\<close>

definition connect_session ::
    "'st topics_UnSubscribe \<Rightarrow> (gostring \<Rightarrow> Time option) \<Rightarrow> Time \<Rightarrow> bool \<Rightarrow> persisted list option \<Rightarrow> Publish list \<Rightarrow> uintptr \<Rightarrow>
     bool \<Rightarrow> Connect \<Rightarrow> ConnAck \<Rightarrow> gostring \<Rightarrow> bool \<Rightarrow> manager \<times> 'st \<times> mgr_call list \<times> (ReasonCode + session) \<Rightarrow>
     (manager \<times> 'st \<times> mgr_call list \<times> ConnAck \<times> connect_result) option" where
  "connect_session unsubscribe parse_time now ex stored during fresh wr req resp cid idGenerated l =
     (case l of (m1, st1, out1, r) \<Rightarrow>
      (case r of
        Inl e \<Rightarrow> do {
          (r', res) \<leftarrow> finish_connect wr (h_version req) resp True None;
          Some (m1, st1, out1, r', res) }
      | Inr ses \<Rightarrow> do {
          (m2, st2, out2, resp1, c) \<leftarrow>
            configureSession unsubscribe parse_time now ex stored during fresh req resp ses cid idGenerated m1 st1;
          (case c of
             Inl e \<Rightarrow> do {
               (r', res) \<leftarrow> finish_connect wr (h_version req) resp1 True (Some (ses, None));
               Some (m2\<lparr>mg_sessions := AList.delete cid (mg_sessions m2), mg_count := mg_count m2 - 1\<rparr>,
                     st2, out1 @ out2, r', res) }
           | Inr (ses', conn) \<Rightarrow> do {
               (r', res) \<leftarrow> finish_connect wr (h_version req) resp1 False (Some (ses', Some conn));
               Some (case res of
                       Started s _ \<Rightarrow> (set_session s m2, st2, out1 @ out2 @ [SysConnected cid], r', res)
                     | _ \<Rightarrow> (m2, st2, out1 @ out2, r', res)) }) }))"

definition open_session ::
    "'st topics_UnSubscribe \<Rightarrow> (gostring \<Rightarrow> Time option) \<Rightarrow> Time \<Rightarrow> (ReasonCode \<Rightarrow> DisconnectParams \<times> bool) \<Rightarrow>
     bool \<Rightarrow> persisted list option \<Rightarrow> Publish list \<Rightarrow> uintptr \<Rightarrow> bool \<Rightarrow> Connect \<Rightarrow> ConnAck \<Rightarrow> gostring \<Rightarrow> bool \<Rightarrow> manager \<Rightarrow> 'st \<Rightarrow>
     (manager \<times> 'st \<times> mgr_call list \<times> ConnAck \<times> connect_result) go_run" where
  "open_session unsubscribe parse_time now stop_conn ex stored during fresh wr req resp cid idGenerated m st =
     go_bind (loadSession unsubscribe now stop_conn cid (h_version req) m st) (\<lambda>l.
       go_opt (connect_session unsubscribe parse_time now ex stored during fresh wr req resp cid idGenerated l))"

text \<open>The client id: the one of the CONNECT, or \<open>gen\<close>, a generated one.\<close>

definition connect_id :: "gostring \<Rightarrow> Connect \<Rightarrow> gostring" where
  "connect_id gen req = (if length (clientID req) = 0 then gen else clientID req)"

definition NewSession ::
    "'st topics_UnSubscribe \<Rightarrow> (gostring \<Rightarrow> Time option) \<Rightarrow> Time \<Rightarrow> (ReasonCode \<Rightarrow> DisconnectParams \<times> bool) \<Rightarrow> gostring \<Rightarrow>
     bool \<Rightarrow> persisted list option \<Rightarrow> Publish list \<Rightarrow> uintptr \<Rightarrow> bool \<Rightarrow> Connect \<Rightarrow> ConnAck \<Rightarrow> manager \<Rightarrow> 'st \<Rightarrow>
     (manager \<times> 'st \<times> mgr_call list \<times> ConnAck \<times> connect_result) go_run" where
  "NewSession unsubscribe parse_time now stop_conn gen ex stored during fresh wr req resp0 m st =
     (let v = h_version req;
          resp = checkServerStatus v resp0 m in
      if connack_returnCode resp \<noteq> CodeSuccess
      then go_bind (go_opt (finish_connect wr v resp False None)) (\<lambda>(r, res). Ret (m, st, [], r, res))
      else open_session unsubscribe parse_time now stop_conn ex stored during fresh wr req resp
             (connect_id gen req) (length (clientID req) = 0) m st)"

section \<open>Messages for clients that are offline\<close>

definition clients_onPublish ::
    "(Time \<Rightarrow> gostring) \<Rightarrow> Time \<Rightarrow> gostring \<Rightarrow> Publish \<Rightarrow> mgr_call list option" where
  "clients_onPublish fmt_time now cid p =
     (if pub_expired now p then Some []
      else do {
        p' \<leftarrow> header_setPacketID 0 p;
        (p'', buf, err) \<leftarrow> Encode (PPublish p');
        Some (if err \<noteq> None then []
              else [StorePacket cid \<lparr>pp_Data = buf, pp_ExpireAt = (if expireAt p \<noteq> 0 then fmt_time (expireAt p) else []),
                                      pp_UnAck = False\<rparr>]) })"

section \<open>Stopping the server\<close>

text \<open>The buffer of \<open>storeSubscribers\<close>: errors of \<open>WriteLPBytes\<close> are dropped, the other stores panic.\<close>

fun write_subscriptions :: "(gostring \<times> SubscriptionParams) list \<Rightarrow> nat \<Rightarrow> byte list \<Rightarrow> byte list option" where
  "write_subscriptions [] offset buf = Some buf"
| "write_subscriptions ((t, params) # ts) offset buf = do {
     (rest, n, err) \<leftarrow> WriteLPBytes t (drop offset buf);
     let buf1 = take offset buf @ rest;
     let o1 = offset + n;
     (if o1 + 5 \<le> length buf1
      then write_subscriptions ts (o1 + 5)
             (take o1 buf1 @ [sp_Ops params] @ be_bytes32 (sp_ID params) @ drop (o1 + 5) buf1)
      else None) }"

definition encode_subscriptions :: "ProtocolVersion \<Rightarrow> (gostring \<times> SubscriptionParams) list \<Rightarrow> byte list option" where
  "encode_subscriptions v topics =
     (let size = sum_list (map (\<lambda>(t, _). 2 + length t + 1 + 4) topics) in
      write_subscriptions topics 1 (v # replicate size 0))"

fun storeSubscribers ::
    "'st topics_UnSubscribe \<Rightarrow> (gostring \<times> uintptr) list \<Rightarrow> manager \<Rightarrow> 'st \<Rightarrow> (manager \<times> 'st \<times> mgr_call list) option" where
  "storeSubscribers unsubscribe [] m st = Some (m, st, [])"
| "storeSubscribers unsubscribe ((cid, a) # rest) m st = do {
     sub0 \<leftarrow> map_of (mg_heap m) a;
     (sub, st1) \<leftarrow> subscriber_Offline unsubscribe True sub0 st;
     buf \<leftarrow> encode_subscriptions (sb_version sub) (sb_subscriptions sub);
     (m2, st2, out) \<leftarrow> storeSubscribers unsubscribe rest (m\<lparr>mg_heap := AList.update a sub (mg_heap m)\<rparr>) st1;
     Some (m2, st2, StoreSubscriptions cid buf # out) }"

text \<open>
  \<open>Shutdown\<close>: every session is stopped and its state stored, then the subscribers. In between it
  waits until \<open>sessionsCount\<close> is zero: \<open>Block\<close> when a session is still counted.
\<close>

fun stop_sessions ::
    "'st topics_UnSubscribe \<Rightarrow> (Time \<Rightarrow> gostring) \<Rightarrow> (int \<Rightarrow> gostring) \<Rightarrow> Time \<Rightarrow>
     (gostring \<Rightarrow> ReasonCode \<Rightarrow> DisconnectParams \<times> bool) \<Rightarrow> gostring list \<Rightarrow> manager \<Rightarrow> 'st \<Rightarrow>
     (manager \<times> 'st \<times> mgr_call list) go_run" where
  "stop_sessions unsubscribe fmt_time itoa now stop_conn [] m st = Ret (m, st, [])"
| "stop_sessions unsubscribe fmt_time itoa now stop_conn (cid # ids) m st =
     go_bind (go_opt (map_of (mg_sessions m) cid)) (\<lambda>s.
     go_bind (stop_session now (stop_conn cid) CodeServerShuttingDown s) (\<lambda>(s1, calls).
     go_bind (go_opt (run_calls unsubscribe calls (set_session s1 m) st)) (\<lambda>(m1, st1, out).
     go_bind (go_opt (session_state fmt_time itoa now s1)) (\<lambda>(s2, state).
     go_bind (stop_sessions unsubscribe fmt_time itoa now stop_conn ids m1 st1) (\<lambda>(m2, st2, out').
     Ret (m2, st2, out @ [StoreState cid state] @ out'))))))"

definition Shutdown ::
    "'st topics_UnSubscribe \<Rightarrow> (Time \<Rightarrow> gostring) \<Rightarrow> (int \<Rightarrow> gostring) \<Rightarrow> Time \<Rightarrow>
     (gostring \<Rightarrow> ReasonCode \<Rightarrow> DisconnectParams \<times> bool) \<Rightarrow> manager \<Rightarrow> 'st \<Rightarrow>
     (manager \<times> 'st \<times> mgr_call list \<times> bool) go_run" where
  "Shutdown unsubscribe fmt_time itoa now stop_conn m st =
     (if mg_quit m then Ret (m, st, [], False)
      else
        go_bind (stop_sessions unsubscribe fmt_time itoa now stop_conn (map fst (mg_sessions m)) (m\<lparr>mg_quit := True\<rparr>) st)
          (\<lambda>(m1, st1, out).
             if mg_count m1 > 0 then Block
             else go_bind (go_opt (storeSubscribers unsubscribe (mg_subscribers m1) m1 st1)) (\<lambda>(m2, st2, out').
               Ret (m2, st2, out @ out', True))))"

section \<open>Starting the server\<close>

text \<open>\<open>Panic\<close>: a slice or an index outside the buffer.\<close>

function load_subscriptions ::
    "byte list \<Rightarrow> nat \<Rightarrow> (gostring \<times> SubscriptionParams) list \<Rightarrow>
     (go_error + (gostring \<times> SubscriptionParams) list) go_run" where
  "load_subscriptions from_buf offset acc =
     (if int offset = int (length from_buf) - 1 then Ret (Inr acc)
      else if offset > length from_buf then Panic
      else (case ReadLPBytes (drop offset from_buf) of
              (t, n, Some e) \<Rightarrow> Ret (Inl e)
            | (t, n, None) \<Rightarrow>
                (let o1 = offset + n in
                 if o1 + 5 \<le> length from_buf
                 then (case be_uint32 (drop (o1 + 1) from_buf) of
                         Some i \<Rightarrow> load_subscriptions from_buf (o1 + 5)
                                     (AList.update t \<lparr>sp_ID = i, sp_Ops = from_buf ! o1, sp_Granted = 0\<rparr> acc)
                       | None \<Rightarrow> Panic)
                 else Panic)))"
  by pat_completeness auto
termination by (relation "measure (\<lambda>(b, o', acc). length b - o')") auto

declare load_subscriptions.simps [simp del]

definition loadSubscriber ::
    "byte list \<Rightarrow> (go_error + ProtocolVersion \<times> (gostring \<times> SubscriptionParams) list) go_run" where
  "loadSubscriber from_buf =
     (case from_buf of
        [] \<Rightarrow> Panic
      | v # _ \<Rightarrow>
          (case load_subscriptions from_buf 1 [] of
             Ret (Inr ts) \<Rightarrow> Ret (Inr (v, ts)) | Ret (Inl e) \<Rightarrow> Ret (Inl e) | Panic \<Rightarrow> Panic | Block \<Rightarrow> Block))"


text \<open>
  An entry of the storage, with the state that was stored: \<open>ls_Errors\<close> says whether it had errors. \<open>parse_time\<close> and
  \<open>atoi\<close> are \<open>time.Parse\<close> with RFC3339 and \<open>strconv.Atoi\<close>.
\<close>

record LoadedState = SessionState +
  ls_Errors :: bool
  ls_Subscriptions :: "byte list"

text \<open>The will that is still to be published, its delay, and the wills to publish at once.\<close>

definition load_will ::
    "(gostring \<Rightarrow> int option) \<Rightarrow> Time \<Rightarrow> Time \<Rightarrow> ProtocolVersion \<Rightarrow> SessionDelays \<Rightarrow>
     Publish option \<times> uint32 \<times> Publish option list" where
  "load_will atoi now since v e =
     (if length (sd_WillIn e) > 0 \<and> length (sd_WillData e) > 0 then
        (let w = (case Decode v (sd_WillData e) of (Some (PPublish p), _, _) \<Rightarrow> Some p | _ \<Rightarrow> None) in
         case atoi (sd_WillIn e) of
           Some val \<Rightarrow>
             (let willIn = of_int val; willAt = since + int (unat willIn) * 1000000000 in
              if now < willAt then (None, willIn, [w]) else (w, willIn, []))
         | None \<Rightarrow> (w, 0, []))
      else (None, 0, []))"

text \<open>The expiry: \<open>Inl\<close> when the stored session is deleted.\<close>

definition load_expireIn ::
    "(gostring \<Rightarrow> int option) \<Rightarrow> Time \<Rightarrow> Time \<Rightarrow> SessionDelays \<Rightarrow> unit + uint32" where
  "load_expireIn atoi now since e =
     (if length (sd_ExpireIn e) > 0 then
        (case atoi (sd_ExpireIn e) of
           Some val \<Rightarrow>
             (let expireIn = of_int val; expireAt = since + int (unat expireIn) * 1000000000 in
              if now < expireAt then Inl () else Inr expireIn)
         | None \<Rightarrow> Inr 0)
      else Inr 0)"

text \<open>
  The callback of \<open>LoadForEach\<close>: the subscriptions it found, the wills to publish and the calls.
  A session that waits for its will or its expiry is stored under the key \<open>id\<close>, a byte slice; a
  \<open>sync.Map\<close> panics on such a key.
\<close>

datatype load_step = LoadPanic | LoadDone "(ProtocolVersion \<times> (gostring \<times> SubscriptionParams) list) option"
    "Publish option list" "mgr_call list"

definition load_entry_subs :: "gostring \<Rightarrow> LoadedState \<Rightarrow> Publish option list \<Rightarrow> mgr_call list \<Rightarrow> load_step" where
  "load_entry_subs cid state wills calls =
     (if length (ls_Subscriptions state) > 0 then
        (case loadSubscriber (ls_Subscriptions state) of
           Ret (Inr cfg) \<Rightarrow> LoadDone (Some cfg) wills (calls @ [SubscriptionsDelete cid, SysCreated cid])
         | Ret (Inl e) \<Rightarrow> LoadDone None wills (calls @ [SubscriptionsDelete cid, SysCreated cid])
         | _ \<Rightarrow> LoadPanic)
      else LoadDone None wills (calls @ [SysCreated cid]))"

definition load_session_entry ::
    "(gostring \<Rightarrow> Time option) \<Rightarrow> (gostring \<Rightarrow> int option) \<Rightarrow> Time \<Rightarrow> gostring \<Rightarrow> LoadedState \<Rightarrow> load_step" where
  "load_session_entry parse_time atoi now cid state =
     (let calls = (if ls_Errors state then [SubscriptionsDelete cid] else []) in
      case ss_Expire state of
        None \<Rightarrow> load_entry_subs cid state [] calls
      | Some e \<Rightarrow>
          (case parse_time (sd_Since e) of
             None \<Rightarrow> LoadDone None [] (calls @ [SubscriptionsDelete cid])
           | Some since \<Rightarrow>
               (case load_will atoi now since (ss_Version state) e of (w, willIn, delayed) \<Rightarrow>
                 (case load_expireIn atoi now since e of
                    Inl _ \<Rightarrow> LoadDone None delayed (calls @ [StoreDelete cid])
                  | Inr expireIn \<Rightarrow>
                      if w \<noteq> None \<or> expireIn > 0 then LoadPanic
                      else load_entry_subs cid state delayed calls))))"

text \<open>
  \<open>loadSessions\<close>: the entries of the storage in its order, then the subscribers of the entries that had
  subscriptions, then the delayed wills. \<open>err\<close> is first what \<open>LoadForEach\<close> returns; every
  \<open>Subscribe\<close> and \<open>Publish\<close> that follows overwrites it.
\<close>

fun load_all ::
    "(gostring \<Rightarrow> Time option) \<Rightarrow> (gostring \<Rightarrow> int option) \<Rightarrow> Time \<Rightarrow> (gostring \<times> LoadedState) list \<Rightarrow>
     ((gostring \<times> ProtocolVersion \<times> (gostring \<times> SubscriptionParams) list) list \<times> Publish option list \<times>
      mgr_call list) option" where
  "load_all parse_time atoi now [] = Some ([], [], [])"
| "load_all parse_time atoi now ((cid, state) # es) =
     (case load_session_entry parse_time atoi now cid state of
        LoadPanic \<Rightarrow> None
      | LoadDone sub wills calls \<Rightarrow>
          (case load_all parse_time atoi now es of
             None \<Rightarrow> None
           | Some (subs, wills', calls') \<Rightarrow>
               Some ((case sub of Some cfg \<Rightarrow> (if cid \<in> fst ` set subs then [] else [(cid, cfg)]) | None \<Rightarrow> []) @ subs,
                     wills @ wills', calls @ calls')))"

datatype load_error = ErrStorage | ErrTopics topics_error

fun restore_topics ::
    "'st topics_Subscribe \<Rightarrow> (gostring \<times> SubscriptionParams) list \<Rightarrow> subscriber \<Rightarrow> 'st \<Rightarrow> load_error option \<Rightarrow>
     (subscriber \<times> 'st \<times> load_error option) option" where
  "restore_topics subscribe [] sub st err = Some (sub, st, err)"
| "restore_topics subscribe ((t, ops) # ts) sub st err = do {
     (sub', st', q, r, err') \<leftarrow> subscriber_Subscribe subscribe t ops sub st;
     restore_topics subscribe ts sub' st' (map_option ErrTopics err') }"

fun restore_subscribers ::
    "'st topics_Subscribe \<Rightarrow> (gostring \<Rightarrow> uintptr) \<Rightarrow>
     (gostring \<times> ProtocolVersion \<times> (gostring \<times> SubscriptionParams) list) list \<Rightarrow> manager \<Rightarrow> 'st \<Rightarrow> load_error option \<Rightarrow>
     (manager \<times> 'st \<times> load_error option) option" where
  "restore_subscribers subscribe fresh [] m st err = Some (m, st, err)"
| "restore_subscribers subscribe fresh ((cid, v, ts) # subs) m st err = do {
     let a = fresh cid;
     (sub, st1, err1) \<leftarrow> restore_topics subscribe ts (subscriber_New a cid (cf_OfflineQoS0 (mg_cfg m)) v) st err;
     restore_subscribers subscribe fresh subs
       (m\<lparr>mg_heap := AList.update a sub (mg_heap m), mg_subscribers := AList.update cid a (mg_subscribers m)\<rparr>) st1 err1 }"

text \<open>\<open>pub\<close> is \<open>Publish\<close> of the topics manager, \<open>None\<close> where it does not return; the will may be nil.\<close>

fun publish_wills ::
    "(Publish option \<Rightarrow> 'st \<Rightarrow> ('st \<times> topics_error option) option) \<Rightarrow> Publish option list \<Rightarrow> 'st \<Rightarrow> load_error option \<Rightarrow>
     ('st \<times> load_error option) option" where
  "publish_wills pub [] st err = Some (st, err)"
| "publish_wills pub (w # ws) st err = do {
     (st', err') \<leftarrow> pub w st;
     publish_wills pub ws st' (map_option ErrTopics err') }"

definition loadSessions ::
    "'st topics_Subscribe \<Rightarrow> (Publish option \<Rightarrow> 'st \<Rightarrow> ('st \<times> topics_error option) option) \<Rightarrow> (gostring \<Rightarrow> Time option) \<Rightarrow>
     (gostring \<Rightarrow> int option) \<Rightarrow> Time \<Rightarrow> (gostring \<Rightarrow> uintptr) \<Rightarrow> (gostring \<times> LoadedState) list \<Rightarrow> load_error option \<Rightarrow>
     manager \<Rightarrow> 'st \<Rightarrow> (manager \<times> 'st \<times> mgr_call list \<times> load_error option) option" where
  "loadSessions subscribe pub parse_time atoi now fresh store err m st = do {
     (subs, wills, calls) \<leftarrow> load_all parse_time atoi now store;
     (m1, st1, err1) \<leftarrow> restore_subscribers subscribe fresh subs m st err;
     (st2, err2) \<leftarrow> publish_wills pub wills st1 err1;
     Some (m1, st2, calls @ map PublishDelayed wills, err2) }"

text \<open>\<open>NewManager\<close>: the manager, or the error.\<close>

definition NewManager ::
    "'st topics_Subscribe \<Rightarrow> (Publish option \<Rightarrow> 'st \<Rightarrow> ('st \<times> topics_error option) option) \<Rightarrow> (gostring \<Rightarrow> Time option) \<Rightarrow>
     (gostring \<Rightarrow> int option) \<Rightarrow> Time \<Rightarrow> (gostring \<Rightarrow> uintptr) \<Rightarrow> (gostring \<times> LoadedState) list \<Rightarrow> load_error option \<Rightarrow>
     clients_Config \<Rightarrow> 'st \<Rightarrow> ('st \<times> mgr_call list \<times> (load_error + manager)) option" where
  "NewManager subscribe pub parse_time atoi now fresh store err c st = do {
     (m, st', calls, e) \<leftarrow> loadSessions subscribe pub parse_time atoi now fresh store err
       \<lparr>mg_cfg = c, mg_quit = False, mg_sessions = [], mg_count = 0, mg_subscribers = [], mg_heap = []\<rparr> st;
     Some (st', calls, case e of Some x \<Rightarrow> Inl x | None \<Rightarrow> Inr m) }"

section \<open>Subscriptions are not restored\<close>

definition sub_wire :: "gostring \<times> SubscriptionParams \<Rightarrow> byte list" where
  "sub_wire x = (case x of (t, params) \<Rightarrow> lp_bytes t @ [sp_Ops params] @ be_bytes32 (sp_ID params))"

definition subs_wire :: "(gostring \<times> SubscriptionParams) list \<Rightarrow> byte list" where
  "subs_wire ts = concat (map sub_wire ts)"

lemma length_subs_wire: "length (subs_wire ts) = sum_list (map (\<lambda>(t, _). 2 + length t + 1 + 4) ts)"
  by (induction ts) (auto simp: subs_wire_def sub_wire_def)

lemma write_subscriptions_wire:
  assumes "\<forall>(t, params) \<in> set ts. length t \<le> MaxLPString"
  shows "write_subscriptions ts (length pre) (pre @ replicate (length (subs_wire ts)) 0) = Some (pre @ subs_wire ts)"
  using assms
proof (induction ts arbitrary: pre)
  case (Cons x ts)
  obtain t params where x: "x = (t, params)" by force
  let ?k = "length (subs_wire ts)"
  let ?tail = "[sp_Ops params] @ be_bytes32 (sp_ID params)"
  have len: "length (subs_wire (x # ts)) = length (lp_bytes t) + (5 + ?k)"
    by (simp add: subs_wire_def sub_wire_def x)
  have w: "WriteLPBytes t (replicate (length (subs_wire (x # ts))) 0) =
      Some (lp_bytes t @ replicate (5 + ?k) 0, length (lp_bytes t), None)"
    unfolding len using Cons.prems x by (intro emitsD emits_WriteLPBytes) auto
  have IH: "write_subscriptions ts (length (pre @ lp_bytes t @ ?tail)) ((pre @ lp_bytes t @ ?tail) @ replicate ?k 0) =
      Some ((pre @ lp_bytes t @ ?tail) @ subs_wire ts)"
    using Cons.prems by (intro Cons.IH) auto
  have "drop (length pre) (pre @ replicate (length (subs_wire (x # ts))) 0) = replicate (length (subs_wire (x # ts))) 0"
    by simp
  with w IH show ?case
    by (simp add: x subs_wire_def sub_wire_def ac_simps)
qed (simp add: subs_wire_def)

lemma load_subscriptions_fail:
  assumes "\<forall>(t, params) \<in> set ts. length t \<le> MaxLPString"
  shows "load_subscriptions (pre @ subs_wire ts) (length pre) acc = Ret (Inl (EPkt ErrInsufficientDataSize))"
  using assms
proof (induction ts arbitrary: pre acc)
  case Nil
  show ?case by (subst load_subscriptions.simps) (simp add: subs_wire_def ReadLPBytes_def)
next
  case (Cons x ts)
  obtain t params where x: "x = (t, params)" by force
  define B where "B = (pre @ sub_wire x) @ subs_wire ts"
  let ?p = "\<lparr>sp_ID = sp_ID params, sp_Ops = sp_Ops params, sp_Granted = 0\<rparr>"
  let ?o = "length pre + (2 + length t)"
  have buf: "pre @ subs_wire (x # ts) = B" by (simp add: B_def subs_wire_def)
  have len: "length B = ?o + 5 + length (subs_wire ts)" by (simp add: B_def sub_wire_def x)
  have r: "ReadLPBytes (drop (length pre) B) = (t, 2 + length t, None)"
    using ReadLPBytes_roundtrip [of t] Cons.prems x by (simp add: B_def sub_wire_def)
  have "drop (?o + 1) B = be_bytes32 (sp_ID params) @ subs_wire ts"
    by (simp add: B_def sub_wire_def x)
  then have u: "be_uint32 (drop (?o + 1) B) = Some (sp_ID params)" by (simp only: be_uint32_bytes)
  have nth: "B ! ?o = sp_Ops params"
    by (simp add: B_def sub_wire_def x nth_append)
  have "load_subscriptions B (length (pre @ sub_wire x)) (AList.update t ?p acc) =
      Ret (Inl (EPkt ErrInsufficientDataSize))"
    unfolding B_def using Cons.prems by (intro Cons.IH) auto
  moreover have "length (pre @ sub_wire x) = ?o + 5" by (simp add: sub_wire_def x)
  ultimately have "load_subscriptions B (?o + 5) (AList.update t ?p acc) = Ret (Inl (EPkt ErrInsufficientDataSize))"
    by metis
  moreover have "load_subscriptions B (length pre) acc = load_subscriptions B (?o + 5) (AList.update t ?p acc)"
    by (subst load_subscriptions.simps) (use r u nth len in \<open>simp add: Let_def\<close>)
  ultimately show ?case unfolding buf by metis
qed


lemma no_map_of: "(\<forall>k. map_of xs k = None) \<Longrightarrow> xs = []"
  by (cases xs) (auto simp: fun_eq_iff split: if_splits)

lemma Offline_version: "subscriber_Offline unsubscribe b s st = Some (s', st') \<Longrightarrow> sb_version s' = sb_version s"
proof -
  have "offline_loop unsubscribe ts s st = Some (s', st') \<Longrightarrow> sb_version s' = sb_version s" for ts s st s' st'
    by (induction ts arbitrary: s st) (auto simp: bind_eq_Some_conv)
  then show "subscriber_Offline unsubscribe b s st = Some (s', st') \<Longrightarrow> sb_version s' = sb_version s"
    by (fastforce simp: subscriber_Offline_def bind_eq_Some_conv split: if_splits)
qed

text \<open>
  C35. Subscriptions do not survive a restart of the server, for two reasons. \<open>storeSubscribers\<close>
  unsubscribes a client before it reads its subscriptions, so it stores the version byte alone.
  And \<open>loadSubscriber\<close>, whose loop waits for an offset one short of the end, reports an error on
  everything \<open>storeSubscribers\<close> can write, whatever the subscriptions.
\<close>

theorem subscriptions_lost:
  assumes "\<forall>(t, params) \<in> set topics. length t \<le> MaxLPString"
    and "prov_inv mT" and "map_of (mg_heap m) a = Some sub" and "tracked prov_params sub mT"
  shows "(\<exists>buf. encode_subscriptions v topics = Some buf \<and>
       loadSubscriber buf = Ret (Inl (EPkt ErrInsufficientDataSize))) \<and>
    (\<exists>m' mT'. storeSubscribers provider_UnSubscribe [(cid, a)] m mT =
       Some (m', mT', [StoreSubscriptions cid [sb_version sub]]))"
proof
  have e: "encode_subscriptions v topics = Some (v # subs_wire topics)"
    unfolding encode_subscriptions_def Let_def length_subs_wire [symmetric]
    using write_subscriptions_wire [OF assms(1), of "[v]"] by simp
  have "load_subscriptions (v # subs_wire topics) 1 [] = Ret (Inl (EPkt ErrInsufficientDataSize))"
    using load_subscriptions_fail [OF assms(1), of "[v]"] by simp
  then show "\<exists>buf. encode_subscriptions v topics = Some buf \<and>
       loadSubscriber buf = Ret (Inl (EPkt ErrInsufficientDataSize))"
    using e by (simp add: loadSubscriber_def)
  obtain sub' mT' where o: "subscriber_Offline provider_UnSubscribe True sub mT = Some (sub', mT')"
    "\<forall>g. map_of (sb_subscriptions sub') g = None"
    using service.Offline_shutdown [OF assms(2,4)] by blast
  then show "\<exists>m' mT'. storeSubscribers provider_UnSubscribe [(cid, a)] m mT =
       Some (m', mT', [StoreSubscriptions cid [sb_version sub]])"
    using assms(3) no_map_of [OF o(2)] Offline_version [OF o(1)]
    by (simp add: encode_subscriptions_def)
qed

definition sample_manager :: manager where
  "sample_manager =
     \<lparr>mg_cfg = \<lparr>cf_KeepAlive = 60, cf_MaxPacketSize = 1000, cf_ReceiveMax = 10, cf_TopicAliasMaximum = 0,
        cf_MaximumQoS = QoS2, cf_AvailableRetain = True, cf_AvailableWildcardSubscription = True,
        cf_AvailableSubscriptionID = True, cf_AvailableSharedSubscription = False, cf_OfflineQoS0 = False,
        cf_AllowReplace = True\<rparr>,
      mg_quit = False, mg_sessions = [], mg_count = 0, mg_subscribers = [([0x63], 3)],
      mg_heap = [(3, subscriber_New 3 [0x63] False ProtocolV311)]\<rparr>"

theorem subscriptions_lost_witness:
  "(\<exists>buf. encode_subscriptions ProtocolV311 [([0x61], sample_params 0 1)] = Some buf \<and>
      loadSubscriber buf = Ret (Inl (EPkt ErrInsufficientDataSize))) \<and>
   (\<exists>m' mT'. storeSubscribers provider_UnSubscribe [([0x63], 3)] sample_manager sample_provider =
      Some (m', mT', [StoreSubscriptions [0x63] [ProtocolV311]]))"
proof -
  have p: "prov_inv sample_provider" by (simp add: prov_inv_def sample_provider_def sample_tree_wf)
  have t: "tracked prov_params (subscriber_New 3 [0x63] False ProtocolV311) sample_provider"
    by (simp add: tracked_def subscriber_New_def prov_params_def prov_lookup_def sample_provider_def
        sample_tree_def subscriptionInsert_entry subscriptionInsert_wf)
  have h: "map_of (mg_heap sample_manager) 3 = Some (subscriber_New 3 [0x63] False ProtocolV311)"
    by (simp add: sample_manager_def)
  show ?thesis
    using subscriptions_lost [of "[([0x61], sample_params 0 1)]", OF _ p h t, of ProtocolV311 "[0x63]"]
    by (simp add: MaxLPString_def subscriber_New_def)
qed


section \<open>The table of sessions\<close>

definition session_ok :: "gostring \<times> session \<Rightarrow> bool" where
  "session_ok x = (se_id (snd x) = fst x \<and> \<not> se_finalized (snd x))"

definition mgr_inv :: "manager \<Rightarrow> bool" where
  "mgr_inv m =
     (distinct (map fst (mg_sessions m)) \<and> mg_count m = int (length (mg_sessions m)) \<and>
      list_all session_ok (mg_sessions m))"

definition closes :: "session_call list \<Rightarrow> gostring list" where
  "closes cs = concat (map (\<lambda>c. case c of SignalClose i r \<Rightarrow> [i] | _ \<Rightarrow> []) cs)"

lemma closes_simps [simp]:
  "closes [] = []" "closes (xs @ ys) = closes xs @ closes ys"
  "closes (c # cs) = (case c of SignalClose i r \<Rightarrow> [i] | _ \<Rightarrow> []) @ closes cs"
  by (simp_all add: closes_def)

lemma run_calls_sessions:
  "run_calls u cs m st = Some (m', st', out) \<Longrightarrow>
     mg_sessions m' = fold AList.delete (closes cs) (mg_sessions m) \<and>
     mg_count m' = mg_count m - int (length (closes cs)) \<and> mg_cfg m' = mg_cfg m"
proof (induction cs arbitrary: m st m' st' out)
  case (Cons c cs)
  then show ?case
    by (cases c) (fastforce simp: bind_eq_Some_conv onSessionClose_def onSubscriberShutdown_def split: option.split_asm)+
qed simp

text \<open>A session signals that it closes exactly when it is finalized.\<close>

lemma runExpiry_id: "runExpiry now wl s = Some s' \<Longrightarrow> se_id s' = se_id s \<and> se_finalized s' = se_finalized s"
  by (auto simp: runExpiry_def bind_eq_Some_conv case_prod_beta)

lemma onDisconnect_closes:
  assumes "session_onDisconnect now h p s = Some (s', calls)" and "\<not> se_finalized s"
  shows "se_id s' = se_id s \<and> closes calls = (if se_finalized s' then [se_id s] else [])"
proof -
  have w: "closes (snd (disconnect_will p c)) = []" for c
    by (auto simp: disconnect_will_def split: option.splits)
  have u: "closes su = []" if "disconnect_subscriber h c = Some (c', su)" for c c' su
    using that by (auto simp: disconnect_subscriber_def split: option.split_asm if_split_asm)
  show ?thesis
    using assms
    by (auto simp: session_onDisconnect_def finalize_def bind_eq_Some_conv case_prod_beta Let_def w u
        split: if_split_asm dest!: runExpiry_id)
qed

lemma timerCallback_closes:
  assumes "timerCallback s = Some (s', calls)" and "\<not> se_finalized s"
  shows "se_id s' = se_id s \<and> closes calls = (if se_finalized s' then [se_id s] else [])"
  using assms
  by (auto simp: timerCallback_def finalize_def bind_eq_Some_conv Let_def split: option.split_asm if_split_asm)


lemma stop_end_closes:
  assumes "se_id (fst x) = i" and "closes (snd x) = (if se_finalized (fst x) then [i] else [])"
  shows "se_finalized (fst (stop_end x)) \<and> se_id (fst (stop_end x)) = i \<and> closes (snd (stop_end x)) = [i]"
  using assms by (cases x) (auto simp: stop_end_def finalize_def Let_def)

lemma stop_session_closes:
  assumes "stop_session now f r s = Ret (s', calls)" and "\<not> se_finalized s"
  shows "se_finalized s' \<and> se_id s' = se_id s \<and> closes calls = [se_id s]"
proof -
  obtain x where x: "stop_end x = (s', calls)"
    and c: "(if se_conn s then (case f r of (p, h) \<Rightarrow> session_onDisconnect now h p s) else Some (s, [])) = Some x"
    using assms(1) by (auto simp: stop_session_def go_bind_eq_Ret_conv split: if_split_asm prod.split_asm)
  have "se_id (fst x) = se_id s \<and> closes (snd x) = (if se_finalized (fst x) then [se_id s] else [])"
    using c onDisconnect_closes [OF _ assms(2)] assms(2) by (cases x) (auto split: if_split_asm prod.split_asm)
  from stop_end_closes [of x "se_id s"] this x show ?thesis by simp
qed

text \<open>Stopping a session blocks exactly if its connection was never started.\<close>

definition conn_pending :: "session \<Rightarrow> bool" where
  "conn_pending s = (se_connStop s \<and> se_conn s \<and> \<not> se_started s)"

lemma stop_session_blocks: "stop_session now f r s = Block \<longleftrightarrow> conn_pending s"
  by (simp add: stop_session_def conn_pending_def go_bind_eq_Block_conv split: prod.split)

lemma sessions_update: "map_of xs k = Some y \<Longrightarrow> length (AList.update k v xs) = length xs"
  by (induction xs) auto

lemma sessions_delete:
  "distinct (map fst xs) \<Longrightarrow> map_of xs k = Some y \<Longrightarrow> int (length (AList.delete k xs)) = int (length xs) - 1"
  by (induction xs) (auto simp: delete_idem split: if_splits)


text \<open>Removing, replacing and adding a session keep the invariant.\<close>

lemma mgr_inv_set:
  assumes "mgr_inv m" and "session_ok (se_id s, s)"
  shows "mgr_inv (set_session s m)"
proof (cases "map_of (mg_sessions m) (se_id s)")
  case (Some y)
  then show ?thesis
    using assms sessions_update [OF Some]
    by (auto simp: mgr_inv_def set_session_def list_all_iff distinct_update dest!: set_AList_update)
qed (use assms in \<open>simp add: set_session_def\<close>)

lemma mgr_inv_delete:
  assumes "mgr_inv m" and "map_of (mg_sessions m) cid = Some y" and "mg_sessions m' = AList.delete cid (mg_sessions m)"
    and "mg_count m' = mg_count m - 1"
  shows "mgr_inv m'"
  using assms sessions_delete [of "mg_sessions m" cid y]
  by (auto simp: mgr_inv_def list_all_iff distinct_delete dest!: set_AList_delete)

lemma mgr_inv_store:
  assumes "mgr_inv m" and "map_of (mg_sessions m) cid = None" and "session_ok (cid, s)"
  shows "mgr_inv (store_session cid s m)"
proof -
  have "AList.update cid s xs = xs @ [(cid, s)]" if "map_of xs cid = None" for xs
    using that by (induction xs) (auto split: if_splits)
  then show ?thesis using assms
    by (auto simp: mgr_inv_def store_session_def list_all_iff map_of_eq_None_iff)
qed

text \<open>The calls of a session that has closed, or goes on, with the session object written back.\<close>

lemma mgr_inv_run:
  assumes "mgr_inv m" and "map_of (mg_sessions m) cid = Some s" and "se_id s' = cid"
    and "closes calls = (if se_finalized s' then [cid] else [])"
    and "run_calls u calls (set_session s' m) st = Some (m', st', out)"
  shows "mgr_inv m' \<and> (se_finalized s' \<longrightarrow> map_of (mg_sessions m') cid = None) \<and> mg_cfg m' = mg_cfg m"
proof (cases "se_finalized s'")
  case True
  have "AList.delete cid (AList.update cid s' xs) = AList.delete cid xs" for xs
    by (induction xs) auto
  then have "mg_sessions m' = AList.delete cid (mg_sessions m)" "mg_count m' = mg_count m - 1" "mg_cfg m' = mg_cfg m"
    using run_calls_sessions [OF assms(5)] assms(2-4) True by (auto simp: set_session_def)
  then show ?thesis using mgr_inv_delete [OF assms(1,2)] by (simp add: delete_conv')
next
  case False
  then have "session_ok (se_id s', s')" using assms(3) by (simp add: session_ok_def)
  from mgr_inv_set [OF assms(1) this] False assms(4) run_calls_sessions [OF assms(5)]
  show ?thesis by (auto simp: mgr_inv_def set_session_def split: if_split_asm)
qed


lemma mgr_inv_session: "mgr_inv m \<Longrightarrow> map_of (mg_sessions m) cid = Some s \<Longrightarrow> se_id s = cid \<and> \<not> se_finalized s"
  by (auto simp: mgr_inv_def list_all_iff session_ok_def dest: map_of_SomeD)

lemma takeover_inv:
  assumes "takeover_stop u now f old m st = Ret (m1, st1, out)" and "mgr_inv m" and "map_of (mg_sessions m) cid = Some old"
  shows "mgr_inv m1 \<and> map_of (mg_sessions m1) cid = None \<and> mg_sessions m1 = AList.delete cid (mg_sessions m) \<and>
    mg_cfg m1 = mg_cfg m"
proof -
  note s = mgr_inv_session [OF assms(2,3)]
  obtain s1 calls where st: "stop_session now f CodeSessionTakenOver old = Ret (s1, calls)"
    and r: "run_calls u calls (set_session s1 m) st = Some (m1, st1, out)"
    using assms(1) by (auto simp: takeover_stop_def go_bind_eq_Ret_conv)
  have c: "se_finalized s1" "se_id s1 = cid" "closes calls = [cid]" using stop_session_closes [OF st] s by auto
  have "AList.delete cid (AList.update cid s1 xs) = AList.delete cid xs" for xs by (induction xs) auto
  then have "mg_sessions m1 = AList.delete cid (mg_sessions m)"
    using run_calls_sessions [OF r] c assms(3) by (auto simp: set_session_def)
  moreover have "mgr_inv m1 \<and> (se_finalized s1 \<longrightarrow> map_of (mg_sessions m1) cid = None) \<and> mg_cfg m1 = mg_cfg m"
    by (rule mgr_inv_run [OF assms(2,3) c(2) _ r]) (simp add: c)
  ultimately show ?thesis using c(1) by simp
qed

text \<open>The ids of the table.\<close>

definition table_ids :: "manager \<Rightarrow> gostring set" where
  "table_ids m = fst ` set (mg_sessions m)"

lemma table_ids_lookup: "map_of (mg_sessions m) cid = None \<longleftrightarrow> cid \<notin> table_ids m"
  by (simp add: table_ids_def map_of_eq_None_iff)

lemma table_ids_Some: "map_of (mg_sessions m) cid = Some s \<Longrightarrow> cid \<in> table_ids m"
  by (metis table_ids_lookup option.distinct(1))

lemma table_ids_cong: "mg_sessions m' = mg_sessions m \<Longrightarrow> table_ids m' = table_ids m"
  by (simp add: table_ids_def)

lemma table_ids_update: "mg_sessions m' = AList.update k v (mg_sessions m) \<Longrightarrow> table_ids m' = insert k (table_ids m)"
  by (simp add: table_ids_def dom_map_of_conv_image_fst [symmetric] update_conv')

lemma table_ids_delete: "mg_sessions m' = AList.delete k (mg_sessions m) \<Longrightarrow> table_ids m' = table_ids m - {k}"
  by (simp add: table_ids_def dom_map_of_conv_image_fst [symmetric] delete_conv')

lemma table_ids_set [simp]: "table_ids (set_session s m) = table_ids m"
proof (cases "map_of (mg_sessions m) (se_id s)")
  case (Some x)
  then have "table_ids (set_session s m) = insert (se_id s) (table_ids m)"
    by (intro table_ids_update) (simp add: set_session_def)
  then show ?thesis using table_ids_Some [OF Some] by auto
qed (simp add: set_session_def)

lemma table_ids_store [simp]: "table_ids (store_session cid s m) = insert cid (table_ids m)"
  by (rule table_ids_update) (simp add: store_session_def)

text \<open>What \<open>loadSession\<close> and \<open>store_session\<close> leave: the session of the id is in the table, no other id is added.\<close>

definition loaded :: "gostring \<Rightarrow> manager \<Rightarrow> manager \<Rightarrow> ReasonCode + session \<Rightarrow> bool" where
  "loaded cid m m' r =
     (mgr_inv m' \<and> table_ids m' \<subseteq> insert cid (table_ids m) \<and>
      (case r of Inl _ \<Rightarrow> True | Inr s \<Rightarrow> se_id s = cid \<and> map_of (mg_sessions m') cid = Some s))"

lemma store_loaded:
  assumes "mgr_inv m" and "map_of (mg_sessions m) cid = None"
  shows "loaded cid m (store_session cid (allocSession cid now) m) (Inr (allocSession cid now))"
  using mgr_inv_store [OF assms, of "allocSession cid now"]
  by (auto simp: loaded_def allocSession_def newSession_def session_ok_def) (simp add: store_session_def update_conv')

lemma loadSession_inv:
  assumes "loadSession u now f cid v m st = Ret (m', st', out, r)" and "mgr_inv m"
  shows "loaded cid m m' r"
proof (cases "map_of (mg_sessions m) cid")
  case None
  then show ?thesis
    using assms(1) store_loaded [OF assms(2) None, of now] by (auto simp: loadSession_def Let_def)
next
  case (Some old)
  note s = mgr_inv_session [OF assms(2) Some]
  have unlocked: "\<not> se_locked old" using assms(1) Some by (auto simp: loadSession_def Let_def)
  show ?thesis
  proof (cases "se_online old")
    case False
    let ?s = "old\<lparr>se_timer := None, se_locked := True\<rparr>"
    have "session_ok (se_id ?s, ?s)" using s by (simp add: session_ok_def)
    then have "mgr_inv (set_session ?s m)" by (rule mgr_inv_set [OF assms(2)])
    moreover have "map_of (mg_sessions (set_session ?s m)) cid = Some ?s" using Some s by (simp add: set_session_def update_conv')
    moreover have "m' = set_session ?s m" "r = Inr ?s"
      using assms(1) Some False s unlocked by (auto simp: loadSession_def setOnline_def Let_def)
    ultimately show ?thesis using s by (auto simp: loaded_def)
  next
    case True
    show ?thesis
    proof (cases "cf_AllowReplace (mg_cfg m)")
      case False
      then show ?thesis using assms Some True unlocked by (auto simp: loaded_def loadSession_def setOnline_def Let_def)
    next
      case replace: True
      obtain m1 out1 where st: "takeover_stop u now f old m st = Ret (m1, st', out1)"
        "m' = store_session cid (allocSession cid now) m1" "r = Inr (allocSession cid now)"
        using assms(1) Some True replace unlocked
        by (auto simp: loadSession_def setOnline_def go_bind_eq_Ret_conv Let_def)
      note t = takeover_inv [OF st(1) assms(2) Some]
      from store_loaded [of m1 cid now] t show ?thesis
        by (auto simp: st(2,3) loaded_def table_ids_delete [of m1 cid m])
    qed
  qed
qed

lemma getSubscriber_sessions:
  "getSubscriber u ex fresh cid clean v m st = Some (m', st', out, a, b) \<Longrightarrow>
     mg_sessions m' = mg_sessions m \<and> mg_count m' = mg_count m"
  by (auto simp: getSubscriber_def bind_eq_Some_conv split: if_split_asm option.split_asm)


text \<open>The session that \<open>configureSession\<close> leaves: configured, with a connection that is not started.\<close>

definition configured :: "session \<Rightarrow> session \<Rightarrow> bool" where
  "configured ses s =
     (\<exists>sc. s = ses\<lparr>se_cfg := Some sc, se_finalized := False, se_conn := True, se_started := False, se_connStop := True\<rparr>)"

lemma configureSession_result:
  assumes "configureSession u parse now ex stored during fresh req resp ses cid gen m st = Some (m', st', out, resp', r)"
  shows "mg_count m' = mg_count m \<and>
    (case r of Inl _ \<Rightarrow> mg_sessions m' = mg_sessions m
             | Inr (s, c) \<Rightarrow> configured ses s \<and> mg_sessions m' = mg_sessions (set_session s m))"
proof -
  obtain m1 st1 o1 a b where g: "getSubscriber u ex fresh cid (Connect_IsClean req) (h_version req) m st = Some (m1, st1, o1, a, b)"
    using assms(1) by (auto simp: configureSession_def bind_eq_Some_conv)
  have m1: "mg_sessions m1 = mg_sessions m" "mg_count m1 = mg_count m" using getSubscriber_sessions [OF g] by auto
  obtain resp1 n where n: "negotiate req resp (if gen then cid else []) a m1 = Some (resp1, n)"
    using assms(1) g by (auto simp: configureSession_def bind_eq_Some_conv)
  show ?thesis
  proof (cases n)
    case (Inl e)
    then show ?thesis using assms g n m1 by (auto simp: configureSession_def)
  next
    case (Inr x)
    obtain sc cc where x: "x = (sc, cc)" by force
    let ?s = "ses\<lparr>se_cfg := Some sc, se_finalized := False, se_conn := True, se_started := False, se_connStop := True\<rparr>"
    obtain conn where "r = Inr (?s, conn)" "m' = set_session ?s (m1\<lparr>mg_heap := AList.update a (c_sub conn) (mg_heap m1)\<rparr>)"
      using assms(1) g n Inr x
      by (auto simp: configureSession_def bind_eq_Some_conv reconfigure_def allocConnection_def Let_def)
    then show ?thesis using m1 by (auto simp: configured_def set_session_def)
  qed
qed

lemma configureSession_inv:
  assumes "configureSession u parse now ex stored during fresh req resp ses cid gen m st = Some (m', st', out, resp', r)"
    and "mgr_inv m" and "map_of (mg_sessions m) cid = Some ses" and "se_id ses = cid"
  shows "mgr_inv m' \<and> table_ids m' = table_ids m \<and> map_of (mg_sessions m') cid \<noteq> None \<and>
    (case r of Inl _ \<Rightarrow> True | Inr (s, c) \<Rightarrow> se_id s = cid \<and> \<not> se_finalized s)"
proof (cases r)
  case (Inl e)
  then show ?thesis
    using configureSession_result [OF assms(1)] assms(2,3) table_ids_cong [of m' m] by (auto simp: mgr_inv_def)
next
  case (Inr x)
  obtain s k where x: "r = Inr (s, k)" using Inr by (cases x) auto
  have res: "mg_count m' = mg_count m" "configured ses s" "mg_sessions m' = mg_sessions (set_session s m)"
    using configureSession_result [OF assms(1)] x by auto
  then have s: "se_id s = cid" "\<not> se_finalized s" using assms(4) by (auto simp: configured_def)
  then have "mgr_inv (set_session s m)" by (intro mgr_inv_set [OF assms(2)]) (simp add: session_ok_def)
  moreover have "mg_count (set_session s m) = mg_count m" by (simp add: set_session_def)
  moreover have "table_ids m' = table_ids m" using table_ids_cong [OF res(3)] by simp
  ultimately show ?thesis
    using res s x assms(3) table_ids_Some [OF assms(3)] by (auto simp: mgr_inv_def table_ids_lookup)
qed

lemma connect_session_inv:
  assumes "connect_session u parse now ex stored during fresh wr req resp cid g (m1, st1, out1, l) = Some (m', st', out, r, res)"
    and "loaded cid m m1 l"
  shows "mgr_inv m' \<and> table_ids m' \<subseteq> insert cid (table_ids m)"
proof (cases l)
  case (Inl e)
  then show ?thesis using assms by (auto simp: connect_session_def bind_eq_Some_conv loaded_def)
next
  case (Inr ses)
  note l = assms(2) [unfolded loaded_def Inr, simplified]
  obtain m2 st2 o2 resp1 c where c:
    "configureSession u parse now ex stored during fresh req resp ses cid g m1 st1 = Some (m2, st2, o2, resp1, c)"
    using assms(1) Inr by (auto simp: connect_session_def bind_eq_Some_conv)
  have m2: "mgr_inv m2" "map_of (mg_sessions m2) cid \<noteq> None"
    and ses: "\<And>s k. c = Inr (s, k) \<Longrightarrow> se_id s = cid \<and> \<not> se_finalized s"
    using configureSession_inv [OF c] l by auto
  have k2: "table_ids m2 \<subseteq> insert cid (table_ids m)" using configureSession_inv [OF c] l by auto
  show ?thesis
  proof (cases c)
    case Inl': (Inl e)
    have "m' = m2\<lparr>mg_sessions := AList.delete cid (mg_sessions m2), mg_count := mg_count m2 - 1\<rparr>"
      using assms(1) c Inr Inl' by (auto simp: connect_session_def bind_eq_Some_conv)
    then show ?thesis using mgr_inv_delete [OF m2(1)] m2(2) k2 table_ids_delete [of m' cid m2] by auto
  next
    case Inr': (Inr x)
    obtain s k where x: "x = (s, k)" by force
    have "m' = m2 \<or> m' = set_session (session_start s) m2"
      using assms(1) c Inr Inr' x
      by (auto simp: connect_session_def finish_connect_def bind_eq_Some_conv Let_def split: if_split_asm)
    then show ?thesis
      using m2(1) k2 ses [of s k] Inr' x mgr_inv_set [OF m2(1), of "session_start s"]
      by (auto simp: session_ok_def session_start_def)
  qed
qed

lemma NewSession_inv:
  assumes "NewSession u parse now f gen ex stored during fresh wr req resp m st = Ret (m', st', out, r, res)"
    and "mgr_inv m"
  shows "mgr_inv m' \<and> table_ids m' \<subseteq> insert (connect_id gen req) (table_ids m)"
proof (cases "connack_returnCode (checkServerStatus (h_version req) resp m) \<noteq> CodeSuccess")
  case True
  then show ?thesis using assms by (auto simp: NewSession_def go_bind_eq_Ret_conv Let_def)
next
  case False
  then obtain m1 st1 o1 l where
    l: "loadSession u now f (connect_id gen req) (h_version req) m st = Ret (m1, st1, o1, l)"
    and c: "connect_session u parse now ex stored during fresh wr req (checkServerStatus (h_version req) resp m)
      (connect_id gen req) (length (clientID req) = 0) (m1, st1, o1, l) = Some (m', st', out, r, res)"
    using assms(1) by (auto simp: NewSession_def open_session_def go_bind_eq_Ret_conv Let_def)
  show ?thesis by (rule connect_session_inv [OF c loadSession_inv [OF l assms(2)]])
qed

text \<open>The calls of a session add no id to the table.\<close>

lemma run_calls_ids:
  assumes "run_calls u calls (set_session s m) st = Some (m', st', out)"
  shows "table_ids m' \<subseteq> table_ids m"
proof -
  have "fst ` set (fold AList.delete ks xs) \<subseteq> fst ` set xs" for ks and xs :: "(gostring \<times> session) list"
  proof (induction ks arbitrary: xs)
    case (Cons k ks)
    have "fst ` set (AList.delete k xs) \<subseteq> fst ` set xs" by (auto dest: set_AList_delete)
    with Cons [of "AList.delete k xs"] show ?case by auto
  qed simp
  then have "table_ids m' \<subseteq> table_ids (set_session s m)"
    using run_calls_sessions [OF assms] by (simp add: table_ids_def)
  then show ?thesis by simp
qed

lemma conn_ended_inv:
  assumes "conn_ended u now cid p sub m st = Some (m', st', out)" and "mgr_inv m"
  shows "mgr_inv m' \<and> table_ids m' \<subseteq> table_ids m"
proof -
  let ?m = "m\<lparr>mg_heap := AList.update (sb_hash sub) sub (mg_heap m)\<rparr>"
  obtain s s' calls where s: "map_of (mg_sessions m) cid = Some s"
    "session_onDisconnect now (HasSubscriptions sub) p s = Some (s', calls)"
    "run_calls u calls (set_session s' ?m) st = Some (m', st', out)"
    using assms(1) by (auto simp: conn_ended_def bind_eq_Some_conv)
  have i: "se_id s = cid" "\<not> se_finalized s" using mgr_inv_session [OF assms(2) s(1)] by auto
  have "mgr_inv ?m" using assms(2) by (simp add: mgr_inv_def)
  from mgr_inv_run [OF this _ _ _ s(3), of cid s] show ?thesis
    using onDisconnect_closes [OF s(2) i(2)] i s(1) run_calls_ids [OF s(3)] by (auto simp: table_ids_def)
qed

lemma timer_fired_inv:
  assumes "timer_fired u cid m st = Some (m', st', out)" and "mgr_inv m"
  shows "mgr_inv m' \<and> table_ids m' \<subseteq> table_ids m"
proof -
  obtain s s' calls where s: "map_of (mg_sessions m) cid = Some s" "timerCallback s = Some (s', calls)"
    "run_calls u calls (set_session s' m) st = Some (m', st', out)"
    using assms(1) by (auto simp: timer_fired_def bind_eq_Some_conv)
  have i: "se_id s = cid" "\<not> se_finalized s" using mgr_inv_session [OF assms(2) s(1)] by auto
  from mgr_inv_run [OF assms(2) _ _ _ s(3), of cid s] show ?thesis
    using timerCallback_closes [OF s(2) i(2)] i s(1) run_calls_ids [OF s(3)] by (auto simp: table_ids_def)
qed


text \<open>
  The events that reach the manager, in any order, and the client ids of the CONNECTs that are
  between the two halves of \<open>loadSession\<close>: \<open>step_stopped\<close> has stopped the old session of the id,
  \<open>step_late\<close> has found one that was closed before it got the lock, and \<open>step_stored\<close> stores the new
  session and goes on. Between the two halves anything else may happen. \<open>admit\<close> says which CONNECTs
  are handled in the meantime; \<open>exclusive\<close> admits none with the same id.
\<close>

inductive mgr_step ::
    "(gostring \<Rightarrow> gostring multiset \<Rightarrow> bool) \<Rightarrow> 'st topics_UnSubscribe \<Rightarrow>
     manager \<times> 'st \<times> gostring multiset \<Rightarrow> manager \<times> 'st \<times> gostring multiset \<Rightarrow> bool" for admit u where
  step_connect: "NewSession u parse now f gen ex stored during fresh wr req resp m st = Ret (m', st', out, r, res) \<Longrightarrow>
    admit (connect_id gen req) T \<Longrightarrow> mgr_step admit u (m, st, T) (m', st', T)"
| step_stopped: "map_of (mg_sessions m) cid = Some old \<Longrightarrow> \<not> se_locked old \<Longrightarrow> se_online old \<Longrightarrow>
    cf_AllowReplace (mg_cfg m) \<Longrightarrow> admit cid T \<Longrightarrow> takeover_stop u now f old m st = Ret (m', st', out) \<Longrightarrow>
    mgr_step admit u (m, st, T) (m', st', add_mset cid T)"
| step_late: "map_of (mg_sessions m) cid = None \<Longrightarrow> admit cid T \<Longrightarrow> mgr_step admit u (m, st, T) (m, st, add_mset cid T)"
| step_stored: "cid \<in># T \<Longrightarrow>
    connect_session u parse now ex stored during fresh wr req resp cid g
      (store_session cid (allocSession cid t) m, st, calls, Inr (allocSession cid t)) = Some (m', st', out, r, res) \<Longrightarrow>
    mgr_step admit u (m, st, T) (m', st', T - {#cid#})"
| step_ended: "conn_ended u now cid p sub m st = Some (m', st', out) \<Longrightarrow> mgr_step admit u (m, st, T) (m', st', T)"
| step_timer: "timer_fired u cid m st = Some (m', st', out) \<Longrightarrow> mgr_step admit u (m, st, T) (m', st', T)"

inductive_cases mgr_step_cases: "mgr_step admit u (m, st, T) (m', st', T')"

definition exclusive :: "gostring \<Rightarrow> gostring multiset \<Rightarrow> bool" where
  "exclusive cid T = (cid \<notin># T)"

definition steps_inv :: "manager \<times> 'st \<times> gostring multiset \<Rightarrow> bool" where
  "steps_inv x = (case x of (m, st, T) \<Rightarrow>
     mgr_inv m \<and> set_mset T \<inter> table_ids m = {} \<and> (\<forall>cid. count T cid \<le> 1))"

lemma mgr_step_inv: "mgr_step exclusive u x y \<Longrightarrow> steps_inv x \<Longrightarrow> steps_inv y"
proof (induction rule: mgr_step.induct)
  case (step_connect parse now f gen ex stored during fresh wr req resp m st m' st' out r res T)
  then show ?case using NewSession_inv [OF step_connect(1)] by (auto simp: steps_inv_def exclusive_def)
next
  case (step_stopped m cid old T now f st m' st' out)
  then show ?case using takeover_inv [OF step_stopped(6) _ step_stopped(1)] table_ids_delete [of m' cid m]
    by (auto simp: steps_inv_def exclusive_def not_in_iff)
next
  case (step_late m cid T st)
  then show ?case by (auto simp: steps_inv_def exclusive_def table_ids_lookup not_in_iff)
next
  case (step_stored cid T parse now ex stored during fresh wr req resp g t m st calls m' st' out r res)
  have m: "mgr_inv m" "set_mset T \<inter> table_ids m = {}" "\<And>i. count T i \<le> 1"
    using step_stored(3) by (auto simp: steps_inv_def)
  have T: "cid \<notin># T - {#cid#}" "set_mset (T - {#cid#}) \<subseteq> set_mset T" "count (T - {#cid#}) i \<le> 1" for i
    using m(3) [of cid] m(3) [of i] by (auto simp: not_in_iff dest: in_diffD)
  have "map_of (mg_sessions m) cid = None" using step_stored(1) m(2) by (auto simp: table_ids_lookup)
  from connect_session_inv [OF step_stored(2) store_loaded [OF m(1) this]] m(2) T show ?case
    by (auto simp: steps_inv_def)
next
  case (step_ended now cid p sub m st m' st' out T)
  then show ?case using conn_ended_inv [OF step_ended(1)] by (auto simp: steps_inv_def)
next
  case (step_timer cid m st m' st' out T)
  then show ?case using timer_fired_inv [OF step_timer(1)] by (auto simp: steps_inv_def)
qed


definition sample_connect :: Connect where
  "sample_connect = (header_init ProtocolV311 CONNECT newConnect)\<lparr>clientID := [0x63], connectFlags := 2\<rparr>"


section \<open>Messages published while the client is away\<close>

text \<open>
  C26. A message with quality of service 1 or 2 that is published while the client is offline,
  that has not expired and is in the protocol version of the client, is stored, and the next connection of the client finds it in its queue with the same contents.
\<close>

theorem offline_message_kept:
  assumes "storable v now o0 (QPublish p)" and "Publish_QoS p \<noteq> QoS0" and "c_Version s = v"
  shows "\<exists>e. clients_onPublish fmt_time now cid p = Some [StorePacket cid e] \<and>
    load_packet parse_time e s = Some (load_item (restored fmt_time parse_time now o0 (QPublish p)) s, None)"
proof -
  obtain e where e: "persistAppend fmt_time now o0 (QPublish p) = Some [e]"
    "load_packet parse_time e s = Some (load_item (restored fmt_time parse_time now o0 (QPublish p)) s, None)"
    using persistAppend_load [OF assms(1,3)] by blast
  then have "clients_onPublish fmt_time now cid p = Some [StorePacket cid e]"
    using assms(1,2)
    by (auto simp: clients_onPublish_def persistAppend_def persist_packet_def storable_def bind_eq_Some_conv
        split: if_split_asm)
  then show ?thesis using e(2) by blast
qed

theorem offline_message_kept_witness:
  "\<exists>e. clients_onPublish (\<lambda>_. []) 5 [0x63] (sample_qos2\<lparr>h_version := ProtocolV311, packetID := [0, 0]\<rparr>) =
      Some [StorePacket [0x63] e] \<and>
    (\<exists>s'. load_packet (\<lambda>_. None) e sample_conn = Some (s', None) \<and> length (c_txQ s') = 1)"
proof -
  let ?p = "sample_qos2\<lparr>h_version := ProtocolV311, packetID := [0, 0]\<rparr>"
  have "storable ProtocolV311 5 False (QPublish ?p)"
    using sample_busy_storable
    by (simp add: pending_items_def sample_busy_def sample_conn_def)
  from offline_message_kept [OF this, of sample_conn "\<lambda>_. []" "[0x63]" "\<lambda>_. None"]
  show ?thesis
    by (auto simp: sample_conn_def sample_qos2_def newPublish_def Publish_QoS_def load_item_def restored_def stored_form_def
        packet_norm_def load_expiry_def qLoad_def txSignalAvailable_def)
qed


section \<open>A client that the negotiation refuses\<close>

lemma readSessionProperties_auth:
  assumes "header_PropertyGet req PropertyAuthMethod = None" and "header_PropertyGet req PropertyAuthData \<noteq> None"
    and "pc_AuthMethod cc = []"
  shows "\<exists>sc' cc'. readSessionProperties req sc cc = (sc', cc', Some CodeProtocolError)"
  using assms by (auto simp: readSessionProperties_def Let_def upd_opt_def split: option.splits)

lemma negotiate_auth:
  assumes "h_version req = ProtocolV50"
    and "header_PropertyGet req PropertyAuthMethod = None" and "header_PropertyGet req PropertyAuthData \<noteq> None"
  shows "negotiate req resp ids a m = Some (resp, Inl (ECode CodeProtocolError))"
proof -
  have "pc_AuthMethod (newConnectionPreConfig req m) = []" by (simp add: newConnectionPreConfig_def)
  from readSessionProperties_auth [OF assms(2,3) this]
  obtain sc cc where "readSessionProperties req \<lparr>rc_subscriber = Some a, rc_will = getWill req, rc_expireIn = None,
      rc_willDelay = 0, rc_killOnDisconnect = False\<rparr> (newConnectionPreConfig req m) = (sc, cc, Some CodeProtocolError)"
    by blast
  then show ?thesis using assms(1) by (simp add: negotiate_def Let_def)
qed

text \<open>
  C34. A version 5.0 CONNECT that carries authentication data but no authentication method ends in
  a panic as soon as its CONNACK is written, whatever else it holds and whatever the state of the
  manager is, unless the server is shutting down, the client id belongs to an online
  client that may not be replaced, or the mutex of the id is held: the deferred function of \<open>NewSession\<close> starts the session although
  \<open>configureSession\<close> refused it and left it without a connection.
\<close>

theorem auth_data_panics:
  assumes "h_version req = ProtocolV50" and "clientID req \<noteq> []"
    and "header_PropertyGet req PropertyAuthMethod = None" and "header_PropertyGet req PropertyAuthData \<noteq> None"
    and "\<not> mg_quit m" and "connack_returnCode resp = CodeSuccess"
    and "\<forall>s. map_of (mg_sessions m) (clientID req) = Some s \<longrightarrow> \<not> se_locked s \<and>
      (\<not> se_online s \<or> cf_AllowReplace (mg_cfg m) \<and> \<not> conn_pending s)"
  shows "NewSession unsubscribe parse_time now stop_conn gen ex stored during fresh True req resp m st = Panic"
proof -
  have n: "NewSession unsubscribe parse_time now stop_conn gen ex stored during fresh True req resp m st =
      go_bind (loadSession unsubscribe now stop_conn (clientID req) ProtocolV50 m st) (\<lambda>l.
        go_opt (connect_session unsubscribe parse_time now ex stored during fresh True req resp (clientID req) False l))"
    using assms(1,2,5,6) by (simp add: NewSession_def open_session_def connect_id_def checkServerStatus_def Let_def)
  show ?thesis
  proof (cases "loadSession unsubscribe now stop_conn (clientID req) ProtocolV50 m st")
    case (Ret x)
    obtain m1 st1 out1 r where x: "x = (m1, st1, out1, r)" by (cases x)
    have r: "\<exists>ses. r = Inr ses"
      using Ret x assms(7)
      by (auto simp: loadSession_def setOnline_def Let_def go_bind_eq_Ret_conv split: option.split_asm if_split_asm)
    have c: "configureSession unsubscribe parse_time now ex stored during fresh req resp ses (clientID req) False m1 st1 =
        (case getSubscriber unsubscribe ex fresh (clientID req) (Connect_IsClean req) ProtocolV50 m1 st1 of
           None \<Rightarrow> None | Some (m2, st2, out, a, present) \<Rightarrow> Some (m2, st2, out, resp, Inl (ECode CodeProtocolError)))" for ses
      using assms(1,3,4) by (auto simp: configureSession_def negotiate_auth split: option.splits)
    show ?thesis
      using r by (auto simp: n Ret x connect_session_def c finish_connect_def split: option.splits)
  next
    case Panic
    then show ?thesis by (simp add: n)
  next
    case Block
    then show ?thesis
      using assms(7)
      by (auto simp: loadSession_def setOnline_def takeover_stop_def go_bind_eq_Block_conv stop_session_blocks conn_pending_def
          Let_def split: option.split_asm if_split_asm prod.split_asm)
  qed
qed

definition sample_auth_connect :: Connect where
  "sample_auth_connect = (header_init ProtocolV50 CONNECT newConnect)\<lparr>clientID := [0x63],
     properties := \<lparr>props = Some [(PropertyAuthData, VBytes [1])], plen = 4\<rparr>\<rparr>"

theorem auth_data_panics_witness:
  "NewSession (\<lambda>_ _ _. None) (\<lambda>_. None) 0 (\<lambda>_. undefined) [] False None [] 5 True sample_auth_connect
     (header_init ProtocolV50 CONNACK newConnAck) sample_manager () = Panic"
proof -
  have "h_version sample_auth_connect = ProtocolV50" "clientID sample_auth_connect \<noteq> []"
    "header_PropertyGet sample_auth_connect PropertyAuthMethod = None"
    "header_PropertyGet sample_auth_connect PropertyAuthData \<noteq> None"
    "\<not> mg_quit sample_manager" "connack_returnCode (header_init ProtocolV50 CONNACK newConnAck) = CodeSuccess"
    by code_simp+
  then show ?thesis by (rule auth_data_panics) (simp add: sample_manager_def)
qed


section \<open>Shutdown\<close>

definition stored_states :: "mgr_call list \<Rightarrow> gostring list" where
  "stored_states out = concat (map (\<lambda>c. case c of StoreState cid _ \<Rightarrow> [cid] | _ \<Rightarrow> []) out)"

lemma stored_states_simps [simp]:
  "stored_states [] = []"
  "stored_states (c # cs) = (case c of StoreState cid _ \<Rightarrow> [cid] | _ \<Rightarrow> []) @ stored_states cs"
  "stored_states (cs @ ds) = stored_states cs @ stored_states ds"
  by (simp_all add: stored_states_def)

lemma run_calls_states: "run_calls u calls m st = Some (m', st', out) \<Longrightarrow> stored_states out = [] \<and> mg_quit m' = mg_quit m"
proof (induction calls arbitrary: m st m' st' out)
  case (Cons c cs)
  then show ?case
    by (cases c) (fastforce simp: bind_eq_Some_conv onSessionClose_def onSubscriberShutdown_def split: option.split_asm)+
qed auto

lemma storeSubscribers_states:
  "storeSubscribers u subs m st = Some (m', st', out) \<Longrightarrow>
   stored_states out = [] \<and> mg_sessions m' = mg_sessions m \<and> mg_count m' = mg_count m \<and> mg_quit m' = mg_quit m"
  by (induction u subs m st arbitrary: m' st' out rule: storeSubscribers.induct)
    (fastforce simp: bind_eq_Some_conv)+

text \<open>The table without the count: what \<open>Shutdown\<close> does with the sessions.\<close>

definition table_ok :: "manager \<Rightarrow> bool" where
  "table_ok m = (distinct (map fst (mg_sessions m)) \<and> list_all session_ok (mg_sessions m))"

lemma mgr_inv_table: "mgr_inv m \<longleftrightarrow> table_ok m \<and> mg_count m = int (length (mg_sessions m))"
  by (auto simp: mgr_inv_def table_ok_def)

definition pending_ids :: "manager \<Rightarrow> gostring set" where
  "pending_ids m = {cid. \<exists>s. map_of (mg_sessions m) cid = Some s \<and> conn_pending s}"

lemma stop_one:
  assumes "table_ok m" and "map fst (mg_sessions m) = cid # ids" and "map_of (mg_sessions m) cid = Some s"
    and "stop_session now f r s = Ret (s1, calls)" and "run_calls u calls (set_session s1 m) st = Some (m1, st1, out)"
  shows "table_ok m1 \<and> map fst (mg_sessions m1) = ids \<and> mg_sessions m1 = AList.delete cid (mg_sessions m) \<and>
    mg_count m1 = mg_count m - 1 \<and> pending_ids m1 = pending_ids m - {cid}"
proof -
  have ok: "se_id s = cid" "\<not> se_finalized s"
    using assms(1,3) by (auto simp: table_ok_def list_all_iff session_ok_def dest: map_of_SomeD)
  have cl: "se_id s1 = cid" "closes calls = [cid]" using stop_session_closes [OF assms(4) ok(2)] ok(1) by auto
  have "AList.delete cid (AList.update cid s1 xs) = AList.delete cid xs" for xs by (induction xs) auto
  then have m1: "mg_sessions m1 = AList.delete cid (mg_sessions m)" "mg_count m1 = mg_count m - 1"
    using run_calls_sessions [OF assms(5)] cl assms(3) by (auto simp: set_session_def)
  have "map fst (AList.delete cid xs) = filter (\<lambda>k. k \<noteq> cid) (map fst xs)" for xs :: "(gostring \<times> session) list"
    by (induction xs) auto
  moreover have "distinct (cid # ids)" using assms(1,2) by (simp add: table_ok_def)
  ultimately have "map fst (mg_sessions m1) = ids" using m1(1) assms(2) by (auto simp: filter_id_conv)
  moreover have "table_ok m1"
    using assms(1) m1(1) by (auto simp: table_ok_def list_all_iff distinct_delete dest!: set_AList_delete)
  moreover have "pending_ids m1 = pending_ids m - {cid}"
    by (auto simp: pending_ids_def m1(1) delete_conv' split: if_split_asm)
  ultimately show ?thesis using m1 by simp
qed

lemma stop_sessions_all:
  assumes "table_ok m" and "map fst (mg_sessions m) = ids"
    and "stop_sessions u fmt_time itoa now stop_conn ids m st = Ret (m', st', out)"
  shows "mg_sessions m' = [] \<and> mg_count m' = mg_count m - int (length ids) \<and> mg_quit m' = mg_quit m \<and>
    stored_states out = ids \<and> pending_ids m = {}"
  using assms
proof (induction ids arbitrary: m st out)
  case Nil
  then show ?case by (simp add: pending_ids_def)
next
  case (Cons cid ids)
  obtain s s1 calls m1 st1 o1 s2 state o2 where s: "map_of (mg_sessions m) cid = Some s"
    and c: "stop_session now (stop_conn cid) CodeServerShuttingDown s = Ret (s1, calls)"
    and r: "run_calls u calls (set_session s1 m) st = Some (m1, st1, o1)"
    and n: "stop_sessions u fmt_time itoa now stop_conn ids m1 st1 = Ret (m', st', o2)"
    and out: "out = o1 @ [StoreState cid state] @ o2"
    using Cons.prems(3) by (auto simp: go_bind_eq_Ret_conv)
  note one = stop_one [OF Cons.prems(1,2) s c r]
  have "\<not> conn_pending s" using c stop_session_blocks [of now "stop_conn cid" CodeServerShuttingDown s] by auto
  then have "cid \<notin> pending_ids m" using s by (simp add: pending_ids_def)
  then have "pending_ids m = {}" using Cons.IH [OF _ _ n] one by auto
  then show ?case
    using Cons.IH [OF _ _ n] one run_calls_states [OF r] out by (simp add: set_session_def split: if_split_asm)
qed

lemma stop_sessions_blocks:
  assumes "table_ok m" and "map fst (mg_sessions m) = ids"
    and "stop_sessions u fmt_time itoa now stop_conn ids m st = Block"
  shows "pending_ids m \<noteq> {}"
  using assms
proof (induction ids arbitrary: m st)
  case (Cons cid ids)
  obtain s where s: "map_of (mg_sessions m) cid = Some s" using Cons.prems(3) by (cases "map_of (mg_sessions m) cid") auto
  show ?case
  proof (cases "conn_pending s")
    case True
    then show ?thesis using s by (auto simp: pending_ids_def)
  next
    case False
    then have "stop_session now (stop_conn cid) CodeServerShuttingDown s \<noteq> Block" by (simp add: stop_session_blocks)
    then obtain s1 calls m1 st1 o1 where c: "stop_session now (stop_conn cid) CodeServerShuttingDown s = Ret (s1, calls)"
      and r: "run_calls u calls (set_session s1 m) st = Some (m1, st1, o1)"
      and n: "stop_sessions u fmt_time itoa now stop_conn ids m1 st1 = Block"
      using Cons.prems(3) s by (auto simp: go_bind_eq_Block_conv)
    from Cons.IH [OF _ _ n] stop_one [OF Cons.prems(1,2) s c r] show ?thesis by auto
  qed
qed simp

lemma table_ok_quit [simp]: "table_ok (m\<lparr>mg_quit := b\<rparr>) = table_ok m" "pending_ids (m\<lparr>mg_quit := b\<rparr>) = pending_ids m"
  by (simp_all add: table_ok_def pending_ids_def)

text \<open>When \<open>Shutdown\<close> returns, every session was stopped, and none was counted that is not in the table.\<close>

lemma Shutdown_returns:
  assumes "table_ok m" and "\<not> mg_quit m" and "Shutdown u fmt_time itoa now stop_conn m st = Ret (m', st', out, ok)"
  shows "ok \<and> mg_quit m' \<and> mg_sessions m' = [] \<and> mg_count m' = mg_count m - int (length (mg_sessions m)) \<and>
    mg_count m' \<le> 0 \<and> stored_states out = map fst (mg_sessions m) \<and> pending_ids m = {}"
proof -
  obtain m1 st1 o1 o2 where
    s: "stop_sessions u fmt_time itoa now stop_conn (map fst (mg_sessions m)) (m\<lparr>mg_quit := True\<rparr>) st = Ret (m1, st1, o1)"
    and c: "mg_count m1 \<le> 0" and b: "storeSubscribers u (mg_subscribers m1) m1 st1 = Some (m', st', o2)" "out = o1 @ o2" "ok"
    using assms(2,3) by (auto simp: Shutdown_def go_bind_eq_Ret_conv not_less split: if_split_asm)
  from stop_sessions_all [OF _ _ s] assms(1) storeSubscribers_states [OF b(1)] c b show ?thesis by auto
qed


definition sample_waiting :: session where
  "sample_waiting = (newSession [0x64] 0)\<lparr>se_connStop := True,
     se_cfg := Some \<lparr>rc_subscriber = None, rc_will = None, rc_expireIn = Some 100, rc_willDelay = 0, rc_killOnDisconnect = False\<rparr>\<rparr>"


section \<open>A CONNACK that cannot be written\<close>

lemma loadSession_locked:
  assumes "loadSession u now f cid v m st = Ret (m', st', out, Inr s)"
  shows "se_locked s"
  using assms
  by (auto simp: loadSession_def allocSession_def setOnline_def Let_def go_bind_eq_Ret_conv split: option.split_asm if_split_asm)

lemma loadSession_taken:
  assumes "loadSession u now f cid v m st = Ret (m', st', out, Inl e)"
  shows "\<exists>old. map_of (mg_sessions m) cid = Some old \<and> se_online old \<and> \<not> cf_AllowReplace (mg_cfg m)"
  using assms
  by (auto simp: loadSession_def setOnline_def Let_def go_bind_eq_Ret_conv split: option.split_asm if_split_asm)

lemma configured_pending: "configured ses s \<Longrightarrow> conn_pending s \<and> se_locked s = se_locked ses \<and> se_id s = se_id ses"
  by (auto simp: configured_def conn_pending_def)

lemma loadSession_blocks:
  "map_of (mg_sessions m) cid = Some s \<Longrightarrow> se_locked s \<Longrightarrow> loadSession u now f cid v m st = Block"
  by (simp add: loadSession_def Let_def)

text \<open>
  When the CONNACK of a CONNECT that was accepted cannot be written, its session stays in the table
  with a connection that is not started and with its mutex held, for ever: the next CONNECT with
  the id blocks, and \<open>Shutdown\<close> does not return.
\<close>

theorem unwritten_connack:
  assumes "NewSession u parse now f gen ex stored during fresh False req resp m st = Ret (m', st', out, r, res)"
    and "mgr_inv m" and "connack_returnCode (checkServerStatus (h_version req) resp m) = CodeSuccess"
    and "\<forall>old. map_of (mg_sessions m) (connect_id gen req) = Some old \<longrightarrow> \<not> se_online old \<or> cf_AllowReplace (mg_cfg m)"
    and "map_of (mg_sessions m') (connect_id gen req) = Some s"
  shows "se_locked s \<and> conn_pending s \<and>
    (connect_id gen2 req2 = connect_id gen req \<longrightarrow>
       connack_returnCode (checkServerStatus (h_version req2) resp2 m') = CodeSuccess \<longrightarrow>
       NewSession u parse now2 f2 gen2 ex2 stored2 during2 fresh2 wr2 req2 resp2 m' st2 = Block) \<and>
    (\<not> mg_quit m' \<longrightarrow> (\<forall>x. Shutdown u fmt_time itoa now3 stop_conn m' st3 \<noteq> Ret x))"
proof -
  let ?cid = "connect_id gen req"
  obtain m1 st1 o1 l where l: "loadSession u now f ?cid (h_version req) m st = Ret (m1, st1, o1, l)"
    and c: "connect_session u parse now ex stored during fresh False req (checkServerStatus (h_version req) resp m)
      ?cid (length (clientID req) = 0) (m1, st1, o1, l) = Some (m', st', out, r, res)"
    using assms(1,3) by (auto simp: NewSession_def open_session_def go_bind_eq_Ret_conv Let_def)
  obtain ses where ses: "l = Inr ses" using loadSession_taken [of u now f ?cid] l assms(4) by (cases l) blast+
  note ld = loadSession_inv [OF l assms(2), unfolded loaded_def ses, simplified]
  obtain m2 y2 o2 r2 c2 where m2: "configureSession u parse now ex stored during fresh req
      (checkServerStatus (h_version req) resp m) ses ?cid (length (clientID req) = 0) m1 st1 = Some (m2, y2, o2, r2, c2)"
    using c unfolding ses by (auto simp: connect_session_def bind_eq_Some_conv)
  obtain s' k where c2: "c2 = Inr (s', k)"
    using c assms(5) m2 unfolding ses
    by (cases c2) (auto simp: connect_session_def finish_connect_def delete_conv' Let_def)
  have "m' = m2" using c m2 c2 unfolding ses by (auto simp: connect_session_def finish_connect_def Let_def)
  moreover have r: "configured ses s'" "mg_sessions m2 = mg_sessions (set_session s' m1)"
    using configureSession_result [OF m2] c2 by auto
  ultimately have "s = s'" using assms(5) ld configured_pending [OF r(1)] by (auto simp: set_session_def update_conv' split: if_split_asm)
  then have s: "se_locked s \<and> conn_pending s"
    using configured_pending [OF r(1)] loadSession_locked [OF l [unfolded ses]] by simp
  then have "?cid \<in> pending_ids m'" using assms(5) by (simp add: pending_ids_def)
  moreover have "table_ok m'" using NewSession_inv [OF assms(1,2)] by (simp add: mgr_inv_table)
  ultimately have sh: "Shutdown u fmt_time itoa now3 stop_conn m' st3 \<noteq> Ret x" if "\<not> mg_quit m'" for x
    using Shutdown_returns [of m' u fmt_time itoa now3 stop_conn st3] that by (cases x) fastforce
  have bl: "NewSession u parse now2 f2 gen2 ex2 stored2 during2 fresh2 wr2 req2 resp2 m' st2 = Block"
    if "connect_id gen2 req2 = ?cid" "connack_returnCode (checkServerStatus (h_version req2) resp2 m') = CodeSuccess"
  proof -
    have "loadSession u now2 f2 ?cid (h_version req2) m' st2 = Block" using s by (intro loadSession_blocks [OF assms(5)]) simp
    then show ?thesis unfolding NewSession_def open_session_def Let_def using that by simp
  qed
  show ?thesis using s bl sh by blast
qed

abbreviation (input) sample_NewSession :: "bool \<Rightarrow> manager \<Rightarrow> (manager \<times> unit \<times> mgr_call list \<times> ConnAck \<times> connect_result) go_run" where
  "sample_NewSession wr m \<equiv> NewSession (\<lambda>_ _ _. None) (\<lambda>_. None) 0 (\<lambda>_. (\<lparr>dp_ExpireAt = None, dp_Reason = CodeSuccess, dp_Will = True\<rparr>, False))
     [] False None [] 5 wr sample_connect (header_init ProtocolV311 CONNACK newConnAck) m ()"

abbreviation (input) sample_empty :: manager where
  "sample_empty \<equiv> sample_manager\<lparr>mg_subscribers := []\<rparr>"

theorem unwritten_connack_witness:
  "\<exists>m' x. sample_NewSession False sample_empty = Ret (m', x) \<and> sample_NewSession True m' = Block \<and>
     (\<forall>y. Shutdown (\<lambda>_ _ _. None) (\<lambda>_. []) (\<lambda>_. []) 5 (\<lambda>_. undefined) m' () \<noteq> Ret y)"
proof -
  have "case sample_NewSession False sample_empty of
      Ret (m', _) \<Rightarrow> map_of (mg_sessions m') [0x63] \<noteq> None \<and> \<not> mg_quit m' | _ \<Rightarrow> False"
    by code_simp
  then obtain m' st' out r res s where n: "sample_NewSession False sample_empty = Ret (m', st', out, r, res)"
    "map_of (mg_sessions m') [0x63] = Some s" "\<not> mg_quit m'"
    by (auto split: go_run.split_asm)
  have c: "connect_id [] sample_connect = [0x63]"
    "connack_returnCode (header_init ProtocolV311 CONNACK newConnAck) = CodeSuccess" by code_simp+
  have m: "mgr_inv sample_empty" "\<not> mg_quit sample_empty" "mg_sessions sample_empty = []"
    by (simp_all add: sample_manager_def mgr_inv_def)
  from unwritten_connack [OF n(1) m(1), where s = s and ?gen2.0 = "[]" and ?req2.0 = sample_connect
      and ?resp2.0 = "header_init ProtocolV311 CONNACK newConnAck"] n m c
  show ?thesis by (auto simp: checkServerStatus_def)
qed

section \<open>Two CONNECTs that take over the same client\<close>

lemma store_again:
  assumes "mgr_inv m" and "map_of (mg_sessions m) cid = Some s"
  shows "table_ok (store_session cid (allocSession cid t) m) \<and>
    mg_count (store_session cid (allocSession cid t) m) = int (length (mg_sessions (store_session cid (allocSession cid t) m))) + 1"
  using assms sessions_update [OF assms(2)]
  by (auto simp: mgr_inv_def table_ok_def store_session_def list_all_iff distinct_update session_ok_def allocSession_def newSession_def
      dest!: set_AList_update)

text \<open>
  A take-over deletes the entry of the id before it stores the new one. A second CONNECT
  with the id that comes in between finds no session and no mutex, and stores its own; the first one
  overwrites it. From then on \<open>sessionsCount\<close> is one above the number of sessions in the table,
  and \<open>Shutdown\<close> never returns.
\<close>

theorem takeover_race:
  fixes t :: Time
  assumes "mgr_inv m" and "map_of (mg_sessions m) cid = Some old" and "takeover_stop u now f old m st = Ret (m1, st1, out1)"
    and "NewSession u parse now2 f2 gen ex stored during fresh wr req resp m1 st1 = Ret (m2, st2, out2, r, res)"
    and "map_of (mg_sessions m2) cid = Some s2"
  defines "m3 \<equiv> store_session cid (allocSession cid t) m2"
  shows "map_of (mg_sessions m1) cid = None \<and> mgr_inv m2 \<and> map_of (mg_sessions m3) cid = Some (allocSession cid t) \<and>
    length (mg_sessions m3) = length (mg_sessions m2) \<and> mg_count m3 = int (length (mg_sessions m3)) + 1 \<and>
    (\<not> mg_quit m3 \<longrightarrow> (\<forall>x. Shutdown u fmt_time itoa now3 stop_conn m3 st3 \<noteq> Ret x))"
proof -
  note m1 = takeover_inv [OF assms(3,1,2)]
  have m2: "mgr_inv m2" using NewSession_inv [OF assms(4)] m1 by blast
  note m3 = store_again [OF m2 assms(5), of t, folded m3_def]
  have "Shutdown u fmt_time itoa now3 stop_conn m3 st3 \<noteq> Ret x" if "\<not> mg_quit m3" for x
    using Shutdown_returns [of m3 u fmt_time itoa now3 stop_conn st3] m3 that by (cases x) fastforce
  then show ?thesis
    using m1 [THEN conjunct2, THEN conjunct1] m2 m3 sessions_update [OF assms(5)]
    by (simp add: m3_def store_session_def update_conv')
qed

theorem takeover_race_witness:
  "\<exists>m x old m1 y m2 z. sample_NewSession True sample_empty = Ret (m, x) \<and> map_of (mg_sessions m) [0x63] = Some old \<and>
     takeover_stop (\<lambda>_ _ _. None) 0 (\<lambda>_. (\<lparr>dp_ExpireAt = None, dp_Reason = CodeSuccess, dp_Will = True\<rparr>, False)) old m () = Ret (m1, y) \<and>
     sample_NewSession True m1 = Ret (m2, z) \<and>
     mg_count (store_session [0x63] (allocSession [0x63] 0) m2) = 2 \<and>
     length (mg_sessions (store_session [0x63] (allocSession [0x63] 0) m2)) = 1"
proof -
  let ?f = "\<lambda>_. (\<lparr>dp_ExpireAt = None, dp_Reason = CodeSuccess, dp_Will = True\<rparr>, False)"
  have "case sample_NewSession True sample_empty of Ret (m, _) \<Rightarrow> (case map_of (mg_sessions m) [0x63] of Some old \<Rightarrow>
      (case takeover_stop (\<lambda>_ _ _. None) 0 ?f old m () of Ret (m1, _) \<Rightarrow>
        (case sample_NewSession True m1 of Ret (m2, _) \<Rightarrow> map_of (mg_sessions m2) [0x63] \<noteq> None \<and> length (mg_sessions m2) = 1
         | _ \<Rightarrow> False) | _ \<Rightarrow> False) | _ \<Rightarrow> False) | _ \<Rightarrow> False"
    by code_simp
  then obtain m st out r res old where
    n: "sample_NewSession True sample_empty = Ret (m, st, out, r, res)" "map_of (mg_sessions m) [0x63] = Some old"
    and rest: "case takeover_stop (\<lambda>_ _ _. None) 0 ?f old m () of Ret (m1, _) \<Rightarrow>
        (case sample_NewSession True m1 of Ret (m2, _) \<Rightarrow> map_of (mg_sessions m2) [0x63] \<noteq> None \<and> length (mg_sessions m2) = 1
         | _ \<Rightarrow> False) | _ \<Rightarrow> False"
    by (cases "sample_NewSession True sample_empty") (auto split: option.split_asm)
  from rest obtain m1 st1 o1 where t: "takeover_stop (\<lambda>_ _ _. None) 0 ?f old m () = Ret (m1, st1, o1)"
    and rest: "case sample_NewSession True m1 of Ret (m2, _) \<Rightarrow> map_of (mg_sessions m2) [0x63] \<noteq> None \<and> length (mg_sessions m2) = 1
      | _ \<Rightarrow> False"
    by (cases "takeover_stop (\<lambda>_ _ _. None) 0 ?f old m ()") auto
  from rest obtain m2 st2 o2 r2 res2 s2 where n2: "sample_NewSession True m1 = Ret (m2, st2, o2, r2, res2)"
    "map_of (mg_sessions m2) [0x63] = Some s2" "length (mg_sessions m2) = 1"
    by (cases "sample_NewSession True m1") auto
  have "mgr_inv m" using NewSession_inv [OF n(1)] by (simp add: sample_manager_def mgr_inv_def)
  with takeover_race [of m "[0x63]", OF _ n(2) t [simplified] n2(1) [simplified] n2(2), of 0] n t n2 show ?thesis by auto
qed

section \<open>A delayed will across a restart\<close>

text \<open>A message with quality of service 0 has no packet identifier on the wire, whatever is set.\<close>

definition without_id :: "Publish \<Rightarrow> Publish" where
  "without_id w = w\<lparr>packetID := (if Publish_QoS w = QoS0 then [] else [0, 0])\<rparr>"

lemma Encode_QoS0_id:
  assumes "Publish_QoS w = QoS0"
  shows "map_option snd (Encode (PPublish (w\<lparr>packetID := x\<rparr>))) = map_option snd (Encode (PPublish (w\<lparr>packetID := y\<rparr>)))"
proof -
  have e: "Publish_encodeMessage (w\<lparr>packetID := x, remLen := r\<rparr>) = Publish_encodeMessage (w\<lparr>packetID := y, remLen := r\<rparr>)" for r
    using assms by (simp add: Publish_encodeMessage_def Publish_QoS_def Publish_Dup_def)
  have sz: "Publish_size (w\<lparr>packetID := x\<rparr>) = Publish_size (w\<lparr>packetID := y\<rparr>)"
    "Publish_size (w\<lparr>packetID := x, remLen := r\<rparr>) = Publish_size (w\<lparr>packetID := y, remLen := r\<rparr>)" for r
    by (simp_all add: Publish_size_def Publish_QoS_def)
  show ?thesis
    by (simp add: Encode_def header_Size_def header_Encode_def header_setRemainingLength_def header_size_def header_store_def
        e sz Let_def split: Option.bind_split)
qed

lemma Encode_stored_will:
  assumes "Publish_wf v (without_id w)"
  shows "\<exists>p. Encode (PPublish (w\<lparr>packetID := [0, 0]\<rparr>)) = Some (p, packet_bytes (PPublish (without_id w)), None)"
proof -
  have e: "Encode (PPublish (without_id w)) = Some (packet_norm (PPublish (without_id w)), packet_bytes (PPublish (without_id w)), None)"
    using Encode_bytes [of v "PPublish (without_id w)"] assms by simp
  show ?thesis
  proof (cases "Publish_QoS w = QoS0")
    case True
    then show ?thesis
      using Encode_QoS0_id [OF True, of "[0, 0]" "[]"] e by (auto simp: without_id_def)
  next
    case False
    then show ?thesis using e by (auto simp: without_id_def)
  qed
qed

lemma stored_will_bytes:
  assumes "rc_will c = Some w" and "rc_willDelay c > 0" and "rc_willDelay c - elapsed > 0"
    and "Publish_wf v (without_id w)" and "length (packetID w) \<in> {0, 2}"
  shows "stored_will itoa elapsed c d =
    Some (c\<lparr>rc_willDelay := rc_willDelay c - elapsed\<rparr>,
      d\<lparr>sd_WillIn := itoa (int (unat (rc_willDelay c - elapsed))), sd_WillData := packet_bytes (PPublish (without_id w))\<rparr>)"
  using assms Encode_stored_will [OF assms(4)] by (auto simp: stored_will_def setPacketID_zero Let_def)

text \<open>
  C36. The will of a client that waits for its delay when the server stops is neither kept for the
  rest of the delay nor kept intact. Only sessions of version 5.0 have a delay, and the stored state names no
  version, so that the will is decoded as one of an older version: the topic is the same,
  the payload has an additional first byte 0. When the server starts again before the delay
  has passed, this will is published at once; when it starts later, when the will is due, loading the
  session panics and the server does not start. The will is as \<open>getWill\<close> makes it, without
  properties; \<open>parse_time\<close>, \<open>fmt_time\<close>, \<open>atoi\<close> and \<open>itoa\<close> only have to be inverse on the values of this session.
\<close>

theorem restart_delayed_will:
  fixes s :: session and c :: sessionReConfig and cid :: gostring and now :: Time and w :: Publish
  defines "elapsed \<equiv> of_int (time_Sub now (se_expiringSince s) sdiv 1000000000) :: uint32"
  assumes "se_cfg s = Some c" and "rc_will c = Some w" and "rc_willDelay c > 0" and "rc_willDelay c - elapsed > 0"
    and "Publish_wf ProtocolV50 (without_id w)" and "properties w = props_new ProtocolV50" and "pub_topic w \<noteq> []"
    and "length (packetID w) \<in> {0, 2}"
    and "parse_time (fmt_time (se_expiringSince s)) = Some since"
    and "itoa (int (unat (rc_willDelay c - elapsed))) \<noteq> []"
    and "atoi (itoa (int (unat (rc_willDelay c - elapsed)))) = Some (int (unat (rc_willDelay c - elapsed)))"
  shows "\<exists>s' state x. session_state fmt_time itoa now s = Some (s', state) \<and>
    pub_topic x = pub_topic w \<and> pub_payload x = 0 # pub_payload w \<and> Publish_QoS x = Publish_QoS w \<and>
    (\<forall>e. SessionState.truncate e = state \<and> \<not> ls_Errors e \<and> ls_Subscriptions e = [] \<longrightarrow>
       load_session_entry parse_time atoi now2 cid e =
         (if now2 < since + int (unat (rc_willDelay c - elapsed)) * 1000000000
          then LoadDone None [Some x] [SysCreated cid] else LoadPanic))"
proof -
  let ?n = "rc_willDelay c - elapsed"
  let ?w = "without_id w"
  let ?d = "\<lparr>sd_Since = fmt_time (se_expiringSince s), sd_WillIn = itoa (int (unat ?n)), sd_ExpireIn = [],
     sd_WillData = packet_bytes (PPublish ?w)\<rparr>"
  define x where "x = (Publish_as_old ProtocolV311 ?w)\<lparr>h_version := 0,
     remLen := of_nat (length (Publish_body (Publish_as_old ProtocolV311 ?w)))\<rparr>"
  have "stored_will itoa elapsed c
      \<lparr>sd_Since = fmt_time (se_expiringSince s), sd_WillIn = [], sd_ExpireIn = [], sd_WillData = []\<rparr> =
      Some (c\<lparr>rc_willDelay := ?n\<rparr>, ?d)"
    using stored_will_bytes [OF assms(3-5,6,9)] by simp
  then have st: "\<exists>s' state. session_state fmt_time itoa now s = Some (s', state) \<and> ss_Expire state = Some ?d \<and> ss_Version state = 0"
    using assms(2-4) by (simp add: session_state_def elapsed_def Let_def)
  have o: "Publish_wf ProtocolV311 (Publish_as_old ProtocolV311 ?w)"
    "packet_bytes (PPublish (Publish_as_old ProtocolV311 ?w)) = packet_bytes (PPublish ?w)"
    using Publish_as_old_wire [OF assms(6), of ProtocolV311] assms(7,8)
    by (simp_all add: without_id_def ProtocolVersion_IsValid_def SupportedVersions_def)
  have "Decode 0 (packet_bytes (PPublish ?w)) = (Some (PPublish x), length (packet_bytes (PPublish ?w)), None)"
    using Decode_zero [OF o(1)] o(2) by (simp add: x_def)
  then have w: "load_will atoi now2 since 0 ?d =
      (if now2 < since + int (unat ?n) * 1000000000 then (None, ?n, [Some x]) else (Some x, ?n, []))"
    using assms(11,12) by (simp add: load_will_def Let_def)
  have "load_session_entry parse_time atoi now2 cid e =
      (if now2 < since + int (unat ?n) * 1000000000 then LoadDone None [Some x] [SysCreated cid] else LoadPanic)"
    if "ss_Expire e = Some ?d" "ss_Version e = 0" "\<not> ls_Errors e" "ls_Subscriptions e = []" for e
    using that w assms(10) by (simp add: load_session_entry_def load_expireIn_def load_entry_subs_def)
  moreover have "ss_Expire e = ss_Expire (SessionState.truncate e)" "ss_Version e = ss_Version (SessionState.truncate e)" for e :: LoadedState
    by (simp_all add: SessionState.defs)
  moreover have "pub_topic x = pub_topic w" "pub_payload x = 0 # pub_payload w" "Publish_QoS x = Publish_QoS w"
    by (simp_all add: x_def Publish_as_old_def without_id_def Publish_QoS_def)
  ultimately show ?thesis using st by metis
qed

text \<open>The will of a version 5.0 CONNECT, as \<open>getWill\<close> makes it.\<close>

definition sample_will :: Publish where
  "sample_will = fst (Publish_Set [0x77] [1] QoS1 False False (New_Publish ProtocolV50))"

definition sample_dying :: session where
  "sample_dying = sample_waiting\<lparr>se_cfg := Some \<lparr>rc_subscriber = None, rc_will = Some sample_will, rc_expireIn = None,
     rc_willDelay = 9, rc_killOnDisconnect = False\<rparr>\<rparr>"

theorem restart_delayed_will_witness:
  "\<exists>state x. (\<exists>s'. session_state (\<lambda>_. []) (\<lambda>n. [of_int n]) 0 sample_dying = Some (s', state)) \<and> pub_payload x = [0, 1] \<and>
     load_session_entry (\<lambda>_. Some 0) (\<lambda>t. Some (uint (hd t))) 1000000000 [0x63]
       (SessionState.extend state \<lparr>ls_Errors = False, ls_Subscriptions = []\<rparr>) = LoadDone None [Some x] [SysCreated [0x63]]"
proof -
  have z: "(of_int (time_Sub 0 0 sdiv 1000000000) :: uint32) = 0" by (simp add: time_Sub_def)
  have wl: "sample_will = (New_Publish ProtocolV50)\<lparr>pub_topic := [0x77], pub_payload := [1], mFlags := 2\<rparr>" by code_simp
  have wf: "Publish_wf ProtocolV50 (without_id sample_will)"
    by (simp add: wl without_id_def New_Publish_def newPublish_def header_init_def header_setType_def wf_eval Publish_wf_def Publish_QoS_def
        Publish_Dup_def Publish_size_def)
  have c: "se_cfg sample_dying = Some \<lparr>rc_subscriber = None, rc_will = Some sample_will, rc_expireIn = None,
     rc_willDelay = 9, rc_killOnDisconnect = False\<rparr>" "se_expiringSince sample_dying = 0"
    by (simp_all add: sample_dying_def sample_waiting_def newSession_def)
  have p: "length (packetID sample_will) \<in> {0, 2}" "properties sample_will = props_new ProtocolV50" "pub_topic sample_will \<noteq> []"
    "pub_payload sample_will = [1]"
    by code_simp+
  obtain s' state x where "session_state (\<lambda>_. []) (\<lambda>n. [of_int n]) 0 sample_dying = Some (s', state)" "pub_payload x = [0, 1]"
    "\<forall>e. SessionState.truncate e = state \<and> \<not> ls_Errors e \<and> ls_Subscriptions e = [] \<longrightarrow>
       load_session_entry (\<lambda>_. Some 0) (\<lambda>t. Some (uint (hd t))) 1000000000 [0x63] e = LoadDone None [Some x] [SysCreated [0x63]]"
    using restart_delayed_will [OF c(1), of sample_will 0 "\<lambda>_. Some 0" "\<lambda>_. []" 0 "\<lambda>n. [of_int n]"
        "\<lambda>t. Some (uint (hd t))" 1000000000 "[0x63]"] z wf p
    by (auto simp: c(2))
  then show ?thesis by (intro exI [of _ state] exI [of _ x]) (auto simp: SessionState.defs)
qed

section \<open>A server that is shutting down\<close>

lemma quit_set: "set_session s (m\<lparr>mg_quit := b\<rparr>) = (set_session s m)\<lparr>mg_quit := b\<rparr>"
  by (simp add: set_session_def)

lemma quit_store: "store_session cid s (m\<lparr>mg_quit := b\<rparr>) = (store_session cid s m)\<lparr>mg_quit := b\<rparr>"
  by (simp add: store_session_def)

lemma quit_run_calls:
  "run_calls u calls (m\<lparr>mg_quit := b\<rparr>) st =
     map_option (\<lambda>(m', r). (m'\<lparr>mg_quit := b\<rparr>, r)) (run_calls u calls m st)"
proof (induction u calls m st rule: run_calls.induct)
  case (2 u c cs m st)
  have s: "onSubscriberShutdown u a (m\<lparr>mg_quit := b\<rparr>) st =
      map_option (\<lambda>(m', r). (m'\<lparr>mg_quit := b\<rparr>, r)) (onSubscriberShutdown u a m st)" for a
    by (auto simp: onSubscriberShutdown_def split: Option.bind_splits)
  show ?case
  proof (cases c)
    case (ShutdownSubscriber a)
    show ?thesis
    proof (cases "onSubscriberShutdown u a m st")
      case (Some x)
      obtain m1 st1 where x: "x = (m1, st1)" by (cases x)
      show ?thesis
        using 2 [of "(m1, st1, [])" m1 "(st1, [])" st1 "[]"] ShutdownSubscriber Some x
        by (cases "run_calls u cs m1 st1") (auto simp: s)
    qed (simp add: s ShutdownSubscriber)
  next
    case (SignalClose i r)
    let ?m = "fst (onSessionClose i r m)"
    have "onSessionClose i r (m\<lparr>mg_quit := b\<rparr>) = (?m\<lparr>mg_quit := b\<rparr>, snd (onSessionClose i r m))"
      by (simp add: onSessionClose_def)
    then show ?thesis
      using 2 [of "(?m, st, snd (onSessionClose i r m))" ?m "(st, snd (onSessionClose i r m))" st "snd (onSessionClose i r m)"] SignalClose
      by (cases "run_calls u cs ?m st") (auto simp: case_prod_beta)
  next
    case (SignalDisconnected i r t)
    then show ?thesis
      using 2 [of "(m, st, [SysDisconnected i r t])" m _ st] by (cases "run_calls u cs m st") auto
  next
    case (PublishWill w)
    then show ?thesis
      using 2 [of "(m, st, [CallPublish w])" m _ st] by (cases "run_calls u cs m st") auto
  qed
qed simp

lemma quit_loadSession:
  "loadSession u now f cid v (m\<lparr>mg_quit := b\<rparr>) st =
     map_go_run (\<lambda>(m', r). (m'\<lparr>mg_quit := b\<rparr>, r)) (loadSession u now f cid v m st)"
proof -
  have "takeover_stop u now f old (m\<lparr>mg_quit := b\<rparr>) st =
      map_go_run (\<lambda>(m', r). (m'\<lparr>mg_quit := b\<rparr>, r)) (takeover_stop u now f old m st)" for old
    by (cases "stop_session now f CodeSessionTakenOver old")
      (auto simp: takeover_stop_def quit_set quit_run_calls map_go_opt split: prod.split)
  then show ?thesis
    by (cases "map_of (mg_sessions m) cid")
      (auto simp: loadSession_def setOnline_def quit_set quit_store go_bind_map map_go_bind Let_def case_prod_beta)
qed

lemma quit_getSubscriber:
  "getSubscriber u ex fresh cid cl v (m\<lparr>mg_quit := b\<rparr>) st =
     map_option (\<lambda>(m', r). (m'\<lparr>mg_quit := b\<rparr>, r)) (getSubscriber u ex fresh cid cl v m st)"
  by (auto simp: getSubscriber_def split: option.splits Option.bind_splits)

lemma quit_negotiate: "negotiate req resp ids a (m\<lparr>mg_quit := b\<rparr>) = negotiate req resp ids a m"
  by (simp add: negotiate_def newConnectionPreConfig_def Let_def)

lemma quit_configureSession:
  "configureSession u parse now ex stored during fresh req resp ses cid g (m\<lparr>mg_quit := b\<rparr>) st =
     map_option (\<lambda>(m', r). (m'\<lparr>mg_quit := b\<rparr>, r)) (configureSession u parse now ex stored during fresh req resp ses cid g m st)"
proof (cases "getSubscriber u ex fresh cid (Connect_IsClean req) (h_version req) m st")
  case (Some x)
  obtain m1 st1 out a present where x: "x = (m1, st1, out, a, present)" by (cases x)
  show ?thesis
  proof (cases "negotiate req resp (if g then cid else []) a m1")
    case Some': (Some y)
    obtain resp1 r where y: "y = (resp1, r)" by (cases y)
    have s: "set_session s (m1\<lparr>mg_quit := b, mg_heap := h\<rparr>) = (set_session s (m1\<lparr>mg_heap := h\<rparr>))\<lparr>mg_quit := b\<rparr>" for s h
      using quit_set by (simp add: set_session_def)
    show ?thesis
      by (cases r) (auto simp: configureSession_def quit_getSubscriber quit_negotiate Some Some' x y s Let_def
          split: Option.bind_splits)
  qed (simp add: configureSession_def quit_getSubscriber quit_negotiate Some x)
qed (simp add: configureSession_def quit_getSubscriber)

lemma SetReturnCode_shutting_down: "mType r = CONNACK \<Longrightarrow> fst (ConnAck_SetReturnCode CodeServerShuttingDown r) = r"
  by (simp add: ConnAck_SetReturnCode_def Code_IsValidForType_def packetTypeCodeMap_def)

lemma quit_connect_session:
  "connect_session u parse now ex stored during fresh wr req resp cid g (m\<lparr>mg_quit := b\<rparr>, l) =
     map_option (\<lambda>(m', r). (m'\<lparr>mg_quit := b\<rparr>, r)) (connect_session u parse now ex stored during fresh wr req resp cid g (m, l))"
proof -
  obtain st1 out1 r where l: "l = (st1, out1, r)" by (cases l)
  show ?thesis
  proof (cases r)
    case (Inr ses)
    show ?thesis
    proof (cases "configureSession u parse now ex stored during fresh req resp ses cid g m st1")
      case Some': (Some y)
      obtain m2 st2 out2 resp1 c where y: "y = (m2, st2, out2, resp1, c)" by (cases y)
      show ?thesis
        by (cases c) (auto simp: connect_session_def l Inr quit_configureSession Some' y quit_set
            split: Option.bind_splits connect_result.splits)
    qed (simp add: connect_session_def l Inr quit_configureSession)
  qed (simp add: connect_session_def l split: Option.bind_splits)
qed

lemma quit_open_session:
  "open_session u parse now f ex stored during fresh wr req resp cid g (m\<lparr>mg_quit := b\<rparr>) st =
     map_go_run (\<lambda>(m', r). (m'\<lparr>mg_quit := b\<rparr>, r)) (open_session u parse now f ex stored during fresh wr req resp cid g m st)"
  by (simp add: open_session_def quit_loadSession go_bind_map map_go_bind map_go_opt quit_connect_session case_prod_beta)

text \<open>
  A server that is shutting down goes on accepting clients of version 5.0: the manager treats
  their CONNECT exactly as if it were not shutting down, because the reason \<open>CodeServerShuttingDown\<close> is
  not one that a CONNACK may carry and \<open>SetReturnCode\<close> leaves the return code at success.
\<close>

theorem shutdown_ignored_by_v5:
  assumes "h_version req = ProtocolV50" and "mType resp = CONNACK" and "mg_quit m"
  shows "NewSession u parse now f gen ex stored during fresh wr req resp m st =
    map_go_run (\<lambda>(m', r). (m'\<lparr>mg_quit := True\<rparr>, r))
      (NewSession u parse now f gen ex stored during fresh wr req resp (m\<lparr>mg_quit := False\<rparr>) st)"
proof -
  define m0 where "m0 = m\<lparr>mg_quit := False\<rparr>"
  have m: "m = m0\<lparr>mg_quit := True\<rparr>" using assms(3) by (simp add: m0_def)
  have c: "checkServerStatus ProtocolV50 resp m' = resp" for m'
    using assms(2) by (simp add: checkServerStatus_def SetReturnCode_shutting_down)
  have "NewSession u parse now f gen ex stored during fresh wr req resp (m0\<lparr>mg_quit := True\<rparr>) st =
    map_go_run (\<lambda>(m', r). (m'\<lparr>mg_quit := True\<rparr>, r))
      (NewSession u parse now f gen ex stored during fresh wr req resp m0 st)"
  proof (cases "connack_returnCode resp = CodeSuccess")
    case True
    then show ?thesis by (simp add: NewSession_def Let_def assms(1) c quit_open_session)
  next
    case False
    then show ?thesis
      by (cases "finish_connect wr ProtocolV50 resp False None") (auto simp: NewSession_def Let_def assms(1) c)
  qed
  then show ?thesis unfolding m [symmetric] unfolding m0_def .
qed

definition sample_connect5 :: Connect where
  "sample_connect5 = (header_init ProtocolV50 CONNECT newConnect)\<lparr>clientID := [0x63], connectFlags := 2\<rparr>"

theorem shutdown_ignored_by_v5_witness:
  "\<exists>m' r. NewSession (\<lambda>_ _ _. None) (\<lambda>_. None) 0 (\<lambda>_. undefined) [] False None [] 5 True sample_connect5
      (header_init ProtocolV50 CONNACK newConnAck) (sample_manager\<lparr>mg_subscribers := [], mg_quit := True\<rparr>) () = Ret (m', r) \<and>
     mg_quit m' \<and> length (mg_sessions m') = 1"
proof -
  let ?m = "sample_manager\<lparr>mg_subscribers := [], mg_quit := True\<rparr>"
  have "case NewSession (\<lambda>_ _ _. None) (\<lambda>_. None) 0 (\<lambda>_. undefined) [] False None [] 5 True sample_connect5
      (header_init ProtocolV50 CONNACK newConnAck) (?m\<lparr>mg_quit := False\<rparr>) () of
      Ret (m', _) \<Rightarrow> length (mg_sessions m') = 1 | _ \<Rightarrow> False"
    by code_simp
  moreover have "h_version sample_connect5 = ProtocolV50" "mType (header_init ProtocolV50 CONNACK newConnAck) = CONNACK"
    by code_simp+
  ultimately show ?thesis
    using shutdown_ignored_by_v5 [of sample_connect5 "header_init ProtocolV50 CONNACK newConnAck" ?m "\<lambda>_ _ _. None" "\<lambda>_. None" 0
        "\<lambda>_. undefined" "[]" False None "[]" 5 True "()"]
    by (auto split: go_run.split_asm)
qed

end
