(* ===== verification/Handshake.thy ===== *)
theory Handshake
  imports Sessions_Manager
begin

text \<open>
  How a client gets in: \<open>routines/misc.go\<close>, which reads one message byte by byte and writes one, and
  \<open>handleConnection\<close> of \<open>transport/base.go\<close>, which reads the CONNECT, checks the version and the
  password and hands the client to the manager.

  A network connection is the list of the pieces its \<open>Read\<close> calls deliver, the end of the list being the
  read error; a piece may be empty, because a \<open>Read\<close> of a websocket may return no byte and no error.
  The deadline, the metrics and the logging are left out.
\<close>

section \<open>Reading and writing a message\<close>

definition conn_Read :: "nat \<Rightarrow> byte list list \<Rightarrow> (byte list \<times> byte list list) option" where
  "conn_Read k ps =
     (case ps of
        [] \<Rightarrow> None
      | p # ps' \<Rightarrow> if length p \<le> k then Some (p, ps') else Some (take k p, drop k p # ps'))"

datatype msg_error = ErrRead | ErrLength

definition conn_size :: "byte list list \<Rightarrow> nat" where
  "conn_size ps = sum_list (map (\<lambda>p. Suc (length p)) ps)"

lemma conn_Read_size: "conn_Read k ps = Some (b, ps') \<Longrightarrow> 0 < k \<Longrightarrow> conn_size ps' < conn_size ps"
  by (auto simp: conn_Read_def conn_size_def split: list.splits if_splits)

text \<open>The loop over the fixed header: \<open>buf\<close> is what it has read, so \<open>l\<close> is its length.\<close>

function get_header :: "byte list \<Rightarrow> byte list list \<Rightarrow> (msg_error + byte list) \<times> byte list list" where
  "get_header buf ps =
     (if length buf > 5 then (Inl ErrLength, ps)
      else (case conn_Read 1 ps of
              None \<Rightarrow> (Inl ErrRead, [])
            | Some (b, ps') \<Rightarrow>
                (case b of
                   [] \<Rightarrow> get_header buf ps'
                 | x # _ \<Rightarrow>
                     if length (buf @ [x]) > 1 \<and> x < 0x80 then (Inr (buf @ [x]), ps')
                     else get_header (buf @ [x]) ps')))"
  by pat_completeness auto
termination
  by (relation "measure (\<lambda>(buf, ps). conn_size ps)") (auto dest: conn_Read_size)

declare get_header.simps [simp del]

text \<open>The loop over the body, with \<open>k\<close> bytes to go.\<close>

function get_body :: "nat \<Rightarrow> byte list \<Rightarrow> byte list list \<Rightarrow> (msg_error + byte list) \<times> byte list list" where
  "get_body k buf ps =
     (if k = 0 then (Inr buf, ps)
      else (case conn_Read k ps of
              None \<Rightarrow> (Inl ErrRead, [])
            | Some (b, ps') \<Rightarrow> get_body (k - length b) (buf @ b) ps'))"
  by pat_completeness auto
termination
  by (relation "measure (\<lambda>(k, buf, ps). conn_size ps)") (auto dest: conn_Read_size)

declare get_body.simps [simp del]

text \<open>The size of the body that is allocated once the header is complete.\<close>

definition body_alloc :: "byte list \<Rightarrow> nat" where
  "body_alloc header = unat (fst (binary_Uvarint (tl header)))"

definition GetMessageBuffer :: "byte list list \<Rightarrow> (msg_error + byte list) \<times> byte list list" where
  "GetMessageBuffer ps =
     (case get_header [] ps of
        (Inl e, ps') \<Rightarrow> (Inl e, ps')
      | (Inr header, ps') \<Rightarrow> get_body (body_alloc header) header ps')"

text \<open>\<open>WriteMessage\<close>: the bytes that are written, or the error.\<close>

definition WriteMessage :: "packet \<Rightarrow> (go_error + byte list) option" where
  "WriteMessage msg =
     (case Packet_Size msg of
        (msg', n0, Some e) \<Rightarrow> Some (Inl e)
      | (msg', n0, None) \<Rightarrow>
          (case Packet_Encode msg' (replicate n0 0) of
             None \<Rightarrow> None
           | Some (_, buf, n, Some e) \<Rightarrow> Some (Inl e)
           | Some (_, buf, n, None) \<Rightarrow> Some (Inr buf)))"

section \<open>handleConnection\<close>

definition allowed_version :: "(ProtocolVersion \<times> bool) list \<Rightarrow> ProtocolVersion \<Rightarrow> bool" where
  "allowed_version allowed v = (map_of allowed v = Some True)"

text \<open>The return code of the CONNACK, before the manager sees it; \<open>None\<close> is a panic of an authenticator.\<close>

definition connect_reason :: "(ProtocolVersion \<times> bool) list \<Rightarrow> Manager \<Rightarrow> Connect \<Rightarrow> ReasonCode option" where
  "connect_reason allowed auth r =
     (if \<not> allowed_version allowed (h_version r)
      then Some (if h_version r = ProtocolV50 then CodeUnsupportedProtocol else CodeRefusedUnacceptableProtocolVersion)
      else do {
        status \<leftarrow> manager_Password auth (username r) (password r);
        Some (if status = StatusAllow then CodeSuccess
              else if h_version r = ProtocolV50 then CodeBadUserOrPassword else CodeRefusedBadUsernameOrPassword) })"

text \<open>What becomes of the connection: closed here, or left to the manager, with the CONNACK and its result.\<close>

datatype handshake = HClosed | HAnswered ConnAck connect_result

definition handleConnection ::
    "(ProtocolVersion \<times> bool) list \<Rightarrow> Manager \<Rightarrow> 'st topics_UnSubscribe \<Rightarrow> (gostring \<Rightarrow> Time option) \<Rightarrow> Time \<Rightarrow>
     (ReasonCode \<Rightarrow> DisconnectParams \<times> bool) \<Rightarrow> gostring \<Rightarrow> bool \<Rightarrow> persisted list option \<Rightarrow> Publish list \<Rightarrow> uintptr \<Rightarrow> bool \<Rightarrow>
     byte list list \<Rightarrow> manager \<Rightarrow> 'st \<Rightarrow> (manager \<times> 'st \<times> mgr_call list \<times> byte list list \<times> handshake) go_run" where
  "handleConnection allowed auth unsubscribe parse_time now stop_conn gen ex stored during fresh wr ps m st =
     (case GetMessageBuffer ps of
        (Inl e, ps') \<Rightarrow> Ret (m, st, [], ps', HClosed)
      | (Inr buf, ps') \<Rightarrow>
          (case Decode ProtocolV50 buf of
             (req, _, Some e) \<Rightarrow> Ret (m, st, [], ps', HClosed)
           | (None, _, None) \<Rightarrow> Panic
           | (Some (PConnect r), _, None) \<Rightarrow>
               go_bind (go_opt (connect_reason allowed auth r)) (\<lambda>reason.
               let resp = fst (ConnAck_SetReturnCode reason (header_init (h_version r) CONNACK newConnAck)) in
               go_bind (NewSession unsubscribe parse_time now stop_conn gen ex stored during fresh wr r resp m st)
                 (\<lambda>(m', st', out, resp', res). Ret (m', st', out, ps', HAnswered resp' res)))
           | (Some _, _, None) \<Rightarrow> Ret (m, st, [], ps', HClosed)))"


section \<open>What is read\<close>

lemma conn_Read_content:
  "conn_Read k ps = Some (b, ps') \<Longrightarrow> b @ concat ps' = concat ps \<and> length b \<le> k"
  by (auto simp: conn_Read_def split: list.splits if_splits)

lemma conn_Read_None: "conn_Read k ps = None \<Longrightarrow> concat ps = []"
  by (auto simp: conn_Read_def split: list.splits if_splits)

lemma get_header_content:
  assumes "concat ps = bs @ b # rest" and "\<forall>c \<in> set bs. 0x80 \<le> c" and "b < 0x80" and "buf \<noteq> []"
    and "length buf + length bs \<le> 5"
  shows "\<exists>ps'. get_header buf ps = (Inr (buf @ bs @ [b]), ps') \<and> concat ps' = rest"
  using assms
proof (induction buf ps arbitrary: bs rule: get_header.induct)
  case (1 buf ps)
  obtain x ps1 where r: "conn_Read 1 ps = Some (x, ps1)"
    using "1.prems"(1) conn_Read_None [of 1 ps] by (cases "conn_Read 1 ps") auto
  note c = conn_Read_content [OF r]
  have l: "\<not> length buf > 5" using "1.prems"(5) by simp
  show ?case
  proof (cases x)
    case Nil
    then show ?thesis
      using "1.IH"(1) [OF l r refl, of bs] "1.prems" c r l by (subst get_header.simps) auto
  next
    case (Cons y ys)
    then have ys: "ys = []" using c by (cases ys) auto
    show ?thesis
    proof (cases bs)
      case Nil
      then show ?thesis using Cons ys "1.prems" c r l by (subst get_header.simps) auto
    next
      case bs: (Cons z zs)
      then have z: "y = z" "concat ps1 = zs @ b # rest" "\<not> z < 0x80" using Cons ys c "1.prems"(1,2) by auto
      then show ?thesis
        using "1.IH"(2) [OF l r refl Cons, of zs] "1.prems" bs r l Cons ys by (subst get_header.simps) auto
    qed
  qed
qed

lemma get_header_start:
  assumes "concat ps = h # bs @ b # rest" and "\<forall>c \<in> set bs. 0x80 \<le> c" and "b < 0x80" and "length bs \<le> 4"
  shows "\<exists>ps'. get_header [] ps = (Inr (h # bs @ [b]), ps') \<and> concat ps' = rest"
  using assms(1)
proof (induction "[] :: byte list" ps rule: get_header.induct)
  case (1 ps)
  obtain x ps1 where r: "conn_Read 1 ps = Some (x, ps1)"
    using "1.prems" conn_Read_None [of 1 ps] by (cases "conn_Read 1 ps") auto
  note c = conn_Read_content [OF r]
  show ?case
  proof (cases x)
    case Nil
    then show ?thesis using "1.hyps"(1) [OF _ r] "1.prems" c r by (subst get_header.simps) auto
  next
    case (Cons y ys)
    then have "ys = []" "y = h" "concat ps1 = bs @ b # rest" using c "1.prems" by (cases ys; auto)+
    then show ?thesis
      using get_header_content [of ps1 bs b rest "[h]"] assms Cons r by (subst get_header.simps) auto
  qed
qed

lemma get_body_content:
  "concat ps = body @ rest \<Longrightarrow> length body = k \<Longrightarrow> \<exists>ps'. get_body k buf ps = (Inr (buf @ body), ps') \<and> concat ps' = rest"
proof (induction k buf ps arbitrary: body rule: get_body.induct)
  case (1 k buf ps)
  show ?case
  proof (cases "k = 0")
    case True
    then show ?thesis using "1.prems" by (subst get_body.simps) simp
  next
    case False
    then obtain x ps1 where r: "conn_Read k ps = Some (x, ps1)"
      using "1.prems" conn_Read_None [of k ps] by (cases "conn_Read k ps") auto
    note c = conn_Read_content [OF r]
    have "x = take (length x) body" "concat ps1 = drop (length x) body @ rest"
      using c "1.prems" by (auto simp: append_eq_append_conv_if)
    moreover from this have "length (drop (length x) body) = k - length x" using "1.prems"(2) by simp
    ultimately show ?thesis
      using "1.IH" [OF False r refl, of "drop (length x) body"] False r
      by (subst get_body.simps) (metis (mono_tags, lifting) append.assoc append_take_drop_id case_prod_conv option.case(2))
  qed
qed

lemma GetMessageBuffer_frame:
  assumes "packet_wf v p" and "concat ps = packet_bytes p @ rest"
  shows "\<exists>ps'. GetMessageBuffer ps = (Inr (packet_bytes p), ps') \<and> concat ps' = rest"
proof -
  obtain h n where f: "int n \<le> maxRemainingLength" "packet_bytes p = h # uvarint_bytes (of_nat n) @ packet_body p"
    "n = length (packet_body p)" using packet_bytes_frame [OF assms(1)] by blast
  obtain bs b where u: "uvarint_bytes (of_nat n) = bs @ [b]" "b < 0x80" "\<forall>c \<in> set bs. 0x80 \<le> c"
    using uvarint_bytes_shape by blast
  have "length bs \<le> 4" using binary_Uvarint_bytes(2) [OF f(1)] u by simp
  then obtain ps1 where h: "get_header [] ps = (Inr (h # uvarint_bytes (of_nat n)), ps1)" "concat ps1 = packet_body p @ rest"
    using get_header_start [of ps h bs b "packet_body p @ rest"] assms(2) f(2) u by auto
  have "unat (of_nat n :: uint64) = n" using f(1) by (simp add: unat_of_nat maxRemainingLength_def)
  then have a: "body_alloc (h # uvarint_bytes (of_nat n)) = n"
    using binary_Uvarint_bytes(1) [OF f(1)] by (simp add: body_alloc_def)
  show ?thesis
    using get_body_content [OF h(2) f(3) [symmetric], of "h # uvarint_bytes (of_nat n)"] h(1) a f(2)
    by (auto simp: GetMessageBuffer_def)
qed

text \<open>
  C23. However the network cuts the stream, \<open>GetMessageBuffer\<close> returns exactly the first packet a
  client sends and leaves every byte after it unread, for the connection that takes over.
\<close>

theorem message_read_exact:
  assumes "packet_wf v p" and "concat ps = packet_bytes p @ rest"
  shows "\<exists>ps'. GetMessageBuffer ps = (Inr (packet_bytes p), ps') \<and> concat ps' = rest"
  using assms by (rule GetMessageBuffer_frame)

theorem message_read_exact_witness:
  "\<exists>ps'. GetMessageBuffer [[0x34], [], [6, 0, 1], [0x61, 0, 9, 1, 0xC0], [0]] = (Inr [0x34, 6, 0, 1, 0x61, 0, 9, 1], ps') \<and>
     concat ps' = [0xC0, 0]"
  using message_read_exact [OF sample_stream_wf, of "[[0x34], [], [6, 0, 1], [0x61, 0, 9, 1, 0xC0], [0]]" "[0xC0, 0]"]
  by (simp add: sample_stream_bytes)

section \<open>Who gets a session\<close>

lemma set_refusal:
  "c \<in> {CodeSuccess, CodeUnsupportedProtocol, CodeRefusedUnacceptableProtocolVersion, CodeBadUserOrPassword,
        CodeRefusedBadUsernameOrPassword} \<Longrightarrow>
   fst (ConnAck_SetReturnCode c (header_init v CONNACK newConnAck)) = (header_init v CONNACK newConnAck)\<lparr>connack_returnCode := c\<rparr>"
proof -
  assume "c \<in> {CodeSuccess, CodeUnsupportedProtocol, CodeRefusedUnacceptableProtocolVersion, CodeBadUserOrPassword,
        CodeRefusedBadUsernameOrPassword}"
  then have "Code_IsValidForType c CONNACK" by (elim insertE) (simp_all add: Code_IsValidForType_def packetTypeCodeMap_def)
  then show ?thesis by (simp add: ConnAck_SetReturnCode_def header_init_def header_setType_def Let_def)
qed

lemma connect_reason_codes:
  assumes "None \<notin> set auth"
  shows "connect_reason allowed auth r = Some (
      if allowed_version allowed (h_version r) \<and>
         (\<exists>p. Some p \<in> set auth \<and> ap_Password p (username r) (password r) = StatusAllow) then CodeSuccess
      else if \<not> allowed_version allowed (h_version r)
      then (if h_version r = ProtocolV50 then CodeUnsupportedProtocol else CodeRefusedUnacceptableProtocolVersion)
      else if h_version r = ProtocolV50 then CodeBadUserOrPassword else CodeRefusedBadUsernameOrPassword)"
  using assms by (auto simp: connect_reason_def manager_decision(2))

text \<open>
  C22. A client gets as far as the session manager with a success code exactly if the server accepts
  the version of its CONNECT and an authenticator accepts its user and password. Any other client
  leaves the sessions and the subscriptions as they are and is answered with the code that tells
  it why; its connection is left open. In both cases only the CONNECT is taken from the stream.
\<close>

theorem handshake_guards_sessions:
  assumes "packet_wf ProtocolV50 (PConnect r)" and "concat ps = packet_bytes (PConnect r) @ rest"
    and "None \<notin> set auth" and "\<not> mg_quit m" and "packet_norm (PConnect r) = PConnect r'"
  shows "\<exists>ps'. concat ps' = rest \<and>
    handleConnection allowed auth unsubscribe parse_time now stop_conn gen ex stored during fresh wr ps m st =
      (if allowed_version allowed (h_version r) \<and>
          (\<exists>p. Some p \<in> set auth \<and> ap_Password p (username r) (password r) = StatusAllow)
       then map_go_run (\<lambda>(m', st', out, resp, res). (m', st', out, ps', HAnswered resp res))
              (NewSession unsubscribe parse_time now stop_conn gen ex stored during fresh wr r'
                 (header_init (h_version r) CONNACK newConnAck) m st)
       else Ret (m, st, [], ps',
              HAnswered ((header_init (h_version r) CONNACK newConnAck)\<lparr>connack_returnCode :=
                  (if \<not> allowed_version allowed (h_version r)
                   then (if h_version r = ProtocolV50 then CodeUnsupportedProtocol else CodeRefusedUnacceptableProtocolVersion)
                   else if h_version r = ProtocolV50 then CodeBadUserOrPassword else CodeRefusedBadUsernameOrPassword)\<rparr>)
                (if wr then Refused else Unwritten)))"
proof -
  have r': "h_version r' = h_version r" "username r' = username r" "password r' = password r"
    using assms(5) by (auto simp: packet_norm_def)
  define ok where "ok \<longleftrightarrow> allowed_version allowed (h_version r) \<and>
          (\<exists>p. Some p \<in> set auth \<and> ap_Password p (username r) (password r) = StatusAllow)"
  define code where "code = (if \<not> allowed_version allowed (h_version r)
                   then (if h_version r = ProtocolV50 then CodeUnsupportedProtocol else CodeRefusedUnacceptableProtocolVersion)
                   else if h_version r = ProtocolV50 then CodeBadUserOrPassword else CodeRefusedBadUsernameOrPassword)"
  define resp where "resp = header_init (h_version r) CONNACK newConnAck"
  obtain ps' where g: "GetMessageBuffer ps = (Inr (packet_bytes (PConnect r)), ps')" "concat ps' = rest"
    using GetMessageBuffer_frame [OF assms(1,2)] by blast
  have d: "Decode ProtocolV50 (packet_bytes (PConnect r)) = (Some (PConnect r'), length (packet_bytes (PConnect r)), None)"
    using Decode_bytes [OF assms(1)] assms(5) by simp
  have c: "connect_reason allowed auth r' = Some (if ok then CodeSuccess else code)"
    unfolding connect_reason_codes [OF assms(3)] r' ok_def code_def ..
  have s: "fst (ConnAck_SetReturnCode (if ok then CodeSuccess else code) resp) =
      resp\<lparr>connack_returnCode := (if ok then CodeSuccess else code)\<rparr>"
    unfolding resp_def by (rule set_refusal) (simp add: code_def)
  have ok0: "resp\<lparr>connack_returnCode := CodeSuccess\<rparr> = resp" and code: "code \<noteq> CodeSuccess"
    by (simp_all add: resp_def header_init_def header_setType_def newConnAck_def Let_def code_def)
  have n: "NewSession unsubscribe parse_time now stop_conn gen ex stored during fresh wr r'
      (resp\<lparr>connack_returnCode := code\<rparr>) m st =
      Ret (m, st, [], resp\<lparr>connack_returnCode := code\<rparr>, if wr then Refused else Unwritten)"
    using assms(4) code by (simp add: NewSession_def checkServerStatus_def finish_connect_def Let_def)
  have bind: "go_bind x (\<lambda>(m', st', out, resp', res). Ret (m', st', out, ps', HAnswered resp' res)) =
      map_go_run (\<lambda>(m', st', out, resp, res). (m', st', out, ps', HAnswered resp res)) x" for x :: "(manager \<times> 'a \<times> _) go_run"
    by (cases x) auto
  have "handleConnection allowed auth unsubscribe parse_time now stop_conn gen ex stored during fresh wr ps m st =
      map_go_run (\<lambda>(m', st', out, resp, res). (m', st', out, ps', HAnswered resp res))
        (NewSession unsubscribe parse_time now stop_conn gen ex stored during fresh wr r'
           (resp\<lparr>connack_returnCode := (if ok then CodeSuccess else code)\<rparr>) m st)"
    unfolding handleConnection_def by (simp only: g(1) d c s r' resp_def [symmetric] bind go_opt_simps go_bind_simps Let_def
        prod.case sum.case option.case packet.case)
  then have "handleConnection allowed auth unsubscribe parse_time now stop_conn gen ex stored during fresh wr ps m st =
      (if ok then map_go_run (\<lambda>(m', st', out, resp, res). (m', st', out, ps', HAnswered resp res))
              (NewSession unsubscribe parse_time now stop_conn gen ex stored during fresh wr r' resp m st)
       else Ret (m, st, [], ps', HAnswered (resp\<lparr>connack_returnCode := code\<rparr>) (if wr then Refused else Unwritten)))"
    using n ok0 by (cases ok) simp_all
  then show ?thesis unfolding ok_def code_def resp_def using g(2) by blast
qed


definition sample_client :: Connect where
  "sample_client = sample_connect\<lparr>properties := \<lparr>props = Some [], plen = 0\<rparr>\<rparr>"

lemma sample_client_bytes:
  "packet_bytes (PConnect sample_client) = [0x10, 13, 0, 4, 0x4D, 0x51, 0x54, 0x54, 4, 2, 0, 0, 0, 1, 0x63]"
  by code_simp

lemma sample_client_wf: "packet_wf ProtocolV50 (PConnect sample_client)"
proof -
  have "Connect_checkFlags sample_client = None" "ProtocolVersion_IsValid (h_version sample_client)"
    "validClientID (clientID sample_client)" "\<not> Connect_willFlag sample_client" "\<not> Connect_usernameFlag sample_client"
    "\<not> Connect_passwordFlag sample_client" "Connect_size sample_client = 13" "h_version sample_client = ProtocolV311"
    "clientID sample_client = [0x63]" "username sample_client = []" "password sample_client = []" "mFlags sample_client = 0"
    "mType sample_client = CONNECT" "packetID sample_client = []" "properties sample_client = \<lparr>props = Some [], plen = 0\<rparr>"
    "will sample_client = \<lparr>will_topic = [], will_message = []\<rparr>"
    by code_simp+
  then show ?thesis by (simp add: Connect_wf_def MaxLPString_def maxRemainingLength_def)
qed

theorem handshake_guards_sessions_witness:
  "\<exists>ps' resp. handleConnection [(ProtocolV311, True)] [] (\<lambda>_ _ _. None) (\<lambda>_. None) 0 (\<lambda>_. undefined) [] False None [] 5 True
      [[0x10, 13, 0, 4, 0x4D, 0x51, 0x54, 0x54, 4, 2, 0], [0, 0, 1, 0x63, 0xC0, 0]] sample_manager () =
      Ret (sample_manager, (), [], ps', HAnswered resp Refused) \<and>
    concat ps' = [0xC0, 0] \<and> connack_returnCode resp = CodeRefusedBadUsernameOrPassword"
proof -
  obtain r' where "packet_norm (PConnect sample_client) = PConnect r'" by (simp add: packet_norm_def)
  note h = handshake_guards_sessions [OF sample_client_wf _ _ _ this, of "[[0x10, 13, 0, 4, 0x4D, 0x51, 0x54, 0x54, 4, 2, 0], [0, 0, 1, 0x63, 0xC0, 0]]"
      "[0xC0, 0]" "[]" sample_manager "[(ProtocolV311, True)]" "\<lambda>_ _ _. None" "\<lambda>_. None" 0 "\<lambda>_. undefined" "[]" False None "[]" 5 True "()"]
  have "h_version sample_client = ProtocolV311" "\<not> mg_quit sample_manager"
    by (simp_all add: sample_client_def sample_connect_def header_init_def sample_manager_def Let_def)
  then show ?thesis using h by (force simp: sample_client_bytes allowed_version_def)
qed

section \<open>What a client can make the server allocate\<close>

lemma get_header_length:
  "get_header buf ps = (Inr header, ps') \<Longrightarrow> length header \<le> 6"
proof (induction buf ps rule: get_header.induct)
  case (1 buf ps)
  then show ?case
    by (subst (asm) (3) get_header.simps) (auto split: if_split_asm option.split_asm list.split_asm)
qed

lemma take_bit_low7: "take_bit 7 (ucast (b AND 0x7f) :: uint64) = ucast (b AND 0x7f)" for b :: byte
proof -
  have "b AND 0x7f = take_bit 7 b" by (simp add: take_bit_eq_mask mask_eq_exp_minus_1)
  then show ?thesis by (simp add: unsigned_take_bit_eq)
qed

lemma low7: "b < 0x80 \<Longrightarrow> b AND 0x7f = b" for b :: byte
proof -
  assume "b < 0x80"
  then have "unat (take_bit 7 b) = unat b"
    unfolding unsigned_take_bit_eq by (simp add: take_bit_eq_mod word_less_nat_alt)
  then have "take_bit 7 b = b" by (rule unsigned_word_eqI)
  then show ?thesis by (simp add: take_bit_eq_mask mask_eq_exp_minus_1)
qed

lemma take_bit_mono_self: "take_bit n x = x \<Longrightarrow> n \<le> m \<Longrightarrow> take_bit m x = x" for x :: uint64
  by (metis min_absorb2 take_bit_take_bit)

lemma binary_Uvarint_loop_bound:
  assumes "take_bit (7 * i) x = x"
  shows "take_bit (7 * (i + length bs)) (fst (binary_Uvarint_loop i x (7 * i) bs)) = fst (binary_Uvarint_loop i x (7 * i) bs)"
  using assms
proof (induction bs arbitrary: i x)
  case (Cons b bs)
  let ?x = "x OR push_bit (7 * i) (ucast (b AND 0x7f) :: uint64)"
  have "take_bit (7 * Suc i) x = x"
    using take_bit_mono_self [OF Cons.prems] by simp
  moreover have "take_bit (7 * Suc i) (push_bit (7 * i) (ucast (b AND 0x7f) :: uint64)) = push_bit (7 * i) (ucast (b AND 0x7f))"
    using take_bit_low7 [of b] by (simp add: take_bit_push_bit)
  ultimately have x: "take_bit (7 * Suc i) ?x = ?x" by (simp add: take_bit_or)
  show ?case
  proof (cases "b < 0x80")
    case True
    have "take_bit (7 * (i + length (b # bs))) ?x = ?x"
      by (rule take_bit_mono_self [OF x]) simp
    then show ?thesis using True low7 [OF True] by simp
  next
    case False
    then show ?thesis using Cons.IH [OF x] by (simp add: add.commute)
  qed
qed simp

text \<open>
  C37. Before a client has said who it is, the length field of its first message makes the server
  allocate up to \<open>2\<^sup>3\<^sup>5 - 1\<close> bytes: six bytes are accepted as a fixed header, one more than the protocol has,
  and the size is not compared with \<open>MaxPacketSize\<close>. It is never more than that.
\<close>

theorem connect_allocation:
  "(\<forall>ps header ps'. get_header [] ps = (Inr header, ps') \<longrightarrow> body_alloc header < 2 ^ 35) \<and>
   get_header [] [[0x10, 0xFF, 0xFF, 0xFF, 0xFF, 0x7F]] = (Inr [0x10, 0xFF, 0xFF, 0xFF, 0xFF, 0x7F], []) \<and>
   body_alloc [0x10, 0xFF, 0xFF, 0xFF, 0xFF, 0x7F] = 2 ^ 35 - 1"
proof (intro conjI allI impI)
  fix ps header ps'
  assume "get_header [] ps = (Inr header, ps')"
  then have l: "length (tl header) \<le> 5" using get_header_length by fastforce
  define x where "x = fst (binary_Uvarint (tl header))"
  have "take_bit (7 * length (tl header)) x = x"
    using binary_Uvarint_loop_bound [of 0 0 "tl header"] by (simp add: x_def binary_Uvarint_def)
  then have "take_bit 35 x = x" by (rule take_bit_mono_self) (use l in simp)
  then have "unat x = take_bit 35 (unat x)" by (metis unsigned_take_bit_eq)
  also have "\<dots> < 2 ^ 35" by (rule take_bit_nat_less_exp)
  finally show "body_alloc header < 2 ^ 35" by (simp add: body_alloc_def x_def)
next
  show "get_header [] [[0x10, 0xFF, 0xFF, 0xFF, 0xFF, 0x7F]] = (Inr [0x10, 0xFF, 0xFF, 0xFF, 0xFF, 0x7F], [])"
    by code_simp
  have "fst (binary_Uvarint [0xFF, 0xFF, 0xFF, 0xFF, 0x7F]) = 0x7FFFFFFFF" by code_simp
  then show "body_alloc [0x10, 0xFF, 0xFF, 0xFF, 0xFF, 0x7F] = 2 ^ 35 - 1" by (simp add: body_alloc_def)
qed

theorem connect_allocation_witness:
  "body_alloc [0x10, 0xFF, 0xFF, 0xFF, 0xFF, 0x7F] < 2 ^ 35"
proof -
  have "get_header [] [[0x10, 0xFF, 0xFF, 0xFF, 0xFF, 0x7F]] = (Inr [0x10, 0xFF, 0xFF, 0xFF, 0xFF, 0x7F], [])"
    using connect_allocation by blast
  then show ?thesis using connect_allocation by blast
qed

end
