(* ===== verification/Systree.thy ===== *)
theory Systree
  imports Sessions_Manager
begin

text \<open>
  The package \<open>systree\<close>: the counters of the server, which are retained under \<open>$SYS/servers/<node>\<close> as
  values that are formatted when they are read, and the status messages of clients and sessions.

  A counter is a 64-bit word and every update is one atomic addition. \<open>json.Marshal\<close>,
  \<open>Duration.String\<close> and \<open>Time.Format\<close> are parameters: \<open>json\<close> is the marshalled status or \<open>None\<close> when that
  fails. The calls of a \<open>TopicMessenger\<close> are returned in their order.
\<close>

section \<open>Dynamic values\<close>

definition go_lit :: "string \<Rightarrow> gostring" where
  "go_lit s = map (\<lambda>c. of_nat (of_char c)) s"

function FormatUint :: "nat \<Rightarrow> gostring" where
  "FormatUint n = (if n < 10 then [of_nat (48 + n)] else FormatUint (n div 10) @ [of_nat (48 + n mod 10)])"
  by pat_completeness auto
termination by (relation "measure (\<lambda>n. n)") auto

declare FormatUint.simps [simp del]

record dynamicValue =
  dv_topic :: gostring
  dv_retained :: "Publish option"
  dv_publish :: "Publish option"

record dynamicValueInteger = dynamicValue +
  dv_val :: uint64

record dynamicValueUpTime = dynamicValue +
  dv_startTime :: Time

definition newDynamicValueInteger :: "gostring \<Rightarrow> dynamicValueInteger" where
  "newDynamicValueInteger topic = \<lparr>dv_topic = topic, dv_retained = None, dv_publish = None, dv_val = 0\<rparr>"

definition newDynamicValueUpTime :: "Time \<Rightarrow> gostring \<Rightarrow> dynamicValueUpTime" where
  "newDynamicValueUpTime now topic = \<lparr>dv_topic = topic, dv_retained = None, dv_publish = None, dv_startTime = now\<rparr>"

definition newDynamicValueCurrentTime :: "gostring \<Rightarrow> dynamicValue" where
  "newDynamicValueCurrentTime topic = \<lparr>dv_topic = topic, dv_retained = None, dv_publish = None\<rparr>"

definition integer_get :: "dynamicValueInteger \<Rightarrow> byte list" where
  "integer_get v = FormatUint (unat (dv_val v))"

definition upTime_get :: "(int \<Rightarrow> gostring) \<Rightarrow> Time \<Rightarrow> dynamicValueUpTime \<Rightarrow> byte list" where
  "upTime_get fmt_duration now v = fmt_duration (time_Sub now (dv_startTime v))"

definition currentTime_get :: "(Time \<Rightarrow> gostring) \<Rightarrow> Time \<Rightarrow> byte list" where
  "currentTime_get fmt_time now = fmt_time now"

text \<open>
  \<open>Retained\<close> and \<open>Publish\<close> build their message at the first call and only replace its payload later. \<open>val\<close> is
  what \<open>getValue\<close> returns.
\<close>

definition dynamic_message :: "gostring \<Rightarrow> Publish" where
  "dynamic_message topic =
     Publish_SetRetain True (fst (Publish_SetQoS QoS0 (fst (Publish_SetTopic topic (New_Publish ProtocolV311)))))"

definition dynamicValue_Retained :: "byte list \<Rightarrow> 'a dynamicValue_scheme \<Rightarrow> 'a dynamicValue_scheme \<times> Publish" where
  "dynamicValue_Retained val m =
     (let p = (case dv_retained m of None \<Rightarrow> dynamic_message (dv_topic m) | Some p \<Rightarrow> p)\<lparr>pub_payload := val\<rparr>
      in (m\<lparr>dv_retained := Some p\<rparr>, p))"

definition dynamicValue_Publish :: "byte list \<Rightarrow> 'a dynamicValue_scheme \<Rightarrow> 'a dynamicValue_scheme \<times> Publish" where
  "dynamicValue_Publish val m =
     (let p = (case dv_publish m of None \<Rightarrow> dynamic_message (dv_topic m) | Some p \<Rightarrow> p)\<lparr>pub_payload := val\<rparr>
      in (m\<lparr>dv_publish := Some p\<rparr>, p))"

section \<open>Statistics\<close>

record stat =
  st_curr :: dynamicValueInteger
  st_max :: dynamicValueInteger

definition newStat :: "gostring \<Rightarrow> stat" where
  "newStat topicPrefix =
     \<lparr>st_curr = newDynamicValueInteger (topicPrefix @ go_lit ''/current''),
      st_max = newDynamicValueInteger (topicPrefix @ go_lit ''/max'')\<rparr>"

text \<open>\<open>Added\<close> and \<open>Subscribed\<close>, and the first lines of \<open>Connected\<close> and \<open>Created\<close>; and their opposites.\<close>

definition stat_add :: "stat \<Rightarrow> stat" where
  "stat_add t =
     (let newVal = dv_val (st_curr t) + 1;
          t1 = t\<lparr>st_curr := (st_curr t)\<lparr>dv_val := newVal\<rparr>\<rparr> in
      if dv_val (st_max t1) < newVal then t1\<lparr>st_max := (st_max t1)\<lparr>dv_val := newVal\<rparr>\<rparr> else t1)"

definition stat_remove :: "stat \<Rightarrow> stat" where
  "stat_remove t = t\<lparr>st_curr := (st_curr t)\<lparr>dv_val := dv_val (st_curr t) + NOT 0\<rparr>\<rparr>"

section \<open>Clients and sessions\<close>

record status_topics =
  sy_stat :: stat
  sy_topicsManager :: bool
  sy_topic :: gostring

definition newClients :: "gostring \<Rightarrow> status_topics" where
  "newClients topicPrefix =
     \<lparr>sy_stat = newStat (topicPrefix @ go_lit ''/stats/clients''), sy_topicsManager = False,
      sy_topic = topicPrefix @ go_lit ''/clients/''\<rparr>"

definition newSessions :: "gostring \<Rightarrow> status_topics" where
  "newSessions topicPrefix =
     \<lparr>sy_stat = newStat (topicPrefix @ go_lit ''/stats/sessions''), sy_topicsManager = False,
      sy_topic = topicPrefix @ go_lit ''/sessions/''\<rparr>"

text \<open>The message every method builds: version 3.1.1, no retain flag, quality of service 0.\<close>

definition notifyMsg :: "gostring \<Rightarrow> Publish" where
  "notifyMsg topic =
     fst (Publish_SetTopic topic (fst (Publish_SetQoS QoS0 (Publish_SetRetain False (New_Publish ProtocolV311)))))"

definition notify_payload :: "byte list option \<Rightarrow> Publish \<Rightarrow> Publish" where
  "notify_payload json p = p\<lparr>pub_payload := (case json of Some out \<Rightarrow> out | None \<Rightarrow> go_lit ''data error'')\<rparr>"

definition clients_Connected :: "gostring \<Rightarrow> byte list option \<Rightarrow> status_topics \<Rightarrow> status_topics \<times> messenger_call list" where
  "clients_Connected cid json t =
     (let msg = notify_payload json (notifyMsg (sy_topic t @ cid @ go_lit ''/connected'')) in
      (t\<lparr>sy_stat := stat_add (sy_stat t)\<rparr>,
       if sy_topicsManager t
       then [MsgPublish msg, MsgRetain (RPublish msg),
             MsgRetain (RPublish (notifyMsg (sy_topic t @ cid @ go_lit ''/disconnected'')))]
       else []))"

definition clients_Disconnected ::
    "gostring \<Rightarrow> bool \<Rightarrow> byte list option \<Rightarrow> status_topics \<Rightarrow> status_topics \<times> messenger_call list" where
  "clients_Disconnected cid retain json t =
     (let msg = notify_payload json (notifyMsg (sy_topic t @ cid @ go_lit ''/disconnected'')) in
      (t\<lparr>sy_stat := stat_remove (sy_stat t)\<rparr>,
       if sy_topicsManager t
       then (if retain then [MsgRetain (RPublish msg)] else []) @ [MsgPublish msg] @
            [MsgRetain (RPublish (notifyMsg (sy_topic t @ cid @ go_lit ''/connected'')))]
       else []))"

definition sessions_Created :: "gostring \<Rightarrow> byte list option \<Rightarrow> status_topics \<Rightarrow> status_topics \<times> messenger_call list" where
  "sessions_Created cid json t =
     (let msg = notify_payload json (notifyMsg (sy_topic t @ cid)) in
      (t\<lparr>sy_stat := stat_add (sy_stat t)\<rparr>,
       if sy_topicsManager t then [MsgPublish msg, MsgRetain (RPublish msg)] else []))"

definition sessions_Removed :: "gostring \<Rightarrow> byte list option \<Rightarrow> status_topics \<Rightarrow> status_topics \<times> messenger_call list" where
  "sessions_Removed cid json t =
     (t\<lparr>sy_stat := stat_remove (sy_stat t)\<rparr>,
      if sy_topicsManager t
      then [MsgRetain (RPublish (notifyMsg (sy_topic t @ cid))),
            MsgPublish (notify_payload json
              (fst (Publish_SetTopic (sy_topic t @ cid @ go_lit ''/removed'') (notifyMsg (sy_topic t @ cid)))))]
      else [])"

section \<open>Metrics\<close>

record metricEntry =
  me_sent :: dynamicValueInteger
  me_recv :: dynamicValueInteger

definition newMetricEntry :: "gostring \<Rightarrow> metricEntry" where
  "newMetricEntry topicPrefix =
     \<lparr>me_sent = newDynamicValueInteger (topicPrefix @ go_lit ''/sent''),
      me_recv = newDynamicValueInteger (topicPrefix @ go_lit ''/received'')\<rparr>"

record packetsMetric =
  pm_total :: metricEntry
  pm_connect :: metricEntry
  pm_connAck :: metricEntry
  pm_publish :: metricEntry
  pm_subscribe :: metricEntry
  pm_suback :: metricEntry
  pm_unsubscribe :: metricEntry
  pm_unSubAck :: metricEntry
  pm_pingReq :: metricEntry
  pm_pingResp :: metricEntry
  pm_disconnect :: metricEntry
  pm_auth :: metricEntry

record metric =
  mt_packets :: packetsMetric
  mt_bytes :: metricEntry

definition newPacketsMetric :: "gostring \<Rightarrow> packetsMetric" where
  "newPacketsMetric topicPrefix =
     (let e = (\<lambda>n. newMetricEntry (topicPrefix @ go_lit ''/packets/'' @ go_lit n)) in
      \<lparr>pm_total = e ''total'', pm_connect = e ''connect'', pm_connAck = e ''connack'', pm_publish = e ''publish'',
       pm_subscribe = e ''subscribe'', pm_suback = e ''suback'', pm_unsubscribe = e ''unsubscribe'',
       pm_unSubAck = e ''unsuback'', pm_pingReq = e ''pingreq'', pm_pingResp = e ''pingresp'',
       pm_disconnect = e ''disconnect'', pm_auth = e ''auth''\<rparr>)"

definition newMetric :: "gostring \<Rightarrow> metric" where
  "newMetric topicPrefix =
     \<lparr>mt_packets = newPacketsMetric (topicPrefix @ go_lit ''/metrics''),
      mt_bytes = newMetricEntry (topicPrefix @ go_lit ''/metrics/bytes'')\<rparr>"

definition inc_sent :: "uint64 \<Rightarrow> metricEntry \<Rightarrow> metricEntry" where
  "inc_sent n e = e\<lparr>me_sent := (me_sent e)\<lparr>dv_val := dv_val (me_sent e) + n\<rparr>\<rparr>"

definition inc_recv :: "uint64 \<Rightarrow> metricEntry \<Rightarrow> metricEntry" where
  "inc_recv n e = e\<lparr>me_recv := (me_recv e)\<lparr>dv_val := dv_val (me_recv e) + n\<rparr>\<rparr>"

text \<open>\<open>Sent\<close> and \<open>Received\<close> have the same \<open>switch\<close>: \<open>inc\<close> is the addition to one entry.\<close>

definition packets_count :: "(metricEntry \<Rightarrow> metricEntry) \<Rightarrow> Type \<Rightarrow> packetsMetric \<Rightarrow> packetsMetric" where
  "packets_count inc t p0 =
     (let p = p0\<lparr>pm_total := inc (pm_total p0)\<rparr> in
      if t = CONNECT then p\<lparr>pm_connect := inc (pm_connect p)\<rparr>
      else if t = CONNACK then p\<lparr>pm_connAck := inc (pm_connAck p)\<rparr>
      else if t = PUBLISH then p\<lparr>pm_publish := inc (pm_publish p)\<rparr>
      else if t = SUBSCRIBE then p\<lparr>pm_subscribe := inc (pm_subscribe p)\<rparr>
      else if t = SUBACK then p\<lparr>pm_suback := inc (pm_suback p)\<rparr>
      else if t = UNSUBSCRIBE then p\<lparr>pm_unsubscribe := inc (pm_unsubscribe p)\<rparr>
      else if t = UNSUBACK then p\<lparr>pm_unSubAck := inc (pm_unSubAck p)\<rparr>
      else if t = PINGREQ then p\<lparr>pm_pingReq := inc (pm_pingReq p)\<rparr>
      else if t = PINGRESP then p\<lparr>pm_pingResp := inc (pm_pingResp p)\<rparr>
      else if t = DISCONNECT then p\<lparr>pm_disconnect := inc (pm_disconnect p)\<rparr>
      else if t = AUTH then p\<lparr>pm_auth := inc (pm_auth p)\<rparr>
      else p)"

definition packets_Sent :: "Type \<Rightarrow> packetsMetric \<Rightarrow> packetsMetric" where
  "packets_Sent mt p = packets_count (inc_sent 1) mt p"

definition packets_Received :: "Type \<Rightarrow> packetsMetric \<Rightarrow> packetsMetric" where
  "packets_Received mt p = packets_count (inc_recv 1) mt p"

definition bytes_Sent :: "uint64 \<Rightarrow> metricEntry \<Rightarrow> metricEntry" where
  "bytes_Sent bytes e = inc_sent bytes e"

definition bytes_Received :: "uint64 \<Rightarrow> metricEntry \<Rightarrow> metricEntry" where
  "bytes_Received bytes e = inc_recv bytes e"

section \<open>The tree\<close>

record systree_server =
  sv_version :: gostring
  sv_upTime :: dynamicValueUpTime
  sv_currTime :: dynamicValue

definition static_message :: "gostring \<Rightarrow> byte list \<Rightarrow> Publish" where
  "static_message topic payload =
     (fst (Publish_SetTopic topic (fst (Publish_SetQoS QoS0 (New_Publish ProtocolV311)))))\<lparr>pub_payload := payload\<rparr>"

text \<open>\<open>newServer\<close>: the server, its dynamic topics and its static messages; \<open>json\<close> are the capabilities.\<close>

definition newServer ::
    "Time \<Rightarrow> byte list \<Rightarrow> gostring \<Rightarrow> systree_server \<times> RetainObject list \<times> RetainObject list" where
  "newServer now json topicPrefix =
     (let b = \<lparr>sv_version = go_lit ''1.0.0'', sv_upTime = newDynamicValueUpTime now (topicPrefix @ go_lit ''/uptime''),
               sv_currTime = newDynamicValueCurrentTime (topicPrefix @ go_lit ''/datetime'')\<rparr> in
      (b, [RDynamic (dv_topic (sv_upTime b)), RDynamic (dv_topic (sv_currTime b))],
       [RPublish (static_message (topicPrefix @ go_lit ''/version'') (sv_version b)),
        RPublish (static_message (topicPrefix @ go_lit ''/capabilities'') json)]))"

record systree =
  sys_server :: systree_server
  sys_metrics :: metric
  sys_topics :: stat
  sys_subscriptions :: stat
  sys_clients :: status_topics
  sys_sessions :: status_topics

text \<open>The order in which the constructors append their values to \<open>retained\<close>.\<close>

definition entry_topics :: "metricEntry \<Rightarrow> RetainObject list" where
  "entry_topics e = [RDynamic (dv_topic (me_sent e)), RDynamic (dv_topic (me_recv e))]"

definition stat_topics :: "stat \<Rightarrow> RetainObject list" where
  "stat_topics s = [RDynamic (dv_topic (st_max s)), RDynamic (dv_topic (st_curr s))]"

definition metric_topics :: "metric \<Rightarrow> RetainObject list" where
  "metric_topics m =
     (let p = mt_packets m in
      concat (map entry_topics
        [pm_total p, pm_connect p, pm_connAck p, pm_publish p, pm_subscribe p, pm_suback p, pm_unsubscribe p,
         pm_unSubAck p, pm_pingReq p, pm_pingResp p, pm_disconnect p, pm_auth p, mt_bytes m]))"

definition NewTree ::
    "Time \<Rightarrow> byte list \<Rightarrow> gostring \<Rightarrow> systree \<times> RetainObject list \<times> RetainObject list" where
  "NewTree now json base =
     (case newServer now json base of (sv, dyn, static) \<Rightarrow>
       (let tr = \<lparr>sys_server = sv, sys_metrics = newMetric base,
                  sys_topics = newStat (base @ go_lit ''/stats/topics''),
                  sys_subscriptions = newStat (base @ go_lit ''/stats/subscriptions''),
                  sys_clients = newClients base, sys_sessions = newSessions base\<rparr>;
            retains = dyn @ metric_topics (sys_metrics tr) @ stat_topics (sys_topics tr) @
              stat_topics (sys_subscriptions tr) @ stat_topics (sy_stat (sys_clients tr)) @
              stat_topics (sy_stat (sys_sessions tr))
        in (tr, retains @ static, retains)))"

definition SetCallbacks :: "systree \<Rightarrow> systree" where
  "SetCallbacks t =
     t\<lparr>sys_clients := (sys_clients t)\<lparr>sy_topicsManager := True\<rparr>,
       sys_sessions := (sys_sessions t)\<lparr>sy_topicsManager := True\<rparr>\<rparr>"


section \<open>What the counters show\<close>

text \<open>The abstract gauge: the present number and the highest it has been.\<close>

fun gauge_step :: "bool \<Rightarrow> nat \<times> nat \<Rightarrow> nat \<times> nat" where
  "gauge_step True (c, p) = (Suc c, max p (Suc c))"
| "gauge_step False (c, p) = (c - 1, p)"

fun balanced :: "nat \<Rightarrow> bool list \<Rightarrow> bool" where
  "balanced c [] = True"
| "balanced c (True # es) = (Suc c < 2 ^ 64 \<and> balanced (Suc c) es)"
| "balanced c (False # es) = (c > 0 \<and> balanced (c - 1) es)"

definition stat_event :: "bool \<Rightarrow> stat \<Rightarrow> stat" where
  "stat_event e t = (if e then stat_add t else stat_remove t)"

definition gauge_of :: "stat \<Rightarrow> nat \<times> nat" where
  "gauge_of t = (unat (dv_val (st_curr t)), unat (dv_val (st_max t)))"

lemma unat_suc_uint64: "Suc (unat x) < 2 ^ 64 \<Longrightarrow> unat (x + 1) = Suc (unat x)" for x :: uint64
  by (simp add: unat_word_ariths)

lemma add_not_zero: "x + NOT 0 = x - 1" for x :: uint64
  by simp

lemma gauge_add: "Suc (fst (gauge_of t)) < 2 ^ 64 \<Longrightarrow> gauge_of (stat_add t) = gauge_step True (gauge_of t)"
  by (auto simp: gauge_of_def stat_add_def Let_def unat_suc_uint64 word_less_nat_alt max_def)

lemma gauge_remove: "fst (gauge_of t) > 0 \<Longrightarrow> gauge_of (stat_remove t) = gauge_step False (gauge_of t)"
  by (simp add: gauge_of_def stat_remove_def add_not_zero) (metis One_nat_def Suc_pred' measure_unat neq0_conv unat_0 unat_minus_one)

text \<open>
  A counter of the server refines the gauge: as long as it is lowered only for what was counted
  before, the atomic additions on 64-bit words show the number of clients, topics or
  subscriptions there are and the highest number there has been, whatever the order.
\<close>

theorem stat_refines_gauge:
  assumes "balanced (fst (gauge_of t)) es"
  shows "gauge_of (fold stat_event es t) = fold gauge_step es (gauge_of t)"
  using assms
proof (induction es arbitrary: t)
  case (Cons e es)
  show ?case
  proof (cases e)
    case True
    then have g: "gauge_of (stat_add t) = gauge_step True (gauge_of t)" using Cons.prems by (intro gauge_add) simp
    then have "balanced (fst (gauge_of (stat_add t))) es" using Cons.prems True by (cases "gauge_of t") simp
    from Cons.IH [OF this] g True show ?thesis by (simp add: stat_event_def)
  next
    case False
    then have g: "gauge_of (stat_remove t) = gauge_step False (gauge_of t)" using Cons.prems by (intro gauge_remove) simp
    then have "balanced (fst (gauge_of (stat_remove t))) es" using Cons.prems False by (cases "gauge_of t") simp
    from Cons.IH [OF this] g False show ?thesis by (simp add: stat_event_def)
  qed
qed simp

theorem stat_refines_gauge_witness:
  "gauge_of (fold stat_event [True, True, False, True, False, False] (newStat [])) = (0, 2)"
proof -
  have "gauge_of (newStat []) = (0, 0)" by (simp add: gauge_of_def newStat_def newDynamicValueInteger_def)
  then show ?thesis using stat_refines_gauge [of "newStat []" "[True, True, False, True, False, False]"] by simp
qed


section \<open>The manager and the tree\<close>

text \<open>
  The calls of the manager that reach the tree: \<open>json\<close> gives the marshalled status of each. The messages
  they cause are left out here.
\<close>

definition sys_call :: "(mgr_call \<Rightarrow> byte list option) \<Rightarrow> mgr_call \<Rightarrow> systree \<Rightarrow> systree" where
  "sys_call json c t =
     (case c of
        SysConnected cid \<Rightarrow> t\<lparr>sys_clients := fst (clients_Connected cid (json c) (sys_clients t))\<rparr>
      | SysDisconnected cid reason retain \<Rightarrow>
          t\<lparr>sys_clients := fst (clients_Disconnected cid retain (json c) (sys_clients t))\<rparr>
      | SysCreated cid \<Rightarrow> t\<lparr>sys_sessions := fst (sessions_Created cid (json c) (sys_sessions t))\<rparr>
      | SysRemoved cid reason \<Rightarrow> t\<lparr>sys_sessions := fst (sessions_Removed cid (json c) (sys_sessions t))\<rparr>
      | _ \<Rightarrow> t)"

definition clients_current :: "systree \<Rightarrow> uint64" where
  "clients_current t = dv_val (st_curr (sy_stat (sys_clients t)))"

definition sessions_current :: "systree \<Rightarrow> uint64" where
  "sessions_current t = dv_val (st_curr (sy_stat (sys_sessions t)))"

lemma FormatUint_max: "FormatUint 18446744073709551615 = go_lit ''18446744073709551615''"
  by (simp add: FormatUint.simps go_lit_def)

lemma run_calls_removed:
  assumes "run_calls u calls m st = Some (m', st', out)"
  shows "sessions_current (fold (sys_call json) out t) = sessions_current t -
    of_nat (length (filter (\<lambda>c. case c of SignalClose _ r \<Rightarrow> r \<noteq> exitReasonShutdown | _ \<Rightarrow> False) calls))"
  using assms
proof (induction calls arbitrary: m st out t)
  case (Cons c cs)
  obtain m1 st1 o1 o2 where r: "run_calls u cs m1 st1 = Some (m', st', o2)" "out = o1 @ o2"
    and o1: "o1 = (case c of SignalClose i r \<Rightarrow> snd (onSessionClose i r m)
       | SignalDisconnected i r b \<Rightarrow> [SysDisconnected i r b] | PublishWill w \<Rightarrow> [CallPublish w] | _ \<Rightarrow> [])"
    using Cons.prems by (cases c) (auto simp: bind_eq_Some_conv case_prod_beta split: option.split_asm)
  have "sessions_current (fold (sys_call json) o1 t) = sessions_current t -
      (case c of SignalClose _ r \<Rightarrow> if r \<noteq> exitReasonShutdown then 1 else 0 | _ \<Rightarrow> 0)"
    unfolding o1
    by (cases c) (auto simp: onSessionClose_def sys_call_def sessions_current_def sessions_Removed_def stat_remove_def
        clients_Disconnected_def Let_def intro: exitReason.exhaust)
  then show ?case using Cons.IH [OF r(1)] r(2) by (cases c) (auto split: if_splits)
qed simp


lemma clean_disconnect_calls:
  assumes "session_onDisconnect now h p s = Some (s', calls)" and "se_cfg s = Some c"
    and "rc_killOnDisconnect (disconnect_expiry p c)"
  shows "filter (\<lambda>c. case c of SignalClose _ r \<Rightarrow> r \<noteq> exitReasonShutdown | _ \<Rightarrow> False) calls =
    [SignalClose (se_id s) exitReasonClean]"
proof -
  have w: "filter (\<lambda>c. case c of SignalClose _ r \<Rightarrow> r \<noteq> exitReasonShutdown | _ \<Rightarrow> False) (snd (disconnect_will p c1)) = [] \<and>
      rc_killOnDisconnect (fst (disconnect_will p c1)) = rc_killOnDisconnect c1" for c1
    by (auto simp: disconnect_will_def split: option.splits)
  have u: "filter (\<lambda>c. case c of SignalClose _ r \<Rightarrow> r \<noteq> exitReasonShutdown | _ \<Rightarrow> False) su = [] \<and>
      rc_killOnDisconnect c' = rc_killOnDisconnect c1" if "disconnect_subscriber h c1 = Some (c', su)" for c1 c' su
    using that by (auto simp: disconnect_subscriber_def split: option.split_asm if_split_asm)
  show ?thesis
    using assms by (auto simp: session_onDisconnect_def finalize_def bind_eq_Some_conv case_prod_beta Let_def w dest!: u)
qed

text \<open>
  The number of sessions the server shows is wrong as soon as a client leaves: sessions are
  counted when they are loaded from the storage but not when a client connects, while the end of
  every clean or expired session is counted. On a server that loaded none, the first
  clean disconnect makes the counter wrap around, and \<open>stats/sessions/current\<close> reads
  18446744073709551615.
\<close>

theorem sessions_counter_underflows:
  assumes "conn_ended u now cid p sub m st = Some (m', st', out)"
    and "map_of (mg_sessions m) cid = Some s" and "se_cfg s = Some c"
    and "rc_killOnDisconnect (disconnect_expiry p c)" and "sessions_current t = 0"
  shows "integer_get (st_curr (sy_stat (sys_sessions (fold (sys_call json) out t)))) = go_lit ''18446744073709551615''"
proof -
  obtain s' calls where d: "session_onDisconnect now (HasSubscriptions sub) p s = Some (s', calls)"
    and r: "run_calls u calls (set_session s' (m\<lparr>mg_heap := AList.update (sb_hash sub) sub (mg_heap m)\<rparr>)) st = Some (m', st', out)"
    using assms(1,2) by (auto simp: conn_ended_def bind_eq_Some_conv)
  have "sessions_current (fold (sys_call json) out t) = - 1"
    using run_calls_removed [OF r, of json t] clean_disconnect_calls [OF d assms(3,4)] assms(5) by simp
  then have "unat (dv_val (st_curr (sy_stat (sys_sessions (fold (sys_call json) out t))))) = 18446744073709551615"
    by (simp add: sessions_current_def unsigned_minus_1_eq_mask mask_eq_exp_minus_1)
  then show ?thesis by (simp add: integer_get_def FormatUint_max)
qed

definition sample_leaving :: session where
  "sample_leaving = (newSession [0x63] 0)\<lparr>se_conn := True, se_started := True, se_connStop := True, se_online := True,
     se_cfg := Some \<lparr>rc_subscriber = Some 3, rc_will = None, rc_expireIn = None, rc_willDelay = 0, rc_killOnDisconnect = True\<rparr>\<rparr>"

theorem sessions_counter_underflows_witness:
  "\<exists>m' out. conn_ended (\<lambda>_ _ _. None) 0 [0x63] \<lparr>dp_ExpireAt = None, dp_Reason = 0, dp_Will = False\<rparr>
      (subscriber_New 3 [0x63] False ProtocolV311)
      (sample_manager\<lparr>mg_sessions := [([0x63], sample_leaving)], mg_count := 1\<rparr>) () = Some (m', (), out) \<and>
    integer_get (st_curr (sy_stat (sys_sessions (fold (sys_call (\<lambda>_. None)) out (fst (NewTree 0 [] [])))))) =
      go_lit ''18446744073709551615''"
proof -
  let ?m = "sample_manager\<lparr>mg_sessions := [([0x63], sample_leaving)], mg_count := 1\<rparr>"
  let ?e = "conn_ended (\<lambda>_ _ _. None) 0 [0x63] \<lparr>dp_ExpireAt = None, dp_Reason = 0, dp_Will = False\<rparr>
      (subscriber_New 3 [0x63] False ProtocolV311) ?m ()"
  have "case ?e of None \<Rightarrow> False | Some _ \<Rightarrow> True" by code_simp
  then obtain m' out where e: "?e = Some (m', (), out)" by (auto split: option.split_asm)
  have m: "map_of (mg_sessions ?m) [0x63] = Some sample_leaving" by simp
  have c: "se_cfg sample_leaving = Some \<lparr>rc_subscriber = Some 3, rc_will = None, rc_expireIn = None, rc_willDelay = 0,
      rc_killOnDisconnect = True\<rparr>"
    by (simp add: sample_leaving_def)
  have "sessions_current (fst (NewTree 0 [] [])) = 0"
    by (simp add: sessions_current_def NewTree_def newServer_def newSessions_def newStat_def newDynamicValueInteger_def Let_def)
  from sessions_counter_underflows [OF e m c _ this] e show ?thesis by (auto simp: disconnect_expiry_def)
qed

section \<open>Status messages\<close>

text \<open>What the retainer makes of the calls, in their order.\<close>

definition retain_call :: "messenger_call \<Rightarrow> node \<Rightarrow> node" where
  "retain_call c root = (case c of MsgRetain obj \<Rightarrow> retain_tree obj root | MsgPublish _ \<Rightarrow> root)"

lemma notifyMsg_topic:
  "ValidTopic topic \<Longrightarrow> topic \<noteq> [] \<Longrightarrow> pub_topic (notifyMsg topic) = topic \<and> pub_payload (notifyMsg topic) = []"
  by (simp add: notifyMsg_def Publish_SetTopic_def Publish_SetQoS_def Publish_SetRetain_def New_Publish_def header_init_def
      header_setType_def newPublish_def Let_def Qos_IsValid_def)


text \<open>
  The status a subscriber finds retained follows the client: after \<open>Connected\<close> the status is under
  \<open>.../connected\<close> and nothing under \<open>.../disconnected\<close>; after \<open>Disconnected\<close> nothing is left under
  \<open>.../connected\<close>, and the reason is under \<open>.../disconnected\<close> exactly if the session outlives the
  connection. No other retained message changes.
\<close>

theorem client_status_retained:
  fixes cid :: gostring and t :: status_topics and root :: node
  defines "on_topic \<equiv> sy_topic t @ cid @ go_lit ''/connected''" and "off_topic \<equiv> sy_topic t @ cid @ go_lit ''/disconnected''"
  assumes "clients_Connected cid (Some on) t = (t1, calls1)" and "clients_Disconnected cid retain (Some off) t1 = (t2, calls2)"
    and "sy_topicsManager t" and "on \<noteq> []" and "off \<noteq> []" and "ValidTopic on_topic" and "ValidTopic off_topic"
  shows "retained_at (fold retain_call calls1 root) f =
      (if f = go_split byte_slash on_topic then Some (RPublish ((notifyMsg on_topic)\<lparr>pub_payload := on\<rparr>))
       else if f = go_split byte_slash off_topic then None else retained_at root f) \<and>
    retained_at (fold retain_call (calls1 @ calls2) root) f =
      (if f = go_split byte_slash on_topic then None
       else if f = go_split byte_slash off_topic
       then (if retain then Some (RPublish ((notifyMsg off_topic)\<lparr>pub_payload := off\<rparr>)) else None)
       else retained_at root f)"
proof -
  have "on_topic \<noteq> []" "off_topic \<noteq> []" "on_topic \<noteq> off_topic" by (simp_all add: on_topic_def off_topic_def go_lit_def)
  then have n: "go_split byte_slash on_topic \<noteq> go_split byte_slash off_topic" by simp
  have m: "pub_topic (notifyMsg on_topic) = on_topic" "pub_payload (notifyMsg on_topic) = []"
    "pub_topic (notifyMsg off_topic) = off_topic" "pub_payload (notifyMsg off_topic) = []"
    using notifyMsg_topic \<open>on_topic \<noteq> []\<close> \<open>off_topic \<noteq> []\<close> assms(8,9) by auto
  have c1: "calls1 = [MsgPublish ((notifyMsg on_topic)\<lparr>pub_payload := on\<rparr>),
      MsgRetain (RPublish ((notifyMsg on_topic)\<lparr>pub_payload := on\<rparr>)), MsgRetain (RPublish (notifyMsg off_topic))]"
    and t1: "sy_topicsManager t1" "sy_topic t1 = sy_topic t"
    using assms(3,5) by (auto simp: clients_Connected_def notify_payload_def on_topic_def off_topic_def Let_def)
  have c2: "calls2 = (if retain then [MsgRetain (RPublish ((notifyMsg off_topic)\<lparr>pub_payload := off\<rparr>))] else []) @
      [MsgPublish ((notifyMsg off_topic)\<lparr>pub_payload := off\<rparr>), MsgRetain (RPublish (notifyMsg on_topic))]"
    using assms(4) t1 by (auto simp: clients_Disconnected_def notify_payload_def on_topic_def off_topic_def Let_def)
  show ?thesis
    using n m assms(6,7) unfolding c1 c2
    by (auto simp: retain_call_def retain_tree_content simp del: retained_at_simps)
qed

definition sample_status :: status_topics where
  "sample_status = (newClients (go_lit ''$SYS/servers/n@x''))\<lparr>sy_topicsManager := True\<rparr>"

theorem client_status_retained_witness:
  "retained_at (fold retain_call (snd (clients_Connected [0x63] (Some [1]) sample_status)) newNode)
     (go_split byte_slash (go_lit ''$SYS/servers/n@x/clients/c/connected'')) =
   Some (RPublish ((notifyMsg (go_lit ''$SYS/servers/n@x/clients/c/connected''))\<lparr>pub_payload := [1]\<rparr>))"
proof -
  have t: "sy_topic sample_status @ [0x63] @ go_lit ''/connected'' = go_lit ''$SYS/servers/n@x/clients/c/connected''"
    by code_simp
  have v: "ValidTopic (sy_topic sample_status @ [0x63] @ go_lit ''/connected'')"
    "ValidTopic (sy_topic sample_status @ [0x63] @ go_lit ''/disconnected'')" by code_simp+
  have m: "sy_topicsManager sample_status" by (simp add: sample_status_def)
  obtain t1 c1 where c1: "clients_Connected [0x63] (Some [1]) sample_status = (t1, c1)" by fastforce
  obtain t2 c2 where c2: "clients_Disconnected [0x63] True (Some [2]) t1 = (t2, c2)" by fastforce
  from client_status_retained [OF c1 c2 m _ _ v, of newNode] t c1 show ?thesis by simp
qed

section \<open>The topics of the tree\<close>

definition tree_names :: "string list" where
  "tree_names =
     [''/uptime'', ''/datetime''] @
     concat (map (\<lambda>n. [''/metrics/'' @ n @ ''/sent'', ''/metrics/'' @ n @ ''/received''])
       [''packets/total'', ''packets/connect'', ''packets/connack'', ''packets/publish'', ''packets/subscribe'', ''packets/suback'',
        ''packets/unsubscribe'', ''packets/unsuback'', ''packets/pingreq'', ''packets/pingresp'', ''packets/disconnect'',
        ''packets/auth'', ''bytes'']) @
     concat (map (\<lambda>n. [''/stats/'' @ n @ ''/max'', ''/stats/'' @ n @ ''/current''])
       [''topics'', ''subscriptions'', ''clients'', ''sessions''])"

definition tree_suffixes :: "gostring list" where
  "tree_suffixes = map go_lit tree_names"

lemma static_message_topic: "ValidTopic topic \<Longrightarrow> topic \<noteq> [] \<Longrightarrow> pub_topic (static_message topic b) = topic"
  by (simp add: static_message_def Publish_SetTopic_def Publish_SetQoS_def New_Publish_def header_init_def
      header_setType_def newPublish_def Let_def Qos_IsValid_def)

lemma inj_go_lit: "inj go_lit"
proof -
  have "inj (\<lambda>c :: char. of_nat (of_char c) :: byte)"
  proof (rule injI)
    fix c d :: char
    assume "(of_nat (of_char c) :: byte) = of_nat (of_char d)"
    then have "unat (of_nat (of_char c) :: byte) = unat (of_nat (of_char d) :: byte)" by simp
    moreover have "unat (of_nat (of_char x) :: byte) = of_char x" for x :: char
      by (simp add: unat_of_nat)
    ultimately show "c = d" by simp
  qed
  then have "inj (map (\<lambda>c :: char. of_nat (of_char c) :: byte))" by (rule inj_mapI)
  then show ?thesis by (auto simp: inj_def go_lit_def)
qed

lemma tree_suffixes_distinct:
  "distinct (tree_suffixes @ [go_lit ''/version'', go_lit ''/capabilities''])"
proof -
  have "distinct (tree_names @ [''/version'', ''/capabilities''])" by code_simp
  then have "distinct (map go_lit (tree_names @ [''/version'', ''/capabilities'']))"
    unfolding distinct_map using inj_go_lit inj_on_subset by blast
  then show ?thesis by (simp add: tree_suffixes_def)
qed

text \<open>
  The tree of a server whose name is fit for a topic has 38 topics, all different and all below
  the server's own prefix, so no counter hides another; those that are published periodically are exactly the
  36 that are computed when they are read.
\<close>

theorem tree_topics_distinct:
  assumes "NewTree now json base = (tr, retains, dyn)"
    and "ValidTopic (base @ go_lit ''/version'')" and "ValidTopic (base @ go_lit ''/capabilities'')"
  shows "map RetainObject_Topic retains = map ((@) base) (tree_suffixes @ [go_lit ''/version'', go_lit ''/capabilities'']) \<and>
    distinct (map RetainObject_Topic retains) \<and> dyn = map (\<lambda>x. RDynamic (base @ x)) tree_suffixes"
proof -
  have r: "retains = dyn @ [RPublish (static_message (base @ go_lit ''/version'') (go_lit ''1.0.0'')),
      RPublish (static_message (base @ go_lit ''/capabilities'') json)]"
    and d: "dyn = map (\<lambda>x. RDynamic (base @ x)) tree_suffixes"
    using assms(1)
    by (auto simp: NewTree_def newServer_def metric_topics_def stat_topics_def entry_topics_def newMetric_def newPacketsMetric_def
        newMetricEntry_def newStat_def newClients_def newSessions_def newDynamicValueInteger_def newDynamicValueUpTime_def
        newDynamicValueCurrentTime_def tree_suffixes_def tree_names_def go_lit_def Let_def)
  have t: "map RetainObject_Topic retains = map ((@) base) (tree_suffixes @ [go_lit ''/version'', go_lit ''/capabilities''])"
    using assms(2,3) by (simp add: r d comp_def static_message_topic go_lit_def)
  moreover have "distinct (map ((@) base) (tree_suffixes @ [go_lit ''/version'', go_lit ''/capabilities'']))"
    using tree_suffixes_distinct by (subst distinct_map) (auto simp: inj_on_def)
  ultimately show ?thesis using d by metis
qed

theorem tree_topics_distinct_witness:
  "distinct (map RetainObject_Topic (fst (snd (NewTree 0 [] (go_lit ''$SYS/servers/n@x'')))))"
proof -
  obtain tr retains dyn where "NewTree 0 [] (go_lit ''$SYS/servers/n@x'') = (tr, retains, dyn)" by (cases "NewTree 0 [] (go_lit ''$SYS/servers/n@x'')")
  moreover have "ValidTopic (go_lit ''$SYS/servers/n@x'' @ go_lit ''/version'')"
    "ValidTopic (go_lit ''$SYS/servers/n@x'' @ go_lit ''/capabilities'')" by code_simp+
  ultimately show ?thesis using tree_topics_distinct by fastforce
qed

end
