(* ===== verification/Transport.thy ===== *)
theory Transport
  imports Handshake Systree
begin

text \<open>
  The listeners of \<open>transport\<close>: the connection wrappers that count bytes (\<open>connTCP.go\<close>, \<open>connWS.go\<close>) and
  the accept loop of \<open>tcp.go\<close>. Sockets, TLS and HTTP are input and output: a call of \<open>Accept\<close>, \<open>Read\<close> or
  \<open>Write\<close> is given by its result. The websocket library is a parameter.
\<close>

section \<open>Connections\<close>

text \<open>\<open>Read\<close> and \<open>Write\<close> of a TCP connection: the bytes that were moved are counted, also when an error comes with them.\<close>

definition connTCP_Read :: "byte list \<times> bool \<Rightarrow> metricEntry \<Rightarrow> metricEntry \<times> byte list \<times> bool" where
  "connTCP_Read r stat = (case r of (b, err) \<Rightarrow> (bytes_Received (of_nat (length b)) stat, b, err))"

definition connTCP_Write :: "nat \<times> bool \<Rightarrow> metricEntry \<Rightarrow> metricEntry \<times> nat \<times> bool" where
  "connTCP_Write r stat = (case r of (n, err) \<Rightarrow> (bytes_Sent (of_nat n) stat, n, err))"

text \<open>
  A websocket: \<open>next_reader\<close> is \<open>NextReader\<close> (\<open>None\<close>: an error) with the type of the frame and its reader,
  \<open>read\<close> the \<open>Read\<close> of such a reader into \<open>k\<close> bytes, with the flag of its error.
\<close>

datatype ws_type = TextMessage | BinaryMessage | CloseMessage | PingMessage | PongMessage

record ('c, 'r) connWs =
  ws_conn :: 'c
  ws_stat :: metricEntry
  ws_prev :: "'r option"

definition ws_count :: "byte list \<Rightarrow> ('c, 'r) connWs \<Rightarrow> ('c, 'r) connWs" where
  "ws_count b c = (if length b > 0 then c\<lparr>ws_stat := bytes_Received (of_nat (length b)) (ws_stat c)\<rparr> else c)"

definition ws_read_prev ::
    "('r \<Rightarrow> nat \<Rightarrow> 'r \<times> byte list \<times> bool) \<Rightarrow> nat \<Rightarrow> 'r \<Rightarrow> ('c, 'r) connWs \<Rightarrow> ('c, 'r) connWs \<times> byte list" where
  "ws_read_prev read k r c =
     (case read r k of (r', b, err) \<Rightarrow> ((ws_count b c)\<lparr>ws_prev := (if err then None else Some r')\<rparr>, b))"

text \<open>The result is the bytes and whether the end of the stream is reported.\<close>

definition ws_read_next ::
    "('c \<Rightarrow> 'c \<times> (ws_type \<times> 'r) option) \<Rightarrow> ('r \<Rightarrow> nat \<Rightarrow> 'r \<times> byte list \<times> bool) \<Rightarrow> nat \<Rightarrow> ('c, 'r) connWs \<Rightarrow>
     ('c, 'r) connWs \<times> byte list \<times> bool" where
  "ws_read_next next_reader read k c =
     (case next_reader (ws_conn c) of
        (cn, None) \<Rightarrow> (c\<lparr>ws_conn := cn, ws_prev := None\<rparr>, [], True)
      | (cn, Some (mt, r)) \<Rightarrow>
          (let c1 = c\<lparr>ws_conn := cn, ws_prev := Some r\<rparr> in
           if mt = CloseMessage then (c1, [], True)
           else if mt = TextMessage \<or> mt = PingMessage \<or> mt = PongMessage then (c1, [], False)
           else (case ws_read_prev read k r c1 of (c2, b) \<Rightarrow> (c2, b, False))))"

definition connWs_Read ::
    "('c \<Rightarrow> 'c \<times> (ws_type \<times> 'r) option) \<Rightarrow> ('r \<Rightarrow> nat \<Rightarrow> 'r \<times> byte list \<times> bool) \<Rightarrow> nat \<Rightarrow> ('c, 'r) connWs \<Rightarrow>
     ('c, 'r) connWs \<times> byte list \<times> bool" where
  "connWs_Read next_reader read k c =
     (case ws_prev c of
        Some r \<Rightarrow>
          (case ws_read_prev read k r c of
             (c1, b) \<Rightarrow> if length b > 0 then (c1, b, False) else ws_read_next next_reader read k c1)
      | None \<Rightarrow> ws_read_next next_reader read k c)"

definition connWs_Write :: "bool \<Rightarrow> byte list \<Rightarrow> ('c, 'r) connWs \<Rightarrow> ('c, 'r) connWs \<times> nat \<times> bool" where
  "connWs_Write err b c =
     (if err then (c, 0, True) else (c\<lparr>ws_stat := bytes_Sent (of_nat (length b)) (ws_stat c)\<rparr>, length b, False))"

section \<open>Listeners\<close>

text \<open>
  The configurations and the constructors. \<open>load_cert\<close> and \<open>listen\<close> say whether
  \<open>tls.LoadX509KeyPair\<close> and \<open>net.Listen\<close> succeed; \<open>NewWS\<close> opens no socket. The configuration keeps a
  pointer to the common part, \<open>None\<close> when it is nil.
\<close>

record transport_Config =
  tc_AuthManager :: Manager
  tc_Port :: gostring

record ConfigTCP =
  ct_Scheme :: gostring
  ct_Host :: gostring
  ct_CertFile :: gostring
  ct_KeyFile :: gostring
  ct_transport :: "transport_Config option"

record ConfigWS =
  cw_transport :: "transport_Config option"
  cw_CertFile :: gostring
  cw_KeyFile :: gostring
  cw_Path :: gostring

definition NewConfigTCP :: "transport_Config option \<Rightarrow> ConfigTCP" where
  "NewConfigTCP t = \<lparr>ct_Scheme = go_lit ''tcp'', ct_Host = [], ct_CertFile = [], ct_KeyFile = [], ct_transport = t\<rparr>"

definition NewConfigWS :: "transport_Config option \<Rightarrow> ConfigWS" where
  "NewConfigWS t = \<lparr>cw_transport = t, cw_CertFile = [], cw_KeyFile = [], cw_Path = go_lit ''/''\<rparr>"

datatype transport_kind = KindTCP | KindWS

record transport =
  tp_kind :: transport_kind
  tp_protocol :: gostring
  tp_config :: transport_Config
  tp_tls :: bool
  tp_path :: gostring
  tp_quit :: bool
  tp_stopped :: bool

datatype listen_error = ErrCertificate | ErrListen

definition NewTCP ::
    "(gostring \<Rightarrow> gostring \<Rightarrow> bool) \<Rightarrow> (gostring \<Rightarrow> gostring \<Rightarrow> bool) \<Rightarrow> ConfigTCP \<Rightarrow> (listen_error + transport) go_run" where
  "NewTCP load_cert listen config =
     (case ct_transport config of
        None \<Rightarrow> Panic
      | Some c \<Rightarrow>
          (let use_tls = (ct_CertFile config \<noteq> [] \<and> ct_KeyFile config \<noteq> []) in
           if use_tls \<and> \<not> load_cert (ct_CertFile config) (ct_KeyFile config) then Ret (Inl ErrCertificate)
           else if \<not> listen (ct_Scheme config) (ct_Host config @ go_lit '':'' @ tc_Port c) then Ret (Inl ErrListen)
           else Ret (Inr \<lparr>tp_kind = KindTCP, tp_protocol = ct_Scheme config, tp_config = c, tp_tls = use_tls, tp_path = [],
                  tp_quit = False, tp_stopped = False\<rparr>)))"

definition NewWS :: "(gostring \<Rightarrow> gostring \<Rightarrow> bool) \<Rightarrow> ConfigWS \<Rightarrow> (listen_error + transport) go_run" where
  "NewWS load_cert config =
     (case cw_transport config of
        None \<Rightarrow> Panic
      | Some c \<Rightarrow>
          (let use_tls = (length (cw_CertFile config) \<noteq> 0 \<and> length (cw_KeyFile config) \<noteq> 0) in
           if use_tls \<and> \<not> load_cert (cw_CertFile config) (cw_KeyFile config) then Ret (Inl ErrCertificate)
           else Ret (Inr \<lparr>tp_kind = KindWS, tp_protocol = go_lit ''ws'', tp_config = c, tp_tls = use_tls,
                  tp_path = (if length (cw_Path config) = 0 then go_lit ''/'' else cw_Path config),
                  tp_quit = False, tp_stopped = False\<rparr>)))"

text \<open>\<open>Close\<close> of both, which acts once: \<open>err\<close> is the error of closing the listener or the HTTP server.\<close>

definition transport_Close :: "bool \<Rightarrow> transport \<Rightarrow> transport \<times> bool" where
  "transport_Close err l =
     (if snd (Once_Do (tp_stopped l))
      then (l\<lparr>tp_stopped := True, tp_quit := (tp_quit l \<or> tp_kind l = KindTCP)\<rparr>, err)
      else (l, False))"

definition transport_Port :: "transport \<Rightarrow> gostring" where
  "transport_Port l = tc_Port (tp_config l)"

section \<open>The accept loop\<close>

text \<open>
  The results of \<open>Accept\<close> in their order: a connection, or an error, which is temporary or not, with
  the state of \<open>quit\<close> at that moment. Durations are in nanoseconds.
\<close>

datatype accept = Accepted "byte list list" | AcceptErr bool bool

datatype serve_result = ServeNil | ServeErr | ServeWaiting

definition next_delay :: "int \<Rightarrow> int" where
  "next_delay tempDelay =
     (let d = (if tempDelay = 0 then 5 * 1000000 else tempDelay * 2) in if d > 1000000000 then 1000000000 else d)"

text \<open>\<open>Serve\<close>: how long it slept, each time, and the connections it handed to \<open>handleConnection\<close>.\<close>

fun tcp_Serve :: "int \<Rightarrow> accept list \<Rightarrow> int list \<times> byte list list list \<times> serve_result" where
  "tcp_Serve tempDelay [] = ([], [], ServeWaiting)"
| "tcp_Serve tempDelay (Accepted c # es) =
     (case tcp_Serve tempDelay es of (ds, cs, r) \<Rightarrow> (ds, c # cs, r))"
| "tcp_Serve tempDelay (AcceptErr temporary quit # es) =
     (if quit then ([], [], ServeNil)
      else if temporary then
        (let d = next_delay tempDelay in case tcp_Serve d es of (ds, cs, r) \<Rightarrow> (d # ds, cs, r))
      else ([], [], ServeErr))"

section \<open>Properties\<close>

text \<open>The frames a websocket ignores for one \<open>Read\<close> are delivered by the next.\<close>

lemma ws_text_is_data:
  assumes "next_reader cn = (cn', Some (mt, r))" and "mt \<in> {TextMessage, PingMessage, PongMessage}"
    and "read r k = (r', b, err)" and "b \<noteq> []" and "ws_conn c = cn" and "ws_prev c = None"
  shows "\<exists>c1. connWs_Read next_reader read j c = (c1, [], False) \<and> fst (snd (connWs_Read next_reader read k c1)) = b"
  using assms by (auto simp: connWs_Read_def ws_read_next_def ws_read_prev_def Let_def)

definition temporary_errors :: "accept list \<Rightarrow> nat" where
  "temporary_errors es = length (filter (\<lambda>e. case e of AcceptErr _ _ \<Rightarrow> True | _ \<Rightarrow> False) es)"

definition accepted :: "accept list \<Rightarrow> byte list list list" where
  "accepted es = concat (map (\<lambda>e. case e of Accepted c \<Rightarrow> [c] | _ \<Rightarrow> []) es)"

definition backoff :: "nat \<Rightarrow> int" where
  "backoff k = min (5000000 * 2 ^ k) 1000000000"

lemma next_delay_backoff: "next_delay 0 = backoff 0" "next_delay (backoff k) = backoff (Suc k)"
  by (auto simp: next_delay_def backoff_def Let_def min_def)

lemma upt_map_Suc: "map f [k..<k + Suc n] = f k # map f [Suc k..<Suc k + n]"
  by (simp add: upt_rec)

lemma tcp_Serve_backoff:
  assumes "list_all (\<lambda>e. e \<noteq> AcceptErr False False \<and> (\<forall>b. e \<noteq> AcceptErr b True)) es"
    and "next_delay d = backoff k"
  shows "tcp_Serve d es = (map backoff [k..<k + temporary_errors es], accepted es, ServeWaiting)"
  using assms
proof (induction d es arbitrary: k rule: tcp_Serve.induct)
  case (2 d c es)
  then show ?case by (simp add: temporary_errors_def accepted_def)
next
  case (3 d temp quit es)
  then have e: "temp" "\<not> quit" by auto
  have "tcp_Serve (next_delay d) es = (map backoff [Suc k..<Suc k + temporary_errors es], accepted es, ServeWaiting)"
    using "3.prems" by (intro "3.IH" [OF e(2,1) refl]) (auto simp: next_delay_backoff)
  then show ?case
    using e "3.prems"(2) upt_map_Suc [of backoff k "temporary_errors es"] by (simp add: temporary_errors_def accepted_def Let_def)
qed (simp add: temporary_errors_def accepted_def)

text \<open>
  Temporary errors of \<open>Accept\<close> never end the listener and never cost a connection: all connections
  are handed on, in order, and the n-th error is followed by a pause of 5 milliseconds times
  \<open>2\<^sup>n\<close>, at most a second. The pause is not reset by a connection that was accepted in between.
\<close>

theorem serve_backoff:
  assumes "list_all (\<lambda>e. e \<noteq> AcceptErr False False \<and> (\<forall>b. e \<noteq> AcceptErr b True)) es"
  shows "tcp_Serve 0 es = (map (\<lambda>k. min (5000000 * 2 ^ k) 1000000000) [0..<temporary_errors es], accepted es, ServeWaiting)"
  using tcp_Serve_backoff [OF assms next_delay_backoff(1)] by (simp add: backoff_def)

theorem serve_backoff_witness:
  "fst (tcp_Serve 0 [AcceptErr True False, Accepted [[1]], AcceptErr True False]) = [5000000, 10000000]"
  using serve_backoff [of "[AcceptErr True False, Accepted [[1]], AcceptErr True False]"]
  by (simp add: temporary_errors_def)

end
