(* ===== verification/Websocket.thy ===== *)
theory Websocket
  imports Transport
begin

text \<open>
  The websocket listener of \<open>src/transport/websocket.go\<close> and its connections as a stream of bytes: the
  handlers of MQTT read from \<open>connWs.Read\<close> what the client wrote into its frames, however it cut them.
\<close>

section \<open>The listener\<close>

text \<open>\<open>newConnWs\<close> and \<open>newConnTCP\<close> never fail.\<close>

definition newConnWs :: "'c \<Rightarrow> metricEntry \<Rightarrow> ('c, 'r) connWs" where
  "newConnWs cn stat = \<lparr>ws_conn = cn, ws_stat = stat, ws_prev = None\<rparr>"

text \<open>
  \<open>serveWs\<close>: \<open>up\<close> is the result of \<open>Upgrade\<close>. An upgraded connection is handed to
  \<open>handleConnection\<close>, in a goroutine of its own; a request that fails is dropped.
\<close>

definition serveWs :: "'c option \<Rightarrow> metricEntry \<Rightarrow> ('c, 'r) connWs option" where
  "serveWs up stat = (case up of None \<Rightarrow> None | Some cn \<Rightarrow> Some (newConnWs cn stat))"

text \<open>\<open>Serve\<close>: the results of the two blocking calls of the HTTP server are arguments.\<close>

definition ws_Serve :: "'e \<Rightarrow> 'e \<Rightarrow> transport \<Rightarrow> 'e" where
  "ws_Serve serve_tls serve_plain l = (if tp_tls l then serve_tls else serve_plain)"

section \<open>The library\<close>

text \<open>
  What is relied on of the readers of the library: \<open>rest\<close> is what a reader has left of its message. A
  read moves a part of it, some of it if there is any, and reports the end only after the last
  byte. \<open>frames\<close> are the messages that are still to come on a connection; \<open>NextReader\<close> gives the next
  one, which is a text or a binary message, and fails when there is none.
\<close>

definition reader_ok :: "('r \<Rightarrow> nat \<Rightarrow> 'r \<times> byte list \<times> bool) \<Rightarrow> ('r \<Rightarrow> byte list) \<Rightarrow> bool" where
  "reader_ok read rest =
     (\<forall>r k. case read r k of (r', b, err) \<Rightarrow>
        b @ rest r' = rest r \<and> length b \<le> k \<and> (0 < k \<longrightarrow> rest r \<noteq> [] \<longrightarrow> b \<noteq> []) \<and> (err \<longrightarrow> rest r' = []))"

definition frames_ok ::
    "('c \<Rightarrow> 'c \<times> (ws_type \<times> 'r) option) \<Rightarrow> ('r \<Rightarrow> byte list) \<Rightarrow> ('c \<Rightarrow> byte list list) \<Rightarrow> bool" where
  "frames_ok next_reader rest frames =
     (\<forall>cn. case next_reader cn of
        (cn', None) \<Rightarrow> frames cn = [] \<and> frames cn' = []
      | (cn', Some (mt, r)) \<Rightarrow> frames cn = rest r # frames cn' \<and> (mt = TextMessage \<or> mt = BinaryMessage))"

section \<open>Reading the stream\<close>

text \<open>The bytes of a connection that are still to be read.\<close>

definition ws_pending :: "('r \<Rightarrow> byte list) \<Rightarrow> ('c \<Rightarrow> byte list list) \<Rightarrow> ('c, 'r) connWs \<Rightarrow> byte list" where
  "ws_pending rest frames c =
     (case ws_prev c of Some r \<Rightarrow> rest r | None \<Rightarrow> []) @ concat (frames (ws_conn c))"

text \<open>Calls of \<open>Read\<close> with buffers of the sizes \<open>ks\<close>, up to the first one that reports the end.\<close>

fun ws_reads ::
    "('c \<Rightarrow> 'c \<times> (ws_type \<times> 'r) option) \<Rightarrow> ('r \<Rightarrow> nat \<Rightarrow> 'r \<times> byte list \<times> bool) \<Rightarrow> nat list \<Rightarrow> ('c, 'r) connWs \<Rightarrow>
     ('c, 'r) connWs \<times> byte list \<times> bool" where
  "ws_reads next_reader read [] c = (c, [], False)"
| "ws_reads next_reader read (k # ks) c =
     (case connWs_Read next_reader read k c of
        (c1, b, True) \<Rightarrow> (c1, b, True)
      | (c1, b, False) \<Rightarrow> (case ws_reads next_reader read ks c1 of (c2, b', eof) \<Rightarrow> (c2, b @ b', eof)))"

definition ws_received :: "('c, 'r) connWs \<Rightarrow> uint64" where
  "ws_received c = dv_val (me_recv (ws_stat c))"

lemma ws_count_simps [simp]:
  "ws_conn (ws_count b c) = ws_conn c" "ws_prev (ws_count b c) = ws_prev c"
  "ws_received (ws_count b c) = ws_received c + of_nat (length b)"
  by (simp_all add: ws_count_def ws_received_def bytes_Received_def inc_recv_def)

lemma ws_received_upd [simp]:
  "ws_received (c\<lparr>ws_prev := p\<rparr>) = ws_received c" "ws_received (c\<lparr>ws_conn := cn\<rparr>) = ws_received c"
  by (simp_all add: ws_received_def)

text \<open>A read that is not the end moves bytes, or takes the next message.\<close>

definition read_step ::
    "('r \<Rightarrow> byte list) \<Rightarrow> ('c \<Rightarrow> byte list list) \<Rightarrow> ('c, 'r) connWs \<Rightarrow> ('c, 'r) connWs \<times> byte list \<times> bool \<Rightarrow> bool" where
  "read_step rest frames c res =
     (case res of (c', b, eof) \<Rightarrow>
        b @ ws_pending rest frames c' = ws_pending rest frames c \<and>
        ws_received c' = ws_received c + of_nat (length b) \<and>
        (if eof then ws_pending rest frames c = []
         else length (ws_pending rest frames c') + length (frames (ws_conn c')) <
              length (ws_pending rest frames c) + length (frames (ws_conn c))))"

lemma ws_read_prev_step:
  assumes "reader_ok read rest" and "ws_prev c = Some r" and "ws_read_prev read k r c = (c', b)" and "0 < k"
  shows "b @ ws_pending rest frames c' = ws_pending rest frames c" and "ws_conn c' = ws_conn c"
    and "ws_received c' = ws_received c + of_nat (length b)" and "b = [] \<Longrightarrow> rest r = []"
proof -
  obtain r' err where r: "read r k = (r', b, err)" "c' = (ws_count b c)\<lparr>ws_prev := (if err then None else Some r')\<rparr>"
    using assms(3) by (auto simp: ws_read_prev_def split: prod.splits)
  have ok: "b @ rest r' = rest r" "rest r \<noteq> [] \<longrightarrow> b \<noteq> []" "err \<longrightarrow> rest r' = []"
    using assms(1,4) r(1) unfolding reader_ok_def by (auto dest!: spec [of _ r] spec [of _ k])
  show "b @ ws_pending rest frames c' = ws_pending rest frames c"
    using ok(1,3) r(2) assms(2) by (auto simp: ws_pending_def)
  show "ws_conn c' = ws_conn c" "ws_received c' = ws_received c + of_nat (length b)" by (simp_all add: r(2))
  show "b = [] \<Longrightarrow> rest r = []" using ok(2) by blast
qed

lemma ws_read_next_step:
  assumes "reader_ok read rest" and "frames_ok next_reader rest frames" and "0 < k"
    and "\<And>r. ws_prev c = Some r \<Longrightarrow> rest r = []"
  shows "read_step rest frames c (ws_read_next next_reader read k c)"
proof -
  have p: "ws_pending rest frames c = concat (frames (ws_conn c))"
    using assms(4) by (simp add: ws_pending_def split: option.split)
  obtain cn o' where n: "next_reader (ws_conn c) = (cn, o')" by fastforce
  note f = assms(2) [unfolded frames_ok_def, rule_format, of "ws_conn c", unfolded n]
  show ?thesis
  proof (cases o')
    case None
    then show ?thesis using f by (simp add: ws_read_next_def n read_step_def p) (simp add: ws_pending_def)
  next
    case (Some a)
    then obtain mt r where a: "o' = Some (mt, r)" by (cases a) simp
    have fr: "frames (ws_conn c) = rest r # frames cn" and mt: "mt = TextMessage \<or> mt = BinaryMessage"
      using f a by auto
    let ?c1 = "c\<lparr>ws_conn := cn, ws_prev := Some r\<rparr>"
    have p1: "ws_pending rest frames ?c1 = ws_pending rest frames c" unfolding p fr by (simp add: ws_pending_def)
    obtain c2 b where rp: "ws_read_prev read k r ?c1 = (c2, b)" by fastforce
    have pv: "ws_prev ?c1 = Some r" by simp
    note s = ws_read_prev_step(1) [OF assms(1) pv rp assms(3), of frames, unfolded p1]
      ws_read_prev_step(2,3) [OF assms(1) pv rp assms(3), simplified]
    have len: "length (ws_pending rest frames c2) \<le> length (ws_pending rest frames c)"
      by (simp flip: s(1))
    show ?thesis
      using mt
    proof
      assume "mt = TextMessage"
      then show ?thesis using fr p1 by (simp add: ws_read_next_def n a read_step_def)
    next
      assume "mt = BinaryMessage"
      then show ?thesis
        using fr s len by (simp add: ws_read_next_def n a read_step_def rp)
    qed
  qed
qed

lemma connWs_Read_step:
  assumes "reader_ok read rest" and "frames_ok next_reader rest frames" and "0 < k"
  shows "read_step rest frames c (connWs_Read next_reader read k c)"
proof (cases "ws_prev c")
  case None
  then show ?thesis using ws_read_next_step [OF assms, of c] by (simp add: connWs_Read_def)
next
  case (Some r)
  obtain c1 b where rp: "ws_read_prev read k r c = (c1, b)" by fastforce
  note s = ws_read_prev_step(1) [OF assms(1) Some rp assms(3), of frames]
    ws_read_prev_step(2-4) [OF assms(1) Some rp assms(3)]
  show ?thesis
  proof (cases "b = []")
    case True
    have "rest r' = []" if "ws_prev c1 = Some r'" for r'
      using s(1,2) s(4) [OF True] that Some True by (simp add: ws_pending_def)
    then have "read_step rest frames c1 (ws_read_next next_reader read k c1)"
      by (intro ws_read_next_step [OF assms]) simp
    then show ?thesis
      using True s(1-3) Some rp by (auto simp: connWs_Read_def read_step_def split: prod.splits if_splits)
  next
    case False
    then have "length (ws_pending rest frames c1) < length (ws_pending rest frames c)"
      by (simp flip: s(1))
    then show ?thesis
      using False s Some rp by (simp add: connWs_Read_def read_step_def)
  qed
qed

text \<open>
  C24. A websocket connection is the stream of the bytes its client put into text and binary messages: calls of
  \<open>Read\<close>, with buffers of any sizes, give these bytes in order, none lost at the border of two messages and
  none twice, then the end of the stream; the end comes after at most one call per byte and per
  message, and the metric counts each byte once (modulo the width of the counter).
\<close>

theorem ws_stream:
  assumes "reader_ok read rest" and "frames_ok next_reader rest frames" and "\<forall>k \<in> set ks. 0 < k"
    and "length (ws_pending rest frames c) + length (frames (ws_conn c)) < length ks"
  shows "\<exists>c'. ws_reads next_reader read ks c = (c', ws_pending rest frames c, True) \<and>
    ws_received c' = ws_received c + of_nat (length (ws_pending rest frames c))"
  using assms(3,4)
proof (induction ks arbitrary: c)
  case (Cons k ks)
  obtain c1 b eof where r: "connWs_Read next_reader read k c = (c1, b, eof)" by (cases "connWs_Read next_reader read k c") auto
  have s: "read_step rest frames c (c1, b, eof)"
    using connWs_Read_step [OF assms(1,2), of k c] Cons.prems(1) by (simp add: r)
  show ?case
  proof (cases eof)
    case True
    then show ?thesis using s by (auto simp: read_step_def r)
  next
    case False
    then obtain c' where "ws_reads next_reader read ks c1 = (c', ws_pending rest frames c1, True)"
        "ws_received c' = ws_received c1 + of_nat (length (ws_pending rest frames c1))"
      using Cons.IH [of c1] Cons.prems s by (auto simp: read_step_def)
    moreover have "b @ ws_pending rest frames c1 = ws_pending rest frames c"
        "ws_received c1 = ws_received c + of_nat (length b)"
      using s False by (simp_all add: read_step_def)
    ultimately show ?thesis using False by (simp add: r flip: \<open>b @ _ = _\<close>)
  qed
qed simp

text \<open>A library that keeps its messages in a list.\<close>

fun list_next :: "(ws_type \<times> byte list) list \<Rightarrow> (ws_type \<times> byte list) list \<times> (ws_type \<times> byte list) option" where
  "list_next [] = ([], None)"
| "list_next ((mt, b) # ms) = (if mt = TextMessage \<or> mt = BinaryMessage then (ms, Some (mt, b)) else list_next ms)"

definition list_read :: "byte list \<Rightarrow> nat \<Rightarrow> byte list \<times> byte list \<times> bool" where
  "list_read r k = (drop k r, take k r, r = [])"

definition list_frames :: "(ws_type \<times> byte list) list \<Rightarrow> byte list list" where
  "list_frames cn = map snd (filter (\<lambda>m. fst m = TextMessage \<or> fst m = BinaryMessage) cn)"

lemma list_library: "reader_ok list_read (\<lambda>r. r)" "frames_ok list_next (\<lambda>r. r) list_frames"
proof -
  show "reader_ok list_read (\<lambda>r. r)" by (auto simp: reader_ok_def list_read_def)
  have "case list_next cn of (cn', None) \<Rightarrow> list_frames cn = [] \<and> list_frames cn' = []
      | (cn', Some (mt, r)) \<Rightarrow> list_frames cn = r # list_frames cn' \<and> (mt = TextMessage \<or> mt = BinaryMessage)" for cn
    by (induction cn rule: list_next.induct) (auto simp: list_frames_def split: prod.split option.split)
  then show "frames_ok list_next (\<lambda>r. r) list_frames" by (simp add: frames_ok_def)
qed

theorem ws_stream_witness:
  "\<exists>c'. ws_reads list_next list_read [2, 2, 2, 2, 2, 2, 2, 2]
      (newConnWs [(BinaryMessage, [1, 2, 3]), (TextMessage, [4])] (newMetricEntry [])) = (c', [1, 2, 3, 4], True) \<and>
    ws_received c' = 4"
  using ws_stream [OF list_library, of "[2, 2, 2, 2, 2, 2, 2, 2]"
      "newConnWs [(BinaryMessage, [1, 2, 3]), (TextMessage, [4])] (newMetricEntry [])"]
  by (simp add: ws_pending_def newConnWs_def list_frames_def ws_received_def newMetricEntry_def newDynamicValueInteger_def)

end
