(* ===== verification/Client_Id.thy ===== *)
theory Client_Id
  imports Sessions_Manager Systree
begin

text \<open>
  \<open>genClientID\<close> of \<open>src/clients/sessions.go\<close>, the identifier of a client that comes without one: fifteen random
  bytes in the URL alphabet of base64. It is the argument \<open>gen\<close> of \<open>NewSession\<close>.
\<close>

section \<open>Encoding\<close>

text \<open>\<open>base64.URLEncoding\<close>: three bytes are four digits to the base 64, a shorter rest is padded.\<close>

definition url_alphabet :: gostring where
  "url_alphabet = go_lit ''ABCDEFGHIJKLMNOPQRSTUVWXYZabcdefghijklmnopqrstuvwxyz0123456789-_''"

definition url_digit :: "nat \<Rightarrow> byte" where
  "url_digit n = url_alphabet ! (n mod 64)"

fun EncodeToString :: "byte list \<Rightarrow> gostring" where
  "EncodeToString [] = []"
| "EncodeToString [a] =
     (let v = unat a * 65536 in [url_digit (v div 262144), url_digit (v div 4096), 0x3D, 0x3D])"
| "EncodeToString [a, b] =
     (let v = unat a * 65536 + unat b * 256 in
      [url_digit (v div 262144), url_digit (v div 4096), url_digit (v div 64), 0x3D])"
| "EncodeToString (a # b # c # bs) =
     (let v = unat a * 65536 + unat b * 256 + unat c in
      url_digit (v div 262144) # url_digit (v div 4096) # url_digit (v div 64) # url_digit v # EncodeToString bs)"

text \<open>The argument is what \<open>io.ReadFull\<close> read, \<open>None\<close> for an error.\<close>

definition genClientID :: "byte list option \<Rightarrow> gostring" where
  "genClientID random = (case random of None \<Rightarrow> [] | Some b \<Rightarrow> EncodeToString b)"

section \<open>Properties\<close>

lemma url_alphabet_facts:
  "length url_alphabet = 64" "distinct url_alphabet"
  "list_all (\<lambda>b. b < 0x80 \<and> b \<noteq> byte_hash \<and> b \<noteq> byte_plus \<and> b \<noteq> byte_slash) url_alphabet"
  by (simp_all add: url_alphabet_def go_lit_def)

lemma url_digit_eq: "url_digit m = url_digit n \<longleftrightarrow> m mod 64 = n mod 64"
  by (simp add: url_digit_def nth_eq_iff_index_eq url_alphabet_facts)

lemma url_digit_in: "url_digit n \<in> set url_alphabet"
  by (simp add: url_digit_def url_alphabet_facts)

text \<open>The four digits determine the three bytes.\<close>

lemma div_mod_eq: "v div d = w div d \<Longrightarrow> v mod d = w mod d \<Longrightarrow> v = (w :: nat)"
  by (metis div_mult_mod_eq)

lemma digits_value:
  assumes "v div 262144 mod 64 = w div 262144 mod 64" and "v div 4096 mod 64 = w div 4096 mod 64"
    and "v div 64 mod 64 = w div 64 mod 64" and "v mod 64 = w mod 64" and "v < 16777216" and "w < (16777216 :: nat)"
  shows "v = w"
proof -
  have d: "x div 64 div 64 = x div 4096" "x div 4096 div 64 = x div 262144" for x :: nat
    by (simp_all flip: div_mult2_eq)
  have "v div 262144 = w div 262144" using assms(1,5,6) by (simp add: less_mult_imp_div_less)
  then have "v div 4096 = w div 4096" by - (rule div_mod_eq [of _ 64], simp_all add: d assms(2))
  then have "v div 64 = w div 64" by - (rule div_mod_eq [of _ 64], simp_all add: d assms(3))
  then show "v = w" using assms(4) by (rule div_mod_eq)
qed

lemma unat_byte: "unat (x :: byte) < 256"
  using unsigned_less [of x] by simp

lemma digit_split:
  assumes "x * 256 + y = x' * 256 + y'" and "y < 256" and "y' < (256 :: nat)"
  shows "x = x' \<and> y = y'"
proof -
  have "(x * 256 + y) div 256 = x" "(x' * 256 + y') div 256 = x'" using assms(2,3) by simp_all
  then show ?thesis using assms(1) by simp
qed

definition triple :: "byte \<Rightarrow> byte \<Rightarrow> byte \<Rightarrow> nat" where
  "triple a b c = unat a * 65536 + unat b * 256 + unat c"

lemma triple_less: "triple a b c < 16777216"
  using unat_byte [of a] unat_byte [of b] unat_byte [of c] by (simp add: triple_def)

lemma triple_eq:
  assumes "triple a b c = triple a' b' c'"
  shows "a = a' \<and> b = b' \<and> c = c'"
proof -
  have t: "triple a b c = (unat a * 256 + unat b) * 256 + unat c" for a b c by (simp add: triple_def)
  from digit_split [OF assms [unfolded t] unat_byte unat_byte]
  have "unat a * 256 + unat b = unat a' * 256 + unat b'" "c = c'" by (simp_all add: word_unat_eq_iff)
  from digit_split [OF this(1) unat_byte unat_byte] this(2) show ?thesis by (simp add: word_unat_eq_iff)
qed

lemma encode_triple:
  "EncodeToString (a # b # c # bs) =
     url_digit (triple a b c div 262144) # url_digit (triple a b c div 4096) # url_digit (triple a b c div 64) #
     url_digit (triple a b c) # EncodeToString bs"
  by (simp add: triple_def Let_def)

lemma encode_cons:
  assumes "EncodeToString (a # b # c # bs) = EncodeToString (a' # b' # c' # bs')"
  shows "a = a' \<and> b = b' \<and> c = c' \<and> EncodeToString bs = EncodeToString bs'"
proof -
  have "triple a b c = triple a' b' c'"
    using assms unfolding encode_triple by - (rule digits_value, simp_all add: url_digit_eq triple_less)
  then show ?thesis using triple_eq [of a b c a' b' c'] assms unfolding encode_triple by simp
qed

lemma encode_groups:
  "length b = 3 * n \<Longrightarrow> length (EncodeToString b) = 4 * n \<and> set (EncodeToString b) \<subseteq> set url_alphabet \<and>
     (\<forall>b'. length b' = 3 * n \<longrightarrow> EncodeToString b' = EncodeToString b \<longrightarrow> b' = b)"
proof (induction n arbitrary: b)
  case (Suc n)
  then obtain x y z bs where b: "b = x # y # z # bs" "length bs = 3 * n"
    by (auto simp: length_Suc_conv numeral_eq_Suc)
  note IH = Suc.IH [OF b(2)]
  have "b' = b" if l: "length b' = 3 * Suc n" and e: "EncodeToString b' = EncodeToString b" for b'
  proof -
    obtain x' y' z' bs' where b': "b' = x' # y' # z' # bs'" "length bs' = 3 * n"
      using l by (auto simp: length_Suc_conv numeral_eq_Suc)
    show ?thesis using encode_cons [OF e [unfolded b(1) b'(1)]] IH b'(2) by (simp add: b(1) b'(1))
  qed
  then show ?case using IH b by (auto simp: encode_triple url_digit_in simp del: EncodeToString.simps(4))
qed simp

text \<open>
  A generated identifier has twenty characters and different random bytes give different identifiers. It is one level of a
  topic with no wildcard, so the topics under which the status of such a client is published are valid. (The
  identifier of a client whose random bytes could not be read is empty.)
\<close>

theorem generated_id:
  assumes "length b = 15"
  shows "length (genClientID (Some b)) = 20" and "ValidTopic (genClientID (Some b))"
    and "byte_slash \<notin> set (genClientID (Some b))"
    and "\<And>b'. length b' = 15 \<Longrightarrow> genClientID (Some b') = genClientID (Some b) \<Longrightarrow> b' = b"
proof -
  have g: "length (EncodeToString b) = 20" "set (EncodeToString b) \<subseteq> set url_alphabet"
    "\<forall>b'. length b' = 15 \<longrightarrow> EncodeToString b' = EncodeToString b \<longrightarrow> b' = b"
    using encode_groups [of b 5] assms by simp_all
  show "length (genClientID (Some b)) = 20" by (simp add: genClientID_def g(1))
  show "b' = b" if "length b' = 15" "genClientID (Some b') = genClientID (Some b)" for b'
    using that g(3) by (simp add: genClientID_def)
  have ascii: "utf8_valid s" if "list_all (\<lambda>b. b < 0x80) s" for s
    using that by (induction s) simp_all
  have "\<forall>x \<in> set (EncodeToString b). x < 0x80 \<and> x \<noteq> byte_hash \<and> x \<noteq> byte_plus \<and> x \<noteq> byte_slash"
    using g(2) url_alphabet_facts(3) unfolding list_all_iff by blast
  then show "ValidTopic (genClientID (Some b))" "byte_slash \<notin> set (genClientID (Some b))"
    using ascii [of "EncodeToString b"] by (auto simp: genClientID_def ValidTopic_def go_contains_def list_all_iff)
qed

end
