(* ===== verification/Client_Gauge.thy ===== *)
theory Client_Gauge
  imports Systree
begin

text \<open>
  The manager and the system tree together: the counter \<open>stats/clients/current\<close> against the table of
  sessions. A step is one that the code can take: a CONNECT, the end of the connection of a session
  that is online, and the firing of a timer that is set.
\<close>

section \<open>Online sessions\<close>

definition online :: "(gostring \<times> session) list \<Rightarrow> int" where
  "online xs = sum_list (map (\<lambda>(k, s). of_bool (se_online s)) xs)"

lemma online_update:
  "distinct (map fst xs) \<Longrightarrow> map_of xs k = Some y \<Longrightarrow>
     online (AList.update k v xs) = online xs - of_bool (se_online y) + of_bool (se_online v)"
  by (induction xs) (auto simp: online_def split: if_splits)

lemma online_store: "map_of xs k = None \<Longrightarrow> online (AList.update k v xs) = online xs + of_bool (se_online v)"
  by (induction xs) (auto simp: online_def split: if_splits)

lemma online_delete:
  "distinct (map fst xs) \<Longrightarrow> map_of xs k = Some y \<Longrightarrow> online (AList.delete k xs) = online xs - of_bool (se_online y)"
  by (induction xs) (auto simp: online_def delete_idem split: if_splits)

text \<open>A session that is online has a connection and no timer.\<close>

definition live_ok :: "session \<Rightarrow> bool" where
  "live_ok s = (se_online s \<longrightarrow> se_conn s \<and> se_timer s = None)"

definition gauge_inv :: "manager \<Rightarrow> bool" where
  "gauge_inv m = (mgr_inv m \<and> (\<forall>k s. map_of (mg_sessions m) k = Some s \<longrightarrow> live_ok s))"

text \<open>What a list of calls does to the counter.\<close>

definition delta :: "mgr_call list \<Rightarrow> int" where
  "delta out = sum_list (map (\<lambda>c. case c of SysConnected _ \<Rightarrow> 1 | SysDisconnected _ _ _ \<Rightarrow> - 1 | _ \<Rightarrow> 0) out)"

lemma delta_simps [simp]:
  "delta [] = 0" "delta (xs @ ys) = delta xs + delta ys"
  "delta (c # cs) = (case c of SysConnected _ \<Rightarrow> 1 | SysDisconnected _ _ _ \<Rightarrow> - 1 | _ \<Rightarrow> 0) + delta cs"
  by (simp_all add: delta_def)

lemma clients_current_delta: "clients_current (fold (sys_call json) out t) = clients_current t + of_int (delta out)"
proof (induction out arbitrary: t)
  case (Cons c cs)
  have "clients_current (sys_call json c t) = clients_current t +
      of_int (case c of SysConnected _ \<Rightarrow> 1 | SysDisconnected _ _ _ \<Rightarrow> - 1 | _ \<Rightarrow> 0)"
    by (cases c) (simp_all add: sys_call_def clients_current_def clients_Connected_def clients_Disconnected_def
        sessions_Created_def sessions_Removed_def stat_add_def stat_remove_def Let_def)
  then show ?case using Cons.IH [of "sys_call json c t"] by simp
qed simp

definition disconnects :: "session_call list \<Rightarrow> int" where
  "disconnects calls = sum_list (map (\<lambda>c. case c of SignalDisconnected _ _ _ \<Rightarrow> 1 | _ \<Rightarrow> 0) calls)"

lemma disconnects_simps [simp]:
  "disconnects [] = 0" "disconnects (xs @ ys) = disconnects xs + disconnects ys"
  "disconnects (c # cs) = (case c of SignalDisconnected _ _ _ \<Rightarrow> 1 | _ \<Rightarrow> 0) + disconnects cs"
  by (simp_all add: disconnects_def)

lemma run_calls_delta: "run_calls u calls m st = Some (m', st', out) \<Longrightarrow> delta out = - disconnects calls"
proof (induction calls arbitrary: m st m' st' out)
  case (Cons c cs)
  then show ?case
    by (cases c) (fastforce simp: bind_eq_Some_conv onSessionClose_def split: option.split_asm)+
qed simp

section \<open>The operations\<close>

lemma onDisconnect_gauge:
  assumes "session_onDisconnect now h p s = Some (s', calls)"
  shows "\<not> se_online s' \<and> disconnects calls = 1"
proof -
  have w: "disconnects (snd (disconnect_will p c)) = 0" for c by (auto simp: disconnect_will_def split: option.splits)
  have u: "disconnects su = 0" if "disconnect_subscriber h c = Some (c', su)" for c c' su
    using that by (auto simp: disconnect_subscriber_def split: option.split_asm if_split_asm)
  show ?thesis
    using assms
    by (auto simp: session_onDisconnect_def finalize_def runExpiry_def bind_eq_Some_conv case_prod_beta Let_def w u
        split: if_split_asm)
qed

lemma timerCallback_gauge:
  "timerCallback s = Some (s', calls) \<Longrightarrow> se_online s' = se_online s \<and> disconnects calls = 0"
  by (auto simp: timerCallback_def finalize_def bind_eq_Some_conv Let_def split: option.split_asm if_split_asm)

text \<open>The calls of a session, with the session object written back.\<close>

lemma gauge_run:
  assumes "gauge_inv m" and "map_of (mg_sessions m) cid = Some s" and "se_id s' = cid" and "\<not> se_online s'"
    and "closes calls = (if se_finalized s' then [cid] else [])"
    and "run_calls u calls (set_session s' m) st = Some (m', st', out)"
  shows "gauge_inv m' \<and> online (mg_sessions m') = online (mg_sessions m) - of_bool (se_online s) \<and> delta out = - disconnects calls"
proof -
  have d: "distinct (map fst (mg_sessions m))" using assms(1) by (simp add: gauge_inv_def mgr_inv_def)
  have i: "mgr_inv m'" using mgr_inv_run [of m cid s s' calls u st m' st' out] assms by (simp add: gauge_inv_def)
  have ss: "mg_sessions (set_session s' m) = AList.update cid s' (mg_sessions m)"
    using assms(2,3) by (simp add: set_session_def)
  have up: "online (AList.update cid s' (mg_sessions m)) = online (mg_sessions m) - of_bool (se_online s)"
    using online_update [OF d assms(2), of s'] assms(4) by simp
  have l: "\<forall>k x. map_of (AList.update cid s' (mg_sessions m)) k = Some x \<longrightarrow> live_ok x"
    using assms(1,4) by (auto simp: gauge_inv_def update_conv' live_ok_def)
  show ?thesis
  proof (cases "se_finalized s'")
    case True
    then have m': "mg_sessions m' = AList.delete cid (AList.update cid s' (mg_sessions m))"
      using run_calls_sessions [OF assms(6)] assms(5) ss by simp
    have "map_of (AList.update cid s' (mg_sessions m)) cid = Some s'" by (simp add: update_conv')
    then have "online (mg_sessions m') = online (mg_sessions m) - of_bool (se_online s)"
      using online_delete [OF distinct_update [OF d], of cid s' cid s'] up assms(4) m' by simp
    moreover have "\<forall>k x. map_of (mg_sessions m') k = Some x \<longrightarrow> live_ok x"
      using l unfolding m' by (auto simp: delete_conv' split: if_splits)
    ultimately show ?thesis using i run_calls_delta [OF assms(6)] by (simp add: gauge_inv_def)
  next
    case False
    then have "mg_sessions m' = AList.update cid s' (mg_sessions m)"
      using run_calls_sessions [OF assms(6)] assms(5) ss by simp
    then show ?thesis using i l up run_calls_delta [OF assms(6)] by (simp add: gauge_inv_def)
  qed
qed

lemma gauge_set:
  assumes "gauge_inv m" and "map_of (mg_sessions m) cid = Some s" and "se_id s' = cid" and "\<not> se_finalized s'" and "live_ok s'"
  shows "gauge_inv (set_session s' m) \<and>
    online (mg_sessions (set_session s' m)) = online (mg_sessions m) - of_bool (se_online s) + of_bool (se_online s')"
proof -
  have "mgr_inv (set_session s' m)" using mgr_inv_set [of m s'] assms by (simp add: gauge_inv_def session_ok_def)
  then show ?thesis
    using assms online_update [of "mg_sessions m" cid s s']
    by (auto simp: gauge_inv_def set_session_def update_conv' mgr_inv_def split: if_splits)
qed

lemma gauge_store:
  assumes "gauge_inv m" and "map_of (mg_sessions m) cid = None"
  shows "gauge_inv (store_session cid (allocSession cid now) m) \<and>
    online (mg_sessions (store_session cid (allocSession cid now) m)) = online (mg_sessions m)"
proof -
  have "mgr_inv (store_session cid (allocSession cid now) m)"
    using mgr_inv_store [of m cid "allocSession cid now"] assms by (simp add: gauge_inv_def session_ok_def allocSession_def newSession_def)
  then show ?thesis
    using assms online_store [OF assms(2), of "allocSession cid now"]
    by (auto simp: gauge_inv_def store_session_def update_conv' live_ok_def allocSession_def newSession_def split: if_splits)
qed

lemma loadSession_gauge:
  assumes "loadSession u now f cid v m st = Ret (m', st', out, r)" and "gauge_inv m"
  shows "gauge_inv m' \<and> online (mg_sessions m') = online (mg_sessions m) + delta out \<and>
    (\<forall>s. r = Inr s \<longrightarrow> \<not> se_online s \<and> se_timer s = None)"
proof (cases "map_of (mg_sessions m) cid")
  case None
  then show ?thesis
    using assms gauge_store [OF assms(2) None, of now] by (auto simp: loadSession_def Let_def allocSession_def newSession_def)
next
  case (Some old)
  have inv: "mgr_inv m" using assms(2) by (simp add: gauge_inv_def)
  note s = mgr_inv_session [OF inv Some]
  have unlocked: "\<not> se_locked old" using assms(1) Some by (auto simp: loadSession_def Let_def)
  show ?thesis
  proof (cases "se_online old")
    case False
    then show ?thesis
      using assms Some s unlocked gauge_set [OF assms(2) Some, of "old\<lparr>se_timer := None, se_locked := True\<rparr>"]
      by (auto simp: loadSession_def setOnline_def Let_def live_ok_def)
  next
    case True
    then have conn: "se_conn old" using assms(2) Some by (auto simp: gauge_inv_def live_ok_def)
    show ?thesis
    proof (cases "cf_AllowReplace (mg_cfg m)")
      case False
      then show ?thesis using assms Some True unlocked by (auto simp: loadSession_def setOnline_def Let_def)
    next
      case replace: True
      obtain s1 calls m1 out1 where st: "stop_session now f CodeSessionTakenOver old = Ret (s1, calls)"
        "run_calls u calls (set_session s1 m) st = Some (m1, st', out1)"
        "m' = store_session cid (allocSession cid now) m1" "r = Inr (allocSession cid now)" "out = ReplaceAttempt cid True # out1"
        using assms(1) Some True replace unlocked
        by (auto simp: loadSession_def setOnline_def takeover_stop_def go_bind_eq_Ret_conv Let_def)
      have c: "se_id s1 = cid" "closes calls = [cid]" using stop_session_closes [OF st(1)] s by auto
      have g: "se_finalized s1 \<and> \<not> se_online s1 \<and> disconnects calls = 1"
        using st(1) conn
        by (cases "f CodeSessionTakenOver")
          (auto simp: stop_session_def stop_end_def finalize_def go_bind_eq_Ret_conv Let_def split: if_split_asm
            dest!: onDisconnect_gauge)
      have m1: "gauge_inv m1 \<and> online (mg_sessions m1) = online (mg_sessions m) - 1 \<and> delta out1 = - 1"
        using gauge_run [OF assms(2) Some c(1) _ _ st(2)] g c True by simp
      have "map_of (mg_sessions m1) cid = None"
        using mgr_inv_run [OF inv Some c(1) _ st(2)] g c by simp
      from gauge_store [OF _ this, of now] m1 st(3-5) show ?thesis by (simp add: allocSession_def newSession_def)
    qed
  qed
qed

lemma configureSession_gauge:
  assumes "configureSession u parse now ex stored during fresh req resp ses cid g m st = Some (m', st', out, resp', r)"
    and "gauge_inv m" and "map_of (mg_sessions m) cid = Some ses" and "\<not> se_online ses" and "se_timer ses = None"
  shows "gauge_inv m' \<and> online (mg_sessions m') = online (mg_sessions m) \<and> delta out = 0 \<and>
    (\<exists>y. map_of (mg_sessions m') cid = Some y \<and> \<not> se_online y) \<and>
    (\<forall>s c. r = Inr (s, c) \<longrightarrow> se_id s = cid \<and> \<not> se_finalized s \<and> se_conn s \<and> se_timer s = None)"
proof -
  have ses: "se_id ses = cid" "\<not> se_finalized ses"
    using assms(2) mgr_inv_session [OF _ assms(3)] by (auto simp: gauge_inv_def)
  obtain m1 st1 o1 a b where g: "getSubscriber u ex fresh cid (Connect_IsClean req) (h_version req) m st = Some (m1, st1, o1, a, b)"
    using assms(1) by (auto simp: configureSession_def bind_eq_Some_conv)
  have o1: "delta o1 = 0" using g by (auto simp: getSubscriber_def bind_eq_Some_conv split: if_split_asm option.split_asm)
  have m1: "mg_sessions m1 = mg_sessions m" "mg_count m1 = mg_count m" using getSubscriber_sessions [OF g] by auto
  then have inv1: "gauge_inv (m1\<lparr>mg_heap := h\<rparr>)" "gauge_inv m1" for h using assms(2) by (simp_all add: gauge_inv_def mgr_inv_def)
  obtain resp1 n where n: "negotiate req resp (if g then cid else []) a m1 = Some (resp1, n)"
    using assms(1) g by (auto simp: configureSession_def bind_eq_Some_conv)
  show ?thesis
  proof (cases n)
    case (Inl e)
    then show ?thesis using assms g n m1 inv1 o1 by (auto simp: configureSession_def)
  next
    case (Inr x)
    obtain sc cc where x: "x = (sc, cc)" by force
    define ses2 where "ses2 = ses\<lparr>se_cfg := Some sc, se_finalized := False, se_conn := True, se_started := False,
      se_connStop := True\<rparr>"
    obtain conn where al: "r = Inr (ses2, conn)"
      "m' = set_session ses2 (m1\<lparr>mg_heap := AList.update a (c_sub conn) (mg_heap m1)\<rparr>)" and o: "delta out = 0"
      using assms(1) g n Inr x o1
      by (auto simp: configureSession_def bind_eq_Some_conv reconfigure_def allocConnection_def Let_def ses2_def)
    have s2: "se_id ses2 = cid" "\<not> se_finalized ses2" "\<not> se_online ses2" "se_conn ses2" "se_timer ses2 = None" "live_ok ses2"
      using ses assms(4,5) by (simp_all add: ses2_def live_ok_def)
    let ?m = "m1\<lparr>mg_heap := AList.update a (c_sub conn) (mg_heap m1)\<rparr>"
    have "map_of (mg_sessions ?m) cid = Some ses" using m1 assms(3) by simp
    from gauge_set [OF inv1(1) this s2(1,2,6)] al o s2 m1 assms(4) this
    show ?thesis by (auto simp: set_session_def update_conv')
  qed
qed


lemma gauge_delete:
  assumes "gauge_inv m" and "map_of (mg_sessions m) cid = Some y" and "\<not> se_online y"
    and "m' = m\<lparr>mg_sessions := AList.delete cid (mg_sessions m), mg_count := mg_count m - 1\<rparr>"
  shows "gauge_inv m' \<and> online (mg_sessions m') = online (mg_sessions m)"
proof -
  have "mgr_inv m'" using mgr_inv_delete [of m cid y m'] assms by (simp add: gauge_inv_def)
  then show ?thesis
    using assms online_delete [of "mg_sessions m" cid y]
    by (auto simp: gauge_inv_def mgr_inv_def delete_conv' split: if_splits)
qed

lemma open_session_gauge:
  assumes "open_session u parse now f ex stored during fresh wr req resp cid g m st = Ret (m', st', out, r, res)"
    and "gauge_inv m"
  shows "gauge_inv m' \<and> online (mg_sessions m') = online (mg_sessions m) + delta out"
proof -
  obtain m1 st1 o1 l where l: "loadSession u now f cid (h_version req) m st = Ret (m1, st1, o1, l)"
    and e: "connect_session u parse now ex stored during fresh wr req resp cid g (m1, st1, o1, l) = Some (m', st', out, r, res)"
    using assms(1) by (auto simp: open_session_def go_bind_eq_Ret_conv)
  note lg = loadSession_gauge [OF l assms(2)]
  show ?thesis
  proof (cases l)
    case (Inl e)
    then show ?thesis using e lg by (auto simp: connect_session_def bind_eq_Some_conv)
  next
    case (Inr ses)
    have map1: "map_of (mg_sessions m1) cid = Some ses"
      using loadSession_inv [OF l] assms(2) Inr by (simp add: gauge_inv_def loaded_def)
    obtain m2 st2 o2 resp1 c where c:
      "configureSession u parse now ex stored during fresh req resp ses cid g m1 st1 = Some (m2, st2, o2, resp1, c)"
      using e Inr by (auto simp: connect_session_def bind_eq_Some_conv)
    have cg: "gauge_inv m2 \<and> online (mg_sessions m2) = online (mg_sessions m1) \<and> delta o2 = 0 \<and>
        (\<exists>y. map_of (mg_sessions m2) cid = Some y \<and> \<not> se_online y) \<and>
        (\<forall>s k. c = Inr (s, k) \<longrightarrow> se_id s = cid \<and> \<not> se_finalized s \<and> se_conn s \<and> se_timer s = None)"
      using lg Inr by (intro configureSession_gauge [OF c _ map1]) auto
    then obtain y where y: "map_of (mg_sessions m2) cid = Some y" "\<not> se_online y" by blast
    show ?thesis
    proof (cases c)
      case Inl': (Inl e)
      have "m' = m2\<lparr>mg_sessions := AList.delete cid (mg_sessions m2), mg_count := mg_count m2 - 1\<rparr>" "out = o1 @ o2"
        using e c Inr Inl' by (auto simp: connect_session_def bind_eq_Some_conv)
      then show ?thesis using gauge_delete [OF _ y] cg lg by simp
    next
      case Inr': (Inr x)
      obtain s k where x: "x = (s, k)" by force
      have s: "se_id s = cid" "\<not> se_finalized s" "live_ok (session_start s)" "se_online (session_start s)"
        using cg Inr' x by (simp_all add: live_ok_def session_start_def)
      have "m' = m2 \<and> out = o1 @ o2 \<or> m' = set_session (session_start s) m2 \<and> out = o1 @ o2 @ [SysConnected cid]"
        using e c Inr Inr' x
        by (auto simp: connect_session_def finish_connect_def bind_eq_Some_conv Let_def split: if_split_asm)
      then show ?thesis
        using gauge_set [OF _ y(1), of "session_start s"] cg lg s y(2) by (auto simp: session_start_def)
    qed
  qed
qed

section \<open>Runs\<close>

inductive srv_step ::
    "'st topics_UnSubscribe \<Rightarrow> (mgr_call \<Rightarrow> byte list option) \<Rightarrow> manager \<times> 'st \<times> systree \<Rightarrow> manager \<times> 'st \<times> systree \<Rightarrow> bool"
  for u json where
  srv_connect: "NewSession u parse now f gen ex stored during fresh wr req resp m st = Ret (m', st', out, r, res) \<Longrightarrow>
    srv_step u json (m, st, t) (m', st', fold (sys_call json) out t)"
| srv_ended: "map_of (mg_sessions m) cid = Some s \<Longrightarrow> se_online s \<Longrightarrow> conn_ended u now cid p sub m st = Some (m', st', out) \<Longrightarrow>
    srv_step u json (m, st, t) (m', st', fold (sys_call json) out t)"
| srv_timer: "map_of (mg_sessions m) cid = Some s \<Longrightarrow> se_timer s \<noteq> None \<Longrightarrow> timer_fired u cid m st = Some (m', st', out) \<Longrightarrow>
    srv_step u json (m, st, t) (m', st', fold (sys_call json) out t)"

definition shows_online :: "manager \<times> 'st \<times> systree \<Rightarrow> bool" where
  "shows_online x = (gauge_inv (fst x) \<and> clients_current (snd (snd x)) = of_int (online (mg_sessions (fst x))))"

lemma shows_onlineI:
  assumes "shows_online (m, st, t)" and "gauge_inv m' \<and> online (mg_sessions m') = online (mg_sessions m) + delta out"
  shows "shows_online (m', st', fold (sys_call json) out t)"
  using assms by (simp add: shows_online_def clients_current_delta)

lemma srv_step_shows_online: "srv_step u json x y \<Longrightarrow> shows_online x \<Longrightarrow> shows_online y"
proof (induction rule: srv_step.induct)
  case (srv_connect parse now f gen ex stored during fresh wr req resp m st m' st' out r res t)
  have "gauge_inv m" using srv_connect.prems by (simp add: shows_online_def)
  then have "gauge_inv m' \<and> online (mg_sessions m') = online (mg_sessions m) + delta out"
    using srv_connect.hyps open_session_gauge
    by (fastforce simp: NewSession_def go_bind_eq_Ret_conv Let_def split: if_split_asm)
  with srv_connect.prems show ?case by (rule shows_onlineI)
next
  case (srv_ended m cid s now p sub st m' st' out t)
  let ?m = "m\<lparr>mg_heap := AList.update (sb_hash sub) sub (mg_heap m)\<rparr>"
  have g: "gauge_inv m" using srv_ended.prems by (simp add: shows_online_def)
  then have g': "gauge_inv ?m" by (simp add: gauge_inv_def mgr_inv_def)
  obtain s' calls where d: "session_onDisconnect now (HasSubscriptions sub) p s = Some (s', calls)"
    "run_calls u calls (set_session s' ?m) st = Some (m', st', out)"
    using srv_ended.hyps by (auto simp: conn_ended_def bind_eq_Some_conv)
  have i: "se_id s = cid" "\<not> se_finalized s" using mgr_inv_session [OF _ srv_ended.hyps(1)] g by (auto simp: gauge_inv_def)
  have "gauge_inv m' \<and> online (mg_sessions m') = online (mg_sessions m) + delta out"
    using gauge_run [OF g' _ _ _ _ d(2), of cid s] onDisconnect_closes [OF d(1) i(2)] onDisconnect_gauge [OF d(1)] i
      srv_ended.hyps(1,2) by simp
  with srv_ended.prems show ?case by (rule shows_onlineI)
next
  case (srv_timer m cid s st m' st' out t)
  have g: "gauge_inv m" using srv_timer.prems by (simp add: shows_online_def)
  obtain s' calls where d: "timerCallback s = Some (s', calls)" "run_calls u calls (set_session s' m) st = Some (m', st', out)"
    using srv_timer.hyps by (auto simp: timer_fired_def bind_eq_Some_conv)
  have i: "se_id s = cid" "\<not> se_finalized s" using mgr_inv_session [OF _ srv_timer.hyps(1)] g by (auto simp: gauge_inv_def)
  have o: "\<not> se_online s" using g srv_timer.hyps(1,2) by (auto simp: gauge_inv_def live_ok_def)
  have "gauge_inv m' \<and> online (mg_sessions m') = online (mg_sessions m) + delta out"
    using gauge_run [OF g srv_timer.hyps(1) _ _ _ d(2)] timerCallback_closes [OF d(1) i(2)] timerCallback_gauge [OF d(1)] i o by simp
  with srv_timer.prems show ?case by (rule shows_onlineI)
qed

text \<open>
  C16. The counter \<open>stats/clients/current\<close> is right whenever no call of the manager is under way: whatever
  clients connect, take over a session, are refused or lost, and whatever timers fire, it shows
  the number of sessions that are online.
\<close>

theorem clients_counter_exact:
  assumes "(srv_step u json)\<^sup>*\<^sup>* (m0, st0, t0) (m, st, t)" and "mg_sessions m0 = []" and "mg_count m0 = 0"
    and "clients_current t0 = 0"
  shows "clients_current t = of_nat (length (filter (\<lambda>(k, s). se_online s) (mg_sessions m)))"
proof -
  have len: "online xs = int (length (filter (\<lambda>(k, s). se_online s) xs))" for xs
    by (induction xs) (auto simp: online_def)
  have "shows_online (m0, st0, t0)" using assms(2-4) by (simp add: shows_online_def gauge_inv_def mgr_inv_def online_def)
  moreover have "shows_online y" if "(srv_step u json)\<^sup>*\<^sup>* x y" "shows_online x" for x y :: "manager \<times> 'a \<times> systree"
    using that by (induction rule: rtranclp_induct) (auto intro: srv_step_shows_online)
  ultimately have "shows_online (m, st, t)" using assms(1) by blast
  then show ?thesis by (simp add: shows_online_def len)
qed

theorem clients_counter_exact_witness:
  "\<exists>m' st' out r res. NewSession (\<lambda>_ _ _. None) (\<lambda>_. None) 0 (\<lambda>_. undefined) [] False None [] 5 True sample_connect
      (header_init ProtocolV311 CONNACK newConnAck) (sample_manager\<lparr>mg_subscribers := []\<rparr>) () = Ret (m', st', out, r, res) \<and>
     clients_current (fold (sys_call (\<lambda>_. None)) out (fst (NewTree 0 [] []))) = 1"
proof -
  let ?m = "sample_manager\<lparr>mg_subscribers := []\<rparr>"
  let ?t = "fst (NewTree 0 [] [])"
  let ?n = "NewSession (\<lambda>_ _ _. None) (\<lambda>_. None) 0 (\<lambda>_. undefined) [] False None [] 5 True sample_connect
      (header_init ProtocolV311 CONNACK newConnAck) ?m ()"
  have "case ?n of Ret (m', _) \<Rightarrow> length (filter (\<lambda>(k, s). se_online s) (mg_sessions m')) = 1 | _ \<Rightarrow> False"
    by code_simp
  then obtain m' st' out r res where n: "?n = Ret (m', st', out, r, res)"
    "length (filter (\<lambda>(k, s). se_online s) (mg_sessions m')) = 1" by (auto split: go_run.split_asm)
  then have "srv_step (\<lambda>_ _ _. None) (\<lambda>_. None) (?m, (), ?t) (m', st', fold (sys_call (\<lambda>_. None)) out ?t)" by (intro srv_connect)
  then have run: "(srv_step (\<lambda>_ _ _. None) (\<lambda>_. None))\<^sup>*\<^sup>* (?m, (), ?t) (m', st', fold (sys_call (\<lambda>_. None)) out ?t)" ..
  have t: "clients_current ?t = 0"
    by (simp add: clients_current_def NewTree_def newServer_def newClients_def newStat_def newDynamicValueInteger_def Let_def)
  have "clients_current (fold (sys_call (\<lambda>_. None)) out ?t) =
      of_nat (length (filter (\<lambda>(k, s). se_online s) (mg_sessions m')))"
    by (rule clients_counter_exact [OF run _ _ t]) (simp_all add: sample_manager_def)
  then show ?thesis using n by simp
qed

end
