(* ===== verification/Server.thy ===== *)
theory Server
  imports Client_Gauge Transport
begin

text \<open>
  \<open>src/volantmq.go\<close>: the server that puts the parts together. \<open>NewServer\<close> checks the configuration, finds its
  name, builds the system tree, the topics manager and the sessions manager; \<open>ListenAndServe\<close> adds
  listeners; \<open>Close\<close> takes everything down; \<open>systreeUpdater\<close> publishes the counters.

  The storage is the external package \<open>persistence\<close>: its answers are the record \<open>storage\<close>. \<open>uuid\<close> is
  what \<open>uuid.New\<close> returns, \<open>json\<close> and \<open>caps\<close> what \<open>json.Marshal\<close> makes of a status and of the
  capabilities. Logging and the callbacks of the user are left out.
\<close>

section \<open>Configuration\<close>

record storage =
  pe_System_ok :: bool
  pe_GetInfo :: "gostring option"
  pe_SetInfo_ok :: "gostring \<Rightarrow> bool"
  pe_Retained :: "(PersistedPacket list \<times> persist_error option) option"
  pe_Sessions :: "(gostring \<times> LoadedState) list"
  pe_LoadErr :: "load_error option"

record ServerConfig =
  sc_Persistence :: "storage option"
  sc_ConnectTimeout :: int
  sc_KeepAlive :: int
  sc_SystreeUpdateInterval :: int
  sc_NodeName :: gostring
  sc_Authenticators :: gostring
  sc_AllowedVersions :: "(ProtocolVersion \<times> bool) list"
  sc_MaxPacketSize :: uint32
  sc_AllowOverlappingSubscriptions :: bool
  sc_RewriteNodeName :: bool
  sc_OfflineQoS0 :: bool
  sc_AllowDuplicates :: bool
  sc_WithSystree :: bool
  sc_ForceKeepAlive :: bool

definition NewServerConfig :: "storage option \<Rightarrow> ServerConfig" where
  "NewServerConfig dflt =
     \<lparr>sc_Persistence = dflt, sc_ConnectTimeout = 2, sc_KeepAlive = 60, sc_SystreeUpdateInterval = 0, sc_NodeName = [],
      sc_Authenticators = go_lit ''mockSuccess'', sc_AllowedVersions = [(ProtocolV31, True), (ProtocolV311, True), (ProtocolV50, True)],
      sc_MaxPacketSize = 268435455, sc_AllowOverlappingSubscriptions = True, sc_RewriteNodeName = False, sc_OfflineQoS0 = False,
      sc_AllowDuplicates = False, sc_WithSystree = True, sc_ForceKeepAlive = False\<rparr>"

text \<open>
  \<open>nodeNameRegexp\<close>: a local part, one \<open>@\<close>, and labels separated by dots, each of at most 63 letters, digits and
  hyphens with no hyphen at either end. Neither part may hold a further \<open>@\<close>.
\<close>

definition byte_alnum :: "byte \<Rightarrow> bool" where
  "byte_alnum b = (0x30 \<le> b \<and> b \<le> 0x39 \<or> 0x41 \<le> b \<and> b \<le> 0x5A \<or> 0x61 \<le> b \<and> b \<le> 0x7A)"

definition local_char :: "byte \<Rightarrow> bool" where
  "local_char b = (byte_alnum b \<or> b \<in> set (go_lit ''.!#$%&*+/=?^_`{|}~-'') \<or> b = 0x27)"

definition host_label :: "gostring \<Rightarrow> bool" where
  "host_label l =
     (0 < length l \<and> length l \<le> 63 \<and> list_all (\<lambda>b. byte_alnum b \<or> b = 0x2D) l \<and> byte_alnum (hd l) \<and> byte_alnum (last l))"

definition nodeNameRegexp :: "gostring \<Rightarrow> bool" where
  "nodeNameRegexp s =
     (case go_split 0x40 s of
        [l, h] \<Rightarrow> l \<noteq> [] \<and> list_all local_char l \<and> list_all host_label (go_split 0x2E h)
      | _ \<Rightarrow> False)"

section \<open>The parts at work\<close>

text \<open>
  A call the manager makes to the tree or to the topics manager: the new tree and the messages this
  causes. \<open>sys_call\<close> is the first of them.
\<close>

definition sys_apply :: "(mgr_call \<Rightarrow> byte list option) \<Rightarrow> mgr_call \<Rightarrow> systree \<Rightarrow> systree \<times> messenger_call list" where
  "sys_apply json c t =
     (sys_call json c t,
      case c of
        SysConnected cid \<Rightarrow> snd (clients_Connected cid (json c) (sys_clients t))
      | SysDisconnected cid reason retain \<Rightarrow> snd (clients_Disconnected cid retain (json c) (sys_clients t))
      | SysCreated cid \<Rightarrow> snd (sessions_Created cid (json c) (sys_sessions t))
      | SysRemoved cid reason \<Rightarrow> snd (sessions_Removed cid (json c) (sys_sessions t))
      | CallPublish w \<Rightarrow> [MsgPublish w]
      | _ \<Rightarrow> [])"

definition send_call :: "messenger_call \<Rightarrow> mem_provider \<Rightarrow> (mem_provider \<times> topics_error option) go_run" where
  "send_call c p = (case c of MsgPublish m \<Rightarrow> provider_Publish (Some m) p | MsgRetain obj \<Rightarrow> provider_Retain obj p)"

text \<open>The errors of these calls are not looked at.\<close>

fun send_calls :: "messenger_call list \<Rightarrow> mem_provider \<Rightarrow> mem_provider go_run" where
  "send_calls [] p = Ret p"
| "send_calls (c # cs) p =
     (case send_call c p of Ret (p', _) \<Rightarrow> send_calls cs p' | Panic \<Rightarrow> Panic | Block \<Rightarrow> Block)"

fun report_calls ::
    "(mgr_call \<Rightarrow> byte list option) \<Rightarrow> mgr_call list \<Rightarrow> systree \<Rightarrow> mem_provider \<Rightarrow> (systree \<times> mem_provider) go_run" where
  "report_calls json [] t p = Ret (t, p)"
| "report_calls json (c # cs) t p =
     (case sys_apply json c t of
        (t', msgs) \<Rightarrow>
          (case send_calls msgs p of Ret p' \<Rightarrow> report_calls json cs t' p' | Panic \<Rightarrow> Panic | Block \<Rightarrow> Block))"

section \<open>NewServer\<close>

record server =
  sv_config :: ServerConfig
  sv_authMgr :: Manager
  sv_sessionsMgr :: manager
  sv_topicsMgr :: prov_sys
  sv_sysTree :: systree
  sv_publishes :: "RetainObject list"
  sv_timer :: bool
  sv_round :: "nat option"
  sv_transports :: "(gostring \<times> transport) list"
  sv_onClose :: bool

datatype server_error =
    ErrInvalidNodeName | ErrAuth gostring | ErrNoPersistence | ErrSystem | ErrGetInfo | ErrSetInfo
  | ErrTopicsNew "topics_error + persist_error" | ErrRetain topics_error | ErrSessions load_error

definition node_name :: "gostring \<Rightarrow> gostring \<Rightarrow> ServerConfig \<Rightarrow> gostring" where
  "node_name uuid stored config =
     (if stored = [] \<or> sc_RewriteNodeName config
      then (if sc_NodeName config = [] then uuid @ go_lit ''@volantmq.io'' else sc_NodeName config)
      else stored)"

definition topics_config :: "storage \<Rightarrow> ServerConfig \<Rightarrow> MemConfig" where
  "topics_config store config =
     NewMemConfig\<lparr>mc_Persist := pe_Retained store,
       mc_AllowOverlappingSubscriptions := sc_AllowOverlappingSubscriptions config\<rparr>"

definition clients_config :: "ServerConfig \<Rightarrow> clients_Config" where
  "clients_config config =
     \<lparr>cf_KeepAlive = 0, cf_MaxPacketSize = 268435455, cf_ReceiveMax = 65535, cf_TopicAliasMaximum = 0xFFFF, cf_MaximumQoS = QoS2,
      cf_AvailableRetain = True, cf_AvailableWildcardSubscription = True, cf_AvailableSubscriptionID = False,
      cf_AvailableSharedSubscription = False, cf_OfflineQoS0 = sc_OfflineQoS0 config, cf_AllowReplace = sc_AllowDuplicates config\<rparr>"

fun retain_all :: "RetainObject list \<Rightarrow> mem_provider \<Rightarrow> (topics_error + mem_provider) go_run" where
  "retain_all [] p = Ret (Inr p)"
| "retain_all (obj # objs) p =
     (case provider_Retain obj p of
        Ret (p', None) \<Rightarrow> retain_all objs p' | Ret (p', Some e) \<Rightarrow> Ret (Inl e) | Panic \<Rightarrow> Panic | Block \<Rightarrow> Block)"

text \<open>With \<open>WithSystree\<close>, the tree gets its callbacks and its topics are retained.\<close>

definition attach_tree ::
    "ServerConfig \<Rightarrow> RetainObject list \<Rightarrow> systree \<Rightarrow> mem_provider \<Rightarrow> (topics_error + systree \<times> mem_provider) go_run" where
  "attach_tree config retains t p =
     (if sc_WithSystree config then
        (case retain_all retains p of
           Ret (Inr p') \<Rightarrow> Ret (Inr (SetCallbacks t, p')) | Ret (Inl e) \<Rightarrow> Ret (Inl e) | Panic \<Rightarrow> Panic | Block \<Rightarrow> Block)
      else Ret (Inr (t, p)))"

text \<open>
  \<open>clients.NewManager\<close> on the provider. It reports the stored sessions to the tree while it reads them, before it
  subscribes and publishes anything. The will that is published may be nil; then the publisher
  panics.
\<close>

definition publish_will :: "Publish option \<Rightarrow> mem_provider \<Rightarrow> (mem_provider \<times> topics_error option) option" where
  "publish_will w p =
     (case w of
        None \<Rightarrow> None
      | Some m \<Rightarrow> (case provider_Publish (Some m) p of Ret r \<Rightarrow> Some r | _ \<Rightarrow> None))"

definition start_sessions ::
    "(gostring \<Rightarrow> Time option) \<Rightarrow> (gostring \<Rightarrow> int option) \<Rightarrow> (gostring \<Rightarrow> Publish) \<Rightarrow> (mgr_call \<Rightarrow> byte list option) \<Rightarrow>
     (gostring \<Rightarrow> uintptr) \<Rightarrow> Time \<Rightarrow> storage \<Rightarrow> ServerConfig \<Rightarrow> systree \<Rightarrow> mem_provider \<Rightarrow>
     (load_error + manager \<times> systree \<times> mem_provider) go_run" where
  "start_sessions parse_time atoi dyn json fresh now store config t p =
     (case load_all parse_time atoi now (pe_Sessions store) of
        None \<Rightarrow> Panic
      | Some (subs, wills, calls) \<Rightarrow>
          (case report_calls json calls t p of
             Panic \<Rightarrow> Panic
           | Block \<Rightarrow> Block
           | Ret (t1, p1) \<Rightarrow>
               (case NewManager (provider_Subscribe now dyn) publish_will parse_time atoi now fresh (pe_Sessions store)
                       (pe_LoadErr store) (clients_config config) p1 of
                  None \<Rightarrow> Panic
                | Some (p2, calls', Inl e) \<Rightarrow> Ret (Inl e)
                | Some (p2, calls', Inr m) \<Rightarrow> Ret (Inr (m, t1, p2)))))"

definition new_sys :: "mem_provider \<Rightarrow> prov_sys" where
  "new_sys p =
     \<lparr>ps_mT = p, ps_pub = None, ps_ret = None, ps_closing = False, ps_chanClosed = False, ps_out = [], ps_stored = None\<rparr>"

text \<open>The parts, once the name is known and stored.\<close>

definition build_server ::
    "(gostring \<Rightarrow> Time option) \<Rightarrow> (gostring \<Rightarrow> int option) \<Rightarrow> (gostring \<Rightarrow> Publish) \<Rightarrow> (mgr_call \<Rightarrow> byte list option) \<Rightarrow> byte list \<Rightarrow>
     (gostring \<Rightarrow> uintptr) \<Rightarrow> Time \<Rightarrow> Manager \<Rightarrow> storage \<Rightarrow> ServerConfig \<Rightarrow> (server_error + server) go_run" where
  "build_server parse_time atoi dyn json caps fresh now authMgr store config =
     (case NewTree now caps (go_lit ''$SYS/servers/'' @ sc_NodeName config) of
        (t, retains, publishes) \<Rightarrow>
          (case topics_New parse_time (Some (CfgMem (topics_config store config))) of
             Panic \<Rightarrow> Panic
           | Block \<Rightarrow> Block
           | Ret (Inl e) \<Rightarrow> Ret (Inl (ErrTopicsNew e))
           | Ret (Inr p) \<Rightarrow>
               (case attach_tree config retains t p of
                  Panic \<Rightarrow> Panic
                | Block \<Rightarrow> Block
                | Ret (Inl e) \<Rightarrow> Ret (Inl (ErrRetain e))
                | Ret (Inr (t1, p1)) \<Rightarrow>
                    (case start_sessions parse_time atoi dyn json fresh now store config t1 p1 of
                       Panic \<Rightarrow> Panic
                     | Block \<Rightarrow> Block
                     | Ret (Inl e) \<Rightarrow> Ret (Inl (ErrSessions e))
                     | Ret (Inr (m, t2, p2)) \<Rightarrow>
                         Ret (Inr \<lparr>sv_config = config, sv_authMgr = authMgr, sv_sessionsMgr = m, sv_topicsMgr = new_sys p2,
                           sv_sysTree = t2, sv_publishes = publishes,
                           sv_timer = (sc_WithSystree config \<and> sc_SystreeUpdateInterval config > 0),
                           sv_round = None, sv_transports = [], sv_onClose = False\<rparr>)))))"

text \<open>\<open>NewServer\<close>: the server or the error, and the name it has stored.\<close>

definition NewServer ::
    "providers \<Rightarrow> (gostring \<Rightarrow> Time option) \<Rightarrow> (gostring \<Rightarrow> int option) \<Rightarrow> (gostring \<Rightarrow> Publish) \<Rightarrow> (mgr_call \<Rightarrow> byte list option) \<Rightarrow>
     byte list \<Rightarrow> (gostring \<Rightarrow> uintptr) \<Rightarrow> gostring \<Rightarrow> Time \<Rightarrow> ServerConfig \<Rightarrow> (server_error + server) go_run \<times> gostring option" where
  "NewServer provs parse_time atoi dyn json caps fresh uuid now config =
     (if sc_NodeName config \<noteq> [] \<and> \<not> nodeNameRegexp (sc_NodeName config) then (Ret (Inl ErrInvalidNodeName), None)
      else
        (case auth_NewManager provs (sc_Authenticators config) of
           Inl e \<Rightarrow> (Ret (Inl (ErrAuth e)), None)
         | Inr authMgr \<Rightarrow>
             (case sc_Persistence config of
                None \<Rightarrow> (Ret (Inl ErrNoPersistence), None)
              | Some store \<Rightarrow>
                  if \<not> pe_System_ok store then (Ret (Inl ErrSystem), None)
                  else (case pe_GetInfo store of
                          None \<Rightarrow> (Ret (Inl ErrGetInfo), None)
                        | Some stored \<Rightarrow>
                            (let name = node_name uuid stored config in
                             if \<not> pe_SetInfo_ok store name then (Ret (Inl ErrSetInfo), None)
                             else (build_server parse_time atoi dyn json caps fresh now authMgr store
                                     (config\<lparr>sc_NodeName := name\<rparr>), Some name))))))"

section \<open>Listeners\<close>

datatype listener_config = LTCP ConfigTCP | LWS ConfigWS | LOther

datatype serve_error = ErrListenerType | ErrTransport listen_error | ErrAlreadyExists

definition new_listener ::
    "(gostring \<Rightarrow> gostring \<Rightarrow> bool) \<Rightarrow> (gostring \<Rightarrow> gostring \<Rightarrow> bool) \<Rightarrow> listener_config \<Rightarrow> (serve_error + transport) go_run" where
  "new_listener load_cert listen c =
     (case c of
        LOther \<Rightarrow> Ret (Inl ErrListenerType)
      | LTCP t \<Rightarrow> (case NewTCP load_cert listen t of
                    Ret (Inl e) \<Rightarrow> Ret (Inl (ErrTransport e)) | Ret (Inr l) \<Rightarrow> Ret (Inr l) | Panic \<Rightarrow> Panic | Block \<Rightarrow> Block)
      | LWS w \<Rightarrow> (case NewWS load_cert w of
                   Ret (Inl e) \<Rightarrow> Ret (Inl (ErrTransport e)) | Ret (Inr l) \<Rightarrow> Ret (Inr l) | Panic \<Rightarrow> Panic | Block \<Rightarrow> Block))"

definition ListenAndServe ::
    "(gostring \<Rightarrow> gostring \<Rightarrow> bool) \<Rightarrow> (gostring \<Rightarrow> gostring \<Rightarrow> bool) \<Rightarrow> listener_config \<Rightarrow> server \<Rightarrow>
     (server \<times> serve_error option) go_run" where
  "ListenAndServe load_cert listen c s =
     (case new_listener load_cert listen c of
        Panic \<Rightarrow> Panic
      | Block \<Rightarrow> Block
      | Ret (Inl e) \<Rightarrow> Ret (s, Some e)
      | Ret (Inr l) \<Rightarrow>
          if map_of (sv_transports s) (transport_Port l) \<noteq> None then Ret (s, Some ErrAlreadyExists)
          else Ret (s\<lparr>sv_transports := AList.update (transport_Port l) l (sv_transports s)\<rparr>, None))"

text \<open>What the goroutine of a listener reports; \<open>err\<close> is what \<open>Serve\<close> returned.\<close>

definition transport_status :: "gostring option \<Rightarrow> gostring \<Rightarrow> (gostring \<times> gostring) list" where
  "transport_status err port =
     [(go_lit '':'' @ port, go_lit ''started''),
      (go_lit '':'' @ port, case err of None \<Rightarrow> go_lit ''stopped'' | Some e \<Rightarrow> e)]"

section \<open>The updater\<close>

text \<open>
  The dynamic values with what they show, in the order of \<open>publishes\<close>: these are pointers into the tree. The
  message a value keeps between calls differs from a new one in its payload only, which every call
  sets.
\<close>

definition entry_values :: "metricEntry \<Rightarrow> (gostring \<times> byte list) list" where
  "entry_values e = map (\<lambda>v. (dv_topic v, integer_get v)) [me_sent e, me_recv e]"

definition stat_values :: "stat \<Rightarrow> (gostring \<times> byte list) list" where
  "stat_values s = map (\<lambda>v. (dv_topic v, integer_get v)) [st_max s, st_curr s]"

definition tree_values :: "(int \<Rightarrow> gostring) \<Rightarrow> (Time \<Rightarrow> gostring) \<Rightarrow> Time \<Rightarrow> systree \<Rightarrow> (gostring \<times> byte list) list" where
  "tree_values fmt_duration fmt_time now t =
     (let sv = sys_server t; p = mt_packets (sys_metrics t) in
      [(dv_topic (sv_upTime sv), upTime_get fmt_duration now (sv_upTime sv)),
       (dv_topic (sv_currTime sv), currentTime_get fmt_time now)] @
      concat (map entry_values
        [pm_total p, pm_connect p, pm_connAck p, pm_publish p, pm_subscribe p, pm_suback p, pm_unsubscribe p,
         pm_unSubAck p, pm_pingReq p, pm_pingResp p, pm_disconnect p, pm_auth p, mt_bytes (sys_metrics t)]) @
      concat (map stat_values
        [sys_topics t, sys_subscriptions t, sy_stat (sys_clients t), sy_stat (sys_sessions t)]))"

text \<open>One round of the loop: the value is read and copied into a new message.\<close>

definition updater_msg :: "gostring \<times> byte list \<Rightarrow> Publish" where
  "updater_msg v =
     (let m = snd (dynamicValue_Publish (snd v) (newDynamicValueCurrentTime (fst v)));
          msg = (New_Publish ProtocolV311)\<lparr>pub_payload := pub_payload m\<rparr> in
      fst (Publish_SetQoS (Publish_QoS m) (fst (Publish_SetTopic (pub_topic m) msg))))"

text \<open>\<open>systreeUpdater\<close>: a send to a channel that \<open>Close\<close> has closed panics.\<close>

definition systreeUpdater ::
    "(int \<Rightarrow> gostring) \<Rightarrow> (Time \<Rightarrow> gostring) \<Rightarrow> Time \<Rightarrow> server \<Rightarrow> server go_run" where
  "systreeUpdater fmt_duration fmt_time now s =
     (if ps_chanClosed (sv_topicsMgr s) then Panic
      else (case send_calls (map (\<lambda>v. MsgPublish (updater_msg v)) (tree_values fmt_duration fmt_time now (sv_sysTree s)))
                   (ps_mT (sv_topicsMgr s)) of
              Panic \<Rightarrow> Panic
            | Block \<Rightarrow> Block
            | Ret p \<Rightarrow> Ret (s\<lparr>sv_topicsMgr := (sv_topicsMgr s)\<lparr>ps_mT := p\<rparr>, sv_timer := True\<rparr>)))"


section \<open>Close\<close>

text \<open>
  \<open>Close\<close> up to the call of \<open>Close\<close> of the topics manager: the listeners are closed and forgotten, the sessions
  manager is shut down, and what it reports reaches the tree and the channels of the provider. The
  result has the listeners as they were left; \<open>err\<close> says for which of them closing fails.
\<close>

definition close_transports :: "(gostring \<Rightarrow> bool) \<Rightarrow> server \<Rightarrow> (gostring \<times> transport) list" where
  "close_transports err s = map (\<lambda>(port, l). (port, fst (transport_Close (err port) l))) (sv_transports s)"

definition close_sessions ::
    "(mgr_call \<Rightarrow> byte list option) \<Rightarrow> (Time \<Rightarrow> gostring) \<Rightarrow> (int \<Rightarrow> gostring) \<Rightarrow> Time \<Rightarrow>
     (gostring \<Rightarrow> ReasonCode \<Rightarrow> DisconnectParams \<times> bool) \<Rightarrow> (gostring \<Rightarrow> bool) \<Rightarrow> server \<Rightarrow>
     (server \<times> mgr_call list \<times> (gostring \<times> transport) list) go_run" where
  "close_sessions json fmt_time itoa now stop_conn err s =
     (case Shutdown provider_UnSubscribe fmt_time itoa now stop_conn (sv_sessionsMgr s) (ps_mT (sv_topicsMgr s)) of
        Panic \<Rightarrow> Panic
      | Block \<Rightarrow> Block
      | Ret (m, p, out, ok) \<Rightarrow>
          (case report_calls json out (sv_sysTree s) p of
             Panic \<Rightarrow> Panic
           | Block \<Rightarrow> Block
           | Ret (t, p') \<Rightarrow>
               Ret (s\<lparr>sv_onClose := True, sv_transports := [], sv_sessionsMgr := m, sv_sysTree := t,
                      sv_topicsMgr := (sv_topicsMgr s)\<lparr>ps_mT := p'\<rparr>\<rparr>, out, close_transports err s)))"

text \<open>
  The whole of \<open>Close\<close>, with what goes on meanwhile: the goroutines of the provider (\<open>close_other\<close>) and the
  updater. \<open>Close\<close> has shut the sessions down, it waits in \<open>Close\<close> of the topics manager, it has returned. A round of
  the updater, which the timer starts, sends the values one after the other (\<open>sv_round\<close> is the number sent so far;
  a send to the closed channel is a panic, so there is no step) and arms the timer again at its end.
\<close>

datatype close_pc = ClStart | ClTopics | ClWait | ClReturned

inductive close_step ::
    "(mgr_call \<Rightarrow> byte list option) \<Rightarrow> (Time \<Rightarrow> gostring) \<Rightarrow> (int \<Rightarrow> gostring) \<Rightarrow> (int \<Rightarrow> gostring) \<Rightarrow> (gostring \<Rightarrow> Publish) \<Rightarrow>
     (gostring \<Rightarrow> ReasonCode \<Rightarrow> DisconnectParams \<times> bool) \<Rightarrow> close_pc \<times> server \<Rightarrow> close_pc \<times> server \<Rightarrow> bool"
  for json fmt_time fmt_duration itoa dyn stop_conn where
  close_again: "sv_onClose s \<Longrightarrow> close_step json fmt_time fmt_duration itoa dyn stop_conn (ClStart, s) (ClReturned, s)"
| close_down: "\<not> sv_onClose s \<Longrightarrow> close_sessions json fmt_time itoa now stop_conn err s = Ret (s', out, closed) \<Longrightarrow>
    close_step json fmt_time fmt_duration itoa dyn stop_conn (ClStart, s) (ClTopics, s')"
| close_topics: "\<not> ps_closing (sv_topicsMgr s) \<Longrightarrow> \<not> ps_chanClosed (sv_topicsMgr s) \<Longrightarrow>
    close_step json fmt_time fmt_duration itoa dyn stop_conn (ClTopics, s)
      (ClWait, s\<lparr>sv_topicsMgr := (sv_topicsMgr s)\<lparr>ps_closing := True, ps_chanClosed := True\<rparr>\<rparr>)"
| close_done: "\<not> ps_closing (sv_topicsMgr s) \<Longrightarrow>
    close_step json fmt_time fmt_duration itoa dyn stop_conn (ClWait, s) (ClReturned, s\<lparr>sv_timer := False\<rparr>)"
| close_other: "prov_step dyn fmt_time (sv_topicsMgr s) q \<Longrightarrow>
    (pc = ClWait \<or> ps_closing q = ps_closing (sv_topicsMgr s)) \<Longrightarrow>
    close_step json fmt_time fmt_duration itoa dyn stop_conn (pc, s) (pc, s\<lparr>sv_topicsMgr := q\<rparr>)"
| updater_fires: "sv_timer s \<Longrightarrow> sv_round s = None \<Longrightarrow>
    close_step json fmt_time fmt_duration itoa dyn stop_conn (pc, s) (pc, s\<lparr>sv_timer := False, sv_round := Some 0\<rparr>)"
| updater_sends: "sv_round s = Some i \<Longrightarrow> i < length (tree_values fmt_duration fmt_time now (sv_sysTree s)) \<Longrightarrow>
    \<not> ps_chanClosed (sv_topicsMgr s) \<Longrightarrow>
    send_call (MsgPublish (updater_msg (tree_values fmt_duration fmt_time now (sv_sysTree s) ! i))) (ps_mT (sv_topicsMgr s)) = Ret (p, e) \<Longrightarrow>
    close_step json fmt_time fmt_duration itoa dyn stop_conn (pc, s) (pc, s\<lparr>sv_topicsMgr := (sv_topicsMgr s)\<lparr>ps_mT := p\<rparr>, sv_round := Some (Suc i)\<rparr>)"
| updater_rearms: "sv_round s = Some (length (tree_values fmt_duration fmt_time now (sv_sysTree s))) \<Longrightarrow>
    close_step json fmt_time fmt_duration itoa dyn stop_conn (pc, s) (pc, s\<lparr>sv_round := None, sv_timer := True\<rparr>)"

inductive_cases close_stepE: "close_step json fmt_time fmt_duration itoa dyn stop_conn x y"

section \<open>Reports\<close>

lemma send_calls_append:
  "send_calls cs p = Ret p' \<Longrightarrow>
     p' = p\<lparr>pv_inbound := pv_inbound p @ concat (map (\<lambda>c. case c of MsgPublish m \<Rightarrow> [m] | _ \<Rightarrow> []) cs),
            pv_inRetained := pv_inRetained p @ concat (map (\<lambda>c. case c of MsgRetain obj \<Rightarrow> [obj] | _ \<Rightarrow> []) cs)\<rparr>"
proof (induction cs arbitrary: p)
  case (Cons c cs)
  obtain p1 e where c: "send_call c p = Ret (p1, e)" "send_calls cs p1 = Ret p'"
    using Cons.prems by (auto split: go_run.split_asm)
  have "p1 = p\<lparr>pv_inbound := pv_inbound p @ (case c of MsgPublish m \<Rightarrow> [m] | _ \<Rightarrow> []),
      pv_inRetained := pv_inRetained p @ (case c of MsgRetain obj \<Rightarrow> [obj] | _ \<Rightarrow> [])\<rparr>"
    using c(1) by (cases c) (auto simp: send_call_def provider_Publish_def provider_Retain_def split: if_split_asm)
  with Cons.IH [OF c(2)] show ?case by simp
qed simp

lemma report_calls_tree:
  "report_calls json cs t p = Ret (t', p') \<Longrightarrow>
     t' = fold (sys_call json) cs t \<and> pv_root p' = pv_root p \<and>
     (\<exists>ms objs. pv_inbound p' = pv_inbound p @ ms \<and> pv_inRetained p' = pv_inRetained p @ objs)"
proof (induction cs arbitrary: t p)
  case (Cons c cs)
  obtain p1 where c: "send_calls (snd (sys_apply json c t)) p = Ret p1"
    "report_calls json cs (sys_call json c t) p1 = Ret (t', p')"
    using Cons.prems by (auto simp: sys_apply_def split: go_run.split_asm)
  show ?case using Cons.IH [OF c(2)] send_calls_append [OF c(1)] by auto
qed simp

lemma sys_call_topics:
  "sys_server (sys_call json c t) = sys_server t" "sys_metrics (sys_call json c t) = sys_metrics t"
  "dv_topic (st_curr (sy_stat (sys_clients (sys_call json c t)))) = dv_topic (st_curr (sy_stat (sys_clients t)))"
  "sy_topicsManager (sys_clients (sys_call json c t)) = sy_topicsManager (sys_clients t)"
  by (cases c; simp add: sys_call_def clients_Connected_def clients_Disconnected_def sessions_Created_def sessions_Removed_def
      stat_add_def stat_remove_def Let_def)+

lemma sys_calls_topics:
  "dv_topic (st_curr (sy_stat (sys_clients (fold (sys_call json) cs t)))) = dv_topic (st_curr (sy_stat (sys_clients t)))"
  "sy_topicsManager (sys_clients (fold (sys_call json) cs t)) = sy_topicsManager (sys_clients t)"
  by (induction cs arbitrary: t) (simp_all add: sys_call_topics)

section \<open>A server that has started\<close>

lemma restore_subscribers_sessions:
  "restore_subscribers subscribe fresh subs m st err = Some (m', st', err') \<Longrightarrow>
     mg_sessions m' = mg_sessions m \<and> mg_count m' = mg_count m \<and> mg_quit m' = mg_quit m"
  by (induction subscribe fresh subs m st err rule: restore_subscribers.induct)
    (fastforce simp: bind_eq_Some_conv Let_def)+

lemma NewManager_empty:
  assumes "NewManager subscribe pub parse_time atoi now fresh store err c st = Some (st', calls, Inr m)"
  shows "mg_sessions m = [] \<and> mg_count m = 0 \<and> \<not> mg_quit m"
  using assms
  by (auto simp: NewManager_def loadSessions_def bind_eq_Some_conv dest!: restore_subscribers_sessions split: option.split_asm)

lemma load_all_delta: "load_all parse_time atoi now es = Some (subs, wills, calls) \<Longrightarrow> delta calls = 0"
proof (induction es arbitrary: subs wills calls)
  case (Cons e es)
  obtain cid state where e: "e = (cid, state)" by (cases e)
  have "delta cs = 0" if "load_session_entry parse_time atoi now cid state = LoadDone sub ws cs" for sub ws cs
    using that by (auto simp: load_session_entry_def load_entry_subs_def Let_def
        split: option.split_asm sum.split_asm prod.split_asm if_split_asm go_run.split_asm)
  then show ?case using Cons e by (auto split: load_step.split_asm option.split_asm)
qed simp

lemma tree_start:
  assumes "NewTree now json base = (t, retains, publishes)"
  shows "clients_current t = 0" and "dv_topic (st_curr (sy_stat (sys_clients t))) = base @ go_lit ''/stats/clients/current''"
  using assms
  by (auto simp: NewTree_def newServer_def newClients_def newStat_def newDynamicValueInteger_def clients_current_def go_lit_def Let_def)

lemma SetCallbacks_topics:
  "clients_current (SetCallbacks t) = clients_current t"
  "dv_topic (st_curr (sy_stat (sys_clients (SetCallbacks t)))) = dv_topic (st_curr (sy_stat (sys_clients t)))"
  by (simp_all add: SetCallbacks_def clients_current_def)

lemma NewServer_start:
  assumes "NewServer provs parse_time atoi dyn json caps fresh uuid now config = (Ret (Inr s), stored)"
  shows "mg_sessions (sv_sessionsMgr s) = []" and "mg_count (sv_sessionsMgr s) = 0"
    and "clients_current (sv_sysTree s) = 0"
    and "dv_topic (st_curr (sy_stat (sys_clients (sv_sysTree s)))) =
      go_lit ''$SYS/servers/'' @ sc_NodeName (sv_config s) @ go_lit ''/stats/clients/current''"
proof -
  obtain authMgr store name where b: "build_server parse_time atoi dyn json caps fresh now authMgr store (config\<lparr>sc_NodeName := name\<rparr>) =
      Ret (Inr s)"
    using assms by (auto simp: NewServer_def Let_def split: if_split_asm sum.split_asm option.split_asm)
  let ?c = "config\<lparr>sc_NodeName := name\<rparr>"
  obtain t retains publishes where t: "NewTree now caps (go_lit ''$SYS/servers/'' @ name) = (t, retains, publishes)"
    by (cases "NewTree now caps (go_lit ''$SYS/servers/'' @ name)")
  obtain p t1 p1 m t2 p2 where a: "attach_tree ?c retains t p = Ret (Inr (t1, p1))"
    and st: "start_sessions parse_time atoi dyn json fresh now store ?c t1 p1 = Ret (Inr (m, t2, p2))"
    and s: "sv_config s = ?c" "sv_sessionsMgr s = m" "sv_sysTree s = t2"
    using b t by (auto simp: build_server_def split: go_run.split_asm sum.split_asm prod.split_asm)
  have t1: "t1 = t \<or> t1 = SetCallbacks t" using a by (auto simp: attach_tree_def split: go_run.split_asm sum.split_asm if_split_asm)
  obtain subs wills calls where l: "load_all parse_time atoi now (pe_Sessions store) = Some (subs, wills, calls)"
    and r: "\<exists>q. report_calls json calls t1 p1 = Ret (t2, q)" and m: "mg_sessions m = [] \<and> mg_count m = 0"
    using st NewManager_empty
    by (fastforce simp: start_sessions_def split: option.split_asm go_run.split_asm sum.split_asm prod.split_asm)
  have t2: "t2 = fold (sys_call json) calls t1" using r report_calls_tree by blast
  show "mg_sessions (sv_sessionsMgr s) = []" "mg_count (sv_sessionsMgr s) = 0" using m s by simp_all
  show "clients_current (sv_sysTree s) = 0"
    using t1 tree_start(1) [OF t] load_all_delta [OF l] by (auto simp: s t2 clients_current_delta SetCallbacks_topics)
  show "dv_topic (st_curr (sy_stat (sys_clients (sv_sysTree s)))) =
      go_lit ''$SYS/servers/'' @ sc_NodeName (sv_config s) @ go_lit ''/stats/clients/current''"
    using t1 tree_start(2) [OF t] by (auto simp: s t2 sys_calls_topics SetCallbacks_topics)
qed



text \<open>A server that is started on an empty storage.\<close>

lemma retain_all_ret:
  "length (pv_inRetained p) + length objs \<le> chan_cap \<Longrightarrow>
     retain_all objs p = Ret (Inr (p\<lparr>pv_inRetained := pv_inRetained p @ objs\<rparr>))"
  by (induction objs arbitrary: p) (simp_all add: provider_Retain_def)

lemma NewServer_empty_storage:
  assumes "sc_NodeName c = [] \<or> nodeNameRegexp (sc_NodeName c)" and "auth_NewManager provs (sc_Authenticators c) = Inr am"
    and "sc_Persistence c = Some store" and "pe_System_ok store" and "pe_GetInfo store = Some stored"
    and "pe_SetInfo_ok store (node_name uuid stored c)" and "pe_Retained store = None" and "pe_Sessions store = []"
    and "pe_LoadErr store = None"
  shows "\<exists>s. NewServer provs parse_time atoi dyn json caps fresh uuid now c = (Ret (Inr s), Some (node_name uuid stored c)) \<and>
     sv_config s = c\<lparr>sc_NodeName := node_name uuid stored c\<rparr> \<and>
     sv_sessionsMgr s = \<lparr>mg_cfg = clients_config c, mg_quit = False, mg_sessions = [], mg_count = 0,
       mg_subscribers = [], mg_heap = []\<rparr> \<and> \<not> ps_chanClosed (sv_topicsMgr s) \<and>
     pv_inbound (ps_mT (sv_topicsMgr s)) = []"
proof -
  define name where "name = node_name uuid stored c"
  let ?c = "c\<lparr>sc_NodeName := name\<rparr>"
  let ?b = "build_server parse_time atoi dyn json caps fresh now am store ?c"
  have ns: "NewServer provs parse_time atoi dyn json caps fresh uuid now c = (?b, Some name)"
    using assms(1-6) by (auto simp: NewServer_def name_def Let_def)
  obtain t retains publishes where t: "NewTree now caps (go_lit ''$SYS/servers/'' @ name) = (t, retains, publishes)"
    by (cases "NewTree now caps (go_lit ''$SYS/servers/'' @ name)")
  have "length retains = 38"
    using t by (auto simp: NewTree_def newServer_def metric_topics_def stat_topics_def entry_topics_def Let_def)
  then have at: "\<exists>t1 p1. attach_tree ?c retains t p = Ret (Inr (t1, p1)) \<and> pv_inbound p1 = pv_inbound p"
    if "pv_inRetained p = []" for p
    using retain_all_ret [of p retains] that by (simp add: attach_tree_def chan_cap_def)
  have ss: "start_sessions parse_time atoi dyn json fresh now store ?c t1 p =
      Ret (Inr (\<lparr>mg_cfg = clients_config c, mg_quit = False, mg_sessions = [], mg_count = 0,
       mg_subscribers = [], mg_heap = []\<rparr>, t1, p))" for t1 p
    using assms(8,9) by (simp add: start_sessions_def NewManager_def loadSessions_def clients_config_def)
  define p0 where "p0 = \<lparr>pv_root = Some newNode, pv_allowOverlapping = False, pv_persist = False, pv_inbound = [], pv_inRetained = []\<rparr>"
  have p0: "topics_New parse_time (Some (CfgMem (topics_config store ?c))) = Ret (Inr p0)"
    using assms(7) by (simp add: topics_New_def NewMemProvider_def topics_config_def NewMemConfig_def p0_def)
  obtain t1 p1 where "attach_tree ?c retains t p0 = Ret (Inr (t1, p1))" "pv_inbound p1 = []"
    using at [of p0] by (auto simp: p0_def)
  then show ?thesis unfolding name_def [symmetric] by (simp add: ns build_server_def t p0 ss new_sys_def)
qed

definition sample_storage :: storage where
  "sample_storage =
     \<lparr>pe_System_ok = True, pe_GetInfo = Some [], pe_SetInfo_ok = (\<lambda>_. True), pe_Retained = None, pe_Sessions = [], pe_LoadErr = None\<rparr>"

definition sample_config :: ServerConfig where
  "sample_config = (NewServerConfig (Some sample_storage))\<lparr>sc_NodeName := go_lit ''n@x'', sc_Authenticators := [0x61]\<rparr>"

definition sample_provs :: providers where
  "sample_provs = [([0x61], Some \<lparr>ap_Password = \<lambda>_ _. StatusAllow, ap_ACL = \<lambda>_ _ _ _. StatusAllow\<rparr>)]"

abbreviation (input) sample_start :: "ServerConfig \<Rightarrow> (server_error + server) go_run \<times> gostring option" where
  "sample_start c \<equiv> NewServer sample_provs (\<lambda>_. None) (\<lambda>_. None) (\<lambda>_. newPublish) (\<lambda>_. None) [] (\<lambda>_. 0) [] 0 c"

lemma sample_started:
  assumes "sc_NodeName c = [] \<or> nodeNameRegexp (sc_NodeName c)" and "sc_Authenticators c = [0x61]"
    and "sc_Persistence c = Some (sample_storage\<lparr>pe_GetInfo := Some stored\<rparr>)"
  shows "\<exists>s. sample_start c = (Ret (Inr s), Some (node_name [] stored c)) \<and>
     sv_config s = c\<lparr>sc_NodeName := node_name [] stored c\<rparr> \<and>
     sv_sessionsMgr s = \<lparr>mg_cfg = clients_config c, mg_quit = False, mg_sessions = [], mg_count = 0,
       mg_subscribers = [], mg_heap = []\<rparr> \<and> \<not> ps_chanClosed (sv_topicsMgr s) \<and>
     pv_inbound (ps_mT (sv_topicsMgr s)) = []"
  using assms
  by (intro NewServer_empty_storage [where am = "[snd (hd sample_provs)]" and store = "sample_storage\<lparr>pe_GetInfo := Some stored\<rparr>"])
    (simp_all add: auth_NewManager_def sample_provs_def go_defs sample_storage_def)

lemma sample_config_simps:
  "sc_NodeName sample_config = go_lit ''n@x''" "sc_Authenticators sample_config = [0x61]"
  "sc_Persistence sample_config = Some (sample_storage\<lparr>pe_GetInfo := Some []\<rparr>)" "\<not> sc_RewriteNodeName sample_config"
  "nodeNameRegexp (go_lit ''n@x'')" "go_lit ''n@x'' \<noteq> []" "sample_config\<lparr>sc_NodeName := go_lit ''n@x''\<rparr> = sample_config"
proof -
  show "nodeNameRegexp (go_lit ''n@x'')" by code_simp
qed (simp_all add: sample_config_def NewServerConfig_def sample_storage_def go_lit_def)

section \<open>The updates show the clients that are online\<close>

lemma srv_run_shows_online:
  assumes "(srv_step u json)\<^sup>*\<^sup>* x y" and "shows_online x"
  shows "shows_online y \<and> dv_topic (st_curr (sy_stat (sys_clients (snd (snd y))))) = dv_topic (st_curr (sy_stat (sys_clients (snd (snd x)))))"
  using assms
proof (induction rule: rtranclp_induct)
  case (step y z)
  have "dv_topic (st_curr (sy_stat (sys_clients (snd (snd z))))) = dv_topic (st_curr (sy_stat (sys_clients (snd (snd y)))))"
    using step.hyps(2) by (cases rule: srv_step.cases) (simp_all add: sys_calls_topics)
  with step srv_step_shows_online [OF step.hyps(2)] show ?case by simp
qed simp

lemma updater_msg_topic:
  assumes "ValidTopic (fst v)" and "fst v \<noteq> []"
  shows "pub_topic (updater_msg v) = fst v \<and> pub_payload (updater_msg v) = snd v"
  using assms
  by (simp add: updater_msg_def dynamicValue_Publish_def dynamic_message_def newDynamicValueCurrentTime_def Publish_SetTopic_def
      Publish_SetQoS_def Publish_SetRetain_def New_Publish_def header_init_def header_setType_def newPublish_def Publish_QoS_def
      Qos_IsValid_def Let_def)

lemma systreeUpdater_sends:
  assumes "systreeUpdater fmt_duration fmt_time now s = Ret s'"
  shows "pv_inbound (ps_mT (sv_topicsMgr s')) =
    pv_inbound (ps_mT (sv_topicsMgr s)) @ map updater_msg (tree_values fmt_duration fmt_time now (sv_sysTree s))"
proof -
  let ?cs = "map (\<lambda>v. MsgPublish (updater_msg v)) (tree_values fmt_duration fmt_time now (sv_sysTree s))"
  obtain p where p: "send_calls ?cs (ps_mT (sv_topicsMgr s)) = Ret p" "ps_mT (sv_topicsMgr s') = p"
    using assms by (auto simp: systreeUpdater_def split: if_split_asm go_run.split_asm)
  have "concat (map (\<lambda>c. case c of MsgPublish m \<Rightarrow> [m] | _ \<Rightarrow> []) (map (\<lambda>v. MsgPublish (f v)) vs)) = map f vs" for f and vs :: "'v list"
    by (induction vs) auto
  with send_calls_append [OF p(1)] p(2) show ?thesis by simp
qed

text \<open>
  C15. From the start of the server on, whatever clients connect, are taken over, refused or lost and
  whatever timers fire, a round of the updater that falls between two complete calls of the manager
  publishes, under the server's own topic \<open>stats/clients/current\<close>, the number of clients that are
  online at that moment, in decimal digits.
\<close>

theorem server_update_shows_online:
  assumes "NewServer provs parse_time atoi dyn json caps fresh uuid start config = (Ret (Inr s), stored)"
    and "(srv_step u json)\<^sup>*\<^sup>* (sv_sessionsMgr s, st0, sv_sysTree s) (m, st, t)"
    and "ValidTopic (go_lit ''$SYS/servers/'' @ sc_NodeName (sv_config s) @ go_lit ''/stats/clients/current'')"
    and "length (mg_sessions m) < 2 ^ 64"
    and "systreeUpdater fmt_duration fmt_time now (s\<lparr>sv_sessionsMgr := m, sv_sysTree := t, sv_topicsMgr := q\<rparr>) = Ret s'"
  shows "\<exists>msg \<in> set (pv_inbound (ps_mT (sv_topicsMgr s'))).
    pub_topic msg = go_lit ''$SYS/servers/'' @ sc_NodeName (sv_config s) @ go_lit ''/stats/clients/current'' \<and>
    pub_payload msg = FormatUint (length (filter (\<lambda>(k, x). se_online x) (mg_sessions m)))"
proof -
  let ?topic = "go_lit ''$SYS/servers/'' @ sc_NodeName (sv_config s) @ go_lit ''/stats/clients/current''"
  let ?n = "length (filter (\<lambda>(k, x). se_online x) (mg_sessions m))"
  have len: "online xs = int (length (filter (\<lambda>(k, x). se_online x) xs))" for xs
    by (induction xs) (auto simp: online_def)
  have "shows_online (sv_sessionsMgr s, st0, sv_sysTree s)"
    using NewServer_start(1-3) [OF assms(1)] by (simp add: shows_online_def gauge_inv_def mgr_inv_def online_def)
  from srv_run_shows_online [OF assms(2) this]
  have c: "clients_current t = of_nat ?n" and topic: "dv_topic (st_curr (sy_stat (sys_clients t))) = ?topic"
    using NewServer_start(4) [OF assms(1)] by (simp_all add: shows_online_def len)
  have "?n < 2 ^ 64" using assms(4) length_filter_le [of _ "mg_sessions m"] by (rule le_less_trans [rotated])
  then have "integer_get (st_curr (sy_stat (sys_clients t))) = FormatUint ?n"
    using c by (simp add: integer_get_def clients_current_def unat_of_nat)
  then have v: "(?topic, FormatUint ?n) \<in> set (tree_values fmt_duration fmt_time now t)"
    using topic by (simp add: tree_values_def stat_values_def Let_def)
  have "?topic \<noteq> []" by (simp add: go_lit_def)
  from updater_msg_topic [of "(?topic, FormatUint ?n)"] assms(3) this v systreeUpdater_sends [OF assms(5)] show ?thesis
    by (intro bexI [of _ "updater_msg (?topic, FormatUint ?n)"]) simp_all
qed


lemma send_publishes_ret:
  "length (pv_inbound p) + length vs \<le> chan_cap \<Longrightarrow> \<exists>p'. send_calls (map (\<lambda>v. MsgPublish (f v)) vs) p = Ret p'"
  by (induction vs arbitrary: p) (simp_all add: send_call_def provider_Publish_def)

lemma systreeUpdater_ret:
  assumes "\<not> ps_chanClosed (sv_topicsMgr s)" and "length (pv_inbound (ps_mT (sv_topicsMgr s))) + 36 \<le> chan_cap"
  shows "\<exists>s'. systreeUpdater fmt_duration fmt_time now s = Ret s'"
proof -
  have "length (tree_values fmt_duration fmt_time now t) = 36" for t
    by (simp add: tree_values_def entry_values_def stat_values_def Let_def)
  then obtain p where "send_calls (map (\<lambda>v. MsgPublish (updater_msg v)) (tree_values fmt_duration fmt_time now (sv_sysTree s)))
      (ps_mT (sv_topicsMgr s)) = Ret p"
    using send_publishes_ret [of "ps_mT (sv_topicsMgr s)" "tree_values fmt_duration fmt_time now (sv_sysTree s)" updater_msg] assms(2)
    by auto
  then show ?thesis using assms(1) by (simp add: systreeUpdater_def)
qed

theorem server_update_shows_online_witness:
  "\<exists>s m t s'. sample_start sample_config = (Ret (Inr s), Some (go_lit ''n@x'')) \<and>
     systreeUpdater (\<lambda>_. []) (\<lambda>_. []) 5 (s\<lparr>sv_sessionsMgr := m, sv_sysTree := t\<rparr>) = Ret s' \<and>
     (\<exists>msg \<in> set (pv_inbound (ps_mT (sv_topicsMgr s'))).
        pub_topic msg = go_lit ''$SYS/servers/n@x/stats/clients/current'' \<and> pub_payload msg = go_lit ''1'')"
proof -
  let ?m0 = "\<lparr>mg_cfg = clients_config sample_config, mg_quit = False, mg_sessions = [], mg_count = 0, mg_subscribers = [], mg_heap = []\<rparr>"
  let ?n = "NewSession (\<lambda>_ _ _. None) (\<lambda>_. None) 0 (\<lambda>_. undefined) [] False None [] 5 True sample_connect
      (header_init ProtocolV311 CONNACK newConnAck) ?m0 ()"
  let ?topic = "go_lit ''$SYS/servers/'' @ go_lit ''n@x'' @ go_lit ''/stats/clients/current''"
  obtain s where s: "sample_start sample_config = (Ret (Inr s), Some (go_lit ''n@x''))" "sv_config s = sample_config"
    "sv_sessionsMgr s = ?m0" "\<not> ps_chanClosed (sv_topicsMgr s)" "pv_inbound (ps_mT (sv_topicsMgr s)) = []"
    using sample_started [of sample_config "[]"] by (auto simp: sample_config_simps node_name_def)
  have "case ?n of Ret (m', _) \<Rightarrow> length (mg_sessions m') = 1 \<and> length (filter (\<lambda>(k, s). se_online s) (mg_sessions m')) = 1 | _ \<Rightarrow> False"
    by code_simp
  then obtain m' st' out r res where n: "?n = Ret (m', st', out, r, res)" "length (mg_sessions m') = 1"
    "length (filter (\<lambda>(k, s). se_online s) (mg_sessions m')) = 1" by (auto split: go_run.split_asm)
  let ?t = "fold (sys_call (\<lambda>_. None)) out (sv_sysTree s)"
  have "srv_step (\<lambda>_ _ _. None) (\<lambda>_. None) (sv_sessionsMgr s, (), sv_sysTree s) (m', st', ?t)" using n(1) unfolding s(3) by (rule srv_connect)
  then have run: "(srv_step (\<lambda>_ _ _. None) (\<lambda>_. None))\<^sup>*\<^sup>* (sv_sessionsMgr s, (), sv_sysTree s) (m', st', ?t)" ..
  have v: "ValidTopic (go_lit ''$SYS/servers/'' @ sc_NodeName (sv_config s) @ go_lit ''/stats/clients/current'')"
    unfolding s(2) sample_config_simps by code_simp
  obtain s' where u: "systreeUpdater (\<lambda>_. []) (\<lambda>_. []) 5 (s\<lparr>sv_sessionsMgr := m', sv_sysTree := ?t, sv_topicsMgr := sv_topicsMgr s\<rparr>) = Ret s'"
    using systreeUpdater_ret [of "s\<lparr>sv_sessionsMgr := m', sv_sysTree := ?t, sv_topicsMgr := sv_topicsMgr s\<rparr>" "\<lambda>_. []" "\<lambda>_. []" 5] s(4,5)
    by (auto simp: chan_cap_def)
  have one: "FormatUint 1 = go_lit ''1''" "?topic = go_lit ''$SYS/servers/n@x/stats/clients/current''"
    by (simp_all add: FormatUint.simps go_lit_def)
  have "\<exists>msg \<in> set (pv_inbound (ps_mT (sv_topicsMgr s'))). pub_topic msg = ?topic \<and> pub_payload msg = FormatUint 1"
    using server_update_shows_online [OF s(1) run v _ u] n(2,3) s(2) by (simp add: sample_config_simps)
  with u s(1) one show ?thesis by (intro exI [of _ s] exI [of _ m'] exI [of _ ?t] exI [of _ s']) simp
qed

section \<open>The name of the server\<close>

lemma NewServer_name:
  assumes "NewServer provs parse_time atoi dyn json caps fresh uuid now config = (r, Some name)"
  shows "\<exists>store stored. sc_Persistence config = Some store \<and> pe_GetInfo store = Some stored \<and>
    name = node_name uuid stored config \<and> (\<forall>s. r = Ret (Inr s) \<longrightarrow> sc_NodeName (sv_config s) = name)"
  using assms
  by (auto simp: NewServer_def build_server_def Let_def
      split: if_split_asm sum.split_asm option.split_asm prod.split_asm go_run.split_asm)

lemma NewServer_stores:
  "NewServer provs parse_time atoi dyn json caps fresh uuid now config = (Ret (Inr s), x) \<Longrightarrow> \<exists>name. x = Some name"
  by (auto simp: NewServer_def Let_def split: if_split_asm sum.split_asm option.split_asm)

text \<open>
  A server keeps its name: once a name has been stored, every later start on that storage
  which does not ask to rewrite it runs under this name and stores it again, whatever name its
  configuration has and whatever name would be generated.
\<close>

theorem node_name_kept:
  assumes "NewServer provs parse_time atoi dyn json caps fresh uuid now config = (r, Some name)"
    and "sc_Persistence config' = Some store" and "pe_GetInfo store = Some name" and "\<not> sc_RewriteNodeName config'"
    and "NewServer provs' parse_time' atoi' dyn' json' caps' fresh' uuid' now' config' = (Ret (Inr s), x)"
  shows "sc_NodeName (sv_config s) = name \<and> x = Some name"
proof -
  have "name \<noteq> []" using NewServer_name [OF assms(1)] by (auto simp: node_name_def go_lit_def split: if_split_asm)
  moreover obtain name' where x: "x = Some name'" using NewServer_stores [OF assms(5)] by blast
  ultimately have "name' = name"
    using NewServer_name [OF assms(5) [unfolded x]] assms(2-4) by (simp add: node_name_def)
  with NewServer_name [OF assms(5) [unfolded x]] x show ?thesis by auto
qed


theorem node_name_kept_witness:
  "\<exists>s. sample_start (sample_config\<lparr>sc_Persistence := Some (sample_storage\<lparr>pe_GetInfo := Some (go_lit ''n@x'')\<rparr>), sc_NodeName := []\<rparr>) =
      (Ret (Inr s), Some (go_lit ''n@x'')) \<and> sc_NodeName (sv_config s) = go_lit ''n@x''"
proof -
  let ?store = "sample_storage\<lparr>pe_GetInfo := Some (go_lit ''n@x'')\<rparr>"
  let ?c = "sample_config\<lparr>sc_Persistence := Some ?store, sc_NodeName := []\<rparr>"
  obtain s0 where s0: "sample_start sample_config = (Ret (Inr s0), Some (go_lit ''n@x''))"
    using sample_started [of sample_config "[]"] by (auto simp: sample_config_simps node_name_def)
  obtain s x where s: "sample_start ?c = (Ret (Inr s), x)"
    using sample_started [of ?c "go_lit ''n@x''"] by (auto simp: sample_config_simps)
  have "sc_NodeName (sv_config s) = go_lit ''n@x'' \<and> x = Some (go_lit ''n@x'')"
    by (rule node_name_kept [OF s0 _ _ _ s, of ?store]) (simp_all add: sample_config_simps)
  with s show ?thesis by blast
qed


section \<open>Closing the server\<close>

lemma delta_neg: "delta out < 0 \<Longrightarrow> \<exists>cid r b. SysDisconnected cid r b \<in> set out"
proof (induction out)
  case (Cons c cs)
  then show ?case by (cases c) auto
qed simp

lemma set_delete: "set (AList.delete k xs) = {x \<in> set xs. fst x \<noteq> k}"
  by (induction xs) auto

text \<open>A session that has a connection is reported when it is stopped.\<close>

lemma stop_sessions_report:
  assumes "table_ok m" and "map fst (mg_sessions m) = ids"
    and "stop_sessions u fmt_time itoa now stop_conn ids m st = Ret (m', st', out)"
    and "(k, x) \<in> set (mg_sessions m)" and "se_conn x"
  shows "\<exists>cid r b. SysDisconnected cid r b \<in> set out"
  using assms
proof (induction ids arbitrary: m st out)
  case (Cons cid ids)
  obtain s s1 calls m1 st1 o1 state o2 where s: "map_of (mg_sessions m) cid = Some s"
    and c: "stop_session now (stop_conn cid) CodeServerShuttingDown s = Ret (s1, calls)"
    and r: "run_calls u calls (set_session s1 m) st = Some (m1, st1, o1)"
    and n: "stop_sessions u fmt_time itoa now stop_conn ids m1 st1 = Ret (m', st', o2)"
    and out: "out = o1 @ [StoreState cid state] @ o2"
    using Cons.prems(3) by (auto simp: go_bind_eq_Ret_conv)
  note one = stop_one [OF Cons.prems(1,2) s c r]
  show ?case
  proof (cases "k = cid")
    case True
    then have "s = x" using Cons.prems(1,4) s by (simp add: table_ok_def)
    then have "disconnects calls = 1"
      using c Cons.prems(5)
      by (cases "stop_conn cid CodeServerShuttingDown")
        (auto simp: stop_session_def stop_end_def finalize_def go_bind_eq_Ret_conv Let_def split: if_split_asm dest!: onDisconnect_gauge)
    then have "delta o1 < 0" using run_calls_delta [OF r] by simp
    then show ?thesis using delta_neg [of o1] out by auto
  next
    case False
    then have "(k, x) \<in> set (mg_sessions m1)" using one Cons.prems(4) by (auto simp: set_delete)
    then obtain cid' r' b' where "SysDisconnected cid' r' b' \<in> set o2" using Cons.IH [OF _ _ n _ Cons.prems(5)] one by blast
    then have "SysDisconnected cid' r' b' \<in> set out" using out by simp
    then show ?thesis by blast
  qed
qed simp

lemma report_disconnected:
  assumes "report_calls json cs t p = Ret (t', p')" and "SysDisconnected cid r b \<in> set cs" and "sy_topicsManager (sys_clients t)"
  shows "pv_inbound p' \<noteq> []"
  using assms
proof (induction cs arbitrary: t p)
  case (Cons c cs)
  obtain p1 where c: "send_calls (snd (sys_apply json c t)) p = Ret p1"
    "report_calls json cs (sys_call json c t) p1 = Ret (t', p')"
    using Cons.prems(1) by (auto simp: sys_apply_def split: go_run.split_asm)
  show ?case
  proof (cases "SysDisconnected cid r b \<in> set cs")
    case True
    then show ?thesis using Cons.IH [OF c(2)] Cons.prems(3) by (simp add: sys_call_topics)
  next
    case False
    then have "pv_inbound p1 \<noteq> []"
      using Cons.prems(2,3) send_calls_append [OF c(1)] by (auto simp: sys_apply_def clients_Disconnected_def Let_def)
    then show ?thesis using report_calls_tree [OF c(2)] by auto
  qed
qed simp

lemma Shutdown_ret:
  assumes "Shutdown u fmt_time itoa now stop_conn m st = Ret (m', st', out, ok)" and "mgr_inv m" and "\<not> mg_quit m"
  shows "mg_sessions m' = [] \<and> mg_quit m' \<and>
    ((k, x) \<in> set (mg_sessions m) \<longrightarrow> se_conn x \<longrightarrow> (\<exists>cid r b. SysDisconnected cid r b \<in> set out))"
proof -
  have i: "table_ok m" using assms(2) by (simp add: mgr_inv_table)
  obtain m1 st1 o1 o2 where
    s: "stop_sessions u fmt_time itoa now stop_conn (map fst (mg_sessions m)) (m\<lparr>mg_quit := True\<rparr>) st = Ret (m1, st1, o1)"
    and out: "out = o1 @ o2"
    using assms(1,3) by (auto simp: Shutdown_def go_bind_eq_Ret_conv split: if_split_asm)
  show ?thesis
    using stop_sessions_report [OF _ _ s, of k x] Shutdown_returns [OF i assms(3,1)] i out by auto
qed

lemma waits_step:
  assumes "close_step json fmt_time fmt_duration itoa dyn stop_conn (ClWait, s) y"
    and "ps_closing (sv_topicsMgr s)" and "ps_chanClosed (sv_topicsMgr s)" and "pending (sv_topicsMgr s)"
  shows "fst y = ClWait \<and> ps_closing (sv_topicsMgr (snd y)) \<and> ps_chanClosed (sv_topicsMgr (snd y)) \<and> pending (sv_topicsMgr (snd y))"
  using assms by (auto elim!: close_stepE dest: closing_step)

lemma waits_forever:
  assumes "(close_step json fmt_time fmt_duration itoa dyn stop_conn)\<^sup>*\<^sup>* (ClWait, s) y"
    and "ps_closing (sv_topicsMgr s)" and "ps_chanClosed (sv_topicsMgr s)" and "pending (sv_topicsMgr s)"
  shows "fst y = ClWait \<and> ps_closing (sv_topicsMgr (snd y)) \<and> ps_chanClosed (sv_topicsMgr (snd y)) \<and> pending (sv_topicsMgr (snd y))"
  using assms(1)
proof (induction rule: rtranclp_induct)
  case (step y z)
  then show ?case using waits_step [of json fmt_time fmt_duration itoa dyn stop_conn "snd y" z] by (cases y) simp
qed (use assms in simp)

text \<open>
  C33. \<open>Close\<close> of a server that has a connected client and a system tree may never return: stopping the client
  puts its status messages into the channels of the topics manager, whose \<open>Close\<close> then waits, with the lock
  held, for goroutines that need the lock to empty them. There is a run to a state from which no run leads
  out of this wait.
\<close>

theorem server_close_hangs:
  assumes "close_sessions json fmt_time itoa now stop_conn err s = Ret (s1, out, closed)" and "\<not> sv_onClose s"
    and "mgr_inv (sv_sessionsMgr s)" and "\<not> mg_quit (sv_sessionsMgr s)"
    and "(k, x) \<in> set (mg_sessions (sv_sessionsMgr s))" and "se_conn x" and "sy_topicsManager (sys_clients (sv_sysTree s))"
    and "\<not> ps_closing (sv_topicsMgr s)" and "\<not> ps_chanClosed (sv_topicsMgr s)"
  shows "\<exists>s2. (close_step json fmt_time fmt_duration itoa dyn stop_conn)\<^sup>*\<^sup>* (ClStart, s) (ClWait, s2) \<and>
    (\<forall>pc s3. (close_step json fmt_time fmt_duration itoa dyn stop_conn)\<^sup>*\<^sup>* (ClWait, s2) (pc, s3) \<longrightarrow> pc = ClWait)"
proof -
  obtain m p ok t p' where sh: "Shutdown provider_UnSubscribe fmt_time itoa now stop_conn (sv_sessionsMgr s) (ps_mT (sv_topicsMgr s)) =
      Ret (m, p, out, ok)" and rep: "report_calls json out (sv_sysTree s) p = Ret (t, p')"
    and s1: "sv_topicsMgr s1 = (sv_topicsMgr s)\<lparr>ps_mT := p'\<rparr>"
    using assms(1) by (auto simp: close_sessions_def split: go_run.split_asm)
  obtain cid r b where "SysDisconnected cid r b \<in> set out" using Shutdown_ret [OF sh assms(3,4), of k x] assms(5,6) by blast
  then have "pv_inbound p' \<noteq> []" using report_disconnected [OF rep] assms(7) by blast
  then have p: "pending (sv_topicsMgr s1)" by (simp add: s1 pending_def)
  let ?s2 = "s1\<lparr>sv_topicsMgr := (sv_topicsMgr s1)\<lparr>ps_closing := True, ps_chanClosed := True\<rparr>\<rparr>"
  have "close_step json fmt_time fmt_duration itoa dyn stop_conn (ClStart, s) (ClTopics, s1)" using assms(2,1) by (rule close_down)
  moreover have "close_step json fmt_time fmt_duration itoa dyn stop_conn (ClTopics, s1) (ClWait, ?s2)"
    using assms(8,9) by (intro close_topics) (simp_all add: s1)
  ultimately have "(close_step json fmt_time fmt_duration itoa dyn stop_conn)\<^sup>*\<^sup>* (ClStart, s) (ClWait, ?s2)"
    by (meson converse_rtranclp_into_rtranclp rtranclp.rtrancl_refl)
  moreover have "pending (sv_topicsMgr ?s2)" using p by (simp add: pending_def)
  then have "pc = ClWait" if "(close_step json fmt_time fmt_duration itoa dyn stop_conn)\<^sup>*\<^sup>* (ClWait, ?s2) (pc, s3)" for pc s3
    using waits_forever [OF that] by simp
  ultimately show ?thesis by blast
qed


lemma send_calls_ret:
  "length (pv_inbound p) + length cs \<le> chan_cap \<Longrightarrow> length (pv_inRetained p) + length cs \<le> chan_cap \<Longrightarrow>
     \<exists>p'. send_calls cs p = Ret p' \<and> length (pv_inbound p') \<le> length (pv_inbound p) + length cs \<and>
       length (pv_inRetained p') \<le> length (pv_inRetained p) + length cs"
proof (induction cs arbitrary: p)
  case (Cons c cs)
  have "\<exists>p1. send_call c p = Ret (p1, None) \<and> length (pv_inbound p1) \<le> Suc (length (pv_inbound p)) \<and>
      length (pv_inRetained p1) \<le> Suc (length (pv_inRetained p))"
    using Cons.prems by (cases c) (simp_all add: send_call_def provider_Publish_def provider_Retain_def)
  then obtain p1 where p1: "send_call c p = Ret (p1, None)" "length (pv_inbound p1) \<le> Suc (length (pv_inbound p))"
      "length (pv_inRetained p1) \<le> Suc (length (pv_inRetained p))" by blast
  show ?case using Cons.IH [of p1] Cons.prems p1 by auto
qed simp

lemma report_calls_ret:
  "length (pv_inbound p) + 3 * length cs \<le> chan_cap \<Longrightarrow> length (pv_inRetained p) + 3 * length cs \<le> chan_cap \<Longrightarrow>
     \<exists>r. report_calls json cs t p = Ret r"
proof (induction cs arbitrary: t p)
  case (Cons c cs)
  have l: "length (snd (sys_apply json c t)) \<le> 3"
    by (cases c) (simp_all add: sys_apply_def clients_Connected_def clients_Disconnected_def sessions_Created_def sessions_Removed_def Let_def)
  obtain p1 where p1: "send_calls (snd (sys_apply json c t)) p = Ret p1" "length (pv_inbound p1) \<le> length (pv_inbound p) + 3"
      "length (pv_inRetained p1) \<le> length (pv_inRetained p) + 3"
    using send_calls_ret [of p "snd (sys_apply json c t)"] Cons.prems l by force
  show ?case using Cons.IH [of p1 "fst (sys_apply json c t)"] Cons.prems p1 by (auto simp: case_prod_beta)
qed simp

definition sample_server :: "manager \<Rightarrow> server" where
  "sample_server m =
     \<lparr>sv_config = sample_config, sv_authMgr = [], sv_sessionsMgr = m,
      sv_topicsMgr = new_sys \<lparr>pv_root = Some newNode, pv_allowOverlapping = False, pv_persist = False, pv_inbound = [], pv_inRetained = []\<rparr>,
      sv_sysTree = SetCallbacks (fst (NewTree 0 [] (go_lit ''$SYS/servers/n@x''))), sv_publishes = [], sv_timer = True, sv_round = None,
      sv_transports = [], sv_onClose = False\<rparr>"

abbreviation (input) sample_stop :: "gostring \<Rightarrow> ReasonCode \<Rightarrow> DisconnectParams \<times> bool" where
  "sample_stop \<equiv> \<lambda>_ _. (\<lparr>dp_ExpireAt = None, dp_Reason = 0, dp_Will = False\<rparr>, False)"

theorem server_close_hangs_witness:
  "\<exists>s2. (close_step (\<lambda>_. None) (\<lambda>_. []) (\<lambda>_. []) (\<lambda>_. []) (\<lambda>_. newPublish) sample_stop)\<^sup>*\<^sup>*
      (ClStart, sample_server (sample_manager\<lparr>mg_sessions := [([0x63], sample_leaving)], mg_count := 1\<rparr>)) (ClWait, s2) \<and>
    (\<nexists>s3. (close_step (\<lambda>_. None) (\<lambda>_. []) (\<lambda>_. []) (\<lambda>_. []) (\<lambda>_. newPublish) sample_stop)\<^sup>*\<^sup>* (ClWait, s2) (ClReturned, s3))"
proof -
  let ?m = "sample_manager\<lparr>mg_sessions := [([0x63], sample_leaving)], mg_count := 1\<rparr>"
  let ?s = "sample_server ?m"
  let ?sh = "Shutdown provider_UnSubscribe (\<lambda>_. []) (\<lambda>_. []) 0 sample_stop ?m
      \<lparr>pv_root = Some newNode, pv_allowOverlapping = False, pv_persist = False, pv_inbound = [], pv_inRetained = []\<rparr>"
  have "case ?sh of Ret (m, p, out, ok) \<Rightarrow> length out \<le> 9 \<and> length (pv_inbound p) = 0 \<and> length (pv_inRetained p) = 0 | _ \<Rightarrow> False"
    by code_simp
  then obtain m p out ok where sh: "?sh = Ret (m, p, out, ok)" "length out \<le> 9" "pv_inbound p = []" "pv_inRetained p = []"
    by (auto split: go_run.split_asm)
  obtain t p' where "report_calls (\<lambda>_. None) out (sv_sysTree ?s) p = Ret (t, p')"
    using report_calls_ret [of p out "\<lambda>_. None" "sv_sysTree ?s"] sh by (auto simp: chan_cap_def)
  then obtain s1 where c: "close_sessions (\<lambda>_. None) (\<lambda>_. []) (\<lambda>_. []) 0 sample_stop (\<lambda>_. False) ?s = Ret (s1, out, [])"
    using sh(1) by (simp add: close_sessions_def sample_server_def new_sys_def close_transports_def)
  have "mgr_inv ?m" "\<not> mg_quit ?m"
    by (simp_all add: mgr_inv_def session_ok_def sample_leaving_def newSession_def sample_manager_def)
  moreover have "([0x63], sample_leaving) \<in> set (mg_sessions ?m)" "se_conn sample_leaving" by (simp_all add: sample_leaving_def)
  ultimately show ?thesis
    using server_close_hangs [OF c, of "[0x63]" sample_leaving "\<lambda>_. []" "\<lambda>_. newPublish"]
    by (force simp: sample_server_def new_sys_def SetCallbacks_def)
qed


text \<open>What holds at each point of \<open>Close\<close>.\<close>

definition closed_down :: "server \<Rightarrow> bool" where
  "closed_down s = (sv_onClose s \<and> sv_transports s = [] \<and> mg_sessions (sv_sessionsMgr s) = [] \<and> mg_quit (sv_sessionsMgr s))"

definition topics_closed :: "prov_sys \<Rightarrow> bool" where
  "topics_closed q = (ps_chanClosed q \<and> (\<not> ps_closing q \<longrightarrow> pv_root (ps_mT q) = None))"

definition close_inv :: "close_pc \<times> server \<Rightarrow> bool" where
  "close_inv x =
     (case fst x of
        ClStart \<Rightarrow> \<not> sv_onClose (snd x) \<and> mgr_inv (sv_sessionsMgr (snd x)) \<and> \<not> mg_quit (sv_sessionsMgr (snd x))
      | ClTopics \<Rightarrow> closed_down (snd x)
      | ClWait \<Rightarrow> closed_down (snd x) \<and> topics_closed (sv_topicsMgr (snd x))
      | ClReturned \<Rightarrow> closed_down (snd x) \<and> topics_closed (sv_topicsMgr (snd x)) \<and>
          \<not> ps_closing (sv_topicsMgr (snd x)))"

lemma close_sessions_down:
  assumes "close_sessions json fmt_time itoa now stop_conn err s = Ret (s', out, closed)"
    and "mgr_inv (sv_sessionsMgr s)" and "\<not> mg_quit (sv_sessionsMgr s)"
  shows "closed_down s'"
proof -
  obtain m p ok t p' where sh: "Shutdown provider_UnSubscribe fmt_time itoa now stop_conn (sv_sessionsMgr s) (ps_mT (sv_topicsMgr s)) =
      Ret (m, p, out, ok)"
    and s': "s' = s\<lparr>sv_onClose := True, sv_transports := [], sv_sessionsMgr := m, sv_sysTree := t,
                      sv_topicsMgr := (sv_topicsMgr s)\<lparr>ps_mT := p'\<rparr>\<rparr>"
    using assms(1) by (auto simp: close_sessions_def split: go_run.split_asm)
  show ?thesis using Shutdown_ret [OF sh assms(2,3)] by (simp add: s' closed_down_def)
qed

lemma topics_closed_step:
  assumes "prov_step dyn fmt_time q q'" and "topics_closed q"
  shows "topics_closed q'"
  using assms
proof (cases rule: prov_step.cases)
  case (step_method c mT')
  then show ?thesis using assms(2) by (cases c) (auto simp: topics_closed_def takes_lock_def provider_Subscribe_def
        provider_UnSubscribe_def provider_Retained_def Let_def split: option.split_asm prod.split_asm)
qed (auto simp: topics_closed_def close_finish_def publish_one_def provider_retain_def bind_eq_Some_conv
    split: if_split_asm option.split_asm)

lemma close_inv_step:
  assumes "close_step json fmt_time fmt_duration itoa dyn stop_conn x y" and "close_inv x"
  shows "close_inv y"
  using assms
proof (cases rule: close_step.cases)
  case (close_other s q pc)
  then show ?thesis
    using assms(2) topics_closed_step [of dyn fmt_time "sv_topicsMgr s" q]
    by (cases pc) (auto simp: close_inv_def closed_down_def)
qed (auto simp: close_inv_def closed_down_def topics_closed_def dest: close_sessions_down split: close_pc.splits)

text \<open>\<open>Close\<close> of a server without clients, with the updater idle or in a round.\<close>

abbreviation (input) sample_idle :: "nat option \<Rightarrow> server" where
  "sample_idle r \<equiv> (sample_server (sample_manager\<lparr>mg_subscribers := []\<rparr>))\<lparr>sv_round := r\<rparr>"

lemma sample_close_run:
  "\<exists>s'. (close_step (\<lambda>_. None) (\<lambda>_. []) (\<lambda>_. []) (\<lambda>_. []) (\<lambda>_. newPublish) sample_stop)\<^sup>*\<^sup>* (ClStart, sample_idle r) (ClReturned, s') \<and> sv_round s' = r \<and> sv_sysTree s' = sv_sysTree (sample_idle r)"
proof -
  let ?step = "close_step (\<lambda>_. None) (\<lambda>_. []) (\<lambda>_. []) (\<lambda>_. []) (\<lambda>_. newPublish) sample_stop"
  let ?m = "sample_manager\<lparr>mg_subscribers := []\<rparr>"
  let ?s = "(sample_server ?m)\<lparr>sv_round := r\<rparr>"
  let ?s1 = "?s\<lparr>sv_onClose := True, sv_sessionsMgr := ?m\<lparr>mg_quit := True\<rparr>\<rparr>"
  let ?q = "(sv_topicsMgr ?s)\<lparr>ps_closing := True, ps_chanClosed := True\<rparr>"
  let ?q' = "?q\<lparr>ps_closing := False, ps_mT := (ps_mT ?q)\<lparr>pv_root := None\<rparr>, ps_stored := None\<rparr>"
  let ?s2 = "?s1\<lparr>sv_topicsMgr := ?q\<rparr>"
  have "close_sessions (\<lambda>_. None) (\<lambda>_. []) (\<lambda>_. []) 0 sample_stop (\<lambda>_. False) ?s = Ret (?s1, [], [])"
    by (simp add: close_sessions_def Shutdown_def sample_server_def sample_manager_def new_sys_def close_transports_def)
  then have a: "?step (ClStart, ?s) (ClTopics, ?s1)" by (rule close_down [rotated]) (simp add: sample_server_def)
  have b: "?step (ClTopics, ?s1) (ClWait, ?s2)"
    using close_topics [of ?s1] by (simp add: sample_server_def new_sys_def)
  have "close_finish (\<lambda>_. []) 0 (\<lambda>_. newPublish) (ps_mT ?q) = Some ((ps_mT ?q)\<lparr>pv_root := None\<rparr>, None)"
    by (simp add: close_finish_def sample_server_def new_sys_def)
  then have "prov_step (\<lambda>_. newPublish) (\<lambda>_. []) ?q ?q'"
    by (intro step_close_done) (simp_all add: sample_server_def new_sys_def)
  then have c: "?step (ClWait, ?s2) (ClWait, ?s2\<lparr>sv_topicsMgr := ?q'\<rparr>)" by (intro close_other) simp_all
  have d: "?step (ClWait, ?s2\<lparr>sv_topicsMgr := ?q'\<rparr>) (ClReturned, ?s2\<lparr>sv_topicsMgr := ?q', sv_timer := False\<rparr>)"
    using close_done [of "?s2\<lparr>sv_topicsMgr := ?q'\<rparr>"] by simp
  from a b c d have "?step\<^sup>*\<^sup>* (ClStart, ?s) (ClReturned, ?s2\<lparr>sv_topicsMgr := ?q', sv_timer := False\<rparr>)"
    by (meson converse_rtranclp_into_rtranclp rtranclp.rtrancl_refl)
  then show ?thesis by (intro exI [of _ "?s2\<lparr>sv_topicsMgr := ?q', sv_timer := False\<rparr>"]) simp
qed

lemma sample_idle_simps: "\<not> sv_onClose (sample_idle r)" "mgr_inv (sv_sessionsMgr (sample_idle r))" "\<not> mg_quit (sv_sessionsMgr (sample_idle r))"
  by (simp_all add: sample_server_def mgr_inv_def sample_manager_def)



text \<open>The steps of a round that nothing interrupts are \<open>systreeUpdater\<close>.\<close>

lemma updater_sends_all:
  assumes "send_calls (map (\<lambda>v. MsgPublish (updater_msg v)) (drop i (tree_values fmt_duration fmt_time now (sv_sysTree s))))
      (ps_mT (sv_topicsMgr s)) = Ret p"
    and "sv_round s = Some i" and "i \<le> length (tree_values fmt_duration fmt_time now (sv_sysTree s))" and "\<not> ps_chanClosed (sv_topicsMgr s)"
  shows "(close_step json fmt_time fmt_duration itoa dyn stop_conn)\<^sup>*\<^sup>* (pc, s)
    (pc, s\<lparr>sv_topicsMgr := (sv_topicsMgr s)\<lparr>ps_mT := p\<rparr>,
           sv_round := Some (length (tree_values fmt_duration fmt_time now (sv_sysTree s)))\<rparr>)"
  using assms
proof (induction "length (tree_values fmt_duration fmt_time now (sv_sysTree s)) - i" arbitrary: i s)
  case 0
  then have "s\<lparr>sv_topicsMgr := (sv_topicsMgr s)\<lparr>ps_mT := p\<rparr>,
      sv_round := Some (length (tree_values fmt_duration fmt_time now (sv_sysTree s)))\<rparr> = s"
    by (cases s; cases "sv_topicsMgr s") simp
  then show ?case by simp
next
  case (Suc n)
  let ?vs = "tree_values fmt_duration fmt_time now (sv_sysTree s)"
  have i: "i < length ?vs" using Suc.hyps(2) by simp
  obtain p1 e where send: "send_call (MsgPublish (updater_msg (?vs ! i))) (ps_mT (sv_topicsMgr s)) = Ret (p1, e)"
    and rest: "send_calls (map (\<lambda>v. MsgPublish (updater_msg v)) (drop (Suc i) ?vs)) p1 = Ret p"
    using Suc.prems(1) by (auto simp: Cons_nth_drop_Suc [OF i, symmetric] split: go_run.split_asm)
  let ?s = "s\<lparr>sv_topicsMgr := (sv_topicsMgr s)\<lparr>ps_mT := p1\<rparr>, sv_round := Some (Suc i)\<rparr>"
  have "close_step json fmt_time fmt_duration itoa dyn stop_conn (pc, s) (pc, ?s)"
    by (rule updater_sends [OF Suc.prems(2) i Suc.prems(4) send])
  moreover have "(close_step json fmt_time fmt_duration itoa dyn stop_conn)\<^sup>*\<^sup>* (pc, ?s)
      (pc, ?s\<lparr>sv_topicsMgr := (sv_topicsMgr ?s)\<lparr>ps_mT := p\<rparr>, sv_round := Some (length (tree_values fmt_duration fmt_time now (sv_sysTree ?s)))\<rparr>)"
    using Suc.hyps(2) Suc.prems i rest by (intro Suc.hyps(1) [of ?s "Suc i"]) simp_all
  ultimately show ?case by simp
qed

lemma updater_round:
  assumes "systreeUpdater fmt_duration fmt_time now s = Ret s'" and "sv_timer s" and "sv_round s = None"
  shows "(close_step json fmt_time fmt_duration itoa dyn stop_conn)\<^sup>*\<^sup>* (pc, s) (pc, s')"
proof -
  let ?vs = "tree_values fmt_duration fmt_time now (sv_sysTree s)"
  let ?s0 = "s\<lparr>sv_timer := False, sv_round := Some 0\<rparr>"
  obtain p where p: "send_calls (map (\<lambda>v. MsgPublish (updater_msg v)) ?vs) (ps_mT (sv_topicsMgr s)) = Ret p"
    and s': "s' = s\<lparr>sv_topicsMgr := (sv_topicsMgr s)\<lparr>ps_mT := p\<rparr>, sv_timer := True\<rparr>" and c: "\<not> ps_chanClosed (sv_topicsMgr s)"
    using assms(1) by (auto simp: systreeUpdater_def split: if_split_asm go_run.split_asm)
  let ?s1 = "?s0\<lparr>sv_topicsMgr := (sv_topicsMgr s)\<lparr>ps_mT := p\<rparr>, sv_round := Some (length ?vs)\<rparr>"
  have "(close_step json fmt_time fmt_duration itoa dyn stop_conn)\<^sup>*\<^sup>* (pc, ?s0) (pc, ?s1)"
    using updater_sends_all [of 0 fmt_duration fmt_time now ?s0 p] p c by simp
  moreover have "close_step json fmt_time fmt_duration itoa dyn stop_conn (pc, s) (pc, ?s0)"
    using assms(2,3) by (rule updater_fires)
  moreover have "close_step json fmt_time fmt_duration itoa dyn stop_conn (pc, ?s1) (pc, ?s1\<lparr>sv_round := None, sv_timer := True\<rparr>)"
    by (rule updater_rearms [of _ _ _ now]) simp
  moreover have "?s1\<lparr>sv_round := None, sv_timer := True\<rparr> = s'" using assms(3) by (simp add: s')
  ultimately show ?thesis by (metis converse_rtranclp_into_rtranclp rtranclp.rtrancl_into_rtrancl)
qed

text \<open>
  A round of the updater that has sent its last message when \<open>Close\<close> stops the timer arms it again afterwards.
  When the timer fires, the round sends to the closed channel and panics.
\<close>

theorem updater_survives_close:
  assumes "(close_step json fmt_time fmt_duration itoa dyn stop_conn)\<^sup>*\<^sup>* (ClStart, s) (ClReturned, s')"
    and "\<not> sv_onClose s" and "mgr_inv (sv_sessionsMgr s)" and "\<not> mg_quit (sv_sessionsMgr s)"
    and "sv_round s' = Some (length (tree_values fmt_duration fmt_time now (sv_sysTree s')))"
  shows "\<exists>s''. (close_step json fmt_time fmt_duration itoa dyn stop_conn)\<^sup>*\<^sup>* (ClStart, s) (ClReturned, s'') \<and>
    sv_timer s'' \<and> systreeUpdater fmt_duration fmt_time now2 s'' = Panic"
proof -
  have "close_inv (ClStart, s)" using assms(2-4) by (simp add: close_inv_def)
  with assms(1) have "close_inv (ClReturned, s')"
    by (induction rule: rtranclp_induct) (auto intro: close_inv_step)
  then have c: "ps_chanClosed (sv_topicsMgr s')" by (simp add: close_inv_def topics_closed_def)
  have "close_step json fmt_time fmt_duration itoa dyn stop_conn (ClReturned, s') (ClReturned, s'\<lparr>sv_round := None, sv_timer := True\<rparr>)"
    using assms(5) by (rule updater_rearms)
  with assms(1) c show ?thesis
    by (intro exI [of _ "s'\<lparr>sv_round := None, sv_timer := True\<rparr>"]) (auto simp: systreeUpdater_def intro: rtranclp.rtrancl_into_rtrancl)
qed

theorem updater_survives_close_witness:
  "\<exists>s''. (close_step (\<lambda>_. None) (\<lambda>_. []) (\<lambda>_. []) (\<lambda>_. []) (\<lambda>_. newPublish) sample_stop)\<^sup>*\<^sup>*
      (ClStart, sample_idle (Some (length (tree_values (\<lambda>_. []) (\<lambda>_. []) 0 (sv_sysTree (sample_idle None)))))) (ClReturned, s'') \<and>
    sv_timer s'' \<and> systreeUpdater (\<lambda>_. []) (\<lambda>_. []) 0 s'' = Panic"
proof -
  let ?r = "Some (length (tree_values (\<lambda>_. []) (\<lambda>_. []) 0 (sv_sysTree (sample_idle None))))"
  obtain s' where run: "(close_step (\<lambda>_. None) (\<lambda>_. []) (\<lambda>_. []) (\<lambda>_. []) (\<lambda>_. newPublish) sample_stop)\<^sup>*\<^sup>* (ClStart, sample_idle ?r) (ClReturned, s')"
    and r: "sv_round s' = ?r" "sv_sysTree s' = sv_sysTree (sample_idle ?r)"
    using sample_close_run [of ?r] by blast
  show ?thesis by (rule updater_survives_close [OF run sample_idle_simps]) (simp add: r)
qed

text \<open>\<open>ListenAndServe\<close> does not ask whether the server is closed: a listener that is added then is never closed.\<close>

lemma late_listener_stays:
  assumes "sv_onClose s" and "ListenAndServe load_cert listen c s = Ret (s', None)"
    and "close_step json fmt_time fmt_duration itoa dyn stop_conn (ClStart, s') y"
  shows "sv_transports (snd y) = sv_transports s' \<and> sv_transports s' \<noteq> []"
proof -
  obtain l where "s' = s\<lparr>sv_transports := AList.update (transport_Port l) l (sv_transports s)\<rparr>"
    using assms(2) by (auto simp: ListenAndServe_def split: go_run.split_asm sum.split_asm if_split_asm)
  moreover have "AList.update k v xs \<noteq> []" for k v and xs :: "(gostring \<times> transport) list" by (cases xs) auto
  ultimately show ?thesis using assms(1,3) by (auto elim!: close_stepE)
qed


text \<open>
  The check of the name lets wildcard characters pass, which no topic may have: then all status messages of
  the server get the empty topic.
\<close>

lemma wildcard_name_accepted: "nodeNameRegexp (go_lit ''a+b@x'')"
  by code_simp

lemma wildcard_name_loses_topics:
  assumes "byte_plus \<in> set name \<or> byte_hash \<in> set name"
  shows "pub_topic (notifyMsg (sy_topic (newClients (go_lit ''$SYS/servers/'' @ name)) @ cid @ go_lit ''/connected'')) = []"
proof -
  let ?t = "sy_topic (newClients (go_lit ''$SYS/servers/'' @ name)) @ cid @ go_lit ''/connected''"
  have "\<not> ValidTopic ?t" using assms by (auto simp: newClients_def ValidTopic_def go_contains_def)
  then show ?thesis
    by (simp add: notifyMsg_def Publish_SetTopic_def Publish_SetQoS_def Publish_SetRetain_def New_Publish_def header_init_def
        header_setType_def newPublish_def Let_def Qos_IsValid_def)
qed

end
