(* ===== verification/Spec2Isabelle.thy ===== *)
theory Spec2Isabelle
  imports Once_Wait Sub_Interleaving Tx_Interleaving Delivery_V5 Rx_Session Websocket Client_Id Server
begin

text \<open>
  A verification of VolantMQ, a broker for MQTT 3.1, 3.1.1 and 5.0 written in Go.

  \<^bold>\<open>The program.\<close> A listener (\<open>transport\<close>) accepts a connection, reads one packet (\<open>routines\<close>), decodes it
  (\<open>packet\<close>), asks the authenticators (\<open>auth\<close>) and hands the client to the manager of the sessions
  (\<open>clients\<close>). The manager finds or makes the session and its subscriber (\<open>subscriber\<close>) and starts a
  connection (\<open>connection\<close>), whose receiver decodes and handles packets and whose transmitter sends
  what the handlers and the subscriber queue. Subscriptions and retained messages are in the tree of the
  topics manager (\<open>topics\<close>), whose publisher hands each message to the subscribers that match. The
  system tree (\<open>systree\<close>) counts and reports. The server (\<open>volantmq.go\<close>) builds all this and takes it
  down.

  \<^bold>\<open>Conventions.\<close> A struct is a record, embedding is record extension, a method is a function that returns
  the changed record. Machine integers are words. A Go error is an option or the left side of a sum; a
  panic is \<open>None\<close>, or \<open>Panic\<close> of \<open>go_run\<close>, whose \<open>Block\<close> is a call that never returns. A map is an
  association list, whose order stands for the unspecified order of iteration. The clock,
  random numbers, the network, formatting of times, JSON and the package \<open>persistence\<close>, which is not
  part of the repository, are arguments. Objects that several parts share are addresses into a heap. The order
  of calls to other parts is an explicit list of calls. Where goroutines meet, the model is a step relation, or a
  step function and a schedule.

  \<^bold>\<open>Theories and sources.\<close>
  \<^item> \<open>Go_Prelude\<close>: the types and the few library functions of Go the sources use, and the calculus for
    encoders that fill a buffer (\<open>emits\<close>) and decoders that follow each other (\<open>d_then\<close>).
  \<^item> \<open>Packet_Types\<close>, \<open>Reason_Codes\<close>, \<open>Wire\<close>, \<open>Property\<close>, \<open>Property_Codec\<close>, \<open>Header\<close>: \<open>packet/types.go\<close>,
    \<open>packetType.go\<close>, \<open>qos.go\<close>, \<open>errors.go\<close>, \<open>reasonCodes.go\<close>, \<open>routines.go\<close>, \<open>property.go\<close>, \<open>header.go\<close>.
  \<^item> \<open>Publish\<close>, \<open>Connect\<close>, \<open>Acks\<close>, \<open>Subscriptions\<close>, \<open>Session_Packets\<close>, \<open>Packet\<close>: the packets, one file of
    \<open>packet\<close> each, and \<open>packet.go\<close>. Each packet interprets the locale \<open>provider\<close> of \<open>Header\<close>, so
    the round trip of the frame is proved once.
  \<^item> \<open>Topic_Match\<close>, \<open>Topic_Tree\<close>, \<open>Topic_Search\<close>, \<open>Topic_Retain\<close>, \<open>Mem_Provider\<close>: \<open>topics/mem/node.go\<close>,
    \<open>topics/mem/topics.go\<close>, \<open>topics/topics.go\<close>. The specification is a map from filters and
    subscribers to parameters; \<open>subscription_index\<close> is the interface the provider implements.
  \<^item> \<open>Subscriber\<close>: \<open>subscriber/subscriber.go\<close>, against the locale \<open>topics_service\<close>, which the provider interprets.
    \<open>Sub_Interleaving\<close>: its \<open>Publish\<close> and \<open>Offline\<close> as goroutines that meet at the channel, the lock and the wait groups.
  \<^item> \<open>Flow_Control\<close>, \<open>Connection\<close>, \<open>Transmitter\<close>, \<open>Connection_Flows\<close>, \<open>Receiver\<close>, \<open>Conn_Lifecycle\<close>,
    \<open>Tx_Drain\<close>, \<open>Tx_Interleaving\<close>: the package \<open>connection\<close>. \<open>Rx_Session\<close>: \<open>rxRun\<close> and \<open>rxRoutine\<close> of
    \<open>connection/receiver.go\<close>, from the poll event to the session. \<open>Delivery\<close>, \<open>Delivery_V5\<close>: a message on its way from one
    connection through the topics manager and a subscriber to another one, below and from version 5.0.
  \<^item> \<open>Auth_Manager\<close>: \<open>auth\<close>. \<open>Once_Wait\<close>: \<open>types/types.go\<close>.
  \<^item> \<open>Session\<close>, \<open>Sessions_Manager\<close>, \<open>Client_Id\<close>: \<open>clients/session.go\<close>, \<open>clients/sessions.go\<close>.
  \<^item> \<open>Systree\<close>, \<open>Client_Gauge\<close>: \<open>systree\<close>, and its counter of clients together with the manager.
  \<^item> \<open>Handshake\<close>, \<open>Transport\<close>, \<open>Websocket\<close>: \<open>routines/misc.go\<close> and \<open>transport\<close>. \<open>Server\<close>: \<open>volantmq.go\<close>.

  \<^bold>\<open>What is shown.\<close>
  \<^item> Packets: what is encoded is decoded again, for every packet and every property set that the
    encoder accepts; truncated input is an error; the property decoder never leaves its buffer and stores only values
    of the right type.
  \<^item> Topics: after any history of calls the publisher delivers to exactly the subscribers whose
    subscriptions match, merged or not; a search for retained messages finds the live ones, each once.
  \<^item> Connections: a message of quality 2 is forwarded exactly once, the messages in flight stay within the window
    of the peer, the transmitter sends what is queued, once and in order, however its \<open>select\<close> chooses, the receiver is independent of how the stream is cut, it ends on every input, and what a closing
    connection stores is what the next one loads.
  \<^item> Delivery: a PUBLISH of a client below version 5.0 is received by every client below version 5.0 with a matching
    filter, with its topic and payload; between clients of version 5.0 also with the properties \<open>Clone\<close> forwards and no others.
    A subscriber hands every message on once, to its connection or to the store, however \<open>Publish\<close> and \<open>Offline\<close> are interleaved.
  \<^item> Sessions: a client has at most one session and the count of sessions is right; wills and expiry happen
    once and on time, the will of a client that hangs up exactly if it sent no DISCONNECT, in whatever pieces its bytes came; a message for an absent client is kept; the shutdown does not wait forever.
  \<^item> Server: a websocket connection is the stream of the bytes of its messages; only a client with an accepted version and password reaches the manager; the counter that is published
    is the number of clients online from the start of the server on; the name of the server is stable; when
    \<open>Close\<close> returns, everything is down; \<open>OnceWait\<close> runs its function once, lets no caller go early and does not deadlock.
  \<^item> Where the code does not do what it should, the theorem says what it does: among others, a
    lost wake-up and a lost message in the transmitter, a message that reaches a connection after it has stored its queues, a \<open>Close\<close> that hangs, a message that is damaged on its way from a
    version 5.0 client to an older one, a CONNECT that panics, subscriptions
    that do not survive a restart, wills that are published early or crash the start.

  \<^bold>\<open>Bounds and fuel.\<close> The loops of decoders and readers are total functions with a measure (bytes or pieces left).
  The receive loop has fuel: the number of bytes that are to come plus one is enough, because every
  round that does not end it consumes a byte. The timeline of a session has fuel 2, for the will and the
  expiry. A run of the transmitter with \<open>n\<close> packets to send has at most \<open>8 n + 7\<close> rounds. The search for a free packet identifier has fuel 65536, the number of identifiers.

  \<^bold>\<open>Not modelled.\<close> The package \<open>persistence\<close> and the event poll are outside the repository; an event is an argument.
  Sockets, TLS, deadlines, the HTTP server and the websocket library are library calls, given by their results; the
  wait groups that count open connections and the searches of the topics manager are left out, as are the locks around
  sessions: a call on a session is one step. Logging (\<open>configuration\<close>) and the example programs do nothing for the protocol.
\<close>

end
